(* ===== verification/Waddle_Prelude.thy ===== *)
theory Waddle_Prelude
  imports Main "HOL-Library.Word" "HOL-Library.Monad_Syntax"
begin

text \<open>
  Shared material of the development: machine integers as the Rust code uses them
  (\<open>i64\<close> time stamps as bounded integers with the wrap-around and the saturation
  written out, \<open>u32\<close>/\<open>u64\<close> counters as words), decimal rendering of
  numbers inside \<^verbatim>\<open>format!\<close> strings, and the lemma collections that the
  component theories fill.

  Conventions: \<open>Result<T, E>\<close> is the sum \<open>'e + 'a\<close> with \<open>Inl\<close> for
  \<open>Err\<close>; a computation that may panic (\<^verbatim>\<open>expect\<close>,
  \<^verbatim>\<open>unreachable!\<close>) has an \<open>option\<close> type with \<open>None\<close> for the panic.
  Plain \<open>+\<close> and \<open>-\<close> on \<open>i64\<close> wrap, as the release profile of the
  workspace compiles them (it sets no overflow checks).
\<close>

named_theorems ctx_simps \<open>projections of the session context operations\<close>
named_theorems pb_simps \<open>wire numbers of the protocol enums\<close>

type_synonym u32 = "32 word"
type_synonym u64 = "64 word"
type_synonym mono_ns = int
type_synonym epoch_ns = int

subsection \<open>Signed 64-bit integers\<close>

definition i64_min :: int where "i64_min = - (2 ^ 63)"

definition i64_max :: int where "i64_max = 2 ^ 63 - 1"

definition in_i64 :: "int \<Rightarrow> bool" where
  "in_i64 x \<longleftrightarrow> i64_min \<le> x \<and> x \<le> i64_max"

definition i64_wrap :: "int \<Rightarrow> int" where
  "i64_wrap x = (x + 2 ^ 63) mod 2 ^ 64 - 2 ^ 63"

definition i64_sat :: "int \<Rightarrow> int" where
  "i64_sat x = max i64_min (min i64_max x)"

lemma in_i64_wrap: "in_i64 (i64_wrap x)"
proof -
  have "0 \<le> (x + 2 ^ 63) mod 2 ^ 64" and "(x + 2 ^ 63) mod 2 ^ 64 < (2 ^ 64 :: int)"
    by simp_all
  then show ?thesis
    by (simp add: in_i64_def i64_wrap_def i64_min_def i64_max_def)
qed

lemma i64_wrap_id: "in_i64 x \<Longrightarrow> i64_wrap x = x"
  by (simp add: in_i64_def i64_wrap_def i64_min_def i64_max_def)

lemma in_i64_sat: "in_i64 (i64_sat x)"
  by (simp add: in_i64_def i64_sat_def i64_min_def i64_max_def)

lemma i64_sat_id: "in_i64 x \<Longrightarrow> i64_sat x = x"
  by (simp add: in_i64_def i64_sat_def)

lemma i64_sat_mono: "x \<le> y \<Longrightarrow> i64_sat x \<le> i64_sat y"
  by (auto simp: i64_sat_def)

subsection \<open>Decimal rendering\<close>

function dec_digits :: "int \<Rightarrow> string" where
  "dec_digits n = (if n < 10 then [char_of (48 + n)]
     else dec_digits (n div 10) @ [char_of (48 + n mod 10)])"
  by pat_completeness auto
termination
  by (relation "measure nat") auto

declare dec_digits.simps [simp del]

definition dec :: "nat \<Rightarrow> string" where
  "dec n = dec_digits (int n)"

definition dec_int :: "int \<Rightarrow> string" where
  "dec_int i = (if i < 0 then CHR ''-'' # dec_digits (- i) else dec_digits i)"

text \<open>The rendering is injective: reading the digits back gives the number.\<close>

definition undec :: "string \<Rightarrow> int" where
  "undec s = foldl (\<lambda>acc c. 10 * acc + (of_char c - 48)) 0 s"

lemma undec_digits: "0 \<le> n \<Longrightarrow> undec (dec_digits n) = n"
proof (induction n rule: dec_digits.induct)
  case (1 n)
  show ?case
  proof (cases "n < 10")
    case True
    with "1.prems" have "of_char (char_of (48 + n) :: char) = 48 + n"
      by simp
    with True show ?thesis by (simp add: undec_def dec_digits.simps [of n])
  next
    case False
    have "of_char (char_of (48 + n mod 10) :: char) = 48 + n mod 10"
      by simp
    with False "1.prems" "1.IH" show ?thesis
      by (simp add: undec_def dec_digits.simps [of n])
  qed
qed

lemma dec_inject [simp]: "dec m = dec n \<longleftrightarrow> m = n"
  by (metis dec_def undec_digits of_nat_0_le_iff of_nat_eq_iff)

subsection \<open>Lists and options\<close>

lemma bind_Some_iff [simp]: "Option.bind m f = Some y \<longleftrightarrow> (\<exists>x. m = Some x \<and> f x = Some y)"
  by (cases m) auto

lemma bind_None_iff [simp]: "Option.bind m f = None \<longleftrightarrow> m = None \<or> (\<exists>x. m = Some x \<and> f x = None)"
  by (cases m) auto

text \<open>The last element of a list that a partial function maps to \<open>Some\<close>:
  Rust's \<^verbatim>\<open>iter().rev().find_map(f)\<close>.\<close>

fun find_map :: "('a \<Rightarrow> 'b option) \<Rightarrow> 'a list \<Rightarrow> 'b option" where
  "find_map f [] = None"
| "find_map f (x # xs) = (case f x of None \<Rightarrow> find_map f xs | Some y \<Rightarrow> Some y)"

lemma find_map_append:
  "find_map f (xs @ ys) = (case find_map f xs of None \<Rightarrow> find_map f ys | Some y \<Rightarrow> Some y)"
  by (induction xs) (auto split: option.splits)

lemma find_map_None: "find_map f xs = None \<longleftrightarrow> (\<forall>x \<in> set xs. f x = None)"
  by (induction xs) (auto split: option.splits)

end
