(* ===== verification/Waddle_Float.thy ===== *)
theory Waddle_Float
  imports Complex_Main Waddle_Prelude
begin

text \<open>
  The binary floating-point arithmetic the code uses (\<open>f64\<close>, and \<open>f32\<close> in the
  hand-off blend), as executable functions on rationals: every operation is computed
  exactly and rounded to nearest, ties to even, in the target format; values out of range
  become infinite; subnormals are rounded with the format's smallest unit. The two signed
  zeros are identified: none of the modelled code observes the sign of a zero.
\<close>

datatype flt = Fin rat | PInf | NInf | NaN

record float_format =
  ff_prec :: int
  ff_emin :: int
  ff_emax :: int

definition binary64 :: float_format where
  "binary64 = \<lparr>ff_prec = 53, ff_emin = -1074, ff_emax = 1024\<rparr>"

definition binary32 :: float_format where
  "binary32 = \<lparr>ff_prec = 24, ff_emin = -149, ff_emax = 128\<rparr>"

definition pow2 :: "int \<Rightarrow> rat" where
  "pow2 e = (if 0 \<le> e then 2 ^ nat e else 1 / 2 ^ nat (- e))"

function bits_of :: "int \<Rightarrow> int" where
  "bits_of n = (if n \<le> 0 then 0 else 1 + bits_of (n div 2))"
  by pat_completeness auto
termination
  by (relation "measure nat") auto

declare bits_of.simps [simp del]

text \<open>The binary exponent of a positive rational.\<close>

definition ilog2 :: "rat \<Rightarrow> int" where
  "ilog2 q = (case quotient_of q of (n, d) \<Rightarrow>
     let k = bits_of n - bits_of d in if pow2 k \<le> q then k else k - 1)"

definition round_half_even :: "rat \<Rightarrow> int" where
  "round_half_even q =
     (let f = \<lfloor>q\<rfloor>; r = q - of_int f in
      if r < 1 / 2 then f else if 1 / 2 < r then f + 1 else if even f then f else f + 1)"

definition round_to :: "float_format \<Rightarrow> rat \<Rightarrow> flt" where
  "round_to ff q =
     (if q = 0 then Fin 0
      else let u = max (ilog2 \<bar>q\<bar> - (ff_prec ff - 1)) (ff_emin ff);
               v = of_int (round_half_even (q / pow2 u)) * pow2 u
           in if pow2 (ff_emax ff) \<le> \<bar>v\<bar> then (if 0 < q then PInf else NInf) else Fin v)"

fun fneg :: "flt \<Rightarrow> flt" where
  "fneg (Fin x) = Fin (- x)"
| "fneg PInf = NInf"
| "fneg NInf = PInf"
| "fneg NaN = NaN"

fun fadd :: "float_format \<Rightarrow> flt \<Rightarrow> flt \<Rightarrow> flt" where
  "fadd ff (Fin x) (Fin y) = round_to ff (x + y)"
| "fadd ff NaN _ = NaN"
| "fadd ff _ NaN = NaN"
| "fadd ff PInf NInf = NaN"
| "fadd ff NInf PInf = NaN"
| "fadd ff PInf _ = PInf"
| "fadd ff NInf _ = NInf"
| "fadd ff _ PInf = PInf"
| "fadd ff _ NInf = NInf"

definition fsub :: "float_format \<Rightarrow> flt \<Rightarrow> flt \<Rightarrow> flt" where
  "fsub ff x y = fadd ff x (fneg y)"

definition finf :: "bool \<Rightarrow> flt" where
  "finf neg = (if neg then NInf else PInf)"

fun fmul :: "float_format \<Rightarrow> flt \<Rightarrow> flt \<Rightarrow> flt" where
  "fmul ff (Fin x) (Fin y) = round_to ff (x * y)"
| "fmul ff NaN _ = NaN"
| "fmul ff _ NaN = NaN"
| "fmul ff (Fin x) PInf = (if x = 0 then NaN else finf (x < 0))"
| "fmul ff (Fin x) NInf = (if x = 0 then NaN else finf (0 < x))"
| "fmul ff PInf (Fin x) = (if x = 0 then NaN else finf (x < 0))"
| "fmul ff NInf (Fin x) = (if x = 0 then NaN else finf (0 < x))"
| "fmul ff PInf PInf = PInf"
| "fmul ff NInf NInf = PInf"
| "fmul ff PInf NInf = NInf"
| "fmul ff NInf PInf = NInf"

text \<open>Comparisons: false as soon as one side is not a number.\<close>

fun flt_le :: "flt \<Rightarrow> flt \<Rightarrow> bool" where
  "flt_le NaN _ = False"
| "flt_le _ NaN = False"
| "flt_le (Fin x) (Fin y) = (x \<le> y)"
| "flt_le NInf _ = True"
| "flt_le _ PInf = True"
| "flt_le _ _ = False"

fun flt_less :: "flt \<Rightarrow> flt \<Rightarrow> bool" where
  "flt_less NaN _ = False"
| "flt_less _ NaN = False"
| "flt_less (Fin x) (Fin y) = (x < y)"
| "flt_less NInf y = (y \<noteq> NInf)"
| "flt_less x PInf = (x \<noteq> PInf)"
| "flt_less _ _ = False"

text \<open>Conversions with Rust's \<open>as\<close>: to a float by rounding, to \<open>i64\<close> by
  truncation towards zero with saturation, not-a-number to zero.\<close>

definition f64_of_int :: "int \<Rightarrow> flt" where
  "f64_of_int i = round_to binary64 (of_int i)"

fun f64_to_i64 :: "flt \<Rightarrow> int" where
  "f64_to_i64 (Fin x) = i64_sat (if 0 \<le> x then \<lfloor>x\<rfloor> else \<lceil>x\<rceil>)"
| "f64_to_i64 PInf = i64_max"
| "f64_to_i64 NInf = i64_min"
| "f64_to_i64 NaN = 0"

lemma f64_to_i64_in_range: "in_i64 (f64_to_i64 x)"
  proof (cases x)
  case (Fin q)
  then show ?thesis by (simp add: in_i64_sat)
qed (simp_all add: in_i64_def i64_min_def i64_max_def)

lemma f64_to_i64_NaN: "f64_to_i64 NaN = 0"
  by simp

end
