(* ===== verification/Waddle_Types.thy ===== *)
theory Waddle_Types
  imports Waddle_Float
begin

text \<open>
  The protocol types of \<^verbatim>\<open>waddle-types\<close>: identifiers, the closed enums shared
  by every crate with their wire numbers (\<^verbatim>\<open>to_pb\<close> followed by
  \<^verbatim>\<open>as i32\<close>, and \<^verbatim>\<open>from_pb\<close>), the error taxonomy, grants, the
  hand-off policy, actors and provenance tags, and the two-clock time stamps. Wire numbers
  are those of the \<^verbatim>\<open>.proto\<close> files, from which the Rust wire types are
  generated. The lemmas are the round trips between the domain enums and the wire.
\<close>

subsection \<open>Identifiers\<close>

text \<open>Every identifier is an opaque shared string.\<close>

type_synonym episode_id = string
type_synonym session_id = string
type_synonym claim_id = string
type_synonym lease_id = string
type_synonym client_id = string
type_synonym robot_id = string
type_synonym cell_id = string
type_synonym source_id = string

subsection \<open>Errors\<close>

datatype types_error =
    MissingField string
  | InvalidEnum string int
  | EmptyFrame
  | MustDeclare string
  | DimensionMismatch nat nat
  | CompositeDepth string
  | DuplicatePart string
  | UnknownPart string
  | MissingPart string
  | OpaqueNotExecutable
  | NoopNotExecutable
  | InvalidValue string string

definition frame_id_new :: "string \<Rightarrow> types_error + string" where
  "frame_id_new s = (if s = [] then Inl EmptyFrame else Inr s)"

subsection \<open>Closed enums and their wire numbers\<close>

datatype verb = V_Send | V_Hold | V_Resume | V_Home | V_Estop

fun verb_to_pb :: "verb \<Rightarrow> int" where
  "verb_to_pb V_Send = 1"
| "verb_to_pb V_Hold = 2"
| "verb_to_pb V_Resume = 3"
| "verb_to_pb V_Home = 4"
| "verb_to_pb V_Estop = 5"

definition verb_from_pb :: "int \<Rightarrow> types_error + verb" where
  "verb_from_pb v =
     (if v = 1 then Inr V_Send
      else if v = 2 then Inr V_Hold
      else if v = 3 then Inr V_Resume
      else if v = 4 then Inr V_Home
      else if v = 5 then Inr V_Estop
      else Inl (InvalidEnum ''Verb'' v))"

lemma verb_pb_round_trip [pb_simps]: "verb_from_pb (verb_to_pb x) = Inr x"
  by (cases x) (simp_all add: verb_from_pb_def)

lemma verb_from_pb_Inr:
  "verb_from_pb v = Inr x \<longleftrightarrow> v = verb_to_pb x"
  by (cases x) (auto simp: verb_from_pb_def)

datatype lease_enforcement = LE_Enforced | LE_Advisory

fun lease_enforcement_to_pb :: "lease_enforcement \<Rightarrow> int" where
  "lease_enforcement_to_pb LE_Enforced = 1"
| "lease_enforcement_to_pb LE_Advisory = 2"

definition lease_enforcement_from_pb :: "int \<Rightarrow> types_error + lease_enforcement" where
  "lease_enforcement_from_pb v =
     (if v = 1 then Inr LE_Enforced
      else if v = 2 then Inr LE_Advisory
      else Inl (InvalidEnum ''LeaseEnforcement'' v))"

lemma lease_enforcement_pb_round_trip [pb_simps]: "lease_enforcement_from_pb (lease_enforcement_to_pb x) = Inr x"
  by (cases x) (simp_all add: lease_enforcement_from_pb_def)

lemma lease_enforcement_from_pb_Inr:
  "lease_enforcement_from_pb v = Inr x \<longleftrightarrow> v = lease_enforcement_to_pb x"
  by (cases x) (auto simp: lease_enforcement_from_pb_def)

datatype terminal_outcome = Success | Failure | Abort | AbortedRetake

fun terminal_outcome_to_pb :: "terminal_outcome \<Rightarrow> int" where
  "terminal_outcome_to_pb Success = 1"
| "terminal_outcome_to_pb Failure = 2"
| "terminal_outcome_to_pb Abort = 3"
| "terminal_outcome_to_pb AbortedRetake = 4"

definition terminal_outcome_from_pb :: "int \<Rightarrow> types_error + terminal_outcome" where
  "terminal_outcome_from_pb v =
     (if v = 1 then Inr Success
      else if v = 2 then Inr Failure
      else if v = 3 then Inr Abort
      else if v = 4 then Inr AbortedRetake
      else Inl (InvalidEnum ''TerminalOutcome'' v))"

lemma terminal_outcome_pb_round_trip [pb_simps]: "terminal_outcome_from_pb (terminal_outcome_to_pb x) = Inr x"
  by (cases x) (simp_all add: terminal_outcome_from_pb_def)

lemma terminal_outcome_from_pb_Inr:
  "terminal_outcome_from_pb v = Inr x \<longleftrightarrow> v = terminal_outcome_to_pb x"
  by (cases x) (auto simp: terminal_outcome_from_pb_def)

datatype episode_state_kind = SK_Resetting | SK_Ready | SK_Running | SK_Intervention | SK_Terminal | SK_PostReset

fun episode_state_kind_to_pb :: "episode_state_kind \<Rightarrow> int" where
  "episode_state_kind_to_pb SK_Resetting = 1"
| "episode_state_kind_to_pb SK_Ready = 2"
| "episode_state_kind_to_pb SK_Running = 3"
| "episode_state_kind_to_pb SK_Intervention = 4"
| "episode_state_kind_to_pb SK_Terminal = 5"
| "episode_state_kind_to_pb SK_PostReset = 6"

definition episode_state_kind_from_pb :: "int \<Rightarrow> types_error + episode_state_kind" where
  "episode_state_kind_from_pb v =
     (if v = 1 then Inr SK_Resetting
      else if v = 2 then Inr SK_Ready
      else if v = 3 then Inr SK_Running
      else if v = 4 then Inr SK_Intervention
      else if v = 5 then Inr SK_Terminal
      else if v = 6 then Inr SK_PostReset
      else Inl (InvalidEnum ''EpisodeState'' v))"

lemma episode_state_kind_pb_round_trip [pb_simps]: "episode_state_kind_from_pb (episode_state_kind_to_pb x) = Inr x"
  by (cases x) (simp_all add: episode_state_kind_from_pb_def)

lemma episode_state_kind_from_pb_Inr:
  "episode_state_kind_from_pb v = Inr x \<longleftrightarrow> v = episode_state_kind_to_pb x"
  by (cases x) (auto simp: episode_state_kind_from_pb_def)

datatype gate_mode = GM_Passthrough | GM_Intervention | GM_Bypass | GM_Reset

fun gate_mode_to_pb :: "gate_mode \<Rightarrow> int" where
  "gate_mode_to_pb GM_Passthrough = 1"
| "gate_mode_to_pb GM_Intervention = 2"
| "gate_mode_to_pb GM_Bypass = 3"
| "gate_mode_to_pb GM_Reset = 4"

definition gate_mode_from_pb :: "int \<Rightarrow> types_error + gate_mode" where
  "gate_mode_from_pb v =
     (if v = 1 then Inr GM_Passthrough
      else if v = 2 then Inr GM_Intervention
      else if v = 3 then Inr GM_Bypass
      else if v = 4 then Inr GM_Reset
      else Inl (InvalidEnum ''GateMode'' v))"

lemma gate_mode_pb_round_trip [pb_simps]: "gate_mode_from_pb (gate_mode_to_pb x) = Inr x"
  by (cases x) (simp_all add: gate_mode_from_pb_def)

lemma gate_mode_from_pb_Inr:
  "gate_mode_from_pb v = Inr x \<longleftrightarrow> v = gate_mode_to_pb x"
  by (cases x) (auto simp: gate_mode_from_pb_def)

datatype reset_verification_mode = Blocking | OptimisticAsync

fun reset_verification_mode_to_pb :: "reset_verification_mode \<Rightarrow> int" where
  "reset_verification_mode_to_pb Blocking = 1"
| "reset_verification_mode_to_pb OptimisticAsync = 2"

definition reset_verification_mode_from_pb :: "int \<Rightarrow> types_error + reset_verification_mode" where
  "reset_verification_mode_from_pb v =
     (if v = 1 then Inr Blocking
      else if v = 2 then Inr OptimisticAsync
      else Inl (InvalidEnum ''ResetVerificationMode'' v))"

lemma reset_verification_mode_pb_round_trip [pb_simps]: "reset_verification_mode_from_pb (reset_verification_mode_to_pb x) = Inr x"
  by (cases x) (simp_all add: reset_verification_mode_from_pb_def)

lemma reset_verification_mode_from_pb_Inr:
  "reset_verification_mode_from_pb v = Inr x \<longleftrightarrow> v = reset_verification_mode_to_pb x"
  by (cases x) (auto simp: reset_verification_mode_from_pb_def)

datatype reset_kind = RK_Pre | RK_Post

fun reset_kind_to_pb :: "reset_kind \<Rightarrow> int" where
  "reset_kind_to_pb RK_Pre = 1"
| "reset_kind_to_pb RK_Post = 2"

definition reset_kind_from_pb :: "int \<Rightarrow> types_error + reset_kind" where
  "reset_kind_from_pb v =
     (if v = 1 then Inr RK_Pre
      else if v = 2 then Inr RK_Post
      else Inl (InvalidEnum ''ResetKind'' v))"

lemma reset_kind_pb_round_trip [pb_simps]: "reset_kind_from_pb (reset_kind_to_pb x) = Inr x"
  by (cases x) (simp_all add: reset_kind_from_pb_def)

lemma reset_kind_from_pb_Inr:
  "reset_kind_from_pb v = Inr x \<longleftrightarrow> v = reset_kind_to_pb x"
  by (cases x) (auto simp: reset_kind_from_pb_def)

datatype actor_kind = AK_Teleoperator | AK_SiteOperator | AK_Agent | AK_Policy | AK_System | AK_Custom

fun actor_kind_to_pb :: "actor_kind \<Rightarrow> int" where
  "actor_kind_to_pb AK_Teleoperator = 1"
| "actor_kind_to_pb AK_SiteOperator = 2"
| "actor_kind_to_pb AK_Agent = 3"
| "actor_kind_to_pb AK_Policy = 4"
| "actor_kind_to_pb AK_System = 5"
| "actor_kind_to_pb AK_Custom = 6"

definition actor_kind_from_pb :: "int \<Rightarrow> types_error + actor_kind" where
  "actor_kind_from_pb v =
     (if v = 1 then Inr AK_Teleoperator
      else if v = 2 then Inr AK_SiteOperator
      else if v = 3 then Inr AK_Agent
      else if v = 4 then Inr AK_Policy
      else if v = 5 then Inr AK_System
      else if v = 6 then Inr AK_Custom
      else Inl (InvalidEnum ''ActorKind'' v))"

lemma actor_kind_pb_round_trip [pb_simps]: "actor_kind_from_pb (actor_kind_to_pb x) = Inr x"
  by (cases x) (simp_all add: actor_kind_from_pb_def)

lemma actor_kind_from_pb_Inr:
  "actor_kind_from_pb v = Inr x \<longleftrightarrow> v = actor_kind_to_pb x"
  by (cases x) (auto simp: actor_kind_from_pb_def)

datatype space_kind = SpK_JointPosition | SpK_JointVelocity | SpK_EePoseDelta | SpK_EePoseAbs | SpK_BaseTwist | SpK_Composite | SpK_Opaque

fun space_kind_to_pb :: "space_kind \<Rightarrow> int" where
  "space_kind_to_pb SpK_JointPosition = 1"
| "space_kind_to_pb SpK_JointVelocity = 2"
| "space_kind_to_pb SpK_EePoseDelta = 3"
| "space_kind_to_pb SpK_EePoseAbs = 4"
| "space_kind_to_pb SpK_BaseTwist = 5"
| "space_kind_to_pb SpK_Composite = 6"
| "space_kind_to_pb SpK_Opaque = 7"

definition space_kind_from_pb :: "int \<Rightarrow> types_error + space_kind" where
  "space_kind_from_pb v =
     (if v = 1 then Inr SpK_JointPosition
      else if v = 2 then Inr SpK_JointVelocity
      else if v = 3 then Inr SpK_EePoseDelta
      else if v = 4 then Inr SpK_EePoseAbs
      else if v = 5 then Inr SpK_BaseTwist
      else if v = 6 then Inr SpK_Composite
      else if v = 7 then Inr SpK_Opaque
      else Inl (InvalidEnum ''SpaceKind'' v))"

lemma space_kind_pb_round_trip [pb_simps]: "space_kind_from_pb (space_kind_to_pb x) = Inr x"
  by (cases x) (simp_all add: space_kind_from_pb_def)

lemma space_kind_from_pb_Inr:
  "space_kind_from_pb v = Inr x \<longleftrightarrow> v = space_kind_to_pb x"
  by (cases x) (auto simp: space_kind_from_pb_def)

text \<open>Enums with a wire form written only, never read back by the modelled code.\<close>

datatype grant_status = GS_Active | GS_Demoted | GS_Revoked

fun grant_status_pb :: "grant_status \<Rightarrow> int" where
  "grant_status_pb GS_Active = 1"
| "grant_status_pb GS_Demoted = 2"
| "grant_status_pb GS_Revoked = 3"

datatype intervention_phase = IP_Engage | IP_Settle | IP_Release | IP_Retake

fun phase_pb :: "intervention_phase \<Rightarrow> int" where
  "phase_pb IP_Engage = 1"
| "phase_pb IP_Settle = 2"
| "phase_pb IP_Release = 3"
| "phase_pb IP_Retake = 4"

subsection \<open>Grants and the hand-off policy\<close>

record grant =
  g_verb :: verb
  g_send_interfaces :: "space_kind list"
  g_declared_latency_bound_ns :: "int option"
  g_hardware :: bool

datatype handoff_policy =
    HP_Immediate int
  | HP_ChunkBoundary int
  | HP_HoldFirst

subsection \<open>Actors and provenance\<close>

record actor_ref =
  a_kind :: actor_kind
  a_id :: string
  a_display_name :: string

definition of_kind :: "actor_kind \<Rightarrow> actor_ref" where
  "of_kind k = \<lparr>a_kind = k, a_id = [], a_display_name = []\<rparr>"

record pb_actor_ref =
  pa_kind :: int
  pa_id :: string
  pa_display_name :: string

definition actor_ref_to_pb :: "actor_ref \<Rightarrow> pb_actor_ref" where
  "actor_ref_to_pb a =
     \<lparr>pa_kind = actor_kind_to_pb (a_kind a), pa_id = a_id a, pa_display_name = a_display_name a\<rparr>"

definition actor_ref_try_from :: "pb_actor_ref \<Rightarrow> types_error + actor_ref" where
  "actor_ref_try_from p = (case actor_kind_from_pb (pa_kind p) of
     Inl e \<Rightarrow> Inl e
   | Inr k \<Rightarrow> Inr \<lparr>a_kind = k, a_id = pa_id p, a_display_name = pa_display_name p\<rparr>)"

lemma actor_ref_round_trip: "actor_ref_try_from (actor_ref_to_pb a) = Inr a"
  by (simp add: actor_ref_try_from_def actor_ref_to_pb_def pb_simps)

datatype provenance = Pv_Policy | Pv_Teleop | Pv_Agent | Pv_Custom string

fun for_claim :: "actor_kind \<Rightarrow> string \<Rightarrow> provenance" where
  "for_claim AK_Teleoperator src = Pv_Teleop"
| "for_claim AK_Agent src = Pv_Agent"
| "for_claim AK_Policy src = Pv_Policy"
| "for_claim AK_SiteOperator src = Pv_Custom src"
| "for_claim AK_System src = Pv_Custom src"
| "for_claim AK_Custom src = Pv_Custom src"

record provenance_tag =
  pt_provenance :: provenance
  pt_actor :: "actor_ref option"
  pt_bypass_approval :: bool

definition policy_provenance :: provenance_tag where
  "policy_provenance = \<lparr>pt_provenance = Pv_Policy, pt_actor = None, pt_bypass_approval = False\<rparr>"

record pb_provenance_tag =
  pp_kind :: int
  pp_custom_name :: string
  pp_actor :: "pb_actor_ref option"
  pp_bypass_approval :: bool

definition provenance_tag_to_pb :: "provenance_tag \<Rightarrow> pb_provenance_tag" where
  "provenance_tag_to_pb t =
     (case (case pt_provenance t of
              Pv_Policy \<Rightarrow> (1, []) | Pv_Teleop \<Rightarrow> (2, []) | Pv_Agent \<Rightarrow> (3, [])
            | Pv_Custom name \<Rightarrow> (4, name)) of
        (kind, custom_name) \<Rightarrow>
          \<lparr>pp_kind = kind, pp_custom_name = custom_name,
           pp_actor = map_option actor_ref_to_pb (pt_actor t),
           pp_bypass_approval = pt_bypass_approval t\<rparr>)"

definition provenance_of_pb :: "int \<Rightarrow> string \<Rightarrow> types_error + provenance" where
  "provenance_of_pb kind custom_name =
     (if kind = 1 then Inr Pv_Policy
      else if kind = 2 then Inr Pv_Teleop
      else if kind = 3 then Inr Pv_Agent
      else if kind = 4 then
        (if custom_name = [] then Inl (MissingField ''ProvenanceTag.custom_name'')
         else Inr (Pv_Custom custom_name))
      else Inl (InvalidEnum ''ProvenanceKind'' kind))"

definition provenance_tag_try_from :: "pb_provenance_tag \<Rightarrow> types_error + provenance_tag" where
  "provenance_tag_try_from t =
     (case provenance_of_pb (pp_kind t) (pp_custom_name t) of
        Inl e \<Rightarrow> Inl e
      | Inr p \<Rightarrow>
          (case pp_actor t of
             None \<Rightarrow> Inr \<lparr>pt_provenance = p, pt_actor = None,
                          pt_bypass_approval = pp_bypass_approval t\<rparr>
           | Some a \<Rightarrow>
               (case actor_ref_try_from a of
                  Inl e \<Rightarrow> Inl e
                | Inr a' \<Rightarrow> Inr \<lparr>pt_provenance = p, pt_actor = Some a',
                                 pt_bypass_approval = pp_bypass_approval t\<rparr>)))"

lemma provenance_round_trip:
  assumes "pt_provenance t \<noteq> Pv_Custom []"
  shows "provenance_tag_try_from (provenance_tag_to_pb t) = Inr t"
  using assms
  by (cases "pt_provenance t"; cases "pt_actor t")
    (auto simp: provenance_tag_try_from_def provenance_tag_to_pb_def provenance_of_pb_def
      actor_ref_round_trip)

lemma provenance_empty_custom_refused:
  "pt_provenance t = Pv_Custom [] \<Longrightarrow>
   provenance_tag_try_from (provenance_tag_to_pb t) =
     Inl (MissingField ''ProvenanceTag.custom_name'')"
  by (simp add: provenance_tag_try_from_def provenance_tag_to_pb_def provenance_of_pb_def)

subsection \<open>Time\<close>

definition saturating_add :: "mono_ns \<Rightarrow> int \<Rightarrow> mono_ns" where
  "saturating_add t ns = i64_sat (t + ns)"

definition saturating_sub_ns :: "mono_ns \<Rightarrow> mono_ns \<Rightarrow> int" where
  "saturating_sub_ns t u = i64_sat (t - u)"

record stamp =
  mono :: mono_ns
  epoch :: epoch_ns

record clock_anchor =
  monotonic_ns :: mono_ns
  unix_ns :: epoch_ns

definition locate :: "clock_anchor \<Rightarrow> mono_ns \<Rightarrow> epoch_ns" where
  "locate a t = i64_wrap (t + i64_wrap (unix_ns a - monotonic_ns a))"

lemma saturating_add_bounds: "in_i64 (saturating_add t ns)"
  by (simp add: saturating_add_def in_i64_sat)

lemma saturating_add_not_before:
  assumes "in_i64 t" and "0 \<le> ns"
  shows "t \<le> saturating_add t ns"
  using i64_sat_mono [of t "t + ns"] assms by (simp add: saturating_add_def i64_sat_id)

end
