(* ===== verification/Waddle_Lease.thy ===== *)
theory Waddle_Lease
  imports Waddle_Types
begin

text \<open>
  The single-writer lease machine (\<^verbatim>\<open>waddle-fsm/src/lease.rs\<close>, rows L1 to L8 of
  the protocol's FSM document). The machine's own promise, that a token which is not the
  current one stays dead until somebody mints it again, is stated once in the locale
  \<open>token_machine\<close> and proved for runs there; the lease machine interprets it here and
  the composed session machine interprets it later.
\<close>

subsection \<open>The contract of a machine with one live token\<close>

locale token_machine =
  fixes live :: "'st \<Rightarrow> 'tok option"
    and next_state :: "'st \<Rightarrow> 'cmd \<Rightarrow> 'st"
    and mints :: "'cmd \<Rightarrow> 'tok option"
  assumes live_next: "live (next_state s c) = Some t \<Longrightarrow> live s = Some t \<or> mints c = Some t"
begin

lemma dead_stays_dead:
  assumes "live s \<noteq> Some t" and "\<forall>c \<in> set cs. mints c \<noteq> Some t"
  shows "live (foldl next_state s cs) \<noteq> Some t"
  using assms
proof (induction cs arbitrary: s)
  case Nil
  then show ?case by simp
next
  case (Cons c cs)
  then have "live (next_state s c) \<noteq> Some t"
    using live_next by fastforce
  with Cons show ?case by simp
qed

lemma live_was_minted:
  assumes "live (foldl next_state s cs) = Some t"
  shows "live s = Some t \<or> (\<exists>c \<in> set cs. mints c = Some t)"
  using assms dead_stays_dead by blast

end

subsection \<open>The lease machine\<close>

datatype lease_state =
    Vacant
  | Held lease_id client_id

fun holder :: "lease_state \<Rightarrow> (lease_id \<times> client_id) option" where
  "holder Vacant = None"
| "holder (Held l c) = Some (l, c)"

datatype lease_cmd =
    LC_Acquire client_id lease_id
  | LC_Release lease_id
  | LC_Handoff lease_id client_id lease_id
  | LC_RevokeAll

datatype lease_outcome =
    LO_Granted lease_id client_id bool
  | LO_HandedOff lease_id lease_id client_id
  | LO_Released lease_id
  | LO_RevokedAll "lease_id option"
  | LO_Denied string

fun lease_step :: "lease_state \<Rightarrow> lease_cmd \<Rightarrow> lease_state \<times> lease_outcome" where
  "lease_step Vacant (LC_Acquire c minted) = (Held minted c, LO_Granted minted c True)"
| "lease_step (Held l c) (LC_Acquire who minted) =
     (if who = c then (Held l c, LO_Granted l c False)
      else (Held l c, LO_Denied ''held by another client''))"
| "lease_step (Held l c) (LC_Release token) =
     (if token = l then (Vacant, LO_Released l)
      else (Held l c, LO_Denied ''stale or wrong lease token''))"
| "lease_step Vacant (LC_Release token) = (Vacant, LO_Denied ''no lease held'')"
| "lease_step (Held l c) (LC_Handoff frm to minted) =
     (if frm = l then (Held minted to, LO_HandedOff l minted to)
      else (Held l c, LO_Denied ''handoff from a token that is not the current holder''))"
| "lease_step Vacant (LC_Handoff frm to minted) = (Vacant, LO_Denied ''no lease to hand off'')"
| "lease_step s LC_RevokeAll = (Vacant, LO_RevokedAll (map_option fst (holder s)))"

fun lease_mints :: "lease_cmd \<Rightarrow> lease_id option" where
  "lease_mints (LC_Acquire c minted) = Some minted"
| "lease_mints (LC_Handoff frm to minted) = Some minted"
| "lease_mints _ = None"

definition lease_token :: "lease_state \<Rightarrow> lease_id option" where
  "lease_token s = map_option fst (holder s)"


interpretation lease_tokens: token_machine lease_token "\<lambda>s c. fst (lease_step s c)" lease_mints
proof
  fix s c t
  assume "lease_token (fst (lease_step s c)) = Some t"
  then show "lease_token s = Some t \<or> lease_mints c = Some t"
    by (cases s; cases c) (auto simp: lease_token_def split: if_splits)
qed

lemma lease_denied_unchanged: "lease_step s c = (s', LO_Denied d) \<Longrightarrow> s' = s"
  by (cases s; cases c) (auto split: if_splits)

lemma lease_acquire_handoff_outcomes:
  "snd (lease_step s (LC_Acquire cl m)) \<noteq> LO_Released l"
  "snd (lease_step s (LC_Acquire cl m)) \<noteq> LO_RevokedAll w"
  "snd (lease_step s (LC_Handoff f cl m)) \<noteq> LO_Released l"
  "snd (lease_step s (LC_Handoff f cl m)) \<noteq> LO_RevokedAll w"
  by (cases s; auto)+

text \<open>
  The complete behaviour of the lease, row by row: what each command gives in each state,
  as an iff on the outcome. Used by the session machine.
\<close>

lemma lease_granted_iff:
  "lease_step s c = (s', LO_Granted l cl fresh) \<longleftrightarrow>
     (\<exists>m. c = LC_Acquire cl m \<and> s' = Held l cl \<and>
        (s = Vacant \<and> l = m \<and> fresh \<or> s = Held l cl \<and> \<not> fresh))"
  by (cases s; cases c) auto

lemma lease_handed_off_iff:
  "lease_step s c = (s', LO_HandedOff old new to) \<longleftrightarrow>
     c = LC_Handoff old to new \<and> s' = Held new to \<and> (\<exists>cl. s = Held old cl)"
  by (cases s; cases c) auto

end
