(* ===== verification/Waddle_Event.thy ===== *)
theory Waddle_Event
  imports Waddle_Lease
begin

text \<open>
  The vocabulary of the session machine: its static configuration
  (\<^verbatim>\<open>config.rs\<close>), its inputs (\<^verbatim>\<open>event.rs\<close>), the active claim
  (\<^verbatim>\<open>claim.rs\<close>), the episode record (\<^verbatim>\<open>episode.rs\<close>), the wire
  events it emits (\<^verbatim>\<open>emit.rs\<close>) and the effects it requests
  (\<^verbatim>\<open>effect.rs\<close>). Message fields the builders leave at their proto default
  are not repeated in the payloads; integers that carry enum values are the wire numbers.
\<close>

subsection \<open>Inputs\<close>

datatype timer_id =
    EngageTimeout
  | ChunkBoundaryCap
  | HeartbeatStale
  | ResetWindowTimeout
  | AgentInviteTimeout

record window_spec =
  ws_expected :: actor_kind
  ws_prompt :: string
  ws_timeout_ns :: int

record agent_invite =
  ai_prompt :: string
  ai_timeout_ns :: int
  ai_task_metadata :: "(string \<times> string) list"

datatype mark_kind = MK_Start | MK_EndSuccess | MK_EndFailure | MK_EndAbort | MK_Retake

fun mark_kind_to_pb :: "mark_kind \<Rightarrow> int" where
  "mark_kind_to_pb MK_Start = 1"
| "mark_kind_to_pb MK_EndSuccess = 2"
| "mark_kind_to_pb MK_EndFailure = 3"
| "mark_kind_to_pb MK_EndAbort = 4"
| "mark_kind_to_pb MK_Retake = 5"

fun mark_terminal_outcome :: "mark_kind \<Rightarrow> terminal_outcome option" where
  "mark_terminal_outcome MK_EndSuccess = Some Success"
| "mark_terminal_outcome MK_EndFailure = Some Failure"
| "mark_terminal_outcome MK_EndAbort = Some Abort"
| "mark_terminal_outcome MK_Start = None"
| "mark_terminal_outcome MK_Retake = None"

record proxy_sample =
  control_rtt_ns :: int
  gate_tick_p95_ns :: int
  callback_dispatch_p95_ns :: int
  host_load_1m :: flt

datatype reject_reason =
    RR_Dims nat nat
  | RR_NotExecutable string
  | RR_InertStepsSkipped nat nat

record grant_change_directive =
  gc_verb :: verb
  gc_to :: grant_status
  gc_reason :: string

text \<open>The wire enum \<open>FaultKind\<close>.\<close>

datatype fault_kind =
    FK_Unspecified | FK_Estop | FK_EnvelopeReject | FK_LeaseDenied | FK_CommandStale
  | FK_HardwareFault | FK_IkUnreachable | FK_PerceptionNotFound | FK_VerifierFail
  | FK_PreconditionFail | FK_CalibrationStale | FK_Timeout | FK_AdapterError
  | FK_ValidationError | FK_ApprovalDenied | FK_BackendError | FK_ObsIncomplete
  | FK_TripwireHold

datatype session_event =
    EpisodeOpen episode_id reset_verification_mode bool "episode_id option" bool
      "window_spec option" "window_spec option" "agent_invite option" mono_ns
  | ResetResult bool "bool option" mono_ns
  | VerificationResult bool bool mono_ns
  | Start mono_ns
  | GateTick mono_ns
  | ClaimRequested claim_id string actor_ref bool mono_ns
  | ClaimGranted claim_id string actor_ref bool mono_ns
  | ClaimReleased claim_id mono_ns
  | Engage claim_id mono_ns
  | ChunkBoundaryReached mono_ns
  | Release claim_id mono_ns
  | Retake claim_id actor_kind episode_id mono_ns
  | Clutch bool mono_ns
  | VerbResult verb bool "fault_kind option" mono_ns
  | LeaseTokenMinted lease_id mono_ns
  | Estop mono_ns
  | Terminate terminal_outcome string mono_ns
  | JudgeResult string "bool option" mono_ns
  | Mark mark_kind mono_ns
  | ProxySignals proxy_sample mono_ns
  | HeartbeatAck "grant_change_directive list" mono_ns
  | PartitionStart mono_ns
  | PartitionEnd mono_ns
  | TimerFired timer_id mono_ns
  | StallDetected mono_ns
  | TicksResumed mono_ns
  | DualWrite flt int string mono_ns
  | InterventionRejected string reject_reason mono_ns
  | PostResetResult bool string mono_ns
  | ResetWindowEngage claim_id mono_ns
  | ResetWindowComplete claim_id bool "bool option" mono_ns
  | AgentTaskDenied string mono_ns

subsection \<open>Configuration\<close>

record session_config =
  cfg_session_id :: session_id
  cfg_robot_id :: robot_id
  cfg_cell_id :: cell_id
  loop_client :: client_id
  enforcement :: lease_enforcement
  handoff :: handoff_policy
  cfg_grants :: "grant list"
  space_contains_delta :: bool
  clutch_source :: string
  clutch_actor :: actor_kind
  heartbeat_timeout_ns :: int
  engage_timeout_ns :: int
  demote_after :: u32
  promote_after :: u32
  hysteresis_ratio :: flt

text \<open>\<^verbatim>\<open>SessionConfig::minimal\<close>; the literal \<open>0.8\<close> is its nearest
  binary64 value.\<close>

definition minimal_config :: "string \<Rightarrow> handoff_policy \<Rightarrow> lease_enforcement \<Rightarrow> session_config" where
  "minimal_config client ho enf =
     \<lparr>cfg_session_id = ''session-1'', cfg_robot_id = ''robot-1'', cfg_cell_id = ''cell-1'',
      loop_client = client, enforcement = enf, handoff = ho, cfg_grants = [],
      space_contains_delta = False, clutch_source = ''custom'', clutch_actor = AK_SiteOperator,
      heartbeat_timeout_ns = 2000000000, engage_timeout_ns = 10000000000,
      demote_after = 1, promote_after = 3, hysteresis_ratio = round_to binary64 (8 / 10)\<rparr>"

subsection \<open>The active claim\<close>

record active_claim =
  cl_id :: claim_id
  cl_source :: string
  cl_actor :: actor_ref
  cl_self_initiated :: bool

definition claim_client :: "active_claim \<Rightarrow> client_id" where
  "claim_client c = cl_source c"

definition claim_provenance_tag :: "active_claim \<Rightarrow> provenance_tag" where
  "claim_provenance_tag c =
     \<lparr>pt_provenance = for_claim (a_kind (cl_actor c)) (cl_source c),
      pt_actor = Some (cl_actor c), pt_bypass_approval = cl_self_initiated c\<rparr>"

subsection \<open>The episode\<close>

datatype phase =
    Resetting
  | Ready
  | Running
  | Intervention intervention_phase
  | Terminal terminal_outcome
  | PostReset

fun phase_kind :: "phase \<Rightarrow> episode_state_kind" where
  "phase_kind Resetting = SK_Resetting"
| "phase_kind Ready = SK_Ready"
| "phase_kind Running = SK_Running"
| "phase_kind (Intervention _) = SK_Intervention"
| "phase_kind (Terminal _) = SK_Terminal"
| "phase_kind PostReset = SK_PostReset"

fun is_terminal :: "phase \<Rightarrow> bool" where
  "is_terminal (Terminal _) = True"
| "is_terminal _ = False"

record reset_window_state =
  rw_kind :: reset_kind
  rw_expected :: actor_kind
  rw_engaged :: bool
  rw_prompt :: string

record episode_state =
  ep_id :: episode_id
  ep_phase :: phase
  born_claimed :: bool
  ep_parent :: "episode_id option"
  reset_unverified :: bool
  ep_verification :: reset_verification_mode
  reset_ok :: bool
  ep_verified :: bool
  optimistic_entry :: bool
  post_reset_declared :: bool
  pinned_outcome :: "terminal_outcome option"
  post_reset_failed :: bool
  reset_window :: "reset_window_state option"
  post_window :: "window_spec option"
  agent_invited :: bool
  agent_engaged :: bool
  invite_aborted :: bool

definition episode_open_state ::
  "episode_id \<Rightarrow> reset_verification_mode \<Rightarrow> bool \<Rightarrow> episode_id option \<Rightarrow> episode_state" where
  "episode_open_state i ver born par =
     \<lparr>ep_id = i, ep_phase = Resetting, born_claimed = born, ep_parent = par,
      reset_unverified = False, ep_verification = ver, reset_ok = False, ep_verified = False,
      optimistic_entry = False, post_reset_declared = False, pinned_outcome = None,
      post_reset_failed = False, reset_window = None, post_window = None,
      agent_invited = False, agent_engaged = False, invite_aborted = False\<rparr>"

definition invite_open :: "episode_state \<Rightarrow> bool" where
  "invite_open ep \<longleftrightarrow> agent_invited ep \<and> \<not> agent_engaged ep \<and>
     (ep_phase ep = Resetting \<or> ep_phase ep = Ready \<or> ep_phase ep = Running)"

subsection \<open>Emitted wire events\<close>

datatype claim_event_kind = CE_Requested | CE_Granted | CE_Denied | CE_Released

datatype lease_event_kind = LK_Acquired | LK_Denied | LK_HandedOff | LK_Released | LK_RevokedAll

datatype reset_window_event_kind =
    RW_Opened | RW_Engaged | RW_Completed | RW_TimedOut | RW_Cancelled

record pb_claim =
  pc_claim_id :: string
  pc_episode_id :: string
  pc_actor :: "pb_actor_ref option"
  pc_source_name :: string
  pc_self_initiated :: bool

record pb_lease =
  pl_lease_id :: string
  pl_holder_client_id :: string
  pl_enforcement :: int
  pl_t_acquired_ns :: int

record pb_reset_result =
  pr_ok :: bool
  pr_detail :: string

datatype event_payload =
    EvState int int string int
  | EvClaim claim_event_kind pb_claim string
  | EvLease lease_event_kind "pb_lease option" string
  | EvIntervention int string
  | EvTripwire string string int
  | EvFault fault_kind string string int
  | EvGate int int string
  | EvDualWrite flt int string int
  | EvGrant int int int string int
  | EvResetVerification int bool bool int
  | EvJudgment string "bool option" int
  | EvPostReset pb_reset_result int
  | EvResetWindow reset_window_event_kind int string int string "pb_reset_result option"
  | EvAgentInvite string int "(string \<times> string) list"
  | EvMark int

record episode_event =
  ev_t_ns :: int
  ev_episode_id :: string
  ev_payload :: event_payload

definition base_event :: "mono_ns \<Rightarrow> episode_id option \<Rightarrow> event_payload \<Rightarrow> episode_event" where
  "base_event t ep p =
     \<lparr>ev_t_ns = t, ev_episode_id = (case ep of None \<Rightarrow> [] | Some i \<Rightarrow> i), ev_payload = p\<rparr>"

definition state_pb :: "episode_state_kind option \<Rightarrow> int" where
  "state_pb k = (case k of None \<Rightarrow> 0 | Some s \<Rightarrow> episode_state_kind_to_pb s)"

definition state_transition ::
  "mono_ns \<Rightarrow> episode_id \<Rightarrow> episode_state_kind option \<Rightarrow> episode_state_kind \<Rightarrow> string \<Rightarrow>
   terminal_outcome option \<Rightarrow> episode_event" where
  "state_transition t ep frm to reason outcome =
     base_event t (Some ep) (EvState (state_pb frm) (episode_state_kind_to_pb to) reason
       (case outcome of None \<Rightarrow> 0 | Some out \<Rightarrow> terminal_outcome_to_pb out))"

definition claim_event ::
  "mono_ns \<Rightarrow> episode_id \<Rightarrow> claim_event_kind \<Rightarrow> active_claim \<Rightarrow> string \<Rightarrow> episode_event" where
  "claim_event t ep kind cl detail =
     base_event t (Some ep) (EvClaim kind
       \<lparr>pc_claim_id = cl_id cl, pc_episode_id = ep, pc_actor = Some (actor_ref_to_pb (cl_actor cl)),
        pc_source_name = cl_source cl, pc_self_initiated = cl_self_initiated cl\<rparr> detail)"

definition lease_event ::
  "mono_ns \<Rightarrow> episode_id option \<Rightarrow> lease_event_kind \<Rightarrow> (lease_id \<times> client_id) option \<Rightarrow>
   lease_enforcement \<Rightarrow> string \<Rightarrow> episode_event" where
  "lease_event t ep kind l enf detail =
     base_event t ep (EvLease kind
       (map_option (\<lambda>(i, c). \<lparr>pl_lease_id = i, pl_holder_client_id = c,
          pl_enforcement = lease_enforcement_to_pb enf, pl_t_acquired_ns = t\<rparr>) l) detail)"

definition intervention_event ::
  "mono_ns \<Rightarrow> episode_id \<Rightarrow> intervention_phase \<Rightarrow> claim_id \<Rightarrow> episode_event" where
  "intervention_event t ep ip cl = base_event t (Some ep) (EvIntervention (phase_pb ip) cl)"

definition tripwire_event ::
  "mono_ns \<Rightarrow> episode_id option \<Rightarrow> string \<Rightarrow> verb \<Rightarrow> string \<Rightarrow> episode_event" where
  "tripwire_event t ep name v detail = base_event t ep (EvTripwire name detail (verb_to_pb v))"

definition fault_event ::
  "mono_ns \<Rightarrow> episode_id option \<Rightarrow> fault_kind \<Rightarrow> string \<Rightarrow> string \<Rightarrow> episode_event" where
  "fault_event t ep kind source detail = base_event t ep (EvFault kind source detail t)"

definition gate_mode_change ::
  "mono_ns \<Rightarrow> episode_id \<Rightarrow> gate_mode \<Rightarrow> gate_mode \<Rightarrow> string \<Rightarrow> episode_event" where
  "gate_mode_change t ep frm to reason =
     base_event t (Some ep) (EvGate (gate_mode_to_pb frm) (gate_mode_to_pb to) reason)"

definition dual_write_event ::
  "mono_ns \<Rightarrow> episode_id \<Rightarrow> flt \<Rightarrow> int \<Rightarrow> string \<Rightarrow> verb \<Rightarrow> episode_event" where
  "dual_write_event t ep metric window trace v =
     base_event t (Some ep) (EvDualWrite metric window trace (verb_to_pb v))"

definition grant_change ::
  "mono_ns \<Rightarrow> episode_id option \<Rightarrow> verb \<Rightarrow> grant_status \<Rightarrow> grant_status \<Rightarrow> string \<Rightarrow>
   mono_ns \<Rightarrow> episode_event" where
  "grant_change t ep v frm to reason eff =
     base_event t ep
       (EvGrant (verb_to_pb v) (grant_status_pb frm) (grant_status_pb to) reason eff)"

definition reset_verification_event ::
  "mono_ns \<Rightarrow> episode_id \<Rightarrow> reset_verification_mode \<Rightarrow> bool \<Rightarrow> bool \<Rightarrow> episode_event" where
  "reset_verification_event t ep mode ver invd =
     base_event t (Some ep)
       (EvResetVerification (reset_verification_mode_to_pb mode) ver invd t)"

definition judgment_event ::
  "mono_ns \<Rightarrow> episode_id \<Rightarrow> string \<Rightarrow> bool option \<Rightarrow> episode_event" where
  "judgment_event t ep judge passed = base_event t (Some ep) (EvJudgment judge passed t)"

definition post_reset_event ::
  "mono_ns \<Rightarrow> episode_id \<Rightarrow> bool \<Rightarrow> string \<Rightarrow> terminal_outcome \<Rightarrow> episode_event" where
  "post_reset_event t ep ok detail pinned =
     base_event t (Some ep)
       (EvPostReset \<lparr>pr_ok = ok, pr_detail = detail\<rparr> (terminal_outcome_to_pb pinned))"

definition reset_window_event ::
  "mono_ns \<Rightarrow> episode_id \<Rightarrow> reset_window_event_kind \<Rightarrow> reset_kind \<Rightarrow> string \<Rightarrow> actor_kind \<Rightarrow>
   string \<Rightarrow> pb_reset_result option \<Rightarrow> episode_event" where
  "reset_window_event t ep kind rk prompt expected cl result =
     base_event t (Some ep)
       (EvResetWindow kind (reset_kind_to_pb rk) prompt (actor_kind_to_pb expected) cl result)"

definition agent_invite_event ::
  "mono_ns \<Rightarrow> episode_id \<Rightarrow> string \<Rightarrow> int \<Rightarrow> (string \<times> string) list \<Rightarrow> episode_event" where
  "agent_invite_event t ep prompt timeout md =
     base_event t (Some ep) (EvAgentInvite prompt timeout md)"

definition mark_event :: "mono_ns \<Rightarrow> episode_id \<Rightarrow> int \<Rightarrow> episode_event" where
  "mark_event t ep kind = base_event t (Some ep) (EvMark kind)"

subsection \<open>Effects\<close>

datatype lease_op_kind =
    Op_Acquire client_id
  | Op_Handoff lease_id client_id

datatype handback_then =
    ApplyPreResult bool "bool option"
  | ApplyPostResult bool
  | TimeoutClose

datatype after_lease =
    InitialAcquire
  | EngageComplete
  | ReleaseComplete
  | ResetEngageComplete
  | ResetHandback handback_then

record pending_lease_op =
  po_op :: lease_op_kind
  po_then :: after_lease

datatype effect =
    SetGateMode gate_mode
  | RequestVerb verb
  | ArmTimer timer_id mono_ns
  | CancelTimer timer_id
  | OpenSuccessor episode_id episode_id claim_id bool reset_verification_mode
  | MintLeaseToken pending_lease_op
  | ReprimePolicy
  | SetResetUnverified episode_id
  | SetPostResetFailed episode_id
  | RunPostReset episode_id
  | Emit episode_event

end
