(* ===== verification/Waddle_Session.thy ===== *)
theory Waddle_Session
  imports Waddle_Grant_Health
begin

text \<open>
  The composed session machine, first half (\<^verbatim>\<open>waddle-fsm/src/session.rs\<close>, the
  state \<open>SessionFsm\<close> and the methods of \<open>Ctx\<close>): episode, claim, lease and grant
  health of one session, and the helpers the event rows of \<^verbatim>\<open>step\<close> are composed of.

  A context holds the state being built and the effects pushed so far. A helper that may
  panic (\<^verbatim>\<open>expect\<close>) returns \<open>ctx option\<close> with \<open>None\<close> for the panic; the
  configuration is an argument. The lemmas at the end give, for every helper, what it does
  to each field of the state when an episode is present.
\<close>

subsection \<open>State\<close>

datatype engage_stage = AwaitHoldOk | AwaitChunkBoundary | AwaitLease

record session_fsm =
  episode :: "episode_state option"
  claim :: "active_claim option"
  lease :: lease_state
  pending_lease :: "pending_lease_op option"
  gate_mode :: gate_mode
  engage_stage :: "engage_stage option"
  engage_timed_out :: bool
  plane_connected :: bool
  buffered_events :: u32
  grants :: "grant_health_entry list"
  clutch_seq :: u32

definition session_new :: "session_config \<Rightarrow> session_fsm" where
  "session_new cfg =
     \<lparr>episode = None, claim = None, lease = Vacant, pending_lease = None,
      gate_mode = GM_Passthrough, engage_stage = None, engage_timed_out = False,
      plane_connected = True, buffered_events = 0,
      grants = map from_grant (cfg_grants cfg), clutch_seq = 0\<rparr>"

fun run_phase :: "phase \<Rightarrow> bool" where
  "run_phase Resetting = True"
| "run_phase Ready = True"
| "run_phase Running = True"
| "run_phase (Intervention _) = True"
| "run_phase _ = False"

definition agent_episode_noop :: "session_fsm \<Rightarrow> bool" where
  "agent_episode_noop s \<longleftrightarrow> gate_mode s = GM_Passthrough \<and>
     (case episode s of None \<Rightarrow> False | Some e \<Rightarrow> agent_invited e \<and> run_phase (ep_phase e))"

definition gate_plan_inputs :: "session_fsm \<Rightarrow> gate_mode \<times> bool" where
  "gate_plan_inputs s = (gate_mode s, agent_episode_noop s)"

definition episode_phase :: "session_fsm \<Rightarrow> phase option" where
  "episode_phase s = map_option ep_phase (episode s)"

definition active :: "session_fsm \<Rightarrow> bool" where
  "active s \<longleftrightarrow> (case episode s of None \<Rightarrow> False | Some e \<Rightarrow> \<not> is_terminal (ep_phase e))"

subsection \<open>The context\<close>

record ctx =
  st :: session_fsm
  effects :: "effect list"

definition begin_ctx :: "session_fsm \<Rightarrow> ctx" where
  "begin_ctx s = \<lparr>st = s, effects = []\<rparr>"

definition push :: "effect \<Rightarrow> ctx \<Rightarrow> ctx" where
  "push ef c = c\<lparr>effects := effects c @ [ef]\<rparr>"

definition emit :: "episode_event \<Rightarrow> ctx \<Rightarrow> ctx" where
  "emit ev c = push (Emit ev)
     (if plane_connected (st c) then c
      else c\<lparr>st := (st c)\<lparr>buffered_events := buffered_events (st c) + 1\<rparr>\<rparr>)"

definition put :: "(session_fsm \<Rightarrow> session_fsm) \<Rightarrow> ctx \<Rightarrow> ctx" where
  "put f c = c\<lparr>st := f (st c)\<rparr>"

definition episode_mut :: "(episode_state \<Rightarrow> episode_state) \<Rightarrow> ctx \<Rightarrow> ctx option" where
  "episode_mut f c = do {
     e \<leftarrow> episode (st c);
     Some (put (\<lambda>s. s\<lparr>episode := Some (f e)\<rparr>) c) }"

definition set_gate :: "mono_ns \<Rightarrow> gate_mode \<Rightarrow> string \<Rightarrow> ctx \<Rightarrow> ctx option" where
  "set_gate t to reason c =
     (if gate_mode (st c) = to then Some c
      else do {
        e \<leftarrow> episode (st c);
        Some (push (SetGateMode to)
          (emit (gate_mode_change t (ep_id e) (gate_mode (st c)) to reason)
            (put (\<lambda>s. s\<lparr>gate_mode := to\<rparr>) c))) })"

definition transition ::
  "mono_ns \<Rightarrow> phase \<Rightarrow> string \<Rightarrow> terminal_outcome option \<Rightarrow> ctx \<Rightarrow> ctx option" where
  "transition t to reason outcome c = do {
     e \<leftarrow> episode (st c);
     c \<leftarrow> episode_mut (\<lambda>e. e\<lparr>ep_phase := to\<rparr>) c;
     Some (emit (state_transition t (ep_id e) (Some (phase_kind (ep_phase e)))
                  (phase_kind to) reason outcome) c) }"

text \<open>The recurring \<^verbatim>\<open>if let Some(claim) = self.s.claim.take()\<close> with its
  \<open>RELEASED\<close> emission.\<close>

definition take_claim :: "mono_ns \<Rightarrow> string \<Rightarrow> ctx \<Rightarrow> ctx option" where
  "take_claim t reason c =
     (case claim (st c) of
        None \<Rightarrow> Some c
      | Some cl \<Rightarrow> do {
          e \<leftarrow> episode (st c);
          Some (emit (claim_event t (ep_id e) CE_Released cl reason)
            (put (\<lambda>s. s\<lparr>claim := None\<rparr>) c)) })"

fun emit_demotions :: "mono_ns \<Rightarrow> episode_id option \<Rightarrow> (verb \<times> string) list \<Rightarrow> ctx \<Rightarrow> ctx" where
  "emit_demotions t ep [] c = c"
| "emit_demotions t ep ((v, reason) # rest) c =
     emit_demotions t ep rest (emit (grant_change t ep v GS_Active GS_Demoted reason t) c)"

definition episode_ref :: "session_fsm \<Rightarrow> episode_id option" where
  "episode_ref s = map_option ep_id (episode s)"

definition apply_pending_demotions :: "mono_ns \<Rightarrow> ctx \<Rightarrow> ctx" where
  "apply_pending_demotions t c =
     (let gs = grants (st c);
          changes = List.map_filter
            (\<lambda>g. map_option (\<lambda>reason. (gh_verb g, reason)) (snd (apply_pending g))) gs
      in emit_demotions t (episode_ref (st c)) changes
           (put (\<lambda>s. s\<lparr>grants := map (\<lambda>g. fst (apply_pending g)) gs\<rparr>) c))"

definition close_run ::
  "mono_ns \<Rightarrow> phase \<Rightarrow> string \<Rightarrow> terminal_outcome option \<Rightarrow> bool \<Rightarrow> ctx \<Rightarrow> ctx option" where
  "close_run t to reason outcome release_claim c = do {
     c \<leftarrow> (if release_claim \<and> gate_mode (st c) \<noteq> GM_Passthrough
           then set_gate t GM_Passthrough reason c else Some c);
     c \<leftarrow> transition t to reason outcome c;
     c \<leftarrow> (if release_claim then take_claim t reason c else Some c);
     let c = push (CancelTimer EngageTimeout) c;
     let c = push (CancelTimer ChunkBoundaryCap) c;
     let c = push (CancelTimer ResetWindowTimeout) c;
     let c = push (CancelTimer AgentInviteTimeout) c;
     let c = put (\<lambda>s. s\<lparr>engage_stage := None, engage_timed_out := False,
                        pending_lease := None\<rparr>) c;
     Some (apply_pending_demotions t c) }"

definition enter_terminal ::
  "mono_ns \<Rightarrow> terminal_outcome \<Rightarrow> string \<Rightarrow> bool \<Rightarrow> ctx \<Rightarrow> ctx option" where
  "enter_terminal t outcome reason release_claim c =
     close_run t (Terminal outcome) reason (Some outcome) release_claim c"

subsection \<open>Reset windows\<close>

definition open_reset_window :: "mono_ns \<Rightarrow> reset_kind \<Rightarrow> window_spec \<Rightarrow> ctx \<Rightarrow> ctx option" where
  "open_reset_window t kind spec c = do {
     c \<leftarrow> episode_mut (\<lambda>e. e\<lparr>reset_window := Some
             \<lparr>rw_kind = kind, rw_expected = ws_expected spec, rw_engaged = False,
              rw_prompt = ws_prompt spec\<rparr>\<rparr>) c;
     e \<leftarrow> episode (st c);
     let c = emit (reset_window_event t (ep_id e) RW_Opened kind (ws_prompt spec)
                     (ws_expected spec) [] None) c;
     Some (push (ArmTimer ResetWindowTimeout (saturating_add t (ws_timeout_ns spec))) c) }"

definition enter_post_reset :: "mono_ns \<Rightarrow> terminal_outcome \<Rightarrow> string \<Rightarrow> ctx \<Rightarrow> ctx option" where
  "enter_post_reset t outcome reason c = do {
     c \<leftarrow> episode_mut (\<lambda>e. e\<lparr>pinned_outcome := Some outcome\<rparr>) c;
     c \<leftarrow> close_run t PostReset reason (Some outcome) True c;
     e \<leftarrow> episode (st c);
     (case post_window e of
        Some spec \<Rightarrow> open_reset_window t RK_Post spec c
      | None \<Rightarrow> Some (push (RunPostReset (ep_id e)) c)) }"

fun run_started :: "phase \<Rightarrow> bool" where
  "run_started Running = True"
| "run_started (Intervention _) = True"
| "run_started _ = False"

definition request_terminal :: "mono_ns \<Rightarrow> terminal_outcome \<Rightarrow> string \<Rightarrow> ctx \<Rightarrow> ctx option" where
  "request_terminal t outcome reason c = do {
     e \<leftarrow> episode (st c);
     if post_reset_declared e \<and> run_started (ep_phase e)
     then enter_post_reset t outcome reason c
     else enter_terminal t outcome reason True c }"

text \<open>The choice between L1 and L6 that both engage paths make.\<close>

definition lease_op_to :: "lease_state \<Rightarrow> client_id \<Rightarrow> lease_op_kind" where
  "lease_op_to l to = (case holder l of
     Some (frm, _) \<Rightarrow> Op_Handoff frm to
   | None \<Rightarrow> Op_Acquire to)"

definition request_mint :: "pending_lease_op \<Rightarrow> ctx \<Rightarrow> ctx" where
  "request_mint p c = push (MintLeaseToken p) (put (\<lambda>s. s\<lparr>pending_lease := Some p\<rparr>) c)"

definition begin_reset_engage :: "ctx \<Rightarrow> ctx option" where
  "begin_reset_engage c = do {
     cl \<leftarrow> claim (st c);
     Some (request_mint \<lparr>po_op = lease_op_to (lease (st c)) (claim_client cl),
                         po_then = ResetEngageComplete\<rparr> c) }"

definition apply_post_reset_result :: "mono_ns \<Rightarrow> bool \<Rightarrow> string \<Rightarrow> ctx \<Rightarrow> ctx option" where
  "apply_post_reset_result t ok detail c = do {
     e \<leftarrow> episode (st c);
     pinned \<leftarrow> pinned_outcome e;
     if ok then do {
       let c = emit (post_reset_event t (ep_id e) True detail pinned) c;
       close_run t (Terminal pinned) ''post-reset complete'' (Some pinned) True c }
     else do {
       c \<leftarrow> episode_mut (\<lambda>e. e\<lparr>post_reset_failed := True\<rparr>) c;
       let c = push (SetPostResetFailed (ep_id e)) c;
       let c = emit (post_reset_event t (ep_id e) False detail pinned) c;
       let c = emit (fault_event t (Some (ep_id e)) FK_PreconditionFail ''post-reset''
                       ''post-reset cleanup failed; pinned outcome stands'') c;
       close_run t (Terminal pinned) ''post-reset failed'' (Some pinned) True c } }"

definition apply_reset_result :: "mono_ns \<Rightarrow> bool \<Rightarrow> bool option \<Rightarrow> ctx \<Rightarrow> ctx option" where
  "apply_reset_result t ok verified c = do {
     e \<leftarrow> episode (st c);
     if \<not> ok then do {
       let c = emit (fault_event t (Some (ep_id e)) FK_PreconditionFail ''reset-pipeline''
                       ''reset failed; strategies exhausted'') c;
       enter_terminal t Abort ''reset failed'' True c }
     else do {
       c \<leftarrow> episode_mut (\<lambda>e. e\<lparr>reset_ok := True\<rparr>) c;
       let mode = ep_verification e;
       c \<leftarrow> (case verified of
               None \<Rightarrow> Some c
             | Some v \<Rightarrow> do {
                 let c = emit (reset_verification_event t (ep_id e) mode v False) c;
                 if v then episode_mut (\<lambda>e. e\<lparr>ep_verified := True\<rparr>) c else Some c });
       e \<leftarrow> episode (st c);
       (case mode of
          Blocking \<Rightarrow>
            if ep_verified e then transition t Ready ''reset verified'' None c else Some c
        | OptimisticAsync \<Rightarrow> do {
            c \<leftarrow> episode_mut (\<lambda>e. e\<lparr>optimistic_entry := \<not> ep_verified e\<rparr>) c;
            transition t Ready ''optimistic entry'' None c }) } }"

definition timeout_close :: "mono_ns \<Rightarrow> reset_kind option \<Rightarrow> ctx \<Rightarrow> ctx option" where
  "timeout_close t kind c = do {
     e \<leftarrow> episode (st c);
     if kind = Some RK_Post then do {
       pinned \<leftarrow> pinned_outcome e;
       c \<leftarrow> episode_mut (\<lambda>e. e\<lparr>post_reset_failed := True\<rparr>) c;
       let c = push (SetPostResetFailed (ep_id e)) c;
       let c = emit (fault_event t (Some (ep_id e)) FK_PreconditionFail ''post-reset''
                       ''post-reset window timed out; pinned outcome stands'') c;
       close_run t (Terminal pinned) ''post-reset timeout'' (Some pinned) True c }
     else do {
       let c = emit (fault_event t (Some (ep_id e)) FK_PreconditionFail ''reset-pipeline''
                       ''reset window timed out'') c;
       enter_terminal t Abort ''reset window timeout'' True c } }"

definition close_reset_window :: "mono_ns \<Rightarrow> handback_then \<Rightarrow> ctx \<Rightarrow> ctx option" where
  "close_reset_window t thn c = do {
     c \<leftarrow> (if gate_mode (st c) = GM_Reset
           then set_gate t GM_Passthrough ''reset window closed'' c else Some c);
     c \<leftarrow> take_claim t ''reset window closed'' c;
     e \<leftarrow> episode (st c);
     let kind = map_option rw_kind (reset_window e);
     c \<leftarrow> episode_mut (\<lambda>e. e\<lparr>reset_window := None\<rparr>) c;
     (case thn of
        ApplyPreResult ok verified \<Rightarrow> apply_reset_result t ok verified c
      | ApplyPostResult ok \<Rightarrow> apply_post_reset_result t ok ''remote reset window'' c
      | TimeoutClose \<Rightarrow> timeout_close t kind c) }"

definition begin_reset_handback ::
  "session_config \<Rightarrow> mono_ns \<Rightarrow> handback_then \<Rightarrow> ctx \<Rightarrow> ctx option" where
  "begin_reset_handback cfg t thn c = do {
     e \<leftarrow> episode (st c);
     let engaged = (case reset_window e of None \<Rightarrow> False | Some w \<Rightarrow> rw_engaged w);
     (case (engaged, holder (lease (st c))) of
        (True, Some (frm, _)) \<Rightarrow>
          Some (request_mint \<lparr>po_op = Op_Handoff frm (loop_client cfg),
                              po_then = ResetHandback thn\<rparr> c)
      | _ \<Rightarrow> close_reset_window t thn c) }"

subsection \<open>Engage and release\<close>

definition mint_engage_handoff :: "ctx \<Rightarrow> ctx option" where
  "mint_engage_handoff c = do {
     cl \<leftarrow> claim (st c);
     let c = request_mint \<lparr>po_op = lease_op_to (lease (st c)) (claim_client cl),
                           po_then = EngageComplete\<rparr> c;
     Some (put (\<lambda>s. s\<lparr>engage_stage := Some AwaitLease\<rparr>) c) }"

definition effective_handoff :: "session_config \<Rightarrow> handoff_policy" where
  "effective_handoff cfg = (case handoff cfg of
     HP_Immediate b \<Rightarrow> if space_contains_delta cfg then HP_HoldFirst else HP_Immediate b
   | p \<Rightarrow> p)"

definition begin_engage :: "session_config \<Rightarrow> mono_ns \<Rightarrow> ctx \<Rightarrow> ctx option" where
  "begin_engage cfg t c = do {
     cl \<leftarrow> claim (st c);
     c \<leftarrow> transition t (Intervention IP_Engage) ''engage'' None c;
     e \<leftarrow> episode (st c);
     let c = emit (intervention_event t (ep_id e) IP_Engage (cl_id cl)) c;
     c \<leftarrow> (if agent_invited e \<and> \<not> agent_engaged e then do {
             c \<leftarrow> episode_mut (\<lambda>e. e\<lparr>agent_engaged := True\<rparr>) c;
             Some (push (CancelTimer AgentInviteTimeout) c) }
           else Some c);
     let c = push (ArmTimer EngageTimeout (saturating_add t (engage_timeout_ns cfg))) c;
     (case effective_handoff cfg of
        HP_HoldFirst \<Rightarrow>
          Some (put (\<lambda>s. s\<lparr>engage_stage := Some AwaitHoldOk\<rparr>) (push (RequestVerb V_Hold) c))
      | HP_Immediate _ \<Rightarrow> mint_engage_handoff c
      | HP_ChunkBoundary max_wait_ns \<Rightarrow>
          Some (put (\<lambda>s. s\<lparr>engage_stage := Some AwaitChunkBoundary\<rparr>)
            (if 0 < max_wait_ns
             then push (ArmTimer ChunkBoundaryCap (saturating_add t max_wait_ns)) c
             else c))) }"

definition begin_release :: "session_config \<Rightarrow> mono_ns \<Rightarrow> ctx \<Rightarrow> ctx option" where
  "begin_release cfg t c = do {
     cl \<leftarrow> claim (st c);
     e \<leftarrow> episode (st c);
     c \<leftarrow> episode_mut (\<lambda>e. e\<lparr>ep_phase := Intervention IP_Release\<rparr>) c;
     let c = emit (intervention_event t (ep_id e) IP_Release (cl_id cl)) c;
     let c = push ReprimePolicy c;
     (frm, _) \<leftarrow> holder (lease (st c));
     Some (request_mint \<lparr>po_op = Op_Handoff frm (loop_client cfg),
                         po_then = ReleaseComplete\<rparr> c) }"

subsection \<open>Closing a step\<close>

fun set_gate_effect :: "effect \<Rightarrow> gate_mode option" where
  "set_gate_effect (SetGateMode m) = Some m"
| "set_gate_effect _ = None"

definition last_gate_mode :: "effect list \<Rightarrow> gate_mode option" where
  "last_gate_mode efs = find_map set_gate_effect (rev efs)"

definition finish :: "gate_mode \<times> bool \<Rightarrow> ctx \<Rightarrow> ctx" where
  "finish entry c =
     (if gate_plan_inputs (st c) \<noteq> entry \<and> last_gate_mode (effects c) \<noteq> Some (gate_mode (st c))
      then push (SetGateMode (gate_mode (st c))) c else c)"

fun window_admits :: "actor_kind \<Rightarrow> actor_kind \<Rightarrow> bool" where
  "window_admits AK_Teleoperator actor \<longleftrightarrow> actor = AK_Teleoperator \<or> actor = AK_SiteOperator"
| "window_admits expected actor \<longleftrightarrow> actor = expected"

fun retake_mode :: "actor_kind \<Rightarrow> reset_verification_mode" where
  "retake_mode AK_Teleoperator = OptimisticAsync"
| "retake_mode AK_SiteOperator = OptimisticAsync"
| "retake_mode AK_Agent = Blocking"
| "retake_mode AK_Policy = Blocking"
| "retake_mode AK_System = Blocking"
| "retake_mode AK_Custom = Blocking"

end
