(* ===== verification/Waddle_Step.thy ===== *)
theory Waddle_Step
  imports Waddle_Session
begin

text \<open>
  The composed session machine, second half: one handler per event row of
  \<^verbatim>\<open>waddle_fsm::session::step\<close>, and \<open>step\<close> itself. A handler returns
  \<open>None\<close> when the code panics, \<open>Some (Inl reason)\<close> for
  \<^verbatim>\<open>Err(Rejected)\<close> and \<open>Some (Inr c)\<close> for the context the row ends with;
  \<open>step\<close> closes the context with \<open>finish\<close>.
\<close>

type_synonym handler_result = "(string + ctx) option"

abbreviation reject :: "string \<Rightarrow> handler_result" where
  "reject reason \<equiv> Some (Inl reason)"

abbreviation accept :: "ctx \<Rightarrow> handler_result" where
  "accept c \<equiv> Some (Inr c)"

abbreviation run :: "ctx option \<Rightarrow> handler_result" where
  "run m \<equiv> map_option Inr m"

subsection \<open>Episode rows\<close>

definition new_episode ::
  "episode_id \<Rightarrow> reset_verification_mode \<Rightarrow> bool \<Rightarrow> episode_id option \<Rightarrow> bool \<Rightarrow>
   window_spec option \<Rightarrow> agent_invite option \<Rightarrow> episode_state" where
  "new_episode i ver born par post_reset post_win invite =
     (episode_open_state i ver born par)
       \<lparr>post_reset_declared := post_reset \<or> post_win \<noteq> None,
        post_window := post_win, agent_invited := invite \<noteq> None\<rparr>"

definition open_invite :: "episode_id \<Rightarrow> agent_invite option \<Rightarrow> mono_ns \<Rightarrow> ctx \<Rightarrow> ctx" where
  "open_invite i invite t c = (case invite of
     None \<Rightarrow> c
   | Some a \<Rightarrow>
       push (ArmTimer AgentInviteTimeout (saturating_add t (ai_timeout_ns a)))
         (emit (agent_invite_event t i (ai_prompt a) (ai_timeout_ns a) (ai_task_metadata a)) c))"

definition open_window_and_lease ::
  "session_config \<Rightarrow> window_spec option \<Rightarrow> mono_ns \<Rightarrow> ctx \<Rightarrow> ctx option" where
  "open_window_and_lease cfg pre_win t c = do {
     c \<leftarrow> (case pre_win of
             Some spec \<Rightarrow>
               if claim (st c) = None then open_reset_window t RK_Pre spec c else Some c
           | None \<Rightarrow> Some c);
     Some (if lease (st c) = Vacant \<and> pending_lease (st c) = None
           then request_mint \<lparr>po_op = Op_Acquire (loop_client cfg), po_then = InitialAcquire\<rparr> c
           else c) }"

definition on_episode_open ::
  "session_config \<Rightarrow> episode_id \<Rightarrow> reset_verification_mode \<Rightarrow> bool \<Rightarrow> episode_id option \<Rightarrow>
   bool \<Rightarrow> window_spec option \<Rightarrow> window_spec option \<Rightarrow> agent_invite option \<Rightarrow> mono_ns \<Rightarrow>
   session_fsm \<Rightarrow> handler_result" where
  "on_episode_open cfg i ver born par post_reset pre_win post_win invite t s =
     (if active s then reject ''one active episode per session (N18)''
      else if born \<and> claim s = None then
        reject ''a born-claimed successor requires a held claim''
      else run (open_window_and_lease cfg pre_win t
        (open_invite i invite t
          (emit (state_transition t i None SK_Resetting ''open'' None)
            (put (\<lambda>s. s\<lparr>episode :=
                Some (new_episode i ver born par post_reset post_win invite)\<rparr>)
              (begin_ctx s))))))"

definition on_reset_result ::
  "bool \<Rightarrow> bool option \<Rightarrow> mono_ns \<Rightarrow> session_fsm \<Rightarrow> handler_result" where
  "on_reset_result ok verified t s =
     (if episode_phase s \<noteq> Some Resetting then reject ''reset_result outside RESETTING''
      else do {
        e \<leftarrow> episode s;
        if reset_window e \<noteq> None then
          reject ''reset_result illegal while a remote reset window is open (E19b)''
        else run (apply_reset_result t ok verified (begin_ctx s)) })"

definition on_verification_result ::
  "bool \<Rightarrow> bool \<Rightarrow> mono_ns \<Rightarrow> session_fsm \<Rightarrow> handler_result" where
  "on_verification_result verified invalidated_async t s =
     (case episode s of
        None \<Rightarrow> reject ''no episode''
      | Some e \<Rightarrow>
          let c = begin_ctx s; mode = ep_verification e in
          if verified then run (do {
            let c = emit (reset_verification_event t (ep_id e) mode True False) c;
            c \<leftarrow> episode_mut (\<lambda>e. e\<lparr>ep_verified := True\<rparr>) c;
            e \<leftarrow> episode (st c);
            if episode_phase s = Some Resetting \<and> mode = Blocking \<and> reset_ok e
            then transition t Ready ''reset verified'' None c else Some c })
          else if optimistic_entry e \<or> invalidated_async then run (do {
            let c = emit (reset_verification_event t (ep_id e) mode False True) c;
            c \<leftarrow> episode_mut (\<lambda>e. e\<lparr>reset_unverified := True\<rparr>) c;
            Some (push (SetResetUnverified (ep_id e)) c) })
          else accept (emit (reset_verification_event t (ep_id e) mode False False) c))"

definition on_start :: "mono_ns \<Rightarrow> session_fsm \<Rightarrow> handler_result" where
  "on_start t s =
     (if episode_phase s \<noteq> Some Ready then reject ''start outside READY''
      else run (transition t Running ''start'' None (begin_ctx s)))"

definition on_gate_tick :: "mono_ns \<Rightarrow> session_fsm \<Rightarrow> handler_result" where
  "on_gate_tick t s =
     (if episode_phase s = Some Ready
      then run (transition t Running ''first gated action'' None (begin_ctx s))
      else accept (begin_ctx s))"

subsection \<open>Claim rows\<close>

definition mk_claim :: "claim_id \<Rightarrow> string \<Rightarrow> actor_ref \<Rightarrow> bool \<Rightarrow> active_claim" where
  "mk_claim i src actor self =
     \<lparr>cl_id = i, cl_source = src, cl_actor = actor, cl_self_initiated = self\<rparr>"

definition on_claim_requested ::
  "claim_id \<Rightarrow> string \<Rightarrow> actor_ref \<Rightarrow> bool \<Rightarrow> mono_ns \<Rightarrow> session_fsm \<Rightarrow> handler_result" where
  "on_claim_requested i src actor self t s =
     (if \<not> active s then reject ''claim_request without an active episode''
      else do {
        e \<leftarrow> episode s;
        accept (emit (claim_event t (ep_id e) CE_Requested (mk_claim i src actor self) [])
                  (begin_ctx s)) })"

text \<open>The C6 branch applies when a window is open, not yet engaged, in a reset phase.\<close>

definition claimable_window :: "episode_state \<Rightarrow> reset_window_state option" where
  "claimable_window e =
     (if ep_phase e = Resetting \<or> ep_phase e = PostReset then
        (case reset_window e of
           Some w \<Rightarrow> if rw_engaged w then None else Some w
         | None \<Rightarrow> None)
      else None)"

definition on_claim_granted ::
  "claim_id \<Rightarrow> string \<Rightarrow> actor_ref \<Rightarrow> bool \<Rightarrow> mono_ns \<Rightarrow> session_fsm \<Rightarrow> handler_result" where
  "on_claim_granted i src actor self t s =
     (if \<not> active s then reject ''claim_granted without an active episode''
      else if claim s \<noteq> None then reject ''conflicting active claim (one claim in v0)''
      else do {
        e \<leftarrow> episode s;
        let c = begin_ctx s;
        let cl = mk_claim i src actor self;
        let grant = accept (put (\<lambda>s. s\<lparr>claim := Some cl\<rparr>)
                      (emit (claim_event t (ep_id e) CE_Granted cl []) c));
        (case claimable_window e of
           Some w \<Rightarrow>
             if \<not> window_admits (rw_expected w) (a_kind actor) then
               reject ''reset claim actor does not match the window's expected actor (C6)''
             else grant
         | None \<Rightarrow>
             if agent_invited e \<and> a_kind actor \<noteq> AK_Agent then
               accept (emit (claim_event t (ep_id e) CE_Denied cl
                 ''agent-invited episode admits ACTOR_KIND_AGENT only (C8)'') c)
             else grant) })"

fun in_intervention :: "phase option \<Rightarrow> bool" where
  "in_intervention (Some (Intervention _)) = True"
| "in_intervention _ = False"

definition on_claim_released :: "claim_id \<Rightarrow> mono_ns \<Rightarrow> session_fsm \<Rightarrow> handler_result" where
  "on_claim_released i t s =
     (case claim s of
        None \<Rightarrow> reject ''no active claim''
      | Some cl \<Rightarrow>
          if cl_id cl \<noteq> i then reject ''claim id mismatch''
          else if in_intervention (episode_phase s) then
            reject ''release the intervention (release/retake), not the claim''
          else run (take_claim t [] (begin_ctx s)))"

definition holds_claim :: "claim_id \<Rightarrow> session_fsm \<Rightarrow> bool" where
  "holds_claim i s \<longleftrightarrow> (case claim s of None \<Rightarrow> False | Some cl \<Rightarrow> cl_id cl = i)"

subsection \<open>Intervention rows\<close>

definition on_engage :: "session_config \<Rightarrow> claim_id \<Rightarrow> mono_ns \<Rightarrow> session_fsm \<Rightarrow> handler_result" where
  "on_engage cfg i t s =
     (if episode_phase s \<noteq> Some Running then reject ''engage outside RUNNING (E7)''
      else case claim s of
        None \<Rightarrow> reject ''engage without a granted claim''
      | Some cl \<Rightarrow>
          if cl_id cl = i then run (begin_engage cfg t (begin_ctx s))
          else reject ''engage for a claim that is not active'')"

definition on_chunk_boundary :: "session_fsm \<Rightarrow> handler_result" where
  "on_chunk_boundary s =
     (if engage_stage s = Some AwaitChunkBoundary
      then run (mint_engage_handoff (push (CancelTimer ChunkBoundaryCap) (begin_ctx s)))
      else accept (begin_ctx s))"

definition on_release :: "session_config \<Rightarrow> claim_id \<Rightarrow> mono_ns \<Rightarrow> session_fsm \<Rightarrow> handler_result" where
  "on_release cfg i t s =
     (if episode_phase s \<noteq> Some (Intervention IP_Settle) then
        reject ''release outside SETTLE (E8)''
      else if \<not> holds_claim i s then reject ''release for a claim that is not active''
      else run (begin_release cfg t (begin_ctx s)))"

definition retake_legal :: "session_fsm \<Rightarrow> bool" where
  "retake_legal s \<longleftrightarrow> episode_phase s = Some (Intervention IP_Settle) \<or>
     episode_phase s = Some (Intervention IP_Engage) \<and> engage_timed_out s"

definition on_retake ::
  "claim_id \<Rightarrow> actor_kind \<Rightarrow> episode_id \<Rightarrow> mono_ns \<Rightarrow> session_fsm \<Rightarrow> handler_result" where
  "on_retake i initiator successor t s =
     (if \<not> retake_legal s then
        reject ''retake is legal from SETTLE (or ENGAGE after the settle timeout)''
      else if \<not> holds_claim i s then reject ''retake for a claim that is not active''
      else run (do {
        e \<leftarrow> episode s;
        let c = emit (intervention_event t (ep_id e) IP_Retake i) (begin_ctx s);
        c \<leftarrow> enter_terminal t AbortedRetake ''retake'' False c;
        Some (push (OpenSuccessor (ep_id e) successor i True (retake_mode initiator)) c) }))"

definition clutch_claim :: "session_config \<Rightarrow> u32 \<Rightarrow> active_claim" where
  "clutch_claim cfg n =
     mk_claim (''clutch-'' @ dec (unat n)) (clutch_source cfg) (of_kind (clutch_actor cfg)) True"

definition clutch_engage :: "session_config \<Rightarrow> mono_ns \<Rightarrow> session_fsm \<Rightarrow> handler_result" where
  "clutch_engage cfg t s =
     (if \<not> (claim s = None \<and> episode_phase s = Some Running) then accept (begin_ctx s)
      else run (do {
        e \<leftarrow> episode s;
        let c = put (\<lambda>s. s\<lparr>clutch_seq := clutch_seq s + 1\<rparr>) (begin_ctx s);
        let cl = clutch_claim cfg (clutch_seq (st c));
        if \<not> agent_invited e \<or> clutch_actor cfg = AK_Agent then do {
          let c = emit (claim_event t (ep_id e) CE_Requested cl ''self-initiated (clutch)'') c;
          let c = emit (claim_event t (ep_id e) CE_Granted cl ''self-initiated (clutch)'') c;
          begin_engage cfg t (put (\<lambda>s. s\<lparr>claim := Some cl\<rparr>) c) }
        else Some (emit (claim_event t (ep_id e) CE_Denied cl
                     ''agent-invited episode admits ACTOR_KIND_AGENT only (C8)'') c) }))"

definition clutch_disengage :: "session_config \<Rightarrow> mono_ns \<Rightarrow> session_fsm \<Rightarrow> handler_result" where
  "clutch_disengage cfg t s =
     (if episode_phase s = Some (Intervention IP_Settle) \<and>
         (case claim s of None \<Rightarrow> False | Some cl \<Rightarrow> cl_self_initiated cl)
      then run (begin_release cfg t (begin_ctx s))
      else accept (begin_ctx s))"

definition on_clutch :: "session_config \<Rightarrow> bool \<Rightarrow> mono_ns \<Rightarrow> session_fsm \<Rightarrow> handler_result" where
  "on_clutch cfg engaged t s =
     (if engaged then clutch_engage cfg t s else clutch_disengage cfg t s)"

definition on_verb_result ::
  "verb \<Rightarrow> bool \<Rightarrow> fault_kind option \<Rightarrow> mono_ns \<Rightarrow> session_fsm \<Rightarrow> handler_result" where
  "on_verb_result v ok fault t s =
     (if engage_stage s = Some AwaitHoldOk \<and> v = V_Hold then
        if ok then run (mint_engage_handoff (begin_ctx s))
        else do {
          e \<leftarrow> episode s;
          accept (emit (fault_event t (Some (ep_id e))
                    (case fault of None \<Rightarrow> FK_AdapterError | Some k \<Rightarrow> k) ''engage''
                    ''hold failed during HOLD_FIRST engage; writers remain stopped'')
                  (begin_ctx s)) }
      else if \<not> ok \<and> fault = Some FK_LeaseDenied then
        accept (emit (fault_event t (episode_ref s) FK_LeaseDenied ''verb''
                  ''send from non-holder; pause signal'') (begin_ctx s))
      else accept (begin_ctx s))"

subsection \<open>Lease rows\<close>

fun pending_cmd :: "lease_op_kind \<Rightarrow> lease_id \<Rightarrow> lease_cmd" where
  "pending_cmd (Op_Acquire c) minted = LC_Acquire c minted"
| "pending_cmd (Op_Handoff frm to) minted = LC_Handoff frm to minted"

definition stale_reset_mint :: "session_fsm \<Rightarrow> pending_lease_op \<Rightarrow> bool" where
  "stale_reset_mint s p \<longleftrightarrow> po_then p = ResetEngageComplete \<and>
     (claim s = None \<or> (case episode s of None \<Rightarrow> True | Some e \<Rightarrow> reset_window e = None))"

definition after_engage :: "mono_ns \<Rightarrow> ctx \<Rightarrow> ctx option" where
  "after_engage t c = do {
     let c = put (\<lambda>s. s\<lparr>engage_stage := None, engage_timed_out := False\<rparr>) c;
     let c = push (CancelTimer EngageTimeout) c;
     cl \<leftarrow> claim (st c);
     e \<leftarrow> episode (st c);
     c \<leftarrow> episode_mut (\<lambda>e. e\<lparr>ep_phase := Intervention IP_Settle\<rparr>) c;
     let c = emit (intervention_event t (ep_id e) IP_Settle (cl_id cl)) c;
     set_gate t GM_Intervention ''engage'' c }"

definition after_release :: "mono_ns \<Rightarrow> ctx \<Rightarrow> ctx option" where
  "after_release t c = do {
     c \<leftarrow> set_gate t GM_Passthrough ''release'' c;
     c \<leftarrow> transition t Running ''release'' None c;
     take_claim t ''release'' c }"

definition after_reset_engage :: "mono_ns \<Rightarrow> ctx \<Rightarrow> ctx option" where
  "after_reset_engage t c = do {
     cl \<leftarrow> claim (st c);
     c \<leftarrow> episode_mut (\<lambda>e. e\<lparr>reset_window :=
             map_option (\<lambda>w. w\<lparr>rw_engaged := True\<rparr>) (reset_window e)\<rparr>) c;
     c \<leftarrow> set_gate t GM_Reset ''reset window engaged'' c;
     e \<leftarrow> episode (st c);
     w \<leftarrow> reset_window e;
     Some (emit (reset_window_event t (ep_id e) RW_Engaged (rw_kind w) (rw_prompt w)
                   (rw_expected w) (cl_id cl) None) c) }"

fun after_lease_applied :: "mono_ns \<Rightarrow> after_lease \<Rightarrow> ctx \<Rightarrow> ctx option" where
  "after_lease_applied t InitialAcquire c = Some c"
| "after_lease_applied t EngageComplete c = after_engage t c"
| "after_lease_applied t ReleaseComplete c = after_release t c"
| "after_lease_applied t ResetEngageComplete c = after_reset_engage t c"
| "after_lease_applied t (ResetHandback thn) c = close_reset_window t thn c"

definition lease_outcome_emit ::
  "session_config \<Rightarrow> mono_ns \<Rightarrow> lease_event_kind \<Rightarrow> (lease_id \<times> client_id) option \<Rightarrow> string \<Rightarrow>
   ctx \<Rightarrow> ctx" where
  "lease_outcome_emit cfg t kind l detail c =
     emit (lease_event t (episode_ref (st c)) kind l (enforcement cfg) detail) c"

definition on_lease_token_minted ::
  "session_config \<Rightarrow> lease_id \<Rightarrow> mono_ns \<Rightarrow> session_fsm \<Rightarrow> handler_result" where
  "on_lease_token_minted cfg minted t s =
     (case pending_lease s of
        None \<Rightarrow> reject ''no pending lease operation''
      | Some p \<Rightarrow>
          let c = put (\<lambda>s. s\<lparr>pending_lease := None\<rparr>) (begin_ctx s) in
          if stale_reset_mint s p then
            accept (lease_outcome_emit cfg t LK_Denied None
              ''stale reset-engage mint: the reset claim closed before the token applied'' c)
          else
            let (l', outcome) = lease_step (lease s) (pending_cmd (po_op p) minted);
                c = put (\<lambda>s. s\<lparr>lease := l'\<rparr>) c in
            (case outcome of
               LO_Granted l cl _ \<Rightarrow>
                 run (after_lease_applied t (po_then p)
                   (lease_outcome_emit cfg t LK_Acquired (Some (l, cl)) [] c))
             | LO_HandedOff old new to \<Rightarrow>
                 run (after_lease_applied t (po_then p)
                   (lease_outcome_emit cfg t LK_HandedOff (Some (new, to)) (''from '' @ old) c))
             | LO_Denied detail \<Rightarrow>
                 accept (lease_outcome_emit cfg t LK_Denied None detail c)
             | LO_Released _ \<Rightarrow> None
             | LO_RevokedAll _ \<Rightarrow> None))"

definition estop_post_reset :: "mono_ns \<Rightarrow> ctx \<Rightarrow> ctx option" where
  "estop_post_reset t c = do {
     e \<leftarrow> episode (st c);
     pinned \<leftarrow> pinned_outcome e;
     c \<leftarrow> episode_mut (\<lambda>e. e\<lparr>post_reset_failed := True\<rparr>) c;
     let c = push (SetPostResetFailed (ep_id e)) c;
     c \<leftarrow> (case reset_window e of
             None \<Rightarrow> Some c
           | Some w \<Rightarrow>
               episode_mut (\<lambda>e. e\<lparr>reset_window := None\<rparr>)
                 (emit (reset_window_event t (ep_id e) RW_Cancelled (rw_kind w) (rw_prompt w)
                          (rw_expected w) [] None) c));
     close_run t (Terminal pinned) ''estop'' (Some pinned) True c }"

definition on_estop :: "session_config \<Rightarrow> mono_ns \<Rightarrow> session_fsm \<Rightarrow> handler_result" where
  "on_estop cfg t s =
     (let (l', outcome) = lease_step (lease s) LC_RevokeAll;
          c = put (\<lambda>s. s\<lparr>lease := l'\<rparr>) (begin_ctx s);
          c = (case outcome of
                 LO_RevokedAll was \<Rightarrow>
                   lease_outcome_emit cfg t LK_RevokedAll None
                     (case was of None \<Rightarrow> [] | Some l \<Rightarrow> ''revoked '' @ l) c
               | _ \<Rightarrow> c);
          c = emit (fault_event t (episode_ref s) FK_Estop ''estop'' ''emergency stop'') c;
          c = push (RequestVerb V_Estop) c;
          c = put (\<lambda>s. s\<lparr>pending_lease := None\<rparr>) c in
      if episode_phase s = Some PostReset then run (estop_post_reset t c)
      else if active s then run (enter_terminal t Abort ''estop'' True c)
      else accept c)"

subsection \<open>Closing rows\<close>

definition on_terminate :: "terminal_outcome \<Rightarrow> string \<Rightarrow> mono_ns \<Rightarrow> session_fsm \<Rightarrow> handler_result" where
  "on_terminate outcome reason t s =
     (if \<not> active s then reject ''terminate without an active episode (E12)''
      else if episode_phase s = Some PostReset then
        reject ''terminate rejected in POST_RESET (E14b)''
      else run (request_terminal t outcome reason (begin_ctx s)))"

definition on_judge_result :: "string \<Rightarrow> bool option \<Rightarrow> mono_ns \<Rightarrow> session_fsm \<Rightarrow> handler_result" where
  "on_judge_result judge passed t s =
     (case episode s of
        None \<Rightarrow> reject ''no episode''
      | Some e \<Rightarrow> accept (emit (judgment_event t (ep_id e) judge passed) (begin_ctx s)))"

definition on_mark :: "mark_kind \<Rightarrow> mono_ns \<Rightarrow> session_fsm \<Rightarrow> handler_result" where
  "on_mark kind t s =
     (if \<not> active s then reject ''mark without an active episode (E12)''
      else do {
        e \<leftarrow> episode s;
        let c = emit (mark_event t (ep_id e) (mark_kind_to_pb kind)) (begin_ctx s);
        (case (episode_phase s \<noteq> Some PostReset, mark_terminal_outcome kind) of
           (True, Some outcome) \<Rightarrow> run (request_terminal t outcome ''mark'' c)
         | _ \<Rightarrow> accept c) })"

subsection \<open>Grant rows\<close>

fun emit_grants ::
  "mono_ns \<Rightarrow> episode_id option \<Rightarrow> grant_status \<Rightarrow> grant_status \<Rightarrow> string \<Rightarrow> verb list \<Rightarrow>
   ctx \<Rightarrow> ctx" where
  "emit_grants t ep frm to reason [] c = c"
| "emit_grants t ep frm to reason (v # vs) c =
     emit_grants t ep frm to reason vs (emit (grant_change t ep v frm to reason t) c)"

definition on_proxy_signals ::
  "session_config \<Rightarrow> proxy_sample \<Rightarrow> mono_ns \<Rightarrow> session_fsm \<Rightarrow> handler_result" where
  "on_proxy_signals cfg sample t s =
     (let obs = map (\<lambda>g. (gh_verb g, observe sample (demote_after cfg) (promote_after cfg)
                            (hysteresis_ratio cfg) g)) (grants s);
          repromoted = [v. (v, g, ev) \<leftarrow> obs, ev = Some Repromoted];
          c = put (\<lambda>s. s\<lparr>grants := map (\<lambda>(v, g, ev). g) obs\<rparr>) (begin_ctx s);
          c = emit_grants t (episode_ref s) GS_Demoted GS_Active
                ''sustained recovery below hysteresis band'' repromoted c
      in accept (if active s then c else apply_pending_demotions t c))"

fun apply_directive ::
  "grant_change_directive \<Rightarrow> grant_health_entry list \<Rightarrow>
   (grant_status \<times> grant_health_entry list) option" where
  "apply_directive d [] = None"
| "apply_directive d (g # gs) =
     (if gh_verb g = gc_verb d
      then Some (gh_status g,
        g\<lparr>gh_status := gc_to d, partition_demoted := False, pending_demote := None\<rparr> # gs)
      else map_option (\<lambda>(frm, gs'). (frm, g # gs')) (apply_directive d gs))"

fun apply_directives ::
  "mono_ns \<Rightarrow> episode_id option \<Rightarrow> grant_change_directive list \<Rightarrow> ctx \<Rightarrow> ctx" where
  "apply_directives t ep [] c = c"
| "apply_directives t ep (d # ds) c =
     apply_directives t ep ds
       (case apply_directive d (grants (st c)) of
          None \<Rightarrow> c
        | Some (frm, gs) \<Rightarrow>
            emit (grant_change t ep (gc_verb d) frm (gc_to d) (gc_reason d) t)
              (put (\<lambda>s. s\<lparr>grants := gs\<rparr>) c))"

definition on_heartbeat_ack ::
  "grant_change_directive list \<Rightarrow> mono_ns \<Rightarrow> session_fsm \<Rightarrow> handler_result" where
  "on_heartbeat_ack changes t s =
     accept (apply_directives t (episode_ref s) changes (begin_ctx s))"

definition on_partition_start :: "session_config \<Rightarrow> mono_ns \<Rightarrow> session_fsm \<Rightarrow> handler_result" where
  "on_partition_start cfg t s =
     accept (push (ArmTimer HeartbeatStale (saturating_add t (heartbeat_timeout_ns cfg)))
       (put (\<lambda>s. s\<lparr>plane_connected := False\<rparr>) (begin_ctx s)))"

definition restore_partitioned :: "grant_health_entry \<Rightarrow> grant_health_entry" where
  "restore_partitioned g =
     (if partition_demoted g then g\<lparr>partition_demoted := False, gh_status := GS_Active\<rparr> else g)"

definition on_partition_end :: "mono_ns \<Rightarrow> session_fsm \<Rightarrow> handler_result" where
  "on_partition_end t s =
     (let c = put (\<lambda>s. s\<lparr>plane_connected := True, buffered_events := 0\<rparr>) (begin_ctx s);
          c = push (CancelTimer HeartbeatStale) c;
          restored = map gh_verb (filter partition_demoted (grants s));
          c = put (\<lambda>s. s\<lparr>grants := map restore_partitioned (grants s)\<rparr>) c
      in accept (emit_grants t (episode_ref s) GS_Demoted GS_Active
                   ''control plane reconnected'' restored c))"

subsection \<open>Timer rows\<close>

definition on_engage_timeout :: "session_fsm \<Rightarrow> handler_result" where
  "on_engage_timeout s =
     accept (if episode_phase s = Some (Intervention IP_Engage)
       then put (\<lambda>s. s\<lparr>engage_timed_out := True\<rparr>) (begin_ctx s) else begin_ctx s)"

definition on_chunk_boundary_cap :: "session_fsm \<Rightarrow> handler_result" where
  "on_chunk_boundary_cap s =
     (if engage_stage s = Some AwaitChunkBoundary
      then run (mint_engage_handoff (begin_ctx s)) else accept (begin_ctx s))"

definition cloud_dependent :: "grant_health_entry \<Rightarrow> bool" where
  "cloud_dependent g \<longleftrightarrow> gh_verb g = V_Send \<and> gh_status g = GS_Active"

definition on_heartbeat_stale :: "mono_ns \<Rightarrow> session_fsm \<Rightarrow> handler_result" where
  "on_heartbeat_stale t s =
     (if plane_connected s then accept (begin_ctx s)
      else
        let c = emit (tripwire_event t (episode_ref s) ''control-plane-heartbeat'' V_Hold
                        ''heartbeat stale during partition; requesting hold'') (begin_ctx s);
            c = push (RequestVerb V_Hold) c;
            demoted = map gh_verb (filter cloud_dependent (grants s));
            c = put (\<lambda>s. s\<lparr>grants := map (\<lambda>g. if cloud_dependent g
                       then g\<lparr>gh_status := GS_Demoted, partition_demoted := True\<rparr> else g)
                     (grants s)\<rparr>) c
        in accept (emit_grants t (episode_ref s) GS_Active GS_Demoted ''partition'' demoted c))"

definition abort_invite :: "mono_ns \<Rightarrow> string \<Rightarrow> session_fsm \<Rightarrow> ctx option" where
  "abort_invite t reason s = do {
     c \<leftarrow> episode_mut (\<lambda>e. e\<lparr>invite_aborted := True\<rparr>) (begin_ctx s);
     request_terminal t Abort reason c }"

definition on_agent_invite_timeout :: "mono_ns \<Rightarrow> session_fsm \<Rightarrow> handler_result" where
  "on_agent_invite_timeout t s =
     (case episode s of
        None \<Rightarrow> accept (begin_ctx s)
      | Some e \<Rightarrow>
          if invite_open e then run (abort_invite t ''no agent engaged'' s)
          else accept (begin_ctx s))"

definition on_reset_window_timeout ::
  "session_config \<Rightarrow> mono_ns \<Rightarrow> session_fsm \<Rightarrow> handler_result" where
  "on_reset_window_timeout cfg t s = do {
     e \<leftarrow> episode s;
     (case reset_window e of
        None \<Rightarrow> accept (begin_ctx s)
      | Some w \<Rightarrow>
          run (begin_reset_handback cfg t TimeoutClose
            (emit (reset_window_event t (ep_id e) RW_TimedOut (rw_kind w) (rw_prompt w)
                     (rw_expected w)
                     (case claim s of None \<Rightarrow> [] | Some cl \<Rightarrow> cl_id cl)
                     (Some \<lparr>pr_ok = False, pr_detail = ''reset window timed out''\<rparr>))
              (begin_ctx s)))) }"

fun on_timer :: "session_config \<Rightarrow> timer_id \<Rightarrow> mono_ns \<Rightarrow> session_fsm \<Rightarrow> handler_result" where
  "on_timer cfg EngageTimeout t s = on_engage_timeout s"
| "on_timer cfg ChunkBoundaryCap t s = on_chunk_boundary_cap s"
| "on_timer cfg HeartbeatStale t s = on_heartbeat_stale t s"
| "on_timer cfg AgentInviteTimeout t s = on_agent_invite_timeout t s"
| "on_timer cfg ResetWindowTimeout t s = on_reset_window_timeout cfg t s"

subsection \<open>Gate-mode, diagnostic and reset-window rows\<close>

definition on_stall_detected :: "mono_ns \<Rightarrow> session_fsm \<Rightarrow> handler_result" where
  "on_stall_detected t s =
     (if gate_mode s = GM_Intervention \<and> claim s \<noteq> None \<and> in_intervention (episode_phase s)
      then run (set_gate t GM_Bypass ''caller loop stalled while claimed'' (begin_ctx s))
      else accept (begin_ctx s))"

definition on_ticks_resumed :: "mono_ns \<Rightarrow> session_fsm \<Rightarrow> handler_result" where
  "on_ticks_resumed t s =
     (if gate_mode s = GM_Bypass
      then run (set_gate t GM_Intervention ''caller ticks resumed'' (begin_ctx s))
      else accept (begin_ctx s))"

definition on_dual_write ::
  "flt \<Rightarrow> int \<Rightarrow> string \<Rightarrow> mono_ns \<Rightarrow> session_fsm \<Rightarrow> handler_result" where
  "on_dual_write metric window trace t s =
     (if \<not> active s then reject ''dual-write detection without an active episode''
      else do {
        e \<leftarrow> episode s;
        accept (push (RequestVerb V_Hold)
          (emit (dual_write_event t (ep_id e) metric window trace V_Hold) (begin_ctx s))) })"

fun reject_detail :: "reject_reason \<Rightarrow> string" where
  "reject_detail (RR_Dims got want) =
     ''action carried '' @ dec got @ '' dims; declared action space wants '' @ dec want"
| "reject_detail (RR_NotExecutable why) = ''chunk refused: '' @ why"
| "reject_detail (RR_InertStepsSkipped skipped tot) =
     ''skipped '' @ dec skipped @ '' of '' @ dec tot @
     '' steps carrying nothing to dispatch (NOOP marker with no gripper command); '' @
     ''the rest executed''"

definition on_intervention_rejected ::
  "string \<Rightarrow> reject_reason \<Rightarrow> mono_ns \<Rightarrow> session_fsm \<Rightarrow> handler_result" where
  "on_intervention_rejected source reason t s =
     (if \<not> active s then reject ''intervention_rejected without an active episode''
      else do {
        e \<leftarrow> episode s;
        accept (emit (fault_event t (Some (ep_id e)) FK_ValidationError source
                  (reject_detail reason)) (begin_ctx s)) })"

definition on_post_reset_result :: "bool \<Rightarrow> string \<Rightarrow> mono_ns \<Rightarrow> session_fsm \<Rightarrow> handler_result" where
  "on_post_reset_result ok detail t s =
     (if episode_phase s \<noteq> Some PostReset then reject ''post_reset_result outside POST_RESET''
      else do {
        e \<leftarrow> episode s;
        if reset_window e \<noteq> None then
          reject ''post_reset_result illegal while a remote reset window is open (E19b)''
        else run (apply_post_reset_result t ok detail (begin_ctx s)) })"

definition reset_phase :: "session_fsm \<Rightarrow> bool" where
  "reset_phase s \<longleftrightarrow> episode_phase s = Some Resetting \<or> episode_phase s = Some PostReset"

definition on_reset_window_engage :: "claim_id \<Rightarrow> session_fsm \<Rightarrow> handler_result" where
  "on_reset_window_engage i s =
     (if \<not> reset_phase s then reject ''reset_window_engage outside a reset phase''
      else do {
        e \<leftarrow> episode s;
        (case reset_window e of
           None \<Rightarrow> reject ''no open reset window''
         | Some w \<Rightarrow>
             if rw_engaged w then reject ''reset window already engaged''
             else if \<not> holds_claim i s then
               reject ''reset_window_engage without the granted reset claim''
             else run (begin_reset_engage (begin_ctx s))) })"

definition engage_in_flight :: "session_fsm \<Rightarrow> bool" where
  "engage_in_flight s \<longleftrightarrow>
     (case pending_lease s of None \<Rightarrow> False | Some p \<Rightarrow> po_then p = ResetEngageComplete)"

fun window_result :: "reset_kind \<Rightarrow> bool \<Rightarrow> bool option \<Rightarrow> handback_then" where
  "window_result RK_Pre ok verified = ApplyPreResult ok verified"
| "window_result RK_Post ok verified = ApplyPostResult ok"

definition on_reset_window_complete ::
  "session_config \<Rightarrow> claim_id \<Rightarrow> bool \<Rightarrow> bool option \<Rightarrow> mono_ns \<Rightarrow> session_fsm \<Rightarrow> handler_result" where
  "on_reset_window_complete cfg i ok verified t s =
     (if \<not> reset_phase s then reject ''reset_window_complete outside a reset phase''
      else do {
        e \<leftarrow> episode s;
        (case reset_window e of
           None \<Rightarrow> reject ''no open reset window''
         | Some w \<Rightarrow>
             if \<not> holds_claim i s then
               reject ''reset_window_complete without the active reset claim''
             else if engage_in_flight s then
               reject ''reset window engage in flight; complete not honorable until it applies''
             else run (begin_reset_handback cfg t (window_result (rw_kind w) ok verified)
               (push (CancelTimer ResetWindowTimeout)
                 (emit (reset_window_event t (ep_id e) RW_Completed (rw_kind w) (rw_prompt w)
                          (rw_expected w) i (Some \<lparr>pr_ok = ok, pr_detail = []\<rparr>))
                   (begin_ctx s))))) })"

definition on_agent_task_denied :: "string \<Rightarrow> mono_ns \<Rightarrow> session_fsm \<Rightarrow> handler_result" where
  "on_agent_task_denied detail t s =
     (case episode s of
        None \<Rightarrow> reject ''agent_update{DENIED} without an episode''
      | Some e \<Rightarrow>
          if \<not> agent_invited e then
            reject ''agent_update{DENIED} on a non-agent-invited episode''
          else if \<not> invite_open e then
            reject ''agent task DENIED after the invite closed (E26b)''
          else run (abort_invite t
                 (if detail = [] then ''agent task denied'' else detail) s))"

subsection \<open>The step\<close>

fun handle :: "session_config \<Rightarrow> session_event \<Rightarrow> session_fsm \<Rightarrow> handler_result" where
  "handle cfg (EpisodeOpen i ver born par post_reset pre post invite t) s =
     on_episode_open cfg i ver born par post_reset pre post invite t s"
| "handle cfg (ResetResult ok verified t) s = on_reset_result ok verified t s"
| "handle cfg (VerificationResult verified invalidated t) s =
     on_verification_result verified invalidated t s"
| "handle cfg (Start t) s = on_start t s"
| "handle cfg (GateTick t) s = on_gate_tick t s"
| "handle cfg (ClaimRequested i src actor self t) s = on_claim_requested i src actor self t s"
| "handle cfg (ClaimGranted i src actor self t) s = on_claim_granted i src actor self t s"
| "handle cfg (ClaimReleased i t) s = on_claim_released i t s"
| "handle cfg (Engage i t) s = on_engage cfg i t s"
| "handle cfg (ChunkBoundaryReached t) s = on_chunk_boundary s"
| "handle cfg (Release i t) s = on_release cfg i t s"
| "handle cfg (Retake i initiator successor t) s = on_retake i initiator successor t s"
| "handle cfg (Clutch engaged t) s = on_clutch cfg engaged t s"
| "handle cfg (VerbResult v ok fault t) s = on_verb_result v ok fault t s"
| "handle cfg (LeaseTokenMinted minted t) s = on_lease_token_minted cfg minted t s"
| "handle cfg (Estop t) s = on_estop cfg t s"
| "handle cfg (Terminate outcome reason t) s = on_terminate outcome reason t s"
| "handle cfg (JudgeResult judge passed t) s = on_judge_result judge passed t s"
| "handle cfg (Mark kind t) s = on_mark kind t s"
| "handle cfg (ProxySignals sample t) s = on_proxy_signals cfg sample t s"
| "handle cfg (HeartbeatAck changes t) s = on_heartbeat_ack changes t s"
| "handle cfg (PartitionStart t) s = on_partition_start cfg t s"
| "handle cfg (PartitionEnd t) s = on_partition_end t s"
| "handle cfg (TimerFired i t) s = on_timer cfg i t s"
| "handle cfg (StallDetected t) s = on_stall_detected t s"
| "handle cfg (TicksResumed t) s = on_ticks_resumed t s"
| "handle cfg (DualWrite metric window trace t) s = on_dual_write metric window trace t s"
| "handle cfg (InterventionRejected source reason t) s =
     on_intervention_rejected source reason t s"
| "handle cfg (PostResetResult ok detail t) s = on_post_reset_result ok detail t s"
| "handle cfg (ResetWindowEngage i t) s = on_reset_window_engage i s"
| "handle cfg (ResetWindowComplete i ok verified t) s =
     on_reset_window_complete cfg i ok verified t s"
| "handle cfg (AgentTaskDenied detail t) s = on_agent_task_denied detail t s"

datatype step_result =
    Panic
  | Rejected string
  | Step (step_next: session_fsm) (step_effects: "effect list")

definition close_step :: "session_fsm \<Rightarrow> handler_result \<Rightarrow> step_result" where
  "close_step s r = (case r of
     None \<Rightarrow> Panic
   | Some (Inl reason) \<Rightarrow> Rejected reason
   | Some (Inr c) \<Rightarrow>
       let c = finish (gate_plan_inputs s) c in Step (st c) (effects c))"

definition step :: "session_config \<Rightarrow> session_fsm \<Rightarrow> session_event \<Rightarrow> step_result" where
  "step cfg s ev = close_step s (handle cfg ev s)"

text \<open>The state after an event: a rejected event leaves it unchanged, as every caller of
  \<^verbatim>\<open>step\<close> does.\<close>

definition after :: "session_config \<Rightarrow> session_fsm \<Rightarrow> session_event \<Rightarrow> session_fsm" where
  "after cfg s ev = (case step cfg s ev of Step s' _ \<Rightarrow> s' | _ \<Rightarrow> s)"

end
