(* ===== verification/Waddle_Context.thy ===== *)
theory Waddle_Context
  imports Waddle_Step
begin

text \<open>
  Frame lemmas of the context operations: what \<open>push\<close>, \<open>emit\<close>, \<open>put\<close> and
  the grant loops leave alone, as the collection \<open>ctx_simps\<close>. Emission changes only
  \<open>buffered_events\<close> and the effect list, so every other field is read through it.
\<close>

lemma st_begin_ctx [ctx_simps]: "st (begin_ctx s) = s"
  by (simp add: begin_ctx_def)

lemma effects_begin_ctx [ctx_simps]: "effects (begin_ctx s) = []"
  by (simp add: begin_ctx_def)

lemma st_push [ctx_simps]: "st (push ef c) = st c"
  by (simp add: push_def)

lemma effects_push [ctx_simps]: "effects (push ef c) = effects c @ [ef]"
  by (simp add: push_def)

lemma st_put [ctx_simps]: "st (put f c) = f (st c)"
  by (simp add: put_def)

lemma effects_put [ctx_simps]: "effects (put f c) = effects c"
  by (simp add: put_def)

lemma emit_frame [ctx_simps]:
  "episode (st (emit ev c)) = episode (st c)"
  "claim (st (emit ev c)) = claim (st c)"
  "lease (st (emit ev c)) = lease (st c)"
  "pending_lease (st (emit ev c)) = pending_lease (st c)"
  "gate_mode (st (emit ev c)) = gate_mode (st c)"
  "engage_stage (st (emit ev c)) = engage_stage (st c)"
  "engage_timed_out (st (emit ev c)) = engage_timed_out (st c)"
  "plane_connected (st (emit ev c)) = plane_connected (st c)"
  "grants (st (emit ev c)) = grants (st c)"
  "clutch_seq (st (emit ev c)) = clutch_seq (st c)"
  "effects (emit ev c) = effects c @ [Emit ev]"
  by (simp_all add: emit_def push_def)

text \<open>A fold of emissions is known by the fields it keeps and by the events it appends.\<close>

definition same_core :: "session_fsm \<Rightarrow> session_fsm \<Rightarrow> bool" where
  "same_core s s' \<longleftrightarrow> episode s' = episode s \<and> claim s' = claim s \<and> lease s' = lease s \<and>
     pending_lease s' = pending_lease s \<and> gate_mode s' = gate_mode s \<and>
     engage_stage s' = engage_stage s \<and> engage_timed_out s' = engage_timed_out s \<and>
     plane_connected s' = plane_connected s \<and> clutch_seq s' = clutch_seq s"

definition emits_only :: "ctx \<Rightarrow> ctx \<Rightarrow> bool" where
  "emits_only c c' \<longleftrightarrow> same_core (st c) (st c') \<and> (\<exists>evs. effects c' = effects c @ map Emit evs)"

lemma emits_only_refl [simp]: "emits_only c c"
  by (auto simp: emits_only_def same_core_def intro: exI [of _ "[]"])

lemma emits_only_trans: "emits_only c c' \<Longrightarrow> emits_only c' c'' \<Longrightarrow> emits_only c c''"
  by (auto simp: emits_only_def same_core_def simp flip: map_append)

lemma emits_only_emit: "emits_only c (emit ev c)"
  by (auto simp: emits_only_def same_core_def ctx_simps intro: exI [of _ "[ev]"])

lemma emits_only_put_grants: "emits_only c (put (\<lambda>s. s\<lparr>grants := gs\<rparr>) c)"
  by (auto simp: emits_only_def same_core_def ctx_simps intro: exI [of _ "[]"])

lemma emits_only_demotions: "emits_only c (emit_demotions t ep changes c)"
  by (induction t ep changes c rule: emit_demotions.induct)
    (auto intro: emits_only_trans emits_only_emit)

lemma emits_only_grants: "emits_only c (emit_grants t ep frm to reason vs c)"
  by (induction t ep frm to reason vs c rule: emit_grants.induct)
    (auto intro: emits_only_trans emits_only_emit)

lemma emits_only_apply_pending: "emits_only c (apply_pending_demotions t c)"
  unfolding apply_pending_demotions_def Let_def
  by (rule emits_only_trans [OF emits_only_put_grants emits_only_demotions])

lemma emits_only_directives: "emits_only c (apply_directives t ep ds c)"
proof (induction t ep ds c rule: apply_directives.induct)
  case (2 t ep d ds c)
  have "emits_only c (case apply_directive d (grants (st c)) of None \<Rightarrow> c
      | Some (frm, gs) \<Rightarrow> emit (grant_change t ep (gc_verb d) frm (gc_to d) (gc_reason d) t)
          (put (\<lambda>s. s\<lparr>grants := gs\<rparr>) c))"
    by (auto split: option.split intro: emits_only_trans [OF emits_only_put_grants emits_only_emit])
  then show ?case using 2 by (auto intro: emits_only_trans)
qed simp

lemma emit_demotions_grants [ctx_simps]:
  "grants (st (emit_demotions t ep changes c)) = grants (st c)"
  by (induction t ep changes c rule: emit_demotions.induct) (simp_all add: ctx_simps)

lemma emit_grants_grants [ctx_simps]:
  "grants (st (emit_grants t ep frm to reason vs c)) = grants (st c)"
  by (induction t ep frm to reason vs c rule: emit_grants.induct) (simp_all add: ctx_simps)

lemma apply_pending_demotions_grants [ctx_simps]:
  "grants (st (apply_pending_demotions t c)) = map (\<lambda>g. fst (apply_pending g)) (grants (st c))"
  by (simp add: apply_pending_demotions_def ctx_simps Let_def)

lemma emits_only_frame:
  assumes "emits_only c c'"
  shows "episode (st c') = episode (st c)" "claim (st c') = claim (st c)"
    "lease (st c') = lease (st c)" "pending_lease (st c') = pending_lease (st c)"
    "gate_mode (st c') = gate_mode (st c)" "engage_stage (st c') = engage_stage (st c)"
    "engage_timed_out (st c') = engage_timed_out (st c)"
    "plane_connected (st c') = plane_connected (st c)"
    "clutch_seq (st c') = clutch_seq (st c)"
  using assms by (simp_all add: emits_only_def same_core_def)

lemmas [ctx_simps] =
  emits_only_frame [OF emits_only_apply_pending]
  emits_only_frame [OF emits_only_grants]
  emits_only_frame [OF emits_only_directives]

lemma finish_st [ctx_simps]: "st (finish entry c) = st c"
  by (simp add: finish_def ctx_simps)

subsection \<open>Results that do not panic\<close>

definition succeeds :: "'a option \<Rightarrow> ('a \<Rightarrow> bool) \<Rightarrow> bool" where
  "succeeds m Q \<longleftrightarrow> (case m of None \<Rightarrow> False | Some x \<Rightarrow> Q x)"

definition handles :: "handler_result \<Rightarrow> (ctx \<Rightarrow> bool) \<Rightarrow> bool" where
  "handles r Q \<longleftrightarrow> succeeds r (\<lambda>x. case x of Inl _ \<Rightarrow> True | Inr c \<Rightarrow> Q c)"

lemma succeeds_simps [simp]:
  "succeeds (Some x) Q = Q x"
  "succeeds None Q = False"
  "succeeds (Option.bind m f) Q = succeeds m (\<lambda>x. succeeds (f x) Q)"
  by (simp_all add: succeeds_def split: option.split)

lemma succeeds_control [simp]:
  "succeeds (if b then x else y) Q = (if b then succeeds x Q else succeeds y Q)"
  "succeeds (Let v f) Q = succeeds (f v) Q"
  "succeeds (case a of None \<Rightarrow> x | Some z \<Rightarrow> g z) Q =
     (case a of None \<Rightarrow> succeeds x Q | Some z \<Rightarrow> succeeds (g z) Q)"
  by (simp_all add: Let_def split: option.split)

lemma handles_simps [simp]:
  "handles (accept c) Q = Q c"
  "handles (reject r) Q"
  "handles (run m) Q = succeeds m Q"
  "handles None Q = False"
  "handles (Option.bind m f) Q = succeeds m (\<lambda>x. handles (f x) Q)"
  by (simp_all add: handles_def) (cases m; simp)+

lemma handles_control [simp]:
  "handles (if b then x else y) Q = (if b then handles x Q else handles y Q)"
  "handles (Let v f) Q = handles (f v) Q"
  "handles (case a of None \<Rightarrow> x | Some z \<Rightarrow> g z) Q =
     (case a of None \<Rightarrow> handles x Q | Some z \<Rightarrow> handles (g z) Q)"
  by (simp_all add: Let_def split: option.split)

lemma succeeds_mono: "succeeds m P \<Longrightarrow> (\<And>x. P x \<Longrightarrow> Q x) \<Longrightarrow> succeeds m Q"
  by (cases m) auto

subsection \<open>The helpers, field by field\<close>

text \<open>With an episode present the small helpers are equations. \<open>close_run\<close> is kept
  folded: \<open>closed_run\<close> names the context it ends with.\<close>

lemma episode_mut_eq [ctx_simps]:
  "episode (st c) = Some e \<Longrightarrow>
   episode_mut f c = Some (put (\<lambda>s. s\<lparr>episode := Some (f e)\<rparr>) c)"
  by (simp add: episode_mut_def)

lemma transition_eq [ctx_simps]:
  "episode (st c) = Some e \<Longrightarrow> transition t to reason outcome c =
     Some (emit (state_transition t (ep_id e) (Some (phase_kind (ep_phase e))) (phase_kind to)
                   reason outcome)
            (put (\<lambda>s. s\<lparr>episode := Some (e\<lparr>ep_phase := to\<rparr>)\<rparr>) c))"
  by (simp add: transition_def ctx_simps)

definition closed_run ::
  "mono_ns \<Rightarrow> phase \<Rightarrow> string \<Rightarrow> terminal_outcome option \<Rightarrow> bool \<Rightarrow> ctx \<Rightarrow> ctx" where
  "closed_run t to reason outcome release_claim c =
     the (close_run t to reason outcome release_claim c)"

lemma set_gate_Some:
  assumes "episode (st c) = Some e"
  shows "\<exists>c'. (if b \<and> gate_mode (st c) \<noteq> to then set_gate t to reason c else Some c) = Some c' \<and>
     same_core ((st c)\<lparr>gate_mode := if b then to else gate_mode (st c)\<rparr>) (st c') \<and>
     grants (st c') = grants (st c)"
  using assms by (cases b; cases "gate_mode (st c) = to")
    (simp_all add: set_gate_def same_core_def ctx_simps)

lemma take_claim_Some:
  assumes "episode (st c) = Some e"
  shows "\<exists>c'. (if b then take_claim t reason c else Some c) = Some c' \<and>
     same_core ((st c)\<lparr>claim := if b then None else claim (st c)\<rparr>) (st c') \<and>
     grants (st c') = grants (st c)"
  using assms by (cases b; cases "claim (st c)")
    (simp_all add: take_claim_def same_core_def ctx_simps)

lemma close_run_spec:
  assumes "episode (st c) = Some e"
  shows "close_run t to reason outcome rel c = Some (closed_run t to reason outcome rel c) \<and>
    same_core ((st c)\<lparr>episode := Some (e\<lparr>ep_phase := to\<rparr>),
        claim := if rel then None else claim (st c),
        gate_mode := if rel then GM_Passthrough else gate_mode (st c),
        engage_stage := None, engage_timed_out := False, pending_lease := None\<rparr>)
      (st (closed_run t to reason outcome rel c)) \<and>
    grants (st (closed_run t to reason outcome rel c)) =
      map (\<lambda>g. fst (apply_pending g)) (grants (st c))"
proof -
  obtain c1 where c1: "(if rel \<and> gate_mode (st c) \<noteq> GM_Passthrough
       then set_gate t GM_Passthrough reason c else Some c) = Some c1"
    "same_core ((st c)\<lparr>gate_mode := if rel then GM_Passthrough else gate_mode (st c)\<rparr>) (st c1)"
    "grants (st c1) = grants (st c)"
    using set_gate_Some [OF assms, of rel GM_Passthrough t reason] by blast
  then have e1: "episode (st c1) = Some e"
    using assms by (simp add: same_core_def)
  define c2 where "c2 = the (transition t to reason outcome c1)"
  have c2: "transition t to reason outcome c1 = Some c2"
      "same_core ((st c1)\<lparr>episode := Some (e\<lparr>ep_phase := to\<rparr>)\<rparr>) (st c2)"
      "grants (st c2) = grants (st c1)"
    by (simp_all add: c2_def ctx_simps e1 same_core_def)
  then have "episode (st c2) = Some (e\<lparr>ep_phase := to\<rparr>)"
    by (simp add: same_core_def)
  then obtain c3 where c3: "(if rel then take_claim t reason c2 else Some c2) = Some c3"
    "same_core ((st c2)\<lparr>claim := if rel then None else claim (st c2)\<rparr>) (st c3)"
    "grants (st c3) = grants (st c2)"
    using take_claim_Some [of c2 _ rel t reason] by blast
  show ?thesis
    using c1 c2 c3
    by (simp add: close_run_def closed_run_def same_core_def ctx_simps Let_def del: if_split)
qed

lemma close_run_eq [ctx_simps]:
  "episode (st c) = Some e \<Longrightarrow>
   close_run t to reason outcome rel c = Some (closed_run t to reason outcome rel c)"
  using close_run_spec by blast

lemma closed_run_fields [ctx_simps]:
  assumes "episode (st c) = Some e"
  shows "episode (st (closed_run t to reason outcome rel c)) = Some (e\<lparr>ep_phase := to\<rparr>)"
    "claim (st (closed_run t to reason outcome rel c)) = (if rel then None else claim (st c))"
    "lease (st (closed_run t to reason outcome rel c)) = lease (st c)"
    "pending_lease (st (closed_run t to reason outcome rel c)) = None"
    "gate_mode (st (closed_run t to reason outcome rel c)) =
       (if rel then GM_Passthrough else gate_mode (st c))"
    "engage_stage (st (closed_run t to reason outcome rel c)) = None"
    "engage_timed_out (st (closed_run t to reason outcome rel c)) = False"
    "plane_connected (st (closed_run t to reason outcome rel c)) = plane_connected (st c)"
    "clutch_seq (st (closed_run t to reason outcome rel c)) = clutch_seq (st c)"
    "grants (st (closed_run t to reason outcome rel c)) =
       map (\<lambda>g. fst (apply_pending g)) (grants (st c))"
  using close_run_spec [OF assms, of t to reason outcome rel] by (simp_all add: same_core_def)

end
