(* ===== verification/Waddle_Invariant.thy ===== *)
theory Waddle_Invariant
  imports Waddle_Context
begin

text \<open>
  The invariant of the composed session machine and its preservation by every event row.
  It links the phase of the episode with its pinned outcome, its reset window and its
  verification flags; the intervention sub-phase with the claim, the engage stage and the
  lease holder; the pending mint with the lease it was planned against; and the gate mode
  with the phase. Its conjuncts are what the \<^verbatim>\<open>expect\<close> calls of the code rely on.
\<close>

subsection \<open>The invariant\<close>

fun past_reset :: "phase \<Rightarrow> bool" where
  "past_reset Ready = True"
| "past_reset Running = True"
| "past_reset (Intervention _) = True"
| "past_reset PostReset = True"
| "past_reset _ = False"

definition window_ok :: "episode_state \<Rightarrow> bool" where
  "window_ok e \<longleftrightarrow> (case reset_window e of
     None \<Rightarrow> True
   | Some w \<Rightarrow>
       if rw_kind w = RK_Pre
       then pinned_outcome e = None \<and> (ep_phase e = Resetting \<and> \<not> reset_ok e \<or> is_terminal (ep_phase e))
       else ep_phase e = PostReset)"

definition outcome_ok :: "episode_state \<Rightarrow> bool" where
  "outcome_ok e \<longleftrightarrow> (case pinned_outcome e of
     None \<Rightarrow> ep_phase e \<noteq> PostReset
   | Some p \<Rightarrow> post_reset_declared e \<and> (ep_phase e = PostReset \<or> ep_phase e = Terminal p))"

definition verified_ok :: "episode_state \<Rightarrow> bool" where
  "verified_ok e \<longleftrightarrow> (past_reset (ep_phase e) \<longrightarrow> reset_ok e \<and>
     (if ep_verification e = Blocking then ep_verified e else ep_verified e \<or> optimistic_entry e))"

definition latch_ok :: "episode_state \<Rightarrow> bool" where
  "latch_ok e \<longleftrightarrow> (agent_engaged e \<longrightarrow> agent_invited e) \<and>
     (invite_aborted e \<longrightarrow> agent_invited e \<and> \<not> agent_engaged e)"

text \<open>The part of the invariant that also holds between \<open>invite_aborted\<close> being
  latched and the run being closed.\<close>

definition closing_ok :: "episode_state \<Rightarrow> bool" where
  "closing_ok e \<longleftrightarrow> window_ok e \<and> outcome_ok e \<and> verified_ok e \<and> latch_ok e"

definition episode_inv :: "episode_state \<Rightarrow> bool" where
  "episode_inv e \<longleftrightarrow> closing_ok e \<and> (invite_aborted e \<longrightarrow> \<not> run_phase (ep_phase e))"

fun op_target :: "lease_op_kind \<Rightarrow> client_id" where
  "op_target (Op_Acquire c) = c"
| "op_target (Op_Handoff frm to) = to"

fun op_planned :: "lease_op_kind \<Rightarrow> lease_state \<Rightarrow> bool" where
  "op_planned (Op_Acquire c) l \<longleftrightarrow> l = Vacant"
| "op_planned (Op_Handoff frm to) l \<longleftrightarrow> lease_token l = Some frm"

definition claim_client_is :: "session_fsm \<Rightarrow> client_id \<Rightarrow> bool" where
  "claim_client_is s c \<longleftrightarrow> map_option claim_client (claim s) = Some c"

definition window_is :: "episode_state \<Rightarrow> bool \<Rightarrow> bool" where
  "window_is e engaged \<longleftrightarrow> (ep_phase e = Resetting \<or> ep_phase e = PostReset) \<and>
     (case reset_window e of None \<Rightarrow> False | Some w \<Rightarrow> rw_engaged w = engaged)"

fun then_ok :: "session_config \<Rightarrow> episode_state \<Rightarrow> session_fsm \<Rightarrow> client_id \<Rightarrow> after_lease \<Rightarrow> bool" where
  "then_ok cfg e s target InitialAcquire \<longleftrightarrow> target = loop_client cfg"
| "then_ok cfg e s target EngageComplete \<longleftrightarrow>
     engage_stage s = Some AwaitLease \<and> claim_client_is s target"
| "then_ok cfg e s target ReleaseComplete \<longleftrightarrow>
     ep_phase e = Intervention IP_Release \<and> target = loop_client cfg"
| "then_ok cfg e s target ResetEngageComplete \<longleftrightarrow> window_is e False"
| "then_ok cfg e s target (ResetHandback thn) \<longleftrightarrow> target = loop_client cfg \<and>
     (case thn of
        ApplyPreResult _ _ \<Rightarrow> ep_phase e = Resetting \<and> window_is e True
      | ApplyPostResult _ \<Rightarrow> ep_phase e = PostReset \<and> window_is e True
      | TimeoutClose \<Rightarrow> (is_terminal (ep_phase e) \<longrightarrow> pinned_outcome e = None) \<and>
          (ep_phase e = PostReset \<longrightarrow> reset_window e \<noteq> None))"

definition pending_ok :: "session_config \<Rightarrow> episode_state \<Rightarrow> session_fsm \<Rightarrow> bool" where
  "pending_ok cfg e s \<longleftrightarrow> (case pending_lease s of
     None \<Rightarrow> engage_stage s \<noteq> Some AwaitLease \<and> ep_phase e \<noteq> Intervention IP_Release
   | Some p \<Rightarrow> op_planned (po_op p) (lease s) \<and> then_ok cfg e s (op_target (po_op p)) (po_then p) \<and>
       ep_phase e \<noteq> Intervention IP_Settle \<and>
       (engage_stage s = Some AwaitLease \<longrightarrow> po_then p = EngageComplete) \<and>
       (ep_phase e = Intervention IP_Release \<longrightarrow> po_then p = ReleaseComplete))"

definition claimed_gate :: "session_fsm \<Rightarrow> bool" where
  "claimed_gate s \<longleftrightarrow> gate_mode s = GM_Intervention \<or> gate_mode s = GM_Bypass"

text \<open>The intervenor holds the lease, and the gate is claimed.\<close>

definition intervenor_writes :: "session_fsm \<Rightarrow> bool" where
  "intervenor_writes s \<longleftrightarrow> claimed_gate s \<and>
     claim s \<noteq> None \<and> map_option snd (holder (lease s)) = map_option claim_client (claim s)"

definition intervention_ok :: "episode_state \<Rightarrow> session_fsm \<Rightarrow> bool" where
  "intervention_ok e s \<longleftrightarrow>
     (engage_stage s \<noteq> None \<longleftrightarrow> ep_phase e = Intervention IP_Engage) \<and>
     (engage_timed_out s \<longrightarrow> ep_phase e = Intervention IP_Engage) \<and>
     (ep_phase e = Intervention IP_Engage \<longrightarrow> claim s \<noteq> None) \<and>
     (ep_phase e = Intervention IP_Settle \<or> ep_phase e = Intervention IP_Release \<longrightarrow>
        intervenor_writes s) \<and>
     ep_phase e \<noteq> Intervention IP_Retake"

definition fsm_inv :: "session_config \<Rightarrow> session_fsm \<Rightarrow> bool" where
  "fsm_inv cfg s \<longleftrightarrow> (case episode s of
     None \<Rightarrow> claim s = None \<and> lease s = Vacant \<and> pending_lease s = None \<and>
       gate_mode s = GM_Passthrough \<and> engage_stage s = None \<and> \<not> engage_timed_out s
   | Some e \<Rightarrow> episode_inv e \<and> pending_ok cfg e s \<and> intervention_ok e s \<and>
       (gate_mode s = GM_Reset \<longleftrightarrow> window_is e True) \<and>
       (window_is e True \<longrightarrow> lease s \<noteq> Vacant))"

lemmas episode_inv_defs = episode_inv_def closing_ok_def window_ok_def outcome_ok_def
  verified_ok_def latch_ok_def

text \<open>The invariant reads no counter and no grant.\<close>

lemma then_ok_same_core: "same_core s s' \<Longrightarrow> then_ok cfg e s' c a = then_ok cfg e s c a"
  by (cases a) (simp_all add: same_core_def claim_client_is_def)

lemma pending_ok_same_core: "same_core s s' \<Longrightarrow> pending_ok cfg e s' = pending_ok cfg e s"
  by (auto simp: pending_ok_def then_ok_same_core split: option.split) (auto simp: same_core_def)

lemma intervention_ok_same_core: "same_core s s' \<Longrightarrow> intervention_ok e s' = intervention_ok e s"
  by (simp add: intervention_ok_def intervenor_writes_def claimed_gate_def claim_client_is_def
      same_core_def)

lemma fsm_inv_same_core: "same_core s s' \<Longrightarrow> fsm_inv cfg s' = fsm_inv cfg s"
  by (simp add: fsm_inv_def pending_ok_same_core intervention_ok_same_core split: option.split)
    (simp add: same_core_def)

lemma fsm_inv_emits_only: "emits_only c c' \<Longrightarrow> fsm_inv cfg (st c') = fsm_inv cfg (st c)"
  by (simp add: emits_only_def fsm_inv_same_core)

lemmas [simp] =
  fsm_inv_emits_only [OF emits_only_emit]
  fsm_inv_emits_only [OF emits_only_grants]
  fsm_inv_emits_only [OF emits_only_apply_pending]
  fsm_inv_emits_only [OF emits_only_directives]
  fsm_inv_emits_only [OF emits_only_put_grants]

lemma fsm_inv_new: "fsm_inv cfg (session_new cfg)"
  by (simp add: fsm_inv_def session_new_def)

lemma fsm_inv_None:
  "episode s = None \<Longrightarrow> fsm_inv cfg s \<longleftrightarrow> claim s = None \<and> lease s = Vacant \<and>
     pending_lease s = None \<and> gate_mode s = GM_Passthrough \<and> engage_stage s = None \<and>
     \<not> engage_timed_out s"
  by (simp add: fsm_inv_def)

lemma fsm_inv_Some:
  "episode s = Some e \<Longrightarrow> fsm_inv cfg s \<longleftrightarrow> episode_inv e \<and> pending_ok cfg e s \<and>
     intervention_ok e s \<and> (gate_mode s = GM_Reset \<longleftrightarrow> window_is e True) \<and>
     (window_is e True \<longrightarrow> lease s \<noteq> Vacant)"
  by (simp add: fsm_inv_def)

subsection \<open>Pending mints that no phase owns\<close>

definition loose_pending :: "session_config \<Rightarrow> session_fsm \<Rightarrow> bool" where
  "loose_pending cfg s \<longleftrightarrow> (case pending_lease s of
     None \<Rightarrow> True
   | Some p \<Rightarrow> op_planned (po_op p) (lease s) \<and> op_target (po_op p) = loop_client cfg \<and>
       (po_then p = InitialAcquire \<or> po_then p = ResetHandback TimeoutClose))"

fun reset_kind_phase :: "phase \<Rightarrow> bool" where
  "reset_kind_phase Resetting = True"
| "reset_kind_phase PostReset = True"
| "reset_kind_phase _ = False"

lemma window_is_phase: "window_is e b \<Longrightarrow> reset_kind_phase (ep_phase e) \<and> reset_window e \<noteq> None"
  by (auto simp: window_is_def split: option.splits)

lemma pending_ok_loose:
  assumes "engage_stage s \<noteq> Some AwaitLease" "ep_phase e \<noteq> Intervention IP_Release"
    "ep_phase e \<noteq> Intervention IP_Settle" "reset_window e = None \<or> \<not> reset_kind_phase (ep_phase e)" "\<not> is_terminal (ep_phase e)"
    "ep_phase e \<noteq> PostReset"
  shows "pending_ok cfg e s \<longleftrightarrow> loose_pending cfg s"
proof -
  have "\<not> window_is e b" for b
    using assms(4) window_is_phase by blast
  with assms show ?thesis
    by (cases "pending_lease s"; cases "po_then (the (pending_lease s))")
      (auto simp: pending_ok_def loose_pending_def split: handback_then.split)
qed

lemma loose_pending_ok:
  "loose_pending cfg s \<Longrightarrow> engage_stage s \<noteq> Some AwaitLease \<Longrightarrow>
   ep_phase e \<noteq> Intervention IP_Release \<Longrightarrow> ep_phase e \<noteq> Intervention IP_Settle \<Longrightarrow>
   \<not> is_terminal (ep_phase e) \<Longrightarrow>
   ep_phase e \<noteq> PostReset \<Longrightarrow> pending_ok cfg e s"
  by (auto simp: pending_ok_def loose_pending_def split: option.splits)

end
