(* ===== verification/Waddle_Preservation.thy ===== *)
theory Waddle_Preservation
  imports Waddle_Invariant
begin

text \<open>
  Every event row keeps the invariant of the session machine and does not panic, the reset
  window timer without an episode excepted. The lemmas follow the structure of the code:
  first what each change of phase needs of the episode record, then the helpers that end
  a run, then the rows.
\<close>

abbreviation keeps :: "session_config \<Rightarrow> ctx \<Rightarrow> bool" where
  "keeps cfg c \<equiv> fsm_inv cfg (st c)"

subsection \<open>Changes of phase\<close>

fun in_run :: "phase \<Rightarrow> bool" where
  "in_run Ready = True"
| "in_run Running = True"
| "in_run (Intervention _) = True"
| "in_run _ = False"

text \<open>Record corrections leave the invariant alone.\<close>

lemma episode_inv_flags [simp]:
  "closing_ok (e\<lparr>post_reset_failed := b\<rparr>) = closing_ok e"
  "episode_inv (e\<lparr>reset_unverified := b\<rparr>) = episode_inv e"
  "window_is (e\<lparr>reset_unverified := b\<rparr>) b' = window_is e b'"
  by (simp_all add: episode_inv_defs window_is_def split: option.split)

lemma episode_inv_verified [simp]: "episode_inv e \<Longrightarrow> episode_inv (e\<lparr>ep_verified := True\<rparr>)"
  by (auto simp: episode_inv_defs split: option.splits)

text \<open>Emission under a later update of one field.\<close>

lemma fsm_inv_emit_update [ctx_simps]:
  "fsm_inv cfg ((st (emit ev c))\<lparr>episode := x\<rparr>) = fsm_inv cfg ((st c)\<lparr>episode := x\<rparr>)"
  "fsm_inv cfg ((st (emit ev c))\<lparr>claim := y\<rparr>) = fsm_inv cfg ((st c)\<lparr>claim := y\<rparr>)"
  "fsm_inv cfg ((st (emit ev c))\<lparr>gate_mode := g\<rparr>) = fsm_inv cfg ((st c)\<lparr>gate_mode := g\<rparr>)"
  by (rule fsm_inv_same_core; simp add: same_core_def ctx_simps)+

lemma in_run_facts:
  assumes "closing_ok e" "in_run (ep_phase e)"
  shows "reset_window e = None" "pinned_outcome e = None" "\<not> reset_kind_phase (ep_phase e)"
    "\<not> is_terminal (ep_phase e)"
  using assms by (cases "ep_phase e"; auto simp: episode_inv_defs split: option.splits if_splits)+

lemma window_is_no_window [simp]: "reset_window e = None \<Longrightarrow> \<not> window_is e b"
  by (simp add: window_is_def)

lemma window_is_not_reset [simp]: "\<not> reset_kind_phase (ep_phase e) \<Longrightarrow> \<not> window_is e b"
  using window_is_phase by blast

lemma episode_inv_run:
  assumes "episode_inv e" "in_run (ep_phase e)" "in_run p"
  shows "episode_inv (e\<lparr>ep_phase := p\<rparr>)"
  using assms
  by (cases p; cases "ep_phase e") (auto simp: episode_inv_defs split: option.splits if_splits)

lemma episode_inv_terminal:
  assumes "closing_ok e" "ep_phase e \<noteq> PostReset" "pinned_outcome e = None"
  shows "episode_inv (e\<lparr>ep_phase := Terminal out\<rparr>)"
  using assms by (auto simp: episode_inv_defs split: option.splits if_splits)

lemma episode_inv_post_terminal:
  assumes "closing_ok e" "ep_phase e = PostReset" "pinned_outcome e = Some p"
  shows "episode_inv (e\<lparr>ep_phase := Terminal p, reset_window := None\<rparr>)"
  using assms by (auto simp: episode_inv_defs split: option.splits if_splits)

lemma episode_inv_post_reset:
  assumes "closing_ok e" "in_run (ep_phase e)" "post_reset_declared e"
  shows "episode_inv (e\<lparr>pinned_outcome := Some p, ep_phase := PostReset\<rparr>)"
  using assms in_run_facts [OF assms(1,2)]
  by (cases "ep_phase e") (auto simp: episode_inv_defs)

lemma fsm_inv_quiet:
  assumes "episode s = Some e" "pending_lease s = None" "engage_stage s = None"
    "\<not> engage_timed_out s" "\<not> in_run (ep_phase e)" "gate_mode s \<noteq> GM_Reset" "\<not> window_is e True"
  shows "fsm_inv cfg s \<longleftrightarrow> episode_inv e"
  using assms by (cases "ep_phase e") (simp_all add: fsm_inv_def pending_ok_def intervention_ok_def)

subsection \<open>Helpers that end a run\<close>

lemma closed_terminal_keeps:
  assumes "episode (st c) = Some e" "closing_ok e" "ep_phase e \<noteq> PostReset"
    "pinned_outcome e = None" "rel \<or> gate_mode (st c) \<noteq> GM_Reset"
  shows "keeps cfg (closed_run t (Terminal out) reason o' rel c)"
  using assms episode_inv_terminal [OF assms(2-4), of out]
  by (subst fsm_inv_quiet) (auto simp: ctx_simps)

lemma closed_pinned_keeps:
  assumes "episode (st c) = Some e" "closing_ok e" "ep_phase e = PostReset"
    "pinned_outcome e = Some p" "reset_window e = None"
  shows "keeps cfg (closed_run t (Terminal p) reason o' True c)"
proof -
  have "e\<lparr>ep_phase := Terminal p, reset_window := None\<rparr> = e\<lparr>ep_phase := Terminal p\<rparr>"
    using assms by simp
  with assms episode_inv_post_terminal [OF assms(2-4)] show ?thesis
    by (subst fsm_inv_quiet) (simp_all add: ctx_simps)
qed

lemma enter_terminal_keeps:
  assumes "episode (st c) = Some e" "closing_ok e" "ep_phase e \<noteq> PostReset"
    "pinned_outcome e = None" "rel \<or> gate_mode (st c) \<noteq> GM_Reset"
  shows "succeeds (enter_terminal t out reason rel c) (keeps cfg)"
  using assms by (simp add: enter_terminal_def ctx_simps closed_terminal_keeps [OF assms])

lemma open_window_episode_inv:
  assumes "episode_inv e" "reset_window e = None"
    "k = RK_Pre \<and> ep_phase e = Resetting \<and> \<not> reset_ok e \<or> k = RK_Post \<and> ep_phase e = PostReset"
    "rw_kind w = k"
  shows "episode_inv (e\<lparr>reset_window := Some w\<rparr>)"
  using assms by (auto simp: episode_inv_defs split: option.splits)

lemma enter_post_reset_keeps:
  assumes "episode (st c) = Some e" "closing_ok e" "in_run (ep_phase e)" "post_reset_declared e"
  shows "succeeds (enter_post_reset t out reason c) (keeps cfg)"
proof -
  let ?e = "e\<lparr>pinned_outcome := Some out, ep_phase := PostReset\<rparr>"
  have inv: "episode_inv ?e" and rw: "reset_window e = None"
    using assms episode_inv_post_reset in_run_facts by auto
  have win: "episode_inv (?e\<lparr>reset_window := Some w\<rparr>)" if "rw_kind w = RK_Post" for w
    by (rule open_window_episode_inv [OF inv]) (use rw that in auto)
  show ?thesis
  proof (cases "post_window e")
    case None
    with assms inv rw show ?thesis
      by (simp add: enter_post_reset_def ctx_simps fsm_inv_quiet)
  next
    case (Some spec)
    with assms win [of "\<lparr>rw_kind = RK_Post, rw_expected = ws_expected spec, rw_engaged = False,
        rw_prompt = ws_prompt spec\<rparr>"] show ?thesis
      by (simp add: enter_post_reset_def open_reset_window_def ctx_simps fsm_inv_quiet window_is_def)
  qed
qed

lemma run_started_in_run: "run_started p \<Longrightarrow> in_run p"
  by (cases p) auto

lemma request_terminal_keeps:
  assumes "episode (st c) = Some e" "closing_ok e" "ep_phase e \<noteq> PostReset" "pinned_outcome e = None"
  shows "succeeds (request_terminal t out reason c) (keeps cfg)"
  using assms
  by (simp add: request_terminal_def run_started_in_run enter_terminal_keeps
      enter_post_reset_keeps)

lemma apply_post_reset_result_keeps:
  assumes "episode (st c) = Some e" "closing_ok e" "ep_phase e = PostReset"
    "pinned_outcome e = Some p" "reset_window e = None"
  shows "succeeds (apply_post_reset_result t ok detail c) (keeps cfg)"
  by (insert assms, cases ok; simp add: apply_post_reset_result_def Let_def; simp add: ctx_simps;
      simp add: ctx_simps closed_pinned_keeps)

subsection \<open>The pre-reset result and the closing of a window\<close>

text \<open>Outside an intervention and without a window, only a loose mint may be pending.\<close>

lemma fsm_inv_calm:
  assumes "episode s = Some e" "reset_window e = None" "engage_stage s = None"
    "\<not> engage_timed_out s" "\<not> in_intervention (Some (ep_phase e))" "gate_mode s \<noteq> GM_Reset"
    "\<not> is_terminal (ep_phase e)" "ep_phase e \<noteq> PostReset"
  shows "fsm_inv cfg s \<longleftrightarrow> episode_inv e \<and> loose_pending cfg s"
  using assms by (cases "ep_phase e") (simp_all add: fsm_inv_def pending_ok_loose intervention_ok_def)

lemma loose_pending_cong:
  "pending_lease s' = pending_lease s \<Longrightarrow> lease s' = lease s \<Longrightarrow>
   loose_pending cfg s' = loose_pending cfg s"
  by (simp add: loose_pending_def split: option.split)

lemma loose_pending_ctx [ctx_simps]:
  "loose_pending cfg (st (emit ev c)) = loose_pending cfg (st c)"
  "loose_pending cfg (s\<lparr>episode := x\<rparr>) = loose_pending cfg s"
  "loose_pending cfg (s\<lparr>gate_mode := g\<rparr>) = loose_pending cfg s"
  "loose_pending cfg (s\<lparr>claim := cl\<rparr>) = loose_pending cfg s"
  by (simp_all add: loose_pending_def ctx_simps split: option.split)

lemma episode_inv_reset_facts:
  assumes "episode_inv e" "ep_phase e = Resetting" "reset_window e = None"
  shows "pinned_outcome e = None" "closing_ok e" "latch_ok e" "\<not> invite_aborted e"
  using assms by (auto simp: episode_inv_defs split: option.splits)

lemma apply_reset_result_keeps:
  assumes "episode (st c) = Some e" "episode_inv e" "ep_phase e = Resetting"
    "reset_window e = None" "engage_stage (st c) = None" "\<not> engage_timed_out (st c)"
    "gate_mode (st c) \<noteq> GM_Reset" "loose_pending cfg (st c)"
  shows "succeeds (apply_reset_result t ok verified c) (keeps cfg)"
proof -
  note facts = episode_inv_reset_facts [OF assms(2-4)]
  then have latch: "\<not> agent_engaged e \<or> agent_invited e" by (simp add: latch_ok_def)
  show ?thesis
  proof (cases ok)
    case False
    with assms facts show ?thesis
      by (simp add: apply_reset_result_def Let_def enter_terminal_keeps ctx_simps)
  next
    case True
    then show ?thesis
      using assms(1,3-) facts(1,4) latch
      apply (simp add: apply_reset_result_def Let_def)
      apply (cases "ep_verification e"; cases "ep_verified e"; cases verified; simp add: ctx_simps)
             apply (simp_all add: ctx_simps fsm_inv_calm)
             apply (simp_all add: episode_inv_defs)
      done
  qed
qed

lemma timeout_close_keeps:
  assumes "episode (st c) = Some e" "closing_ok e" "reset_window e = None"
    "kind = Some RK_Post \<longleftrightarrow> ep_phase e = PostReset"
    "is_terminal (ep_phase e) \<longrightarrow> pinned_outcome e = None"
  shows "succeeds (timeout_close t kind c) (keeps cfg)"
proof (cases "kind = Some RK_Post")
  case True
  with assms obtain p where p: "pinned_outcome e = Some p" "ep_phase e = PostReset"
    by (auto simp: episode_inv_defs split: option.splits)
  show ?thesis
    by (insert True p assms; simp add: timeout_close_def Let_def; simp add: ctx_simps;
        simp add: ctx_simps closed_pinned_keeps)
next
  case False
  with assms have "pinned_outcome e = None"
    by (auto simp: episode_inv_defs split: option.splits)
  with False assms show ?thesis
    by (simp add: timeout_close_def Let_def) (simp add: ctx_simps enter_terminal_keeps)
qed

lemma same_core_window_closed:
  "same_core (s\<lparr>gate_mode := g\<rparr>) s1 \<Longrightarrow> same_core (s1\<lparr>claim := None\<rparr>) s2 \<Longrightarrow>
   same_core (s\<lparr>episode := x, claim := None, gate_mode := g\<rparr>) (s2\<lparr>episode := x\<rparr>)"
  by (simp add: same_core_def)

lemma close_reset_window_split:
  assumes "episode (st c) = Some e"
  shows "\<exists>c'. close_reset_window t thn c =
      (case thn of
         ApplyPreResult ok verified \<Rightarrow> apply_reset_result t ok verified c'
       | ApplyPostResult ok \<Rightarrow> apply_post_reset_result t ok ''remote reset window'' c'
       | TimeoutClose \<Rightarrow> timeout_close t (map_option rw_kind (reset_window e)) c') \<and>
    same_core ((st c)\<lparr>episode := Some (e\<lparr>reset_window := None\<rparr>), claim := None,
      gate_mode := if gate_mode (st c) = GM_Reset then GM_Passthrough else gate_mode (st c)\<rparr>) (st c')"
proof -
  obtain c1 where c1: "(if gate_mode (st c) = GM_Reset
       then set_gate t GM_Passthrough ''reset window closed'' c else Some c) = Some c1"
    "same_core ((st c)\<lparr>gate_mode := if gate_mode (st c) = GM_Reset then GM_Passthrough
       else gate_mode (st c)\<rparr>) (st c1)"
    using set_gate_Some [OF assms, of "gate_mode (st c) = GM_Reset" GM_Passthrough t
        "''reset window closed''"] by (auto split: if_splits)
  then have "episode (st c1) = Some e"
    using assms by (simp add: same_core_def)
  then obtain c2 where c2: "take_claim t ''reset window closed'' c1 = Some c2"
    "same_core ((st c1)\<lparr>claim := None\<rparr>) (st c2)"
    using take_claim_Some [of c1 e True] by auto
  then have e2: "episode (st c2) = Some e"
    using \<open>episode (st c1) = Some e\<close> by (simp add: same_core_def)
  show ?thesis
  proof (intro exI conjI)
    show "close_reset_window t thn c = (case thn of
         ApplyPreResult ok verified \<Rightarrow> apply_reset_result t ok verified
           (put (\<lambda>s. s\<lparr>episode := Some (e\<lparr>reset_window := None\<rparr>)\<rparr>) c2)
       | ApplyPostResult ok \<Rightarrow> apply_post_reset_result t ok ''remote reset window''
           (put (\<lambda>s. s\<lparr>episode := Some (e\<lparr>reset_window := None\<rparr>)\<rparr>) c2)
       | TimeoutClose \<Rightarrow> timeout_close t (map_option rw_kind (reset_window e))
           (put (\<lambda>s. s\<lparr>episode := Some (e\<lparr>reset_window := None\<rparr>)\<rparr>) c2))"
      by (simp add: close_reset_window_def c1(1) c2(1) e2 episode_mut_eq [OF e2])
    show "same_core ((st c)\<lparr>episode := Some (e\<lparr>reset_window := None\<rparr>), claim := None,
        gate_mode := if gate_mode (st c) = GM_Reset then GM_Passthrough else gate_mode (st c)\<rparr>)
      (st (put (\<lambda>s. s\<lparr>episode := Some (e\<lparr>reset_window := None\<rparr>)\<rparr>) c2))"
      unfolding st_put by (rule same_core_window_closed [OF c1(2) c2(2)])
  qed
qed

lemma loose_pending_core: "same_core s s' \<Longrightarrow> loose_pending cfg s' = loose_pending cfg s"
  by (rule loose_pending_cong) (simp_all add: same_core_def)

lemma episode_inv_close_window [simp]: "episode_inv e \<Longrightarrow> episode_inv (e\<lparr>reset_window := None\<rparr>)"
  by (auto simp: episode_inv_defs split: option.splits)

lemma episode_inv_closing: "episode_inv e \<Longrightarrow> closing_ok e"
  by (simp add: episode_inv_def)

lemma window_kind_phase:
  assumes "closing_ok e" "reset_window e = Some w"
  shows "rw_kind w = RK_Post \<longleftrightarrow> ep_phase e = PostReset"
    "is_terminal (ep_phase e) \<Longrightarrow> pinned_outcome e = None"
  using assms by (cases "rw_kind w"; auto simp: episode_inv_defs split: option.splits if_splits)+

lemma close_reset_window_keeps:
  assumes "episode (st c) = Some e" "episode_inv e"
    "case thn of
       ApplyPreResult _ _ \<Rightarrow> ep_phase e = Resetting \<and> loose_pending cfg (st c) \<and>
         engage_stage (st c) = None \<and> \<not> engage_timed_out (st c)
     | ApplyPostResult _ \<Rightarrow> ep_phase e = PostReset
     | TimeoutClose \<Rightarrow> (is_terminal (ep_phase e) \<longrightarrow> pinned_outcome e = None) \<and>
         (ep_phase e = PostReset \<longrightarrow> reset_window e \<noteq> None)"
  shows "succeeds (close_reset_window t thn c) (keeps cfg)"
proof -
  let ?e = "e\<lparr>reset_window := None\<rparr>"
  obtain c' where eq: "close_reset_window t thn c =
      (case thn of
         ApplyPreResult ok verified \<Rightarrow> apply_reset_result t ok verified c'
       | ApplyPostResult ok \<Rightarrow> apply_post_reset_result t ok ''remote reset window'' c'
       | TimeoutClose \<Rightarrow> timeout_close t (map_option rw_kind (reset_window e)) c')"
    and core: "same_core ((st c)\<lparr>episode := Some ?e, claim := None,
      gate_mode := if gate_mode (st c) = GM_Reset then GM_Passthrough else gate_mode (st c)\<rparr>) (st c')"
    using close_reset_window_split [OF assms(1)] by blast
  have inv: "episode_inv ?e" using assms by simp
  have e': "episode (st c') = Some ?e" and g': "gate_mode (st c') \<noteq> GM_Reset"
    and c': "engage_stage (st c') = engage_stage (st c)"
      "engage_timed_out (st c') = engage_timed_out (st c)"
    using core assms by (auto simp: same_core_def)
  have loose: "loose_pending cfg (st c')" if "loose_pending cfg (st c)"
    using that loose_pending_core [OF core, of cfg] by (simp add: ctx_simps)
  show ?thesis
  proof (cases thn)
    case (ApplyPreResult ok verified)
    with assms(3) have "ep_phase ?e = Resetting" "loose_pending cfg (st c')"
      "engage_stage (st c') = None" "\<not> engage_timed_out (st c')"
      using loose c' by simp_all
    from apply_reset_result_keeps [OF e' inv this(1) _ this(3,4) g' this(2)] eq ApplyPreResult
    show ?thesis by simp
  next
    case (ApplyPostResult ok)
    with assms(2,3) obtain p where "pinned_outcome ?e = Some p" "ep_phase ?e = PostReset"
      by (auto simp: episode_inv_defs split: option.splits)
    from apply_post_reset_result_keeps [OF e' episode_inv_closing [OF inv] this(2,1)] eq
      ApplyPostResult show ?thesis by simp
  next
    case TimeoutClose
    have "map_option rw_kind (reset_window e) = Some RK_Post \<longleftrightarrow> ep_phase ?e = PostReset"
      using window_kind_phase(1) [OF episode_inv_closing [OF assms(2)]] assms(3) TimeoutClose
      by (cases "reset_window e") auto
    from timeout_close_keeps [OF e' episode_inv_closing [OF inv] _ this] eq TimeoutClose
    show ?thesis using assms(3) by simp
  qed
qed

subsection \<open>Rows that move the lease for a window\<close>

text \<open>With an open window no engage is in progress.\<close>

lemma window_calm:
  assumes "fsm_inv cfg s" "episode s = Some e" "reset_window e = Some w"
  shows "engage_stage s = None" "\<not> engage_timed_out s" "\<not> in_intervention (Some (ep_phase e))"
proof -
  have "\<not> in_run (ep_phase e)"
    using assms in_run_facts(1) [of e] by (auto simp: fsm_inv_Some episode_inv_closing)
  then show "\<not> in_intervention (Some (ep_phase e))" "engage_stage s = None" "\<not> engage_timed_out s"
    using assms by (cases "ep_phase e"; auto simp: fsm_inv_Some intervention_ok_def)+
qed

lemma lease_token_Held [simp]: "lease_token (Held l c) = Some l" "lease_token Vacant = None"
  by (simp_all add: lease_token_def)

lemma request_handback_keeps:
  assumes "fsm_inv cfg (st c)" "episode (st c) = Some e" "reset_window e = Some w"
    "lease (st c) = Held frm who"
    "case thn of
       ApplyPreResult _ _ \<Rightarrow> ep_phase e = Resetting \<and> rw_engaged w
     | ApplyPostResult _ \<Rightarrow> ep_phase e = PostReset \<and> rw_engaged w
     | TimeoutClose \<Rightarrow> True"
  shows "keeps cfg (request_mint \<lparr>po_op = Op_Handoff frm (loop_client cfg),
    po_then = ResetHandback thn\<rparr> c)"
proof -
  note facts = window_calm [OF assms(1-3)]
  have "is_terminal (ep_phase e) \<Longrightarrow> pinned_outcome e = None"
    using assms window_kind_phase(2) by (auto simp: fsm_inv_Some episode_inv_closing)
  moreover have "ep_phase e \<noteq> Intervention i" for i
    using facts by auto
  ultimately show ?thesis
    using assms facts
    by (simp add: request_mint_def ctx_simps fsm_inv_Some pending_ok_def intervention_ok_def
        window_is_def split: handback_then.splits)
qed

lemma begin_reset_handback_keeps:
  assumes inv: "fsm_inv cfg (st c)" and e: "episode (st c) = Some e" and w: "reset_window e = Some w"
    and thn: "case thn of
       ApplyPreResult _ _ \<Rightarrow> ep_phase e = Resetting \<and> \<not> engage_in_flight (st c)
     | ApplyPostResult _ \<Rightarrow> ep_phase e = PostReset
     | TimeoutClose \<Rightarrow> True"
  shows "succeeds (begin_reset_handback cfg t thn c) (keeps cfg)"
proof (cases "rw_engaged w \<and> lease (st c) \<noteq> Vacant")
  case True
  then obtain frm who where "lease (st c) = Held frm who"
    by (cases "lease (st c)") auto
  with request_handback_keeps [OF inv e w this, of thn] True e w thn show ?thesis
    by (simp add: begin_reset_handback_def split: handback_then.splits)
next
  case False
  note facts = window_calm [OF inv e w]
  have "\<not> window_is e True" if "ep_phase e = Resetting"
    using that inv e w False by (auto simp: fsm_inv_Some window_is_def)
  then have "loose_pending cfg (st c)" if "ep_phase e = Resetting" "\<not> engage_in_flight (st c)"
    using that inv e facts
    by (cases "pending_lease (st c)"; cases "po_then (the (pending_lease (st c)))")
      (auto simp: fsm_inv_Some pending_ok_def loose_pending_def engage_in_flight_def
        split: handback_then.splits)
  then have "succeeds (close_reset_window t thn c) (keeps cfg)"
    using inv e w facts thn window_kind_phase(2) [of e w]
    by (intro close_reset_window_keeps [OF e])
      (auto simp: fsm_inv_Some episode_inv_closing split: handback_then.splits)
  with False e w show ?thesis
    by (cases "lease (st c)"; cases "rw_engaged w") (auto simp: begin_reset_handback_def)
qed

lemma on_reset_window_timeout_keeps:
  "fsm_inv cfg s \<Longrightarrow> episode s \<noteq> None \<Longrightarrow> handles (on_reset_window_timeout cfg t s) (keeps cfg)"
  by (auto simp: on_reset_window_timeout_def ctx_simps begin_reset_handback_keeps
      split: option.splits)

lemma fsm_inv_episode_inv: "fsm_inv cfg s \<Longrightarrow> episode s = Some e \<Longrightarrow> episode_inv e"
  by (simp add: fsm_inv_Some)

lemma engage_in_flight_emit [ctx_simps]:
  "engage_in_flight (st (emit ev c)) = engage_in_flight (st c)"
  by (simp add: engage_in_flight_def ctx_simps)

lemma on_reset_window_complete_keeps:
  assumes "fsm_inv cfg s"
  shows "handles (on_reset_window_complete cfg i ok verified t s) (keeps cfg)"
proof (cases "episode s")
  case None
  then show ?thesis
    by (simp add: on_reset_window_complete_def reset_phase_def episode_phase_def)
next
  case (Some e)
  show ?thesis
  proof (cases "reset_window e")
    case None
    with Some show ?thesis by (simp add: on_reset_window_complete_def)
  next
    case w: (Some w)
    have kind: "rw_kind w = RK_Post \<longleftrightarrow> ep_phase e = PostReset"
      using window_kind_phase(1) [of e w] w fsm_inv_episode_inv [OF assms Some]
      by (simp add: episode_inv_closing)
    have "reset_phase s \<Longrightarrow> \<not> engage_in_flight s \<Longrightarrow>
      succeeds (begin_reset_handback cfg t (window_result (rw_kind w) ok verified) c) (keeps cfg)"
      if "fsm_inv cfg (st c)" "episode (st c) = Some e"
        "engage_in_flight (st c) = engage_in_flight s" for c
      using that kind w Some
      by (intro begin_reset_handback_keeps [of cfg c e w]; cases "rw_kind w")
        (auto simp: reset_phase_def episode_phase_def)
    with assms Some w show ?thesis
      by (simp add: on_reset_window_complete_def ctx_simps)
  qed
qed

lemma on_reset_window_engage_keeps:
  assumes "fsm_inv cfg s"
  shows "handles (on_reset_window_engage i s) (keeps cfg)"
proof (cases "episode s")
  case None
  then show ?thesis
    by (simp add: on_reset_window_engage_def reset_phase_def episode_phase_def)
next
  case (Some e)
  show ?thesis
  proof (cases "reset_window e")
    case None
    with Some show ?thesis by (simp add: on_reset_window_engage_def)
  next
    case w: (Some w)
    note calm = window_calm [OF assms Some w]
    then have "ep_phase e \<noteq> Intervention p" for p by auto
    then show ?thesis
      using assms Some w calm
      by (cases "lease s"; cases "claim s")
        (auto simp: on_reset_window_engage_def begin_reset_engage_def holds_claim_def
          reset_phase_def episode_phase_def request_mint_def lease_op_to_def ctx_simps
          fsm_inv_Some pending_ok_def intervention_ok_def window_is_def)
  qed
qed

subsection \<open>Episode and claim rows\<close>

lemma calm_facts:
  assumes "fsm_inv cfg s" "episode s = Some e" "reset_window e = None"
    "\<not> in_intervention (Some (ep_phase e))" "\<not> is_terminal (ep_phase e)" "ep_phase e \<noteq> PostReset"
  shows "engage_stage s = None" "\<not> engage_timed_out s" "gate_mode s \<noteq> GM_Reset"
    "loose_pending cfg s"
proof -
  have "ep_phase e \<noteq> Intervention p" for p using assms(4) by auto
  with assms show "engage_stage s = None" "\<not> engage_timed_out s" "gate_mode s \<noteq> GM_Reset"
    by (auto simp: fsm_inv_Some intervention_ok_def)
  with assms show "loose_pending cfg s"
    by (simp add: fsm_inv_calm)
qed

lemma run_facts:
  assumes "fsm_inv cfg s" "episode s = Some e" "ep_phase e = Ready \<or> ep_phase e = Running"
  shows "reset_window e = None" "pinned_outcome e = None" "episode_inv e" "closing_ok e"
    "engage_stage s = None" "\<not> engage_timed_out s" "gate_mode s \<noteq> GM_Reset" "loose_pending cfg s"
proof -
  show inv: "episode_inv e" and cl: "closing_ok e"
    using assms by (auto simp: fsm_inv_Some episode_inv_closing)
  have "in_run (ep_phase e)" using assms(3) by auto
  from in_run_facts [OF cl this] show "reset_window e = None" "pinned_outcome e = None" by simp_all
  with assms calm_facts [OF assms(1,2)] show "engage_stage s = None" "\<not> engage_timed_out s"
    "gate_mode s \<noteq> GM_Reset" "loose_pending cfg s"
    by auto
qed

lemma transition_keeps:
  assumes "fsm_inv cfg (st c)" "episode (st c) = Some e" "ep_phase e = Ready"
  shows "succeeds (transition t Running reason None c) (keeps cfg)"
proof -
  have "ep_phase e = Ready \<or> ep_phase e = Running" using assms by simp
  note facts = run_facts [OF assms(1,2) this]
  have "episode_inv (e\<lparr>ep_phase := Running\<rparr>)"
    using facts assms by (simp add: episode_inv_run)
  with facts assms show ?thesis
    by (simp add: ctx_simps fsm_inv_calm)
qed

lemma on_start_keeps: "fsm_inv cfg s \<Longrightarrow> handles (on_start t s) (keeps cfg)"
  by (auto simp: on_start_def episode_phase_def ctx_simps intro!: transition_keeps)

lemma on_gate_tick_keeps: "fsm_inv cfg s \<Longrightarrow> handles (on_gate_tick t s) (keeps cfg)"
  by (auto simp: on_gate_tick_def episode_phase_def ctx_simps intro!: transition_keeps)

lemma on_reset_result_keeps:
  assumes "fsm_inv cfg s"
  shows "handles (on_reset_result ok verified t s) (keeps cfg)"
proof (cases "episode s")
  case None
  then show ?thesis by (simp add: on_reset_result_def episode_phase_def)
next
  case (Some e)
  have "succeeds (apply_reset_result t ok verified (begin_ctx s)) (keeps cfg)"
    if "ep_phase e = Resetting" "reset_window e = None"
    using that calm_facts [OF assms Some] fsm_inv_episode_inv [OF assms Some] Some
    by (intro apply_reset_result_keeps [of _ e]) (simp_all add: ctx_simps)
  with Some show ?thesis
    by (simp add: on_reset_result_def episode_phase_def)
qed

text \<open>The pending mint and the intervention links read only phase and window of the episode.\<close>

lemma then_ok_episode:
  "ep_phase e' = ep_phase e \<Longrightarrow> reset_window e' = reset_window e \<Longrightarrow>
   pinned_outcome e' = pinned_outcome e \<Longrightarrow>
   then_ok cfg e' s tgt a = then_ok cfg e s tgt a"
  by (cases a) (simp_all add: window_is_def split: handback_then.split)

lemma pending_ok_episode:
  "ep_phase e' = ep_phase e \<Longrightarrow> reset_window e' = reset_window e \<Longrightarrow>
   pinned_outcome e' = pinned_outcome e \<Longrightarrow> pending_ok cfg e' s = pending_ok cfg e s"
  using then_ok_episode [of e' e] by (simp add: pending_ok_def split: option.split)

lemma fsm_inv_episode_flags:
  assumes "fsm_inv cfg s" "episode s = Some e" "episode_inv e'" "ep_phase e' = ep_phase e"
    "reset_window e' = reset_window e" "pinned_outcome e' = pinned_outcome e"
  shows "fsm_inv cfg (s\<lparr>episode := Some e'\<rparr>)"
proof -
  have "then_ok cfg e' (s\<lparr>episode := Some e'\<rparr>) tgt a = then_ok cfg e' s tgt a" for tgt a
    by (cases a) (simp_all add: claim_client_is_def)
  then have "pending_ok cfg e' (s\<lparr>episode := Some e'\<rparr>) = pending_ok cfg e' s"
    by (simp add: pending_ok_def split: option.split)
  with assms pending_ok_episode [of e' e] show ?thesis
    by (simp add: fsm_inv_Some window_is_def intervention_ok_def intervenor_writes_def
        claimed_gate_def)
qed

lemma on_verification_result_keeps:
  assumes "fsm_inv cfg s"
  shows "handles (on_verification_result verified inval t s) (keeps cfg)"
proof (cases "episode s")
  case None
  then show ?thesis by (simp add: on_verification_result_def)
next
  case (Some e)
  have inv: "episode_inv e" using assms Some by (rule fsm_inv_episode_inv)
  have flags: "fsm_inv cfg (s\<lparr>episode := Some (e\<lparr>ep_verified := True\<rparr>)\<rparr>)"
    "fsm_inv cfg (s\<lparr>episode := Some (e\<lparr>reset_unverified := True\<rparr>)\<rparr>)"
    using inv by (auto intro!: fsm_inv_episode_flags [OF assms Some])
  have ready: "fsm_inv cfg (s\<lparr>episode := Some (e\<lparr>ep_verified := True, ep_phase := Ready\<rparr>)\<rparr>)"
    if "ep_phase e = Resetting" "reset_ok e"
  proof -
    have "reset_window e = None"
      using inv that by (auto simp: episode_inv_defs split: option.splits if_splits)
    moreover from this have "episode_inv (e\<lparr>ep_verified := True, ep_phase := Ready\<rparr>)"
      using inv that by (auto simp: episode_inv_defs split: option.splits)
    ultimately show ?thesis
      using calm_facts [OF assms Some] that by (simp add: fsm_inv_calm ctx_simps)
  qed
  from Some assms flags ready show ?thesis
    by (simp add: on_verification_result_def episode_phase_def ctx_simps)
qed

end
