(* ===== verification/Waddle_Rows.thy ===== *)
theory Waddle_Rows
  imports Waddle_Preservation
begin

text \<open>
  The remaining rows of the session machine keep the invariant, and the summary: every
  event keeps it and none panics except the reset window timer without an episode. With
  it, the reachable states of a session.
\<close>

subsection \<open>Rows that only emit\<close>

lemma then_ok_irrelevant [simp]:
  "then_ok cfg e (s\<lparr>plane_connected := b\<rparr>) tgt a = then_ok cfg e s tgt a"
  "then_ok cfg e (s\<lparr>buffered_events := n\<rparr>) tgt a = then_ok cfg e s tgt a"
  "then_ok cfg e (s\<lparr>clutch_seq := n\<rparr>) tgt a = then_ok cfg e s tgt a"
  by (cases a; simp add: claim_client_is_def)+

lemma fsm_inv_irrelevant [simp]:
  "fsm_inv cfg (s\<lparr>plane_connected := b\<rparr>) = fsm_inv cfg s"
  "fsm_inv cfg (s\<lparr>buffered_events := n\<rparr>) = fsm_inv cfg s"
  "fsm_inv cfg (s\<lparr>clutch_seq := n\<rparr>) = fsm_inv cfg s"
  by (simp_all add: fsm_inv_def pending_ok_def intervention_ok_def intervenor_writes_def
      claimed_gate_def split: option.split)

lemma on_claim_requested_keeps:
  "fsm_inv cfg s \<Longrightarrow> handles (on_claim_requested i src actor self t s) (keeps cfg)"
  by (auto simp: on_claim_requested_def active_def ctx_simps split: option.splits)

lemma on_judge_result_keeps: "fsm_inv cfg s \<Longrightarrow> handles (on_judge_result judge passed t s) (keeps cfg)"
  by (auto simp: on_judge_result_def ctx_simps split: option.splits)

lemma on_dual_write_keeps: "fsm_inv cfg s \<Longrightarrow> handles (on_dual_write m w tr t s) (keeps cfg)"
  by (auto simp: on_dual_write_def active_def ctx_simps split: option.splits)

lemma on_intervention_rejected_keeps:
  "fsm_inv cfg s \<Longrightarrow> handles (on_intervention_rejected src reason t s) (keeps cfg)"
  by (auto simp: on_intervention_rejected_def active_def ctx_simps split: option.splits)

lemma fsm_inv_put_grants [simp]: "fsm_inv cfg (s\<lparr>grants := gs\<rparr>) = fsm_inv cfg s"
  using fsm_inv_emits_only [OF emits_only_put_grants, of cfg gs "begin_ctx s"]
  by (simp add: ctx_simps)

lemma on_proxy_signals_keeps: "fsm_inv cfg s \<Longrightarrow> handles (on_proxy_signals cfg' sm t s) (keeps cfg)"
  by (simp add: on_proxy_signals_def Let_def ctx_simps)

lemma on_heartbeat_ack_keeps: "fsm_inv cfg s \<Longrightarrow> handles (on_heartbeat_ack ds t s) (keeps cfg)"
  by (simp add: on_heartbeat_ack_def ctx_simps)

lemma on_partition_start_keeps: "fsm_inv cfg s \<Longrightarrow> handles (on_partition_start cfg' t s) (keeps cfg)"
  by (simp add: on_partition_start_def ctx_simps)

lemma on_partition_end_keeps: "fsm_inv cfg s \<Longrightarrow> handles (on_partition_end t s) (keeps cfg)"
  by (simp add: on_partition_end_def Let_def ctx_simps)

lemma on_heartbeat_stale_keeps: "fsm_inv cfg s \<Longrightarrow> handles (on_heartbeat_stale t s) (keeps cfg)"
  by (simp add: on_heartbeat_stale_def Let_def ctx_simps)

subsection \<open>Claim rows\<close>

lemma fsm_inv_claim:
  assumes "fsm_inv cfg s" "episode s = Some e" "\<not> in_intervention (Some (ep_phase e))"
  shows "fsm_inv cfg (s\<lparr>claim := x\<rparr>)"
proof -
  have no: "ep_phase e \<noteq> Intervention p" for p using assms(3) by auto
  with assms have "engage_stage s = None"
    by (auto simp: fsm_inv_Some intervention_ok_def)
  then have "then_ok cfg e s tgt a \<Longrightarrow> then_ok cfg e (s\<lparr>claim := x\<rparr>) tgt a" for tgt a
    by (cases a) auto
  with assms no \<open>engage_stage s = None\<close> show ?thesis
    by (auto simp: fsm_inv_Some pending_ok_def intervention_ok_def split: option.splits)
qed

lemma on_claim_released_keeps:
  assumes "fsm_inv cfg s"
  shows "handles (on_claim_released i t s) (keeps cfg)"
proof (cases "episode s")
  case None
  with assms show ?thesis by (simp add: on_claim_released_def fsm_inv_None)
next
  case (Some e)
  with assms show ?thesis
    by (auto simp: on_claim_released_def episode_phase_def take_claim_def ctx_simps fsm_inv_claim
        split: option.splits)
qed

text \<open>A claim may be granted while an intervention phase has none only if there is none:
  in an intervention the claim is present, so the grant is refused.\<close>

lemma claim_in_intervention:
  assumes "fsm_inv cfg s" "episode s = Some e" "in_intervention (Some (ep_phase e))"
  shows "claim s \<noteq> None"
proof -
  obtain p where "ep_phase e = Intervention p" using assms(3) by (cases "ep_phase e") auto
  with assms show ?thesis
    by (cases p) (auto simp: fsm_inv_Some intervention_ok_def intervenor_writes_def)
qed

lemma on_claim_granted_keeps:
  assumes "fsm_inv cfg s"
  shows "handles (on_claim_granted i src actor self t s) (keeps cfg)"
proof (cases "episode s")
  case None
  then show ?thesis by (simp add: on_claim_granted_def active_def)
next
  case (Some e)
  have "fsm_inv cfg (s\<lparr>claim := x\<rparr>)" if "claim s = None" for x
    using claim_in_intervention [OF assms Some] fsm_inv_claim [OF assms Some] that by blast
  with Some assms show ?thesis
    by (simp add: on_claim_granted_def ctx_simps split: option.split)
qed

subsection \<open>Opening an episode\<close>

lemma inactive_facts:
  assumes "fsm_inv cfg s" "\<not> active s"
  shows "engage_stage s = None" "\<not> engage_timed_out s" "gate_mode s \<noteq> GM_Reset"
    "loose_pending cfg s"
proof -
  have "engage_stage s = None \<and> \<not> engage_timed_out s \<and> gate_mode s \<noteq> GM_Reset \<and> loose_pending cfg s"
  proof (cases "episode s")
    case None
    with assms show ?thesis by (simp add: fsm_inv_None loose_pending_def)
  next
    case (Some e)
    with assms obtain out where out: "ep_phase e = Terminal out"
      by (cases "ep_phase e") (auto simp: active_def)
    with Some assms have "pending_ok cfg e s" "engage_stage s = None" "\<not> engage_timed_out s"
      "gate_mode s \<noteq> GM_Reset"
      by (auto simp: fsm_inv_Some intervention_ok_def)
    moreover have "loose_pending cfg s"
      using \<open>pending_ok cfg e s\<close> \<open>engage_stage s = None\<close> out
      by (cases "pending_lease s"; cases "po_then (the (pending_lease s))")
        (auto simp: pending_ok_def loose_pending_def split: handback_then.splits)
    ultimately show ?thesis by blast
  qed
  then show "engage_stage s = None" "\<not> engage_timed_out s" "gate_mode s \<noteq> GM_Reset"
    "loose_pending cfg s" by auto
qed

lemma fsm_inv_resetting:
  assumes "episode s = Some e" "ep_phase e = Resetting" "episode_inv e" "\<not> window_is e True"
    "engage_stage s = None" "\<not> engage_timed_out s" "gate_mode s \<noteq> GM_Reset" "loose_pending cfg s"
  shows "fsm_inv cfg s"
  using assms by (simp add: fsm_inv_Some intervention_ok_def loose_pending_ok)

lemma new_episode_inv [simp]:
  "episode_inv (new_episode i ver born par post_reset post_win invite)"
  "ep_phase (new_episode i ver born par post_reset post_win invite) = Resetting"
  "reset_window (new_episode i ver born par post_reset post_win invite) = None"
  "\<not> reset_ok (new_episode i ver born par post_reset post_win invite)"
  by (simp_all add: new_episode_def episode_open_state_def episode_inv_defs)

lemma loose_initial_acquire:
  "lease s = Vacant \<Longrightarrow> loose_pending cfg (s\<lparr>pending_lease := Some
     \<lparr>po_op = Op_Acquire (loop_client cfg), po_then = InitialAcquire\<rparr>\<rparr>)"
  by (simp add: loose_pending_def)

lemma initial_acquire_keeps:
  assumes "episode (st c) = Some e" "ep_phase e = Resetting" "episode_inv e"
    "\<not> window_is e True" "engage_stage (st c) = None" "\<not> engage_timed_out (st c)"
    "gate_mode (st c) \<noteq> GM_Reset" "loose_pending cfg (st c)"
  shows "keeps cfg (if lease (st c) = Vacant \<and> pending_lease (st c) = None
     then request_mint \<lparr>po_op = Op_Acquire (loop_client cfg), po_then = InitialAcquire\<rparr> c else c)"
  using assms
  by (auto simp: request_mint_def ctx_simps loose_initial_acquire intro!: fsm_inv_resetting)

lemma open_reset_window_eq:
  assumes "episode (st c) = Some e"
  shows "\<exists>c'. open_reset_window t k spec c = Some c' \<and>
    same_core ((st c)\<lparr>episode := Some (e\<lparr>reset_window := Some \<lparr>rw_kind = k,
      rw_expected = ws_expected spec, rw_engaged = False, rw_prompt = ws_prompt spec\<rparr>\<rparr>)\<rparr>) (st c')"
  using assms by (simp add: open_reset_window_def ctx_simps same_core_def)

lemma pre_window_keeps:
  assumes "episode (st c) = Some e" "ep_phase e = Resetting" "episode_inv e" "reset_window e = None"
    "\<not> reset_ok e" "engage_stage (st c) = None" "\<not> engage_timed_out (st c)"
    "gate_mode (st c) \<noteq> GM_Reset" "loose_pending cfg (st c)"
  shows "succeeds (open_window_and_lease cfg pre t c) (keeps cfg)"
proof (cases "\<exists>spec. pre = Some spec \<and> claim (st c) = None")
  case False
  with assms show ?thesis
    using initial_acquire_keeps [OF assms(1-3)]
    by (auto simp: open_window_and_lease_def split: option.split)
next
  case True
  then obtain spec where spec: "pre = Some spec" "claim (st c) = None" by blast
  let ?w = "\<lparr>rw_kind = RK_Pre, rw_expected = ws_expected spec, rw_engaged = False,
    rw_prompt = ws_prompt spec\<rparr>"
  obtain c' where c': "open_reset_window t RK_Pre spec c = Some c'"
    "same_core ((st c)\<lparr>episode := Some (e\<lparr>reset_window := Some ?w\<rparr>)\<rparr>) (st c')"
    using open_reset_window_eq [OF assms(1)] by blast
  have "episode_inv (e\<lparr>reset_window := Some ?w\<rparr>)"
    by (rule open_window_episode_inv) (use assms in auto)
  moreover have "loose_pending cfg (st c')"
    using loose_pending_core [OF c'(2), of cfg] assms(9) by (simp add: ctx_simps)
  ultimately have "keeps cfg (if lease (st c') = Vacant \<and> pending_lease (st c') = None
       then request_mint \<lparr>po_op = Op_Acquire (loop_client cfg), po_then = InitialAcquire\<rparr> c' else c')"
    using assms c'(2)
    by (intro initial_acquire_keeps [of c' "e\<lparr>reset_window := Some ?w\<rparr>"])
      (auto simp: same_core_def window_is_def)
  with spec c' show ?thesis by (simp add: open_window_and_lease_def)
qed

lemma open_invite_emits: "same_core (st c) (st (open_invite i invite t c))"
  by (simp add: open_invite_def same_core_def ctx_simps split: option.split)

lemma on_episode_open_keeps:
  assumes "fsm_inv cfg s"
  shows "handles (on_episode_open cfg i ver born par post_reset pre post invite t s) (keeps cfg)"
proof (cases "active s \<or> born \<and> claim s = None")
  case True
  then show ?thesis by (auto simp: on_episode_open_def)
next
  case False
  then have "\<not> active s" by simp
  note facts = inactive_facts [OF assms this]
  let ?e = "new_episode i ver born par post_reset post invite"
  let ?c = "emit (state_transition t i None SK_Resetting ''open'' None)
    (put (\<lambda>s. s\<lparr>episode := Some ?e\<rparr>) (begin_ctx s))"
  have "succeeds (open_window_and_lease cfg pre t (open_invite i invite t ?c)) (keeps cfg)"
    using open_invite_emits [of ?c i invite t] facts
      loose_pending_core [OF open_invite_emits [of ?c i invite t], of cfg]
    by (intro pre_window_keeps [of _ ?e]) (simp_all add: same_core_def ctx_simps)
  with False show ?thesis by (auto simp: on_episode_open_def)
qed

subsection \<open>Closing rows\<close>

lemma phase_pinned:
  assumes "episode_inv e" "\<not> is_terminal (ep_phase e)" "ep_phase e \<noteq> PostReset"
  shows "pinned_outcome e = None"
  using assms by (cases "ep_phase e") (auto simp: episode_inv_defs split: option.splits)

lemma on_terminate_keeps: "fsm_inv cfg s \<Longrightarrow> handles (on_terminate out reason t s) (keeps cfg)"
  by (auto simp: on_terminate_def active_def episode_phase_def ctx_simps fsm_inv_Some
      episode_inv_closing phase_pinned split: option.splits intro!: request_terminal_keeps)

lemma on_mark_keeps:
  assumes "fsm_inv cfg s"
  shows "handles (on_mark kind t s) (keeps cfg)"
proof (cases "episode s")
  case None
  then show ?thesis by (simp add: on_mark_def active_def)
next
  case (Some e)
  have "succeeds (request_terminal t out ''mark'' (emit ev (begin_ctx s))) (keeps cfg)"
    if "\<not> is_terminal (ep_phase e)" "ep_phase e \<noteq> PostReset" for out ev
    using that Some fsm_inv_episode_inv [OF assms Some]
    by (intro request_terminal_keeps [of _ e]) (simp_all add: ctx_simps episode_inv_closing phase_pinned)
  with Some assms show ?thesis
    by (simp add: on_mark_def active_def episode_phase_def ctx_simps split: option.split bool.split)
qed

lemma post_reset_pinned: "episode_inv e \<Longrightarrow> ep_phase e = PostReset \<Longrightarrow> \<exists>p. pinned_outcome e = Some p"
  by (auto simp: episode_inv_defs split: option.splits)

lemma on_post_reset_result_keeps:
  assumes "fsm_inv cfg s"
  shows "handles (on_post_reset_result ok detail t s) (keeps cfg)"
proof (cases "episode s")
  case None
  then show ?thesis by (simp add: on_post_reset_result_def episode_phase_def)
next
  case (Some e)
  have "succeeds (apply_post_reset_result t ok detail (begin_ctx s)) (keeps cfg)"
    if "ep_phase e = PostReset" "reset_window e = None"
  proof -
    obtain p where "pinned_outcome e = Some p"
      using post_reset_pinned [OF fsm_inv_episode_inv [OF assms Some]] \<open>ep_phase e = PostReset\<close>
      by blast
    then show ?thesis
      using that Some fsm_inv_episode_inv [OF assms Some]
      by (intro apply_post_reset_result_keeps [of _ e]) (simp_all add: ctx_simps episode_inv_closing)
  qed
  with Some show ?thesis by (simp add: on_post_reset_result_def episode_phase_def)
qed

lemma abort_invite_keeps:
  assumes "fsm_inv cfg s" "episode s = Some e" "invite_open e"
  shows "succeeds (abort_invite t reason s) (keeps cfg)"
proof -
  have inv: "episode_inv e" using assms(1,2) by (rule fsm_inv_episode_inv)
  have ph: "\<not> is_terminal (ep_phase e)" "ep_phase e \<noteq> PostReset"
    using assms(3) by (auto simp: invite_open_def)
  have "closing_ok (e\<lparr>invite_aborted := True\<rparr>)"
    using inv assms(3) by (auto simp: episode_inv_defs invite_open_def split: option.splits)
  with ph inv assms(2) show ?thesis
    by (simp add: abort_invite_def ctx_simps)
      (rule request_terminal_keeps [of _ "e\<lparr>invite_aborted := True\<rparr>"],
        simp_all add: ctx_simps phase_pinned)
qed

lemma on_agent_invite_timeout_keeps:
  "fsm_inv cfg s \<Longrightarrow> handles (on_agent_invite_timeout t s) (keeps cfg)"
  by (auto simp: on_agent_invite_timeout_def abort_invite_keeps ctx_simps split: option.splits)

lemma on_agent_task_denied_keeps:
  "fsm_inv cfg s \<Longrightarrow> handles (on_agent_task_denied detail t s) (keeps cfg)"
  by (auto simp: on_agent_task_denied_def abort_invite_keeps split: option.splits)

lemma on_retake_keeps:
  assumes "fsm_inv cfg s"
  shows "handles (on_retake i initiator successor t s) (keeps cfg)"
proof (cases "episode s")
  case None
  then show ?thesis by (simp add: on_retake_def retake_legal_def episode_phase_def)
next
  case (Some e)
  have inv: "episode_inv e" using assms Some by (rule fsm_inv_episode_inv)
  have "succeeds (enter_terminal t AbortedRetake ''retake'' False
      (emit ev (begin_ctx s))) (keeps cfg)" if "retake_legal s" for ev
  proof -
    have ph: "ep_phase e = Intervention IP_Settle \<or> ep_phase e = Intervention IP_Engage"
      using that Some by (auto simp: retake_legal_def episode_phase_def)
    then have "\<not> window_is e True" by auto
    then have "gate_mode s \<noteq> GM_Reset"
      using assms Some by (simp add: fsm_inv_Some)
    then show ?thesis
      using Some inv ph by (intro enter_terminal_keeps [of _ e])
        (auto simp: ctx_simps episode_inv_closing phase_pinned)
  qed
  with Some show ?thesis
    by (simp add: on_retake_def ctx_simps)
qed

lemma estop_post_reset_keeps:
  assumes "episode (st c) = Some e" "episode_inv e" "ep_phase e = PostReset"
  shows "succeeds (estop_post_reset t c) (keeps cfg)"
proof -
  obtain p where p: "pinned_outcome e = Some p"
    using post_reset_pinned [OF assms(2,3)] by blast
  have cl: "closing_ok (e\<lparr>post_reset_failed := True, reset_window := None\<rparr>)"
    using assms(2,3) by (auto simp: episode_inv_defs split: option.splits)
  show ?thesis
  proof (cases "reset_window e")
    case None
    then have "e\<lparr>post_reset_failed := True\<rparr> = e\<lparr>post_reset_failed := True, reset_window := None\<rparr>"
      by simp
    with cl have "closing_ok (e\<lparr>post_reset_failed := True\<rparr>)" by simp
    with None p assms show ?thesis
      by (simp add: estop_post_reset_def Let_def ctx_simps)
        (rule closed_pinned_keeps [of _ "e\<lparr>post_reset_failed := True\<rparr>"], simp_all add: ctx_simps)
  next
    case (Some w)
    with cl p assms show ?thesis
      by (simp add: estop_post_reset_def Let_def ctx_simps)
        (rule closed_pinned_keeps [of _ "e\<lparr>post_reset_failed := True, reset_window := None\<rparr>"],
          simp_all add: ctx_simps)
  qed
qed

lemma on_estop_keeps:
  assumes "fsm_inv cfg s"
  shows "handles (on_estop cfg' t s) (keeps cfg)"
proof -
  define c where "c = put (\<lambda>s. s\<lparr>pending_lease := None\<rparr>) (push (RequestVerb V_Estop)
    (emit (fault_event t (episode_ref s) FK_Estop ''estop'' ''emergency stop'')
      (lease_outcome_emit cfg' t LK_RevokedAll None
        (case map_option fst (holder (lease s)) of None \<Rightarrow> [] | Some l \<Rightarrow> ''revoked '' @ l)
        (put (\<lambda>s. s\<lparr>lease := Vacant\<rparr>) (begin_ctx s)))))"
  have eq: "on_estop cfg' t s =
     (if episode_phase s = Some PostReset then run (estop_post_reset t c)
      else if active s then run (enter_terminal t Abort ''estop'' True c) else accept c)"
    by (simp add: on_estop_def Let_def c_def)
  have core: "same_core (s\<lparr>lease := Vacant, pending_lease := None\<rparr>) (st c)"
    by (simp add: c_def same_core_def lease_outcome_emit_def ctx_simps)
  show ?thesis
  proof (cases "episode s")
    case None
    with assms core show ?thesis
      by (simp add: eq episode_phase_def active_def fsm_inv_None same_core_def)
  next
    case (Some e)
    have inv: "episode_inv e" using assms Some by (rule fsm_inv_episode_inv)
    have e: "episode (st c) = Some e" using core Some by (simp add: same_core_def)
    have "keeps cfg c" if "is_terminal (ep_phase e)"
    proof -
      have "\<not> active s" using that Some by (simp add: active_def)
      note facts = inactive_facts [OF assms this]
      have "\<not> in_run (ep_phase e)" "\<not> window_is e True" using that by (cases "ep_phase e"; simp)+
      with inv facts core e show ?thesis
        by (subst fsm_inv_quiet) (auto simp: same_core_def)
    qed
    moreover have "succeeds (enter_terminal t Abort ''estop'' True c) (keeps cfg)"
      if "\<not> is_terminal (ep_phase e)" "ep_phase e \<noteq> PostReset"
      using that e inv by (intro enter_terminal_keeps [of _ e])
        (simp_all add: episode_inv_closing phase_pinned)
    ultimately show ?thesis
      using Some e inv estop_post_reset_keeps [OF e inv]
      by (simp add: eq episode_phase_def active_def)
  qed
qed

subsection \<open>Engage and release\<close>

lemma fsm_inv_engage:
  assumes "episode s = Some e" "ep_phase e = Intervention IP_Engage" "episode_inv e"
    "gate_mode s \<noteq> GM_Reset" "claim s \<noteq> None"
    "engage_stage s = Some g" "g \<noteq> AwaitLease" "loose_pending cfg s"
  shows "fsm_inv cfg s"
  using assms by (simp add: fsm_inv_Some intervention_ok_def loose_pending_ok)

lemma lease_op_to_planned [simp]: "op_planned (lease_op_to l to) l" "op_target (lease_op_to l to) = to"
  by (cases l; simp add: lease_op_to_def)+

lemma mint_engage_handoff_keeps:
  assumes "episode (st c) = Some e" "ep_phase e = Intervention IP_Engage" "episode_inv e"
    "gate_mode (st c) \<noteq> GM_Reset" "claim (st c) = Some cl"
  shows "succeeds (mint_engage_handoff c) (keeps cfg)"
  using assms
  by (simp add: mint_engage_handoff_def request_mint_def ctx_simps fsm_inv_Some pending_ok_def
      intervention_ok_def claim_client_is_def)

lemma engage_facts:
  assumes "fsm_inv cfg s" "engage_stage s \<noteq> None"
  obtains e cl where "episode s = Some e" "ep_phase e = Intervention IP_Engage" "episode_inv e"
    "gate_mode s \<noteq> GM_Reset" "claim s = Some cl"
proof -
  obtain e where "episode s = Some e"
    using assms by (cases "episode s") (auto simp: fsm_inv_None)
  with assms that show ?thesis
    by (auto simp: fsm_inv_Some intervention_ok_def)
qed

lemma mint_from_engage:
  assumes "fsm_inv cfg s" "engage_stage s \<noteq> None"
  shows "succeeds (mint_engage_handoff (begin_ctx s)) (keeps cfg)"
    "succeeds (mint_engage_handoff (push ef (begin_ctx s))) (keeps cfg)"
  by (rule engage_facts [OF assms], rule mint_engage_handoff_keeps; simp add: ctx_simps)+

lemma on_chunk_boundary_keeps: "fsm_inv cfg s \<Longrightarrow> handles (on_chunk_boundary s) (keeps cfg)"
  by (simp add: on_chunk_boundary_def ctx_simps mint_from_engage)

lemma on_chunk_boundary_cap_keeps: "fsm_inv cfg s \<Longrightarrow> handles (on_chunk_boundary_cap s) (keeps cfg)"
  by (simp add: on_chunk_boundary_cap_def ctx_simps mint_from_engage)

lemma on_verb_result_keeps:
  assumes "fsm_inv cfg s"
  shows "handles (on_verb_result v ok fault t s) (keeps cfg)"
proof (cases "engage_stage s = Some AwaitHoldOk \<and> v = V_Hold")
  case True
  then obtain e where "episode s = Some e" using engage_facts [OF assms] by blast
  with True assms show ?thesis
    by (simp add: on_verb_result_def ctx_simps mint_from_engage)
next
  case False
  with assms show ?thesis
    by (auto simp: on_verb_result_def ctx_simps)
qed

lemma on_engage_timeout_keeps:
  assumes "fsm_inv cfg s"
  shows "handles (on_engage_timeout s) (keeps cfg)"
proof (cases "episode_phase s = Some (Intervention IP_Engage)")
  case True
  then obtain e where e: "episode s = Some e" "ep_phase e = Intervention IP_Engage"
    by (auto simp: episode_phase_def)
  have "then_ok cfg e (s\<lparr>engage_timed_out := True\<rparr>) tgt a = then_ok cfg e s tgt a" for tgt a
    by (cases a) (simp_all add: claim_client_is_def)
  with e assms True show ?thesis
    by (simp add: on_engage_timeout_def ctx_simps fsm_inv_Some pending_ok_def intervention_ok_def
        split: option.splits)
next
  case False
  with assms show ?thesis by (simp add: on_engage_timeout_def ctx_simps)
qed

lemma loose_pending_update [ctx_simps]:
  "loose_pending cfg (s\<lparr>engage_stage := g\<rparr>) = loose_pending cfg s"
  "loose_pending cfg (s\<lparr>clutch_seq := n\<rparr>) = loose_pending cfg s"
  by (rule loose_pending_cong; simp)+

lemma episode_inv_engaged:
  assumes "episode_inv e" "ep_phase e = Running"
  shows "episode_inv (e\<lparr>ep_phase := Intervention IP_Engage\<rparr>)"
    "agent_invited e \<Longrightarrow> episode_inv (e\<lparr>ep_phase := Intervention IP_Engage, agent_engaged := True\<rparr>)"
  using assms by (auto simp: episode_inv_defs split: option.splits if_splits)

lemma begin_engage_keeps:
  assumes "episode (st c) = Some e" "ep_phase e = Running" "episode_inv e" "claim (st c) = Some cl"
    "gate_mode (st c) \<noteq> GM_Reset" "loose_pending cfg (st c)"
  shows "succeeds (begin_engage cfg' t c) (keeps cfg)"
proof -
  note ep = episode_inv_engaged [OF assms(3,2)]
  show ?thesis
  proof (cases "agent_invited e \<and> \<not> agent_engaged e")
    case True
    with assms ep show ?thesis
      by (cases "effective_handoff cfg'")
        (simp_all add: begin_engage_def ctx_simps mint_engage_handoff_keeps fsm_inv_engage)
  next
    case False
    with assms ep show ?thesis
      by (cases "effective_handoff cfg'")
        (auto simp add: begin_engage_def ctx_simps mint_engage_handoff_keeps fsm_inv_engage)
  qed
qed

lemma on_engage_keeps:
  assumes "fsm_inv cfg s"
  shows "handles (on_engage cfg' i t s) (keeps cfg)"
proof (cases "episode_phase s = Some Running")
  case True
  then obtain e where e: "episode s = Some e" "ep_phase e = Running"
    by (auto simp: episode_phase_def)
  note facts = run_facts [OF assms e(1) disjI2 [OF e(2)]]
  show ?thesis
  proof (cases "claim s")
    case (Some cl)
    have "succeeds (begin_engage cfg' t (begin_ctx s)) (keeps cfg)"
      using e facts Some by (intro begin_engage_keeps [of _ e cl]) (simp_all add: ctx_simps)
    with Some True show ?thesis by (simp add: on_engage_def)
  qed (use True in \<open>simp add: on_engage_def\<close>)
next
  case False
  then show ?thesis by (simp add: on_engage_def)
qed

lemma begin_release_keeps:
  assumes "fsm_inv cfg s" "episode s = Some e" "ep_phase e = Intervention IP_Settle"
  shows "succeeds (begin_release cfg t (begin_ctx s)) (keeps cfg)"
proof -
  have inv: "episode_inv (e\<lparr>ep_phase := Intervention IP_Release\<rparr>)" and "\<not> window_is e True"
    using assms by (auto simp: fsm_inv_Some intro: episode_inv_run)
  obtain cl l where cl: "claim s = Some cl" "lease s = Held l (claim_client cl)" "claimed_gate s"
      "engage_stage s = None" "\<not> engage_timed_out s" "gate_mode s \<noteq> GM_Reset"
    using assms by (cases "lease s") (auto simp: fsm_inv_Some intervention_ok_def intervenor_writes_def)
  show ?thesis
    using assms(2) cl inv
    by (simp add: begin_release_def request_mint_def ctx_simps fsm_inv_Some pending_ok_def
        intervention_ok_def intervenor_writes_def claimed_gate_def)
qed

lemma on_release_keeps: "fsm_inv cfg s \<Longrightarrow> handles (on_release cfg i t s) (keeps cfg)"
  by (auto simp: on_release_def episode_phase_def intro!: begin_release_keeps)

lemma clutch_engage_keeps:
  assumes "fsm_inv cfg s"
  shows "handles (clutch_engage cfg' t s) (keeps cfg)"
proof (cases "claim s = None \<and> episode_phase s = Some Running")
  case True
  then obtain e where e: "episode s = Some e" "ep_phase e = Running"
    by (auto simp: episode_phase_def)
  note facts = run_facts [OF assms e(1) disjI2 [OF e(2)]]
  have "succeeds (begin_engage cfg' t (put (\<lambda>s. s\<lparr>claim := Some cl\<rparr>) (emit ev (emit ev'
      (put (\<lambda>s. s\<lparr>clutch_seq := clutch_seq s + 1\<rparr>) (begin_ctx s)))))) (keeps cfg)" for cl ev ev'
    using e facts by (intro begin_engage_keeps [of _ e cl]) (simp_all add: ctx_simps)
  with True e assms show ?thesis
    by (simp add: clutch_engage_def ctx_simps)
next
  case False
  with assms show ?thesis by (auto simp: clutch_engage_def ctx_simps)
qed

lemma on_clutch_keeps: "fsm_inv cfg s \<Longrightarrow> handles (on_clutch cfg engaged t s) (keeps cfg)"
  by (auto simp: on_clutch_def clutch_engage_keeps clutch_disengage_def episode_phase_def ctx_simps
      intro!: begin_release_keeps)

subsection \<open>Gate-mode rows\<close>

lemma fsm_inv_claimed_gate:
  assumes "fsm_inv cfg s" "claimed_gate s" "g = GM_Intervention \<or> g = GM_Bypass"
  shows "fsm_inv cfg (s\<lparr>gate_mode := g\<rparr>)"
proof -
  obtain e where e: "episode s = Some e"
    using assms by (cases "episode s") (auto simp: fsm_inv_None claimed_gate_def)
  have "then_ok cfg e (s\<lparr>gate_mode := g\<rparr>) tgt a = then_ok cfg e s tgt a" for tgt a
    by (cases a) (simp_all add: claim_client_is_def)
  then have "pending_ok cfg e (s\<lparr>gate_mode := g\<rparr>) = pending_ok cfg e s"
    by (simp add: pending_ok_def split: option.split)
  with assms e show ?thesis
    by (auto simp: fsm_inv_Some intervention_ok_def intervenor_writes_def claimed_gate_def)
qed

lemma set_gate_claimed_keeps:
  assumes "fsm_inv cfg s" "claimed_gate s" "g = GM_Intervention \<or> g = GM_Bypass"
  shows "succeeds (set_gate t g reason (begin_ctx s)) (keeps cfg)"
proof -
  obtain e where e: "episode s = Some e"
    using assms by (cases "episode s") (auto simp: fsm_inv_None claimed_gate_def)
  with assms fsm_inv_claimed_gate [OF assms] show ?thesis
    by (simp add: set_gate_def ctx_simps)
qed

lemma on_stall_detected_keeps: "fsm_inv cfg s \<Longrightarrow> handles (on_stall_detected t s) (keeps cfg)"
  by (auto simp: on_stall_detected_def ctx_simps claimed_gate_def intro!: set_gate_claimed_keeps)

lemma on_ticks_resumed_keeps: "fsm_inv cfg s \<Longrightarrow> handles (on_ticks_resumed t s) (keeps cfg)"
  by (auto simp: on_ticks_resumed_def ctx_simps claimed_gate_def intro!: set_gate_claimed_keeps)

subsection \<open>The mint answer\<close>

text \<open>A pending operation is planned against the lease as it is, so the mint is granted or
  handed off, to the planned client, with the minted token.\<close>

lemma planned_lease_step:
  assumes "op_planned op l"
  shows "fst (lease_step l (pending_cmd op minted)) = Held minted (op_target op)"
    "\<exists>a b. snd (lease_step l (pending_cmd op minted)) = LO_Granted a b True \<or>
       (\<exists>frm. snd (lease_step l (pending_cmd op minted)) = LO_HandedOff frm a b)"
  using assms by (cases op; cases l; auto)+

lemma minted_unfold:
  assumes "pending_lease s = Some p" "\<not> stale_reset_mint s p" "op_planned (po_op p) (lease s)"
  shows "\<exists>ev. on_lease_token_minted cfg minted t s =
    run (after_lease_applied t (po_then p) (emit ev
      (put (\<lambda>s. s\<lparr>pending_lease := None, lease := Held minted (op_target (po_op p))\<rparr>) (begin_ctx s))))"
proof (cases "po_op p"; cases "lease s")
qed (use assms in \<open>auto simp: on_lease_token_minted_def lease_outcome_emit_def put_def Let_def\<close>)

lemma after_engage_keeps:
  assumes "episode (st c) = Some e" "ep_phase e = Intervention IP_Engage" "episode_inv e"
    "claim (st c) = Some cl" "lease (st c) = Held l (claim_client cl)" "pending_lease (st c) = None"
    "gate_mode (st c) \<noteq> GM_Reset"
  shows "succeeds (after_engage t c) (keeps cfg)"
proof -
  have "episode_inv (e\<lparr>ep_phase := Intervention IP_Settle\<rparr>)"
    using assms by (auto intro: episode_inv_run)
  with assms show ?thesis
    by (simp add: after_engage_def set_gate_def ctx_simps fsm_inv_Some pending_ok_def
        intervention_ok_def intervenor_writes_def claimed_gate_def)
qed

lemma after_release_keeps:
  assumes "episode (st c) = Some e" "ep_phase e = Intervention IP_Release" "episode_inv e"
    "engage_stage (st c) = None" "\<not> engage_timed_out (st c)" "pending_lease (st c) = None"
  shows "succeeds (after_release t c) (keeps cfg)"
proof -
  have inv: "episode_inv (e\<lparr>ep_phase := Running\<rparr>)" and rw: "reset_window e = None"
    using assms episode_inv_run [of e Running] in_run_facts(1) [of e]
    by (auto simp: episode_inv_closing)
  obtain c1 where c1: "set_gate t GM_Passthrough ''release'' c = Some c1"
    "same_core ((st c)\<lparr>gate_mode := GM_Passthrough\<rparr>) (st c1)"
    using set_gate_Some [OF assms(1), of True GM_Passthrough t "''release''"]
    by (auto simp: set_gate_def split: if_splits)
  then have e1: "episode (st c1) = Some e" using assms by (simp add: same_core_def)
  let ?c2 = "emit (state_transition t (ep_id e) (Some (phase_kind (ep_phase e)))
    (phase_kind Running) ''release'' None) (put (\<lambda>s. s\<lparr>episode := Some (e\<lparr>ep_phase := Running\<rparr>)\<rparr>) c1)"
  have e2: "episode (st ?c2) = Some (e\<lparr>ep_phase := Running\<rparr>)" by (simp add: ctx_simps)
  obtain c3 where c3: "take_claim t ''release'' ?c2 = Some c3"
    "same_core ((st ?c2)\<lparr>claim := None\<rparr>) (st c3)"
    using take_claim_Some [OF e2, of True] by auto
  have "fsm_inv cfg (st c3)"
    using c3(2) c1(2) assms inv rw
    by (subst fsm_inv_calm [of _ "e\<lparr>ep_phase := Running\<rparr>"])
      (auto simp: same_core_def ctx_simps loose_pending_def)
  with c1 c3 e1 show ?thesis
    by (simp add: after_release_def transition_eq)
qed

lemma after_reset_engage_keeps:
  assumes "episode (st c) = Some e" "window_is e False" "episode_inv e" "claim (st c) = Some cl"
    "lease (st c) \<noteq> Vacant" "engage_stage (st c) = None" "\<not> engage_timed_out (st c)"
    "pending_lease (st c) = None"
  shows "succeeds (after_reset_engage t c) (keeps cfg)"
proof -
  obtain w where w: "reset_window e = Some w" "ep_phase e = Resetting \<or> ep_phase e = PostReset"
    using assms(2) by (auto simp: window_is_def split: option.splits)
  let ?e = "e\<lparr>reset_window := Some (w\<lparr>rw_engaged := True\<rparr>)\<rparr>"
  have "episode_inv ?e"
    using assms(3) w by (auto simp: episode_inv_defs split: option.splits if_splits)
  with assms w show ?thesis
    by (auto simp: after_reset_engage_def set_gate_def ctx_simps fsm_inv_Some pending_ok_def
        intervention_ok_def window_is_def)
qed

lemma stale_mint_keeps:
  assumes "fsm_inv cfg s" "pending_lease s = Some p" "stale_reset_mint s p"
  shows "fsm_inv cfg (s\<lparr>pending_lease := None\<rparr>)"
proof -
  obtain e where e: "episode s = Some e"
    using assms by (cases "episode s") (auto simp: fsm_inv_None)
  with assms have "window_is e False"
    by (auto simp: fsm_inv_Some pending_ok_def stale_reset_mint_def)
  then have "ep_phase e \<noteq> Intervention x" for x
    by (auto simp: window_is_def)
  with assms e show ?thesis
    by (auto simp: fsm_inv_Some pending_ok_def intervention_ok_def)
qed

lemma calm_of_then:
  assumes "fsm_inv cfg s" "episode s = Some e" "pending_lease s = Some p" "po_then p \<noteq> EngageComplete"
    "po_then p = InitialAcquire \<Longrightarrow> False"
    "\<And>thn. po_then p = ResetHandback thn \<Longrightarrow> False"
  shows "engage_stage s = None" "\<not> engage_timed_out s"
proof -
  have "ep_phase e = Intervention IP_Release \<or> window_is e False"
    using assms by (cases "po_then p") (auto simp: fsm_inv_Some pending_ok_def)
  then have "ep_phase e \<noteq> Intervention IP_Engage" by (auto simp: window_is_def)
  with assms(1,2) show "engage_stage s = None" "\<not> engage_timed_out s"
    by (auto simp: fsm_inv_Some intervention_ok_def)
qed

text \<open>A handback that applies while an engage is in progress closes the run: the pending
  operation is a timeout left over from an earlier episode.\<close>

lemma minted_handback_keeps:
  assumes "fsm_inv cfg s" "episode s = Some e" "pending_lease s = Some p"
    "po_then p = ResetHandback thn"
  shows "succeeds (close_reset_window t thn (emit ev
    (put (\<lambda>s. s\<lparr>pending_lease := None, lease := l\<rparr>) (begin_ctx s)))) (keeps cfg)"
proof (rule close_reset_window_keeps)
  show "episode (st (emit ev (put (\<lambda>s. s\<lparr>pending_lease := None, lease := l\<rparr>) (begin_ctx s)))) = Some e"
    using assms by (simp add: ctx_simps)
  show "episode_inv e" using assms(1,2) by (rule fsm_inv_episode_inv)
  have "then_ok cfg e s (op_target (po_op p)) (ResetHandback thn)"
    using assms by (simp add: fsm_inv_Some pending_ok_def)
  moreover have "engage_stage s = None \<and> \<not> engage_timed_out s" if "ep_phase e = Resetting"
    using assms that by (auto simp: fsm_inv_Some intervention_ok_def)
  ultimately show "case thn of
       ApplyPreResult _ _ \<Rightarrow> ep_phase e = Resetting \<and>
         loose_pending cfg (st (emit ev (put (\<lambda>s. s\<lparr>pending_lease := None, lease := l\<rparr>) (begin_ctx s)))) \<and>
         engage_stage (st (emit ev (put (\<lambda>s. s\<lparr>pending_lease := None, lease := l\<rparr>) (begin_ctx s)))) = None \<and>
         \<not> engage_timed_out (st (emit ev (put (\<lambda>s. s\<lparr>pending_lease := None, lease := l\<rparr>) (begin_ctx s))))
     | ApplyPostResult _ \<Rightarrow> ep_phase e = PostReset
     | TimeoutClose \<Rightarrow> (is_terminal (ep_phase e) \<longrightarrow> pinned_outcome e = None) \<and>
         (ep_phase e = PostReset \<longrightarrow> reset_window e \<noteq> None)"
    by (cases thn) (simp_all add: ctx_simps loose_pending_def)
qed

lemma minted_initial_keeps:
  assumes "fsm_inv cfg s" "episode s = Some e" "pending_lease s = Some p"
    "po_then p = InitialAcquire"
  shows "fsm_inv cfg (s\<lparr>pending_lease := None, lease := Held m c\<rparr>)"
proof -
  have "engage_stage s \<noteq> Some AwaitLease" "ep_phase e \<noteq> Intervention IP_Release"
    "ep_phase e \<noteq> Intervention IP_Settle"
    using assms by (auto simp: fsm_inv_Some pending_ok_def)
  then show ?thesis
    using assms by (auto simp: fsm_inv_Some pending_ok_def intervention_ok_def)
qed

lemma minted_engage_keeps:
  assumes "fsm_inv cfg s" "episode s = Some e" "pending_lease s = Some p"
    "po_then p = EngageComplete"
  shows "succeeds (after_engage t (emit ev (put (\<lambda>s. s\<lparr>pending_lease := None,
    lease := Held m (op_target (po_op p))\<rparr>) (begin_ctx s)))) (keeps cfg)"
proof -
  have stage: "engage_stage s = Some AwaitLease" "claim_client_is s (op_target (po_op p))"
    using assms by (auto simp: fsm_inv_Some pending_ok_def)
  then obtain cl where cl: "claim s = Some cl" "claim_client cl = op_target (po_op p)"
    by (auto simp: claim_client_is_def)
  have ph: "ep_phase e = Intervention IP_Engage" and "\<not> window_is e True"
    using assms stage by (auto simp: fsm_inv_Some intervention_ok_def)
  with assms have "gate_mode s \<noteq> GM_Reset" "episode_inv e" by (auto simp: fsm_inv_Some)
  with assms cl ph show ?thesis
    by (intro after_engage_keeps [of _ e cl]) (simp_all add: ctx_simps)
qed

lemma on_lease_token_minted_keeps:
  assumes inv: "fsm_inv cfg s"
  shows "handles (on_lease_token_minted cfg m t s) (keeps cfg)"
proof (cases "pending_lease s")
  case None
  then show ?thesis by (simp add: on_lease_token_minted_def)
next
  case (Some p)
  obtain e where e: "episode s = Some e"
    using inv Some by (cases "episode s") (auto simp: fsm_inv_None)
  have epi: "episode_inv e" using inv e by (rule fsm_inv_episode_inv)
  show ?thesis
  proof (cases "stale_reset_mint s p")
    case True
    with Some inv stale_mint_keeps show ?thesis
      by (simp add: on_lease_token_minted_def lease_outcome_emit_def ctx_simps)
  next
    case False
    let ?c = "\<lambda>ev. emit ev (put (\<lambda>s. s\<lparr>pending_lease := None, lease := Held m (op_target (po_op p))\<rparr>)
      (begin_ctx s))"
    have "op_planned (po_op p) (lease s)"
      using inv e Some by (simp add: fsm_inv_Some pending_ok_def)
    from minted_unfold [OF Some False this] obtain ev where
      eq: "on_lease_token_minted cfg m t s = run (after_lease_applied t (po_then p) (?c ev))" by blast
    have "succeeds (after_lease_applied t (po_then p) (?c ev)) (keeps cfg)"
    proof (cases "po_then p")
      case InitialAcquire
      with minted_initial_keeps [OF inv e Some] show ?thesis by (simp add: ctx_simps)
    next
      case EngageComplete
      with minted_engage_keeps [OF inv e Some] show ?thesis by simp
    next
      case ReleaseComplete
      with inv e Some have "ep_phase e = Intervention IP_Release"
        by (auto simp: fsm_inv_Some pending_ok_def)
      with ReleaseComplete e epi calm_of_then [OF inv e Some] show ?thesis
        by (simp, intro after_release_keeps [of _ e]) (simp_all add: ctx_simps)
    next
      case ResetEngageComplete
      with inv e Some have "window_is e False"
        by (auto simp: fsm_inv_Some pending_ok_def)
      moreover obtain cl where "claim s = Some cl"
        using ResetEngageComplete False by (auto simp: stale_reset_mint_def)
      ultimately show ?thesis
        using ResetEngageComplete e epi calm_of_then [OF inv e Some]
        by (simp, intro after_reset_engage_keeps [of _ e cl]) (simp_all add: ctx_simps)
    next
      case (ResetHandback thn)
      with minted_handback_keeps [OF inv e Some] show ?thesis by simp
    qed
    with eq show ?thesis by simp
  qed
qed

subsection \<open>Summary\<close>

text \<open>The one delivery the code does not guard: the reset window timer with no episode.\<close>

fun deliverable :: "session_fsm \<Rightarrow> session_event \<Rightarrow> bool" where
  "deliverable s (TimerFired ResetWindowTimeout t) \<longleftrightarrow> episode s \<noteq> None"
| "deliverable s ev \<longleftrightarrow> True"

lemma on_timer_keeps:
  "fsm_inv cfg s \<Longrightarrow> deliverable s (TimerFired i t) \<Longrightarrow> handles (on_timer cfg i t s) (keeps cfg)"
  by (cases i) (simp_all add: on_engage_timeout_keeps on_chunk_boundary_cap_keeps
      on_heartbeat_stale_keeps on_agent_invite_timeout_keeps on_reset_window_timeout_keeps)

lemmas rows_keep = on_episode_open_keeps on_reset_result_keeps on_verification_result_keeps
  on_start_keeps on_gate_tick_keeps on_claim_requested_keeps on_claim_granted_keeps
  on_claim_released_keeps on_engage_keeps on_chunk_boundary_keeps on_release_keeps on_retake_keeps
  on_clutch_keeps on_verb_result_keeps on_lease_token_minted_keeps on_estop_keeps
  on_terminate_keeps on_judge_result_keeps on_mark_keeps on_proxy_signals_keeps
  on_heartbeat_ack_keeps on_partition_start_keeps on_partition_end_keeps on_timer_keeps
  on_stall_detected_keeps on_ticks_resumed_keeps on_dual_write_keeps on_intervention_rejected_keeps
  on_post_reset_result_keeps on_reset_window_engage_keeps on_reset_window_complete_keeps
  on_agent_task_denied_keeps

lemma handle_keeps: "fsm_inv cfg s \<Longrightarrow> deliverable s ev \<Longrightarrow> handles (handle cfg ev s) (keeps cfg)"
  by (cases ev) (simp_all only: handle.simps rows_keep)

lemma step_ok:
  assumes "fsm_inv cfg s" "deliverable s ev"
  shows "step cfg s ev \<noteq> Panic" "step cfg s ev = Step s' efs \<Longrightarrow> fsm_inv cfg s'"
  using handle_keeps [OF assms]
  by (auto simp: step_def close_step_def handles_def succeeds_def Let_def ctx_simps
      split: option.splits sum.splits)

inductive reachable :: "session_config \<Rightarrow> session_fsm \<Rightarrow> bool" for cfg where
  init: "reachable cfg (session_new cfg)"
| step: "reachable cfg s \<Longrightarrow> deliverable s ev \<Longrightarrow> step cfg s ev = Step s' efs \<Longrightarrow> reachable cfg s'"

lemma reachable_inv: "reachable cfg s \<Longrightarrow> fsm_inv cfg s"
  by (induction rule: reachable.induct) (auto simp: fsm_inv_new step_ok)

end
