(* ===== verification/Waddle_Frame.thy ===== *)
theory Waddle_Frame
  imports Waddle_Rows
begin

text \<open>
  What an event row may change, stated once for any relation between the context a row
  starts from and the one it ends with. The locale \<open>session_frame\<close> lists the primitive
  steps the rows are made of (emission, a pushed effect, a gate change, an update of a field
  that is neither episode nor lease nor gate mode, a correction of the episode record) and
  derives the relation for every helper and every row. It is interpreted three times on the
  model: the lease moves only through a mint or an emergency stop, the episode record only
  evolves, and the effect list follows the gate mode.
\<close>

subsection \<open>Partial correctness of rows\<close>

definition ensures :: "'a option \<Rightarrow> ('a \<Rightarrow> bool) \<Rightarrow> bool" where
  "ensures m Q \<longleftrightarrow> (\<forall>x. m = Some x \<longrightarrow> Q x)"

definition yields :: "handler_result \<Rightarrow> (ctx \<Rightarrow> bool) \<Rightarrow> bool" where
  "yields r Q \<longleftrightarrow> (\<forall>c. r = accept c \<longrightarrow> Q c)"

lemma ensures_simps [simp]:
  "ensures (Some x) Q = Q x"
  "ensures None Q"
  "ensures (Option.bind m f) Q = ensures m (\<lambda>x. ensures (f x) Q)"
  "ensures (if b then m1 else m2) Q = (if b then ensures m1 Q else ensures m2 Q)"
  "ensures (Let v g) Q = ensures (g v) Q"
  "ensures (case a of None \<Rightarrow> m1 | Some z \<Rightarrow> h z) Q =
     (case a of None \<Rightarrow> ensures m1 Q | Some z \<Rightarrow> ensures (h z) Q)"
  by (auto simp: ensures_def Let_def split: option.split)

lemma yields_simps [simp]:
  "yields (accept c) Q = Q c"
  "yields (reject r) Q"
  "yields (run n) Q = ensures n Q"
  "yields None Q"
  "yields (Option.bind m f) Q = ensures m (\<lambda>x. yields (f x) Q)"
  "yields (if b then x else y) Q = (if b then yields x Q else yields y Q)"
  "yields (Let v g) Q = yields (g v) Q"
  "yields (case a of None \<Rightarrow> x | Some z \<Rightarrow> h z) Q =
     (case a of None \<Rightarrow> yields x Q | Some z \<Rightarrow> yields (h z) Q)"
  by (auto simp: ensures_def yields_def Let_def split: option.split)

lemma ensures_mono: "ensures m P \<Longrightarrow> (\<And>x. P x \<Longrightarrow> Q x) \<Longrightarrow> ensures m Q"
  by (simp add: ensures_def)

text \<open>A field read that panics when absent.\<close>

lemma ensures_read:
  "(\<And>e. episode s = Some e \<Longrightarrow> Q1 e) \<Longrightarrow> ensures (episode s) Q1"
  "(\<And>cl. claim s = Some cl \<Longrightarrow> Q2 cl) \<Longrightarrow> ensures (claim s) Q2"
  "(\<And>p. pinned_outcome e = Some p \<Longrightarrow> Q3 p) \<Longrightarrow> ensures (pinned_outcome e) Q3"
  "(\<And>w. reset_window e = Some w \<Longrightarrow> Q4 w) \<Longrightarrow> ensures (reset_window e) Q4"
  "(\<And>h. holder l = Some h \<Longrightarrow> Q5 h) \<Longrightarrow> ensures (holder l) Q5"
  by (simp_all add: ensures_def)

lemma ensures_guard: "ensures m Q \<longleftrightarrow> (case m of None \<Rightarrow> True | Some x \<Rightarrow> Q x)"
  by (auto simp: ensures_def split: option.split)

subsection \<open>How an episode record evolves\<close>

definition ep_evolves :: "episode_state \<Rightarrow> episode_state \<Rightarrow> bool" where
  "ep_evolves e e' \<longleftrightarrow> ep_id e' = ep_id e \<and> born_claimed e' = born_claimed e \<and>
     ep_parent e' = ep_parent e \<and> ep_verification e' = ep_verification e \<and>
     post_reset_declared e' = post_reset_declared e \<and> post_window e' = post_window e \<and>
     agent_invited e' = agent_invited e \<and>
     (reset_unverified e \<longrightarrow> reset_unverified e') \<and> (post_reset_failed e \<longrightarrow> post_reset_failed e') \<and>
     (reset_ok e \<longrightarrow> reset_ok e') \<and> (ep_verified e \<longrightarrow> ep_verified e') \<and>
     (agent_engaged e \<longrightarrow> agent_engaged e') \<and> (invite_aborted e \<longrightarrow> invite_aborted e')"

lemma ep_evolves_refl: "ep_evolves e e"
  by (simp add: ep_evolves_def)

lemma ep_evolves_trans: "ep_evolves a b \<Longrightarrow> ep_evolves b c \<Longrightarrow> ep_evolves a c"
  by (simp add: ep_evolves_def)

text \<open>With \<open>pinning\<close> a pinned outcome also stands.\<close>

definition ep_update :: "bool \<Rightarrow> episode_state \<Rightarrow> episode_state \<Rightarrow> bool" where
  "ep_update pinning e e' \<longleftrightarrow> ep_evolves e e' \<and>
     (pinning \<longrightarrow> pinned_outcome e \<noteq> None \<longrightarrow> pinned_outcome e' = pinned_outcome e)"

lemma ep_update_refl: "ep_update pinning e e"
  by (simp add: ep_update_def ep_evolves_refl)

lemma ep_update_trans: "ep_update pinning a b \<Longrightarrow> ep_update pinning b c \<Longrightarrow> ep_update pinning a c"
  by (auto simp: ep_update_def intro: ep_evolves_trans)

text \<open>The three rows that move an episode or the lease: the context just after they did.\<close>

fun entry :: "session_event \<Rightarrow> session_fsm \<Rightarrow> ctx" where
  "entry (EpisodeOpen i ver born par post_reset pre post invite t) s =
     put (\<lambda>s. s\<lparr>episode := Some (new_episode i ver born par post_reset post invite)\<rparr>) (begin_ctx s)"
| "entry (LeaseTokenMinted m t) s =
     put (\<lambda>s. s\<lparr>lease := (case pending_lease s of
         None \<Rightarrow> lease s
       | Some p \<Rightarrow> if stale_reset_mint s p then lease s
           else fst (lease_step (lease s) (pending_cmd (po_op p) m)))\<rparr>) (begin_ctx s)"
| "entry (Estop t) s = put (\<lambda>s. s\<lparr>lease := Vacant\<rparr>) (begin_ctx s)"
| "entry ev s = begin_ctx s"

text \<open>What the invariant gives the rows that pin an outcome: a run that has started has
  none.\<close>

definition unpinned_run :: "session_fsm \<Rightarrow> bool" where
  "unpinned_run s \<longleftrightarrow> (case episode s of None \<Rightarrow> True
     | Some e \<Rightarrow> run_started (ep_phase e) \<longrightarrow> pinned_outcome e = None)"

lemma fsm_inv_unpinned: "fsm_inv cfg s \<Longrightarrow> unpinned_run s"
  using in_run_facts(2) run_started_in_run
  by (auto simp: unpinned_run_def fsm_inv_Some episode_inv_closing split: option.split)

lemma put_lease_pending:
  "put (\<lambda>s. s\<lparr>lease := l\<rparr>) (put (\<lambda>s. s\<lparr>pending_lease := None\<rparr>) c) =
   put (\<lambda>s. s\<lparr>pending_lease := None\<rparr>) (put (\<lambda>s. s\<lparr>lease := l\<rparr>) c)"
  by (simp add: put_def)

subsection \<open>The frame contract\<close>

locale session_frame =
  fixes pinning :: bool
    and R :: "ctx \<Rightarrow> ctx \<Rightarrow> bool"
  assumes R_refl: "R c c"
    and R_trans: "R a b \<Longrightarrow> R b c \<Longrightarrow> R a c"
    and R_emit: "R c (emit ev c)"
    and R_push: "set_gate_effect ef = None \<Longrightarrow> R c (push ef c)"
    and R_gate: "R c (push (SetGateMode g) (emit ev (put (\<lambda>s. s\<lparr>gate_mode := g\<rparr>) c)))"
    and R_put: "episode (f (st c)) = episode (st c) \<Longrightarrow> lease (f (st c)) = lease (st c) \<Longrightarrow>
      gate_mode (f (st c)) = gate_mode (st c) \<Longrightarrow> R c (put f c)"
    and R_episode: "episode (st c) = Some e \<Longrightarrow> ep_update pinning e e' \<Longrightarrow>
      R c (put (\<lambda>s. s\<lparr>episode := Some e'\<rparr>) c)"
begin

lemma chain:
  "R a c \<Longrightarrow> R a (emit ev c)"
  "R a c \<Longrightarrow> set_gate_effect ef = None \<Longrightarrow> R a (push ef c)"
  "R a c \<Longrightarrow> R a (push (SetGateMode g) (emit ev (put (\<lambda>s. s\<lparr>gate_mode := g\<rparr>) c)))"
  "R a c \<Longrightarrow> episode (f (st c)) = episode (st c) \<Longrightarrow> lease (f (st c)) = lease (st c) \<Longrightarrow>
     gate_mode (f (st c)) = gate_mode (st c) \<Longrightarrow> R a (put f c)"
  "R a c \<Longrightarrow> episode (st c) = Some e \<Longrightarrow> ep_update pinning e e' \<Longrightarrow>
     R a (put (\<lambda>s. s\<lparr>episode := Some e'\<rparr>) c)"
  using R_trans R_emit R_push R_gate R_put R_episode by blast+

lemma episode_mut_R:
  assumes "R a c" "\<And>e. episode (st c) = Some e \<Longrightarrow> ep_update pinning e (f e)" "\<And>c'. R a c' \<Longrightarrow> Q c'"
  shows "ensures (episode_mut f c) Q"
  using assms chain(5) by (auto simp: episode_mut_def ensures_guard split: option.split)

lemma set_gate_R:
  assumes "R a c" "\<And>c'. R a c' \<Longrightarrow> Q c'"
  shows "ensures (set_gate t to reason c) Q"
  using assms by (auto simp: set_gate_def ensures_guard chain(3) split: option.split)

lemma transition_R:
  assumes "R a c" "\<And>c'. R a c' \<Longrightarrow> Q c'"
  shows "ensures (transition t to reason out c) Q"
proof -
  have "ep_update pinning e (e\<lparr>ep_phase := to\<rparr>)" for e
    by (simp add: ep_update_def ep_evolves_def)
  with assms(1) show ?thesis
    by (auto simp: transition_def intro!: episode_mut_R [of a] ensures_read chain(1) assms(2))
qed

lemma take_claim_R:
  assumes "R a c" "\<And>c'. R a c' \<Longrightarrow> Q c'"
  shows "ensures (take_claim t reason c) Q"
  using assms(1) by (auto simp: take_claim_def intro!: ensures_read chain(1,4) assms(2) split: option.split)

lemma demotions_R: "R a c \<Longrightarrow> R a (emit_demotions t ep ch c)"
  by (induction t ep ch c rule: emit_demotions.induct) (simp_all add: chain(1))

lemma grants_R: "R a c \<Longrightarrow> R a (emit_grants t ep frm to reason vs c)"
  by (induction t ep frm to reason vs c rule: emit_grants.induct) (simp_all add: chain(1))

lemma directives_R: "R a c \<Longrightarrow> R a (apply_directives t ep ds c)"
  by (induction t ep ds c rule: apply_directives.induct)
    (auto simp: chain(1,4) split: option.split)

lemma apply_pending_R: "R a c \<Longrightarrow> R a (apply_pending_demotions t c)"
  unfolding apply_pending_demotions_def Let_def by (intro demotions_R chain(4)) simp_all

lemma request_mint_R: "R a c \<Longrightarrow> R a (request_mint p c)"
  unfolding request_mint_def by (intro chain(2,4)) simp_all

lemmas emits_R = chain(1,2,4) demotions_R grants_R directives_R apply_pending_R request_mint_R

lemma close_run_R:
  assumes "R a c" "\<And>c'. R a c' \<Longrightarrow> Q c'"
  shows "ensures (close_run t to reason out rel c) Q"
  using assms(1) unfolding close_run_def
  by (auto intro!: set_gate_R [of a] transition_R [of a] take_claim_R [of a] emits_R ensures_read assms(2))

lemma open_reset_window_R:
  assumes "R a c" "\<And>c'. R a c' \<Longrightarrow> Q c'"
  shows "ensures (open_reset_window t k spec c) Q"
  using assms(1) unfolding open_reset_window_def
  by (auto simp: ep_update_def ep_evolves_def intro!: episode_mut_R [of a] emits_R ensures_read assms(2)
      split: option.split)

lemma enter_post_reset_R:
  assumes "R a c" "\<And>c'. R a c' \<Longrightarrow> Q c'" "\<And>e. pinning \<Longrightarrow> episode (st c) = Some e \<Longrightarrow> pinned_outcome e = None"
  shows "ensures (enter_post_reset t out reason c) Q"
  using assms(1,3) unfolding enter_post_reset_def
  by (auto simp: ep_update_def ep_evolves_def split: option.split
      intro!: episode_mut_R [of a] close_run_R [of a] open_reset_window_R [of a] emits_R ensures_read assms(2))

lemma request_terminal_R:
  assumes "R a c" "\<And>c'. R a c' \<Longrightarrow> Q c'"
    "\<And>e. pinning \<Longrightarrow> episode (st c) = Some e \<Longrightarrow> run_started (ep_phase e) \<Longrightarrow>
      pinned_outcome e = None"
  shows "ensures (request_terminal t out reason c) Q"
  using assms(1,3) unfolding request_terminal_def enter_terminal_def
  by (auto split: option.split
      intro!: enter_post_reset_R [of a] close_run_R [of a] ensures_read assms(2))

lemma post_reset_result_R:
  assumes "R a c" "\<And>c'. R a c' \<Longrightarrow> Q c'"
  shows "ensures (apply_post_reset_result t ok detail c) Q"
  using assms(1) unfolding apply_post_reset_result_def
  by (auto simp: ep_update_def ep_evolves_def split: option.split
      intro!: episode_mut_R [of a] close_run_R [of a] emits_R ensures_read assms(2))

lemma reset_result_R:
  assumes "R a c" "\<And>c'. R a c' \<Longrightarrow> Q c'"
  shows "ensures (apply_reset_result t ok verified c) Q"
  using assms(1) unfolding apply_reset_result_def enter_terminal_def
  by (cases verified) (auto simp: ep_update_def ep_evolves_def split: reset_verification_mode.split
      intro!: episode_mut_R [of a] close_run_R [of a] transition_R [of a] emits_R ensures_read assms(2))

lemma timeout_close_R:
  assumes "R a c" "\<And>c'. R a c' \<Longrightarrow> Q c'"
  shows "ensures (timeout_close t kind c) Q"
  using assms(1) unfolding timeout_close_def enter_terminal_def
  by (auto simp: ep_update_def ep_evolves_def intro!: episode_mut_R [of a] close_run_R [of a] emits_R ensures_read
      assms(2))

lemma close_reset_window_R:
  assumes "R a c" "\<And>c'. R a c' \<Longrightarrow> Q c'"
  shows "ensures (close_reset_window t thn c) Q"
proof -
  have tail: "ensures (case thn of
       ApplyPreResult ok verified \<Rightarrow> apply_reset_result t ok verified c'
     | ApplyPostResult ok \<Rightarrow> apply_post_reset_result t ok ''remote reset window'' c'
     | TimeoutClose \<Rightarrow> timeout_close t kind c') Q" if "R a c'" for c' kind
    using that by (cases thn)
      (auto intro!: reset_result_R [of a] post_reset_result_R [of a] timeout_close_R [of a] assms(2))
  show ?thesis
    using assms(1) unfolding close_reset_window_def
    by (auto simp: ep_update_def ep_evolves_def intro!: set_gate_R [of a] take_claim_R [of a] episode_mut_R [of a]
        ensures_read tail)
qed

lemma begin_reset_handback_R:
  assumes "R a c" "\<And>c'. R a c' \<Longrightarrow> Q c'"
  shows "ensures (begin_reset_handback cfg t thn c) Q"
  using assms(1) unfolding begin_reset_handback_def
  by (auto intro!: close_reset_window_R [of a] emits_R ensures_read assms(2)
      split: bool.split option.split)

lemma mint_engage_R:
  assumes "R a c" "\<And>c'. R a c' \<Longrightarrow> Q c'"
  shows "ensures (mint_engage_handoff c) Q"
  using assms(1) unfolding mint_engage_handoff_def
  by (auto intro!: emits_R ensures_read assms(2))

lemma begin_engage_R:
  assumes "R a c" "\<And>c'. R a c' \<Longrightarrow> Q c'"
  shows "ensures (begin_engage cfg t c) Q"
  using assms(1) unfolding begin_engage_def
  by (auto simp: ep_update_def ep_evolves_def split: handoff_policy.split
      intro!: transition_R [of a] episode_mut_R [of a] mint_engage_R [of a] emits_R ensures_read assms(2))

lemma begin_release_R:
  assumes "R a c" "\<And>c'. R a c' \<Longrightarrow> Q c'"
  shows "ensures (begin_release cfg t c) Q"
  using assms(1) unfolding begin_release_def
  by (auto simp: ep_update_def ep_evolves_def intro!: episode_mut_R [of a] emits_R ensures_read assms(2))

lemma begin_reset_engage_R:
  assumes "R a c" "\<And>c'. R a c' \<Longrightarrow> Q c'"
  shows "ensures (begin_reset_engage c) Q"
  using assms(1) unfolding begin_reset_engage_def
  by (auto intro!: emits_R ensures_read assms(2))

lemma estop_post_reset_R:
  assumes "R a c" "\<And>c'. R a c' \<Longrightarrow> Q c'"
  shows "ensures (estop_post_reset t c) Q"
  using assms(1) unfolding estop_post_reset_def
  by (auto simp: ep_update_def ep_evolves_def split: option.split
      intro!: episode_mut_R [of a] close_run_R [of a] emits_R ensures_read assms(2))

lemma after_lease_R:
  assumes "R a c" "\<And>c'. R a c' \<Longrightarrow> Q c'"
  shows "ensures (after_lease_applied t thn c) Q"
  using assms(1)
  by (cases thn) (auto simp: after_engage_def after_release_def after_reset_engage_def ep_update_def ep_evolves_def
      intro!: episode_mut_R [of a] set_gate_R [of a] transition_R [of a] take_claim_R [of a]
        close_reset_window_R [of a] emits_R ensures_read assms(2))

lemma open_window_and_lease_R:
  assumes "R a c" "\<And>c'. R a c' \<Longrightarrow> Q c'"
  shows "ensures (open_window_and_lease cfg pre t c) Q"
  using assms(1) unfolding open_window_and_lease_def
  by (auto intro!: open_reset_window_R [of a] emits_R assms(2) split: option.split)

lemma closing_R:
  assumes "pinning \<Longrightarrow> unpinned_run s" "R (begin_ctx s) c"
    "\<And>e. episode (st c) = Some e \<Longrightarrow> \<exists>e0. episode s = Some e0 \<and> ep_phase e = ep_phase e0 \<and>
      pinned_outcome e = pinned_outcome e0"
  shows "ensures (request_terminal t out reason c) (R (begin_ctx s))"
  by (rule request_terminal_R [OF assms(2)])
    (use assms(1,3) in \<open>fastforce simp: unpinned_run_def\<close>)+

lemma abort_invite_R:
  assumes "pinning \<Longrightarrow> unpinned_run s"
  shows "ensures (abort_invite t reason s) (R (begin_ctx s))"
proof (cases "episode s")
  case None
  then show ?thesis by (simp add: abort_invite_def episode_mut_def ctx_simps)
next
  case (Some e)
  have "R (begin_ctx s) (put (\<lambda>s. s\<lparr>episode := Some (e\<lparr>invite_aborted := True\<rparr>)\<rparr>) (begin_ctx s))"
    by (rule R_episode [of _ e]) (simp_all add: Some ctx_simps ep_update_def ep_evolves_def)
  from closing_R [OF assms this] Some show ?thesis
    by (simp add: abort_invite_def ctx_simps)
qed

lemma rows_R:
  assumes "R a c"
  shows "ensures (set_gate t to reason c) (R a)" "ensures (transition t p reason out c) (R a)"
    "ensures (take_claim t reason c) (R a)" "ensures (close_run t p reason out rel c) (R a)"
    "ensures (apply_post_reset_result t ok detail c) (R a)"
    "ensures (apply_reset_result t ok verified c) (R a)" "ensures (mint_engage_handoff c) (R a)"
    "ensures (begin_engage cfg t c) (R a)" "ensures (begin_release cfg t c) (R a)"
    "ensures (begin_reset_engage c) (R a)" "ensures (begin_reset_handback cfg t thn c) (R a)"
    "ensures (estop_post_reset t c) (R a)" "ensures (after_lease_applied t aft c) (R a)"
    "ensures (open_window_and_lease cfg pre t c) (R a)"
  by (rule set_gate_R [OF assms] transition_R [OF assms] take_claim_R [OF assms]
      close_run_R [OF assms] post_reset_result_R [OF assms]
      reset_result_R [OF assms] mint_engage_R [OF assms] begin_engage_R [OF assms]
      begin_release_R [OF assms] begin_reset_engage_R [OF assms] begin_reset_handback_R [OF assms]
      estop_post_reset_R [OF assms] after_lease_R [OF assms] open_window_and_lease_R [OF assms];
      assumption)+

lemma episode_open_R:
  "yields (on_episode_open cfg i ver born par post_reset pre post invite t s)
     (R (entry (EpisodeOpen i ver born par post_reset pre post invite t) s))"
proof -
  have "ensures (open_window_and_lease cfg pre t (open_invite i invite t (emit ev c))) (R c)" for ev c
    by (cases invite) (auto simp: open_invite_def intro!: rows_R emits_R R_refl)
  then show ?thesis by (simp add: on_episode_open_def)
qed

lemma claim_rows_R:
  "yields (on_claim_requested i src actor self t s) (R (begin_ctx s))"
  "yields (on_claim_granted i src actor self t s) (R (begin_ctx s))"
  "yields (on_claim_released i t s) (R (begin_ctx s))"
  unfolding on_claim_requested_def on_claim_granted_def on_claim_released_def
  by (auto intro!: emits_R R_refl ensures_read rows_R split: option.split)

lemma episode_rows_R:
  "yields (on_reset_result ok verified t s) (R (begin_ctx s))"
  "yields (on_start t s) (R (begin_ctx s))"
  "yields (on_gate_tick t s) (R (begin_ctx s))"
  "yields (on_judge_result judge passed t s) (R (begin_ctx s))"
  "yields (on_post_reset_result ok detail t s) (R (begin_ctx s))"
  unfolding on_reset_result_def on_start_def on_gate_tick_def on_judge_result_def
    on_post_reset_result_def
  by (auto intro!: emits_R R_refl ensures_read rows_R split: option.split)

lemma closing_rows_R:
  assumes "pinning \<Longrightarrow> unpinned_run s"
  shows "yields (on_terminate out reason t s) (R (begin_ctx s))"
    "yields (on_mark kind t s) (R (begin_ctx s))"
    "yields (on_agent_invite_timeout t s) (R (begin_ctx s))"
    "yields (on_agent_task_denied detail t s) (R (begin_ctx s))"
  unfolding on_terminate_def on_mark_def on_agent_invite_timeout_def on_agent_task_denied_def
  by (auto simp: ctx_simps intro!: emits_R R_refl ensures_read closing_R [OF assms] abort_invite_R [OF assms]
      split: option.split bool.split)

lemma verification_row_R: "yields (on_verification_result verified inval t s) (R (begin_ctx s))"
  unfolding on_verification_result_def
  by (auto simp: ep_update_def ep_evolves_def split: option.split
      intro!: emits_R R_refl ensures_read episode_mut_R [of "begin_ctx s"] rows_R)

lemma intervention_rows_R:
  "yields (on_engage cfg i t s) (R (begin_ctx s))"
  "yields (on_chunk_boundary s) (R (begin_ctx s))"
  "yields (on_chunk_boundary_cap s) (R (begin_ctx s))"
  "yields (on_release cfg i t s) (R (begin_ctx s))"
  "yields (on_verb_result v ok fault t s) (R (begin_ctx s))"
  "yields (on_engage_timeout s) (R (begin_ctx s))"
  unfolding on_engage_def on_chunk_boundary_def on_chunk_boundary_cap_def on_release_def
    on_verb_result_def on_engage_timeout_def
  by (auto intro!: emits_R R_refl ensures_read rows_R split: option.split)

lemma retake_row_R: "yields (on_retake i initiator successor t s) (R (begin_ctx s))"
  unfolding on_retake_def enter_terminal_def
  by (auto intro!: emits_R R_refl ensures_read close_run_R [of "begin_ctx s"])

lemma clutch_row_R: "yields (on_clutch cfg engaged t s) (R (begin_ctx s))"
  unfolding on_clutch_def clutch_engage_def clutch_disengage_def
  by (auto intro!: emits_R R_refl ensures_read rows_R)

lemma grant_rows_R:
  "yields (on_proxy_signals cfg sm t s) (R (begin_ctx s))"
  "yields (on_heartbeat_ack ds t s) (R (begin_ctx s))"
  "yields (on_partition_start cfg t s) (R (begin_ctx s))"
  "yields (on_partition_end t s) (R (begin_ctx s))"
  "yields (on_heartbeat_stale t s) (R (begin_ctx s))"
  unfolding on_proxy_signals_def on_heartbeat_ack_def on_partition_start_def on_partition_end_def
    on_heartbeat_stale_def Let_def
  by (auto intro!: emits_R R_refl)

lemma gate_rows_R:
  "yields (on_stall_detected t s) (R (begin_ctx s))"
  "yields (on_ticks_resumed t s) (R (begin_ctx s))"
  "yields (on_dual_write m w tr t s) (R (begin_ctx s))"
  "yields (on_intervention_rejected src reason t s) (R (begin_ctx s))"
  unfolding on_stall_detected_def on_ticks_resumed_def on_dual_write_def on_intervention_rejected_def
  by (auto intro!: emits_R R_refl ensures_read rows_R)

lemma window_rows_R:
  "yields (on_reset_window_engage i s) (R (begin_ctx s))"
  "yields (on_reset_window_timeout cfg t s) (R (begin_ctx s))"
  "yields (on_reset_window_complete cfg i ok verified t s) (R (begin_ctx s))"
  unfolding on_reset_window_engage_def on_reset_window_timeout_def on_reset_window_complete_def
  by (auto intro!: emits_R R_refl ensures_read rows_R
      split: option.split)

lemma estop_row_R: "yields (on_estop cfg t s) (R (entry (Estop t) s))"
proof -
  have "R c (put (\<lambda>s. s\<lparr>pending_lease := None\<rparr>) (push (RequestVerb V_Estop) (emit ev (emit ev' c))))"
    for c ev ev'
    by (intro emits_R R_refl) simp_all
  then show ?thesis
    unfolding on_estop_def lease_outcome_emit_def enter_terminal_def
    by (simp add: Let_def rows_R)
qed

lemma minted_row_R: "yields (on_lease_token_minted cfg m t s) (R (entry (LeaseTokenMinted m t) s))"
proof (cases "pending_lease s")
  case None
  then show ?thesis by (simp add: on_lease_token_minted_def)
next
  case (Some p)
  let ?a = "entry (LeaseTokenMinted m t) s"
  show ?thesis
  proof (cases "stale_reset_mint s p")
    case True
    with Some have "?a = begin_ctx s" by (simp add: put_def begin_ctx_def)
    with Some True show ?thesis
      by (auto simp: on_lease_token_minted_def lease_outcome_emit_def intro!: emits_R R_refl)
  next
    case False
    obtain l' out where l': "lease_step (lease s) (pending_cmd (po_op p) m) = (l', out)"
      by (cases "lease_step (lease s) (pending_cmd (po_op p) m)")
    define a where "a = ?a"
    then have "a = put (\<lambda>s. s\<lparr>lease := l'\<rparr>) (begin_ctx s)"
      using Some False l' by (simp add: put_def begin_ctx_def)
    moreover have "R c (put (\<lambda>s. s\<lparr>pending_lease := None\<rparr>) c)" for c
      by (rule R_put) simp_all
    ultimately have "R a (put (\<lambda>s. s\<lparr>lease := l'\<rparr>) (put (\<lambda>s. s\<lparr>pending_lease := None\<rparr>) (begin_ctx s)))"
      unfolding put_lease_pending by simp
    then have "yields (on_lease_token_minted cfg m t s) (R a)"
      using Some False l'
      by (cases out) (simp_all add: on_lease_token_minted_def lease_outcome_emit_def chain(1) rows_R)
    then show ?thesis by (simp only: a_def)
  qed
qed

lemma timer_row_R: "(pinning \<Longrightarrow> unpinned_run s) \<Longrightarrow> yields (on_timer cfg i t s) (R (begin_ctx s))"
  by (cases i) (simp_all add: intervention_rows_R grant_rows_R closing_rows_R window_rows_R)

lemma handle_R: "(pinning \<Longrightarrow> unpinned_run s) \<Longrightarrow> yields (handle cfg ev s) (R (entry ev s))"
  by (cases ev) (simp_all only: handle.simps entry.simps(4-) episode_open_R claim_rows_R
      episode_rows_R closing_rows_R verification_row_R intervention_rows_R retake_row_R clutch_row_R
      grant_rows_R gate_rows_R window_rows_R estop_row_R minted_row_R timer_row_R)

end

subsection \<open>The lease moves only through a mint or an emergency stop\<close>

interpretation lease_frame: session_frame False "\<lambda>c c'. lease (st c') = lease (st c)"
  by unfold_locales (simp_all add: ctx_simps)

lemma step_handle:
  assumes "step cfg s ev = Step s' efs"
  obtains c where "handle cfg ev s = accept c" "s' = st c"
    "efs = effects (finish (gate_plan_inputs s) c)"
  using assms by (auto simp: step_def close_step_def Let_def ctx_simps split: option.splits sum.splits)

lemma step_lease:
  assumes "step cfg s ev = Step s' efs"
  shows "lease s' = lease (st (entry ev s))"
  using lease_frame.handle_R [of s cfg ev] by (rule_tac step_handle [OF assms]) simp

fun session_mints :: "session_event \<Rightarrow> lease_id option" where
  "session_mints (LeaseTokenMinted m t) = Some m"
| "session_mints ev = None"

lemma entry_lease_token:
  assumes "lease_token (lease (st (entry ev s))) = Some tok"
  shows "lease_token (lease s) = Some tok \<or> session_mints ev = Some tok"
proof (cases ev)
  case (LeaseTokenMinted m t)
  have "lease_token (fst (lease_step (lease s) (pending_cmd op m))) = Some tok \<Longrightarrow>
      lease_token (lease s) = Some tok \<or> m = tok" for op
    using lease_tokens.live_next [of "lease s" "pending_cmd op m" tok] by (cases op) auto
  with LeaseTokenMinted assms show ?thesis
    by (auto simp: ctx_simps split: option.splits if_splits)
qed (use assms in \<open>simp_all add: ctx_simps\<close>)

interpretation session_tokens:
  token_machine "\<lambda>s. lease_token (lease s)" "after cfg" session_mints for cfg
proof
  fix s ev tok
  assume "lease_token (lease (after cfg s ev)) = Some tok"
  then show "lease_token (lease s) = Some tok \<or> session_mints ev = Some tok"
    by (cases "step cfg s ev") (auto simp: after_def step_lease dest: entry_lease_token)
qed

subsection \<open>The episode record only evolves\<close>

interpretation episode_frame: session_frame True "\<lambda>c c'. \<forall>e. episode (st c) = Some e \<longrightarrow>
    (\<exists>e'. episode (st c') = Some e' \<and> ep_update True e e')"
proof
  fix a b c :: ctx
  assume "\<forall>e. episode (st a) = Some e \<longrightarrow> (\<exists>e'. episode (st b) = Some e' \<and> ep_update True e e')"
    and "\<forall>e. episode (st b) = Some e \<longrightarrow> (\<exists>e'. episode (st c) = Some e' \<and> ep_update True e e')"
  then show "\<forall>e. episode (st a) = Some e \<longrightarrow> (\<exists>e'. episode (st c) = Some e' \<and> ep_update True e e')"
    by (meson ep_update_trans)
qed (auto simp: ctx_simps ep_update_refl)

lemma step_evolves:
  assumes "step cfg s ev = Step s' efs" "fsm_inv cfg s" "episode (st (entry ev s)) = Some e"
  shows "\<exists>e'. episode s' = Some e' \<and> ep_evolves e e' \<and>
    (pinned_outcome e \<noteq> None \<longrightarrow> pinned_outcome e' = pinned_outcome e)"
  using episode_frame.handle_R [OF fsm_inv_unpinned [OF assms(2)], of cfg ev] assms(3)
  by (rule_tac step_handle [OF assms(1)]) (auto simp: ep_update_def)

subsection \<open>The effect list follows the gate mode\<close>

definition gate_after :: "gate_mode \<Rightarrow> effect list \<Rightarrow> gate_mode" where
  "gate_after g efs = (case last_gate_mode efs of None \<Rightarrow> g | Some m \<Rightarrow> m)"

lemma gate_after_append [simp]: "gate_after g (xs @ ys) = gate_after (gate_after g xs) ys"
  by (simp add: gate_after_def last_gate_mode_def find_map_append split: option.split)

lemma gate_after_simps [simp]:
  "gate_after g [] = g"
  "set_gate_effect ef = None \<Longrightarrow> gate_after g [ef] = g"
  "gate_after g [SetGateMode m] = m"
  "gate_after g [Emit ev, SetGateMode m] = m"
  by (simp_all add: gate_after_def last_gate_mode_def)

interpretation gate_frame: session_frame False "\<lambda>c c'. \<exists>efs. effects c' = effects c @ efs \<and>
    gate_mode (st c') = gate_after (gate_mode (st c)) efs"
proof
  fix c :: ctx and ev g
  show "\<exists>efs. effects (push (SetGateMode g) (emit ev (put (\<lambda>s. s\<lparr>gate_mode := g\<rparr>) c))) = effects c @ efs \<and>
    gate_mode (st (push (SetGateMode g) (emit ev (put (\<lambda>s. s\<lparr>gate_mode := g\<rparr>) c)))) =
    gate_after (gate_mode (st c)) efs"
    by (rule exI [of _ "[Emit ev, SetGateMode g]"]) (simp add: ctx_simps)
qed (force simp: ctx_simps)+

lemma entry_gate: "gate_mode (st (entry ev s)) = gate_mode s" "effects (entry ev s) = []"
  by (cases ev; simp add: ctx_simps)+

lemma step_gate:
  assumes "step cfg s ev = Step s' efs"
  shows "gate_mode s' = gate_after (gate_mode s) efs"
proof -
  obtain c where c: "handle cfg ev s = accept c" "s' = st c"
    "efs = effects (finish (gate_plan_inputs s) c)"
    using step_handle [OF assms] by blast
  have "gate_mode (st c) = gate_after (gate_mode s) (effects c)"
    using gate_frame.handle_R [of s cfg ev] c(1) by (auto simp: entry_gate)
  then have "gate_mode (st c) = gate_after (gate_mode s) (effects (finish entry c))" for entry
    unfolding finish_def by (auto simp: effects_push)
  with c show ?thesis by simp
qed

end
