(* ===== verification/Waddle_Spec.thy ===== *)
theory Waddle_Spec
  imports Waddle_Frame
begin

text \<open>
  The episode machine of the protocol document (\<^verbatim>\<open>FSM.md\<close>, rows E1 to E26 and
  I1 to I4) as an inductive relation on phases, the departures of the code from it as a second
  one, and the refinement: every step of the composed session machine is an edge of the
  document or one of the named departures. An edge reads the declared guards of the row
  (phase, pinned outcome, declarations, open window, open invite, held claim, the result an
  event or the mint of a deferred handback carries), and no other state.
\<close>

subsection \<open>The machine of the document\<close>

text \<open>The triggers of E10 that carry an outcome, and those of E25 and E26.\<close>

fun closing_trigger :: "session_event \<Rightarrow> terminal_outcome option" where
  "closing_trigger (Terminate out reason t) = Some out"
| "closing_trigger (Mark k t) = mark_terminal_outcome k"
| "closing_trigger ev = None"

fun invite_trigger :: "session_event \<Rightarrow> bool" where
  "invite_trigger (TimerFired AgentInviteTimeout t) = True"
| "invite_trigger (AgentTaskDenied d t) = True"
| "invite_trigger ev = False"

text \<open>What the operation waiting for a lease token does next, and the reset result its mint
  then applies (E21).\<close>

definition minting :: "session_event \<Rightarrow> session_fsm \<Rightarrow> after_lease option" where
  "minting ev s = (case ev of LeaseTokenMinted m t \<Rightarrow> map_option po_then (pending_lease s) | _ \<Rightarrow> None)"

text \<open>The pre-reset result an event reports: the pipeline's while no window is open (E19b),
  the window's at once or with the mint of its handback (E21).\<close>

fun reset_reported :: "session_event \<Rightarrow> session_fsm \<Rightarrow> episode_state \<Rightarrow> (bool \<times> bool option) option" where
  "reset_reported (ResetResult ok v t) s e = (if reset_window e = None then Some (ok, v) else None)"
| "reset_reported (ResetWindowComplete c ok v t) s e =
     (if reset_window e \<noteq> None \<and> holds_claim c s then Some (ok, v) else None)"
| "reset_reported ev s e = (case minting ev s of
     Some (ResetHandback (ApplyPreResult ok v)) \<Rightarrow> Some (ok, v) | _ \<Rightarrow> None)"

text \<open>The same for a post-reset (E15, E16).\<close>

fun post_reported :: "session_event \<Rightarrow> session_fsm \<Rightarrow> episode_state \<Rightarrow> bool" where
  "post_reported (PostResetResult ok d t) s e \<longleftrightarrow> reset_window e = None"
| "post_reported (ResetWindowComplete c ok v t) s e \<longleftrightarrow> reset_window e \<noteq> None \<and> holds_claim c s"
| "post_reported ev s e \<longleftrightarrow> (\<exists>ok. minting ev s = Some (ResetHandback (ApplyPostResult ok)))"

text \<open>The deadline of a reset window: the timer itself, or the mint that ends its deferred
  handback.\<close>

fun window_deadline :: "session_event \<Rightarrow> session_fsm \<Rightarrow> bool" where
  "window_deadline (TimerFired ResetWindowTimeout t) s = True"
| "window_deadline (LeaseTokenMinted m t) s =
     (case pending_lease s of None \<Rightarrow> False | Some p \<Rightarrow> po_then p = ResetHandback TimeoutClose)"
| "window_deadline ev s = False"

text \<open>The deadline of the window the episode has open: a handback is deferred only while that
  window is engaged.\<close>

fun open_window_deadline :: "session_event \<Rightarrow> session_fsm \<Rightarrow> episode_state \<Rightarrow> bool" where
  "open_window_deadline (TimerFired ResetWindowTimeout t) s e \<longleftrightarrow> reset_window e \<noteq> None"
| "open_window_deadline ev s e \<longleftrightarrow> minting ev s = Some (ResetHandback TimeoutClose) \<and>
     (case reset_window e of None \<Rightarrow> False | Some w \<Rightarrow> rw_engaged w)"

definition self_claimed :: "session_fsm \<Rightarrow> bool" where
  "self_claimed s \<longleftrightarrow> (case claim s of None \<Rightarrow> False | Some cl \<Rightarrow> cl_self_initiated cl)"

inductive fsm_edge :: "session_fsm \<Rightarrow> session_event \<Rightarrow> episode_state \<Rightarrow> phase \<Rightarrow> bool"
  for s ev e where
  stay: "fsm_edge s ev e (ep_phase e)"
| E2: "ep_phase e = Resetting \<Longrightarrow> ep_verification e = Blocking \<Longrightarrow>
     reset_reported ev s e = Some (True, v) \<Longrightarrow> v = Some True \<or> ep_verified e \<Longrightarrow> fsm_edge s ev e Ready"
| E2_late: "ep_phase e = Resetting \<Longrightarrow> ep_verification e = Blocking \<Longrightarrow> reset_ok e \<Longrightarrow>
     ev = VerificationResult True inval t \<Longrightarrow> fsm_edge s ev e Ready"
| E3: "ep_phase e = Resetting \<Longrightarrow> ep_verification e = OptimisticAsync \<Longrightarrow>
     reset_reported ev s e = Some (True, v) \<Longrightarrow> fsm_edge s ev e Ready"
| E5: "ep_phase e = Resetting \<Longrightarrow> reset_reported ev s e = Some (False, v) \<Longrightarrow>
     fsm_edge s ev e (Terminal Abort)"
| E6: "ep_phase e = Ready \<Longrightarrow> ev = Start t \<or> ev = GateTick t \<Longrightarrow> fsm_edge s ev e Running"
| E7: "ep_phase e = Running \<Longrightarrow> ev = Engage i t \<and> holds_claim i s \<or> ev = Clutch True t \<and> claim s = None \<Longrightarrow>
     fsm_edge s ev e (Intervention IP_Engage)"
| I2: "ep_phase e = Intervention IP_Engage \<Longrightarrow> minting ev s = Some EngageComplete \<Longrightarrow>
     fsm_edge s ev e (Intervention IP_Settle)"
| I3: "ep_phase e = Intervention IP_Settle \<Longrightarrow>
     ev = Release i t \<and> holds_claim i s \<or> ev = Clutch False t \<and> self_claimed s \<Longrightarrow>
     fsm_edge s ev e (Intervention IP_Release)"
| E8: "ep_phase e = Intervention IP_Release \<Longrightarrow> minting ev s = Some ReleaseComplete \<Longrightarrow>
     fsm_edge s ev e Running"
| E9: "ep_phase e = Intervention IP_Settle \<or> ep_phase e = Intervention IP_Engage \<and> engage_timed_out s \<Longrightarrow>
     ev = Retake i k succ t \<Longrightarrow> holds_claim i s \<Longrightarrow> fsm_edge s ev e (Terminal AbortedRetake)"
| E10: "run_started (ep_phase e) \<Longrightarrow> \<not> post_reset_declared e \<Longrightarrow> closing_trigger ev = Some out \<Longrightarrow>
     fsm_edge s ev e (Terminal out)"
| E11: "\<not> is_terminal (ep_phase e) \<Longrightarrow> ep_phase e \<noteq> PostReset \<Longrightarrow> ev = Estop t \<Longrightarrow>
     fsm_edge s ev e (Terminal Abort)"
| E14: "run_started (ep_phase e) \<Longrightarrow> post_reset_declared e \<Longrightarrow> closing_trigger ev = Some out \<Longrightarrow>
     fsm_edge s ev e PostReset"
| E15_E16: "ep_phase e = PostReset \<Longrightarrow> pinned_outcome e = Some p \<Longrightarrow>
     post_reported ev s e \<or> window_deadline ev s \<and> reset_window e \<noteq> None \<Longrightarrow>
     fsm_edge s ev e (Terminal p)"
| E17: "ep_phase e = PostReset \<Longrightarrow> pinned_outcome e = Some p \<Longrightarrow> ev = Estop t \<Longrightarrow>
     fsm_edge s ev e (Terminal p)"
| E22: "ep_phase e = Resetting \<Longrightarrow> open_window_deadline ev s e \<Longrightarrow> fsm_edge s ev e (Terminal Abort)"
| E25_E26: "invite_open e \<Longrightarrow> invite_trigger ev \<Longrightarrow> \<not> (ep_phase e = Running \<and> post_reset_declared e) \<Longrightarrow>
     fsm_edge s ev e (Terminal Abort)"
| E25_E26_E14: "invite_open e \<Longrightarrow> invite_trigger ev \<Longrightarrow> ep_phase e = Running \<Longrightarrow> post_reset_declared e \<Longrightarrow>
     fsm_edge s ev e PostReset"

subsection \<open>Where the code departs from it\<close>

text \<open>
  Three moves the document does not have. \<open>early_close\<close>: a terminate or an end mark closes an
  episode that has not started its run, where E10 starts from RUNNING or INTERVENTION.
  \<open>late_deadline\<close>: the deadline of a window that a terminal episode left behind writes ABORT over
  its outcome, against E12 and the phases of E22. \<open>stale_handback\<close>: the handback that such a
  deadline asked a token for aborts the episode that has been opened meanwhile.
\<close>

inductive deviation :: "session_fsm \<Rightarrow> session_event \<Rightarrow> episode_state \<Rightarrow> phase \<Rightarrow> bool"
  for s ev e where
  early_close: "ep_phase e = Resetting \<or> ep_phase e = Ready \<Longrightarrow> closing_trigger ev = Some out \<Longrightarrow>
     deviation s ev e (Terminal out)"
| late_deadline: "is_terminal (ep_phase e) \<Longrightarrow> window_deadline ev s \<Longrightarrow>
     reset_window e \<noteq> None \<or> minting ev s \<noteq> None \<Longrightarrow> deviation s ev e (Terminal Abort)"
| stale_handback: "\<not> is_terminal (ep_phase e) \<Longrightarrow> ep_phase e \<noteq> PostReset \<Longrightarrow>
     minting ev s = Some (ResetHandback TimeoutClose) \<Longrightarrow> \<not> open_window_deadline ev s e \<Longrightarrow>
     deviation s ev e (Terminal Abort)"

inductive_cases edge_from: "fsm_edge s ev e p"
inductive_cases deviation_from: "deviation s ev e p"

definition follows :: "session_fsm \<Rightarrow> session_event \<Rightarrow> episode_state \<Rightarrow> phase \<Rightarrow> bool" where
  "follows s ev e p \<longleftrightarrow> fsm_edge s ev e p \<or> deviation s ev e p"

lemma follows_edge: "fsm_edge s ev e p \<Longrightarrow> follows s ev e p"
  by (simp add: follows_def)

lemma follows_deviation: "deviation s ev e p \<Longrightarrow> follows s ev e p"
  by (simp add: follows_def)

lemma follows_stay: "p = ep_phase e \<Longrightarrow> follows s ev e p"
  by (simp add: follows_edge fsm_edge.stay)

lemma follows_pinned:
  "ep_phase e = PostReset \<Longrightarrow> pinned_outcome e = Some p \<Longrightarrow>
   post_reported ev s e \<or> window_deadline ev s \<and> reset_window e \<noteq> None \<Longrightarrow> follows s ev e (Terminal p)"
  by (rule follows_edge, rule fsm_edge.E15_E16)

lemmas follows_intros = fsm_edge.intros [THEN follows_edge] deviation.intros [THEN follows_deviation]

lemma minting_simps [simp]:
  "minting (LeaseTokenMinted m t) s = map_option po_then (pending_lease s)"
  by (simp add: minting_def)

lemma open_deadline: "open_window_deadline ev s e \<Longrightarrow> window_deadline ev s"
  by (induction ev s rule: window_deadline.induct) (auto simp: minting_def split: option.splits)

lemma terminal_follows:
  "follows s ev e p \<Longrightarrow> ep_phase e = Terminal out \<Longrightarrow> \<not> window_deadline ev s \<Longrightarrow> p = Terminal out"
  by (auto simp: follows_def invite_open_def open_deadline elim!: edge_from deviation_from)

lemma post_reset_follows:
  "follows s ev e p \<Longrightarrow> ep_phase e = PostReset \<Longrightarrow> pinned_outcome e = Some out \<Longrightarrow>
   p = PostReset \<or> p = Terminal out"
  by (auto simp: follows_def invite_open_def elim!: edge_from deviation_from)

subsection \<open>The phase each helper leads to\<close>

definition at_phase :: "phase \<Rightarrow> ctx \<Rightarrow> bool" where
  "at_phase p c \<longleftrightarrow> episode_phase (st c) = Some p"

lemma at_phase_ctx [ctx_simps]:
  "at_phase p (emit ev c) = at_phase p c"
  "at_phase p (push ef c) = at_phase p c"
  "at_phase p (request_mint op c) = at_phase p c"
  by (simp_all add: at_phase_def episode_phase_def request_mint_def ctx_simps)

lemma at_phase_put [ctx_simps]:
  "episode (f (st c)) = episode (st c) \<Longrightarrow> at_phase p (put f c) = at_phase p c"
  by (simp add: at_phase_def episode_phase_def ctx_simps)

lemma close_run_phase:
  "(\<And>c'. at_phase to c' \<Longrightarrow> Q c') \<Longrightarrow> episode (st c) \<noteq> None \<Longrightarrow> ensures (close_run t to reason out rel c) Q"
  by (auto simp: ctx_simps at_phase_def episode_phase_def)

lemma request_terminal_phase:
  assumes "episode (st c) = Some e"
  shows "ensures (request_terminal t out reason c)
    (at_phase (if post_reset_declared e \<and> run_started (ep_phase e) then PostReset else Terminal out))"
proof (cases "post_reset_declared e \<and> run_started (ep_phase e)")
  case True
  with assms show ?thesis
    by (simp add: request_terminal_def enter_post_reset_def open_reset_window_def ctx_simps
        at_phase_def episode_phase_def split: option.split)
next
  case False
  with assms show ?thesis
    by (auto simp: request_terminal_def enter_terminal_def ctx_simps at_phase_def episode_phase_def)
qed

definition reset_target :: "episode_state \<Rightarrow> bool \<Rightarrow> bool option \<Rightarrow> phase" where
  "reset_target e ok v =
     (if \<not> ok then Terminal Abort
      else if ep_verification e = OptimisticAsync \<or> ep_verified e \<or> v = Some True then Ready
      else ep_phase e)"

lemma reset_result_phase:
  assumes "episode (st c) = Some e"
  shows "ensures (apply_reset_result t ok verified c) (at_phase (reset_target e ok verified))"
  using assms
  apply (simp add: apply_reset_result_def enter_terminal_def reset_target_def)
  apply (cases "ep_verification e"; cases verified; simp add: ctx_simps)
     apply (auto simp: ctx_simps at_phase_def episode_phase_def)
  done

lemma reset_target_follows:
  "ep_phase e = Resetting \<Longrightarrow> reset_reported ev s e = Some (ok, v) \<Longrightarrow> follows s ev e (reset_target e ok v)"
  by (cases "ep_verification e")
    (auto simp: reset_target_def intro: follows_stay follows_intros(2,4,5))

lemma post_reset_result_phase:
  assumes "episode (st c) = Some e" "pinned_outcome e = Some p"
  shows "ensures (apply_post_reset_result t ok detail c) (at_phase (Terminal p))"
  using assms
  apply (simp add: apply_post_reset_result_def)
  apply (simp add: ctx_simps at_phase_def episode_phase_def)
  done

lemma timeout_close_phase:
  assumes "episode (st c) = Some e"
  shows "ensures (timeout_close t kind c)
    (at_phase (Terminal (if kind = Some RK_Post then the (pinned_outcome e) else Abort)))"
  using assms
  apply (cases "pinned_outcome e"; simp add: timeout_close_def enter_terminal_def)
   apply (simp_all add: ctx_simps at_phase_def episode_phase_def)
  done

lemma close_reset_window_phase:
  assumes "episode (st c) = Some e"
  shows "\<And>ok v. thn = ApplyPreResult ok v \<Longrightarrow>
      ensures (close_reset_window t thn c) (at_phase (reset_target e ok v))"
    and "\<And>ok p. thn = ApplyPostResult ok \<Longrightarrow> pinned_outcome e = Some p \<Longrightarrow>
      ensures (close_reset_window t thn c) (at_phase (Terminal p))"
    and "thn = TimeoutClose \<Longrightarrow> ensures (close_reset_window t thn c)
      (at_phase (Terminal (if map_option rw_kind (reset_window e) = Some RK_Post
         then the (pinned_outcome e) else Abort)))"
proof -
  obtain c' where eq: "close_reset_window t thn c =
      (case thn of
         ApplyPreResult ok verified \<Rightarrow> apply_reset_result t ok verified c'
       | ApplyPostResult ok \<Rightarrow> apply_post_reset_result t ok ''remote reset window'' c'
       | TimeoutClose \<Rightarrow> timeout_close t (map_option rw_kind (reset_window e)) c')"
    and e': "episode (st c') = Some (e\<lparr>reset_window := None\<rparr>)"
    using close_reset_window_split [OF assms, of t thn] by (auto simp: same_core_def)
  show "ensures (close_reset_window t thn c) (at_phase (reset_target e ok v))"
    if "thn = ApplyPreResult ok v" for ok v
    using that eq reset_result_phase [OF e', of t ok v] by (simp add: reset_target_def cong: if_cong)
  show "ensures (close_reset_window t thn c) (at_phase (Terminal p))"
    if "thn = ApplyPostResult ok" "pinned_outcome e = Some p" for ok p
    using that eq post_reset_result_phase [OF e'] by simp
  show "ensures (close_reset_window t thn c)
      (at_phase (Terminal (if map_option rw_kind (reset_window e) = Some RK_Post
         then the (pinned_outcome e) else Abort)))" if "thn = TimeoutClose"
    using that eq timeout_close_phase [OF e', of t "map_option rw_kind (reset_window e)"]
    by (simp split del: if_split del: map_option_eq_Some cong: if_cong)
qed

subsection \<open>Every row is an edge or a named departure\<close>

definition edges :: "session_fsm \<Rightarrow> session_event \<Rightarrow> episode_state \<Rightarrow> ctx \<Rightarrow> bool" where
  "edges s ev e c \<longleftrightarrow> (\<exists>p. at_phase p c \<and> follows s ev e p)"

lemma edges_at: "at_phase p c \<Longrightarrow> follows s ev e p \<Longrightarrow> edges s ev e c"
  by (auto simp: edges_def)

lemma ensures_edges:
  "ensures m (at_phase p) \<Longrightarrow> follows s ev e p \<Longrightarrow> ensures m (edges s ev e)"
  by (auto simp: ensures_def edges_def)

lemma edges_same: "episode (st c) = Some e' \<Longrightarrow> ep_phase e' = ep_phase e \<Longrightarrow> edges s ev e c"
  by (auto simp: edges_def at_phase_def episode_phase_def intro: follows_edge fsm_edge.stay)

lemma at_begin: "episode s = Some e \<Longrightarrow> at_phase (ep_phase e) (begin_ctx s)"
  by (simp add: at_phase_def episode_phase_def ctx_simps)

lemma stay_edges:
  assumes "episode s = Some e"
  shows "yields (on_judge_result judge passed t s) (edges s ev e)"
    "yields (on_claim_requested i src actor self t s) (edges s ev e)"
    "yields (on_claim_granted i src actor self t s) (edges s ev e)"
    "yields (on_dual_write m w tr t s) (edges s ev e)"
    "yields (on_intervention_rejected src reason t s) (edges s ev e)"
    "yields (on_proxy_signals cfg sm t s) (edges s ev e)"
    "yields (on_heartbeat_ack ds t s) (edges s ev e)"
    "yields (on_partition_start cfg t s) (edges s ev e)"
    "yields (on_partition_end t s) (edges s ev e)"
    "yields (on_heartbeat_stale t s) (edges s ev e)"
    "yields (on_engage_timeout s) (edges s ev e)"
  using assms
  by (simp_all add: on_judge_result_def on_claim_requested_def on_claim_granted_def on_dual_write_def
      on_intervention_rejected_def on_proxy_signals_def on_heartbeat_ack_def on_partition_start_def
      on_partition_end_def on_heartbeat_stale_def on_engage_timeout_def Let_def ctx_simps
      edges_same split: option.split)

lemma set_gate_stay: "episode (st c) = Some e \<Longrightarrow> ensures (set_gate t g r c) (at_phase (ep_phase e))"
  by (simp add: set_gate_def at_phase_def episode_phase_def ctx_simps)

lemma take_claim_stay: "episode (st c) = Some e \<Longrightarrow> ensures (take_claim t r c) (at_phase (ep_phase e))"
  by (simp add: take_claim_def at_phase_def episode_phase_def ctx_simps split: option.split)

lemma mint_stay: "episode (st c) = Some e \<Longrightarrow> ensures (mint_engage_handoff c) (at_phase (ep_phase e))"
  by (auto simp: mint_engage_handoff_def request_mint_def at_phase_def episode_phase_def ctx_simps
      intro!: ensures_read)

lemma simple_edges:
  assumes "episode s = Some e"
  shows "yields (on_claim_released i t s) (edges s ev e)"
    "yields (on_stall_detected t s) (edges s ev e)"
    "yields (on_ticks_resumed t s) (edges s ev e)"
    "yields (on_chunk_boundary s) (edges s ev e)"
    "yields (on_chunk_boundary_cap s) (edges s ev e)"
    "yields (on_verb_result v ok fault t s) (edges s ev e)"
    "yields (on_reset_window_engage i s) (edges s ev e)"
  using assms
  by (auto simp: on_claim_released_def on_stall_detected_def on_ticks_resumed_def on_chunk_boundary_def
      on_chunk_boundary_cap_def on_verb_result_def on_reset_window_engage_def begin_reset_engage_def
      request_mint_def ctx_simps ensures_guard [of "claim s"]
      intro!: edges_same [of _ e] ensures_edges [OF set_gate_stay [of _ e]] ensures_edges [OF take_claim_stay [of _ e]]
        ensures_edges [OF mint_stay [of _ e]] follows_edge fsm_edge.stay split: option.split)

lemma begin_engage_phase:
  "episode (st c) = Some e \<Longrightarrow> ensures (begin_engage cfg t c) (at_phase (Intervention IP_Engage))"
  by (auto simp: begin_engage_def ctx_simps at_phase_def episode_phase_def mint_engage_handoff_def
      request_mint_def intro!: ensures_read split: handoff_policy.split)

lemma begin_release_phase:
  "episode (st c) = Some e \<Longrightarrow> ensures (begin_release cfg t c) (at_phase (Intervention IP_Release))"
  by (auto simp: begin_release_def ctx_simps at_phase_def episode_phase_def request_mint_def
      intro!: ensures_read)

lemma run_edges:
  assumes "episode s = Some e"
  shows "yields (on_start t s) (edges s (Start t) e)"
    "yields (on_gate_tick t s) (edges s (GateTick t) e)"
    "yields (on_engage cfg i t s) (edges s (Engage i t) e)"
    "yields (on_release cfg i t s) (edges s (Release i t) e)"
    "yields (on_clutch cfg b t s) (edges s (Clutch b t) e)"
  using assms
  by (auto simp: on_start_def on_gate_tick_def on_engage_def on_release_def on_clutch_def
      clutch_engage_def clutch_disengage_def episode_phase_def ctx_simps edges_same [of _ e]
      at_phase_def holds_claim_def self_claimed_def split: option.split option.split_asm
      intro!: edges_at [of Running, OF _ follows_edge [OF fsm_edge.E6]]
        ensures_edges [OF begin_engage_phase [of _ e] follows_edge [OF fsm_edge.E7]]
        ensures_edges [OF begin_release_phase [of _ e] follows_edge [OF fsm_edge.I3]])

lemma retake_edges:
  assumes "episode s = Some e"
  shows "yields (on_retake i k succ t s) (edges s (Retake i k succ t) e)"
  using assms
  by (auto simp: on_retake_def retake_legal_def enter_terminal_def episode_phase_def ctx_simps
      at_phase_def intro!: edges_at [of "Terminal AbortedRetake"] follows_edge fsm_edge.E9)

lemma closing_follows:
  assumes "closing_trigger ev = Some out" "\<not> is_terminal (ep_phase e)" "ep_phase e \<noteq> PostReset"
  shows "follows s ev e (if post_reset_declared e \<and> run_started (ep_phase e) then PostReset else Terminal out)"
proof (cases "run_started (ep_phase e)")
  case True
  with assms show ?thesis by (auto intro: follows_edge fsm_edge.E10 fsm_edge.E14)
next
  case False
  with assms(2,3) have "ep_phase e = Resetting \<or> ep_phase e = Ready"
    by (cases "ep_phase e") auto
  with False assms(1) show ?thesis by (auto intro: follows_deviation deviation.early_close)
qed

lemma invite_follows:
  assumes "invite_trigger ev" "invite_open e"
  shows "follows s ev e (if post_reset_declared e \<and> run_started (ep_phase e) then PostReset else Terminal Abort)"
proof -
  have "run_started (ep_phase e) \<longleftrightarrow> ep_phase e = Running"
    using assms(2) by (auto simp: invite_open_def)
  with assms show ?thesis
    by (auto intro: follows_edge fsm_edge.E25_E26 fsm_edge.E25_E26_E14)
qed

lemma request_terminal_edges:
  assumes "episode (st c) = Some e'" "ep_phase e' = ep_phase e"
    "post_reset_declared e' = post_reset_declared e"
  shows "closing_trigger ev = Some out \<Longrightarrow> \<not> is_terminal (ep_phase e) \<Longrightarrow> ep_phase e \<noteq> PostReset \<Longrightarrow>
      ensures (request_terminal t out reason c) (edges s ev e)"
    and "invite_trigger ev \<Longrightarrow> invite_open e \<Longrightarrow>
      ensures (request_terminal t Abort reason c) (edges s ev e)"
  using request_terminal_phase [OF assms(1), of t _ reason] assms(2,3) closing_follows [of ev out e s]
    invite_follows [of ev e s]
  by (auto simp del: if_split intro: ensures_edges)

lemma closing_edges:
  assumes "episode s = Some e"
  shows "yields (on_terminate out reason t s) (edges s (Terminate out reason t) e)"
    "yields (on_mark k t s) (edges s (Mark k t) e)"
    "yields (on_agent_invite_timeout t s) (edges s (TimerFired AgentInviteTimeout t) e)"
    "yields (on_agent_task_denied d t s) (edges s (AgentTaskDenied d t) e)"
  using assms
  by (auto simp: on_terminate_def on_mark_def on_agent_invite_timeout_def on_agent_task_denied_def
      abort_invite_def active_def episode_phase_def ctx_simps edges_same [of _ e]
      split: option.split bool.split intro!: request_terminal_edges)

lemma reset_edges:
  assumes "episode s = Some e"
  shows "yields (on_reset_result ok v t s) (edges s (ResetResult ok v t) e)"
    "yields (on_verification_result vr inval t s) (edges s (VerificationResult vr inval t) e)"
proof -
  have "ensures (apply_reset_result t ok v (begin_ctx s)) (edges s (ResetResult ok v t) e)"
    if "ep_phase e = Resetting" "reset_window e = None"
    using assms that
    by (intro ensures_edges [OF reset_result_phase reset_target_follows]) (simp_all add: ctx_simps)
  with assms show "yields (on_reset_result ok v t s) (edges s (ResetResult ok v t) e)"
    by (auto simp: on_reset_result_def episode_phase_def)
  show "yields (on_verification_result vr inval t s) (edges s (VerificationResult vr inval t) e)"
    using assms
    by (auto simp: on_verification_result_def episode_phase_def ctx_simps edges_same [of _ e]
        edges_same at_phase_def intro!: edges_at [of Ready] follows_edge fsm_edge.E2_late [where inval = inval and t = t])
qed

lemma post_result_edges:
  assumes "episode s = Some e"
  shows "yields (on_post_reset_result ok d t s) (edges s (PostResetResult ok d t) e)"
proof -
  have "ensures (apply_post_reset_result t ok d (begin_ctx s)) (edges s (PostResetResult ok d t) e)"
    if "ep_phase e = PostReset" "pinned_outcome e = Some p" "reset_window e = None" for p
    using assms that by (intro ensures_edges [OF post_reset_result_phase])
      (auto simp: ctx_simps intro!: follows_pinned)
  moreover have "ensures (apply_post_reset_result t ok d (begin_ctx s)) Q" if "pinned_outcome e = None" for Q
    using assms that by (simp add: apply_post_reset_result_def ctx_simps)
  ultimately show ?thesis
    using assms by (cases "pinned_outcome e") (auto simp: on_post_reset_result_def episode_phase_def)
qed

lemma estop_edges:
  assumes "episode s = Some e"
  shows "yields (on_estop cfg t s) (edges s (Estop t) e)"
proof -
  have post: "ensures (estop_post_reset t c) (edges s (Estop t) e)"
    if "episode (st c) = Some e" "ep_phase e = PostReset" for c
  proof (cases "pinned_outcome e")
    case None
    with that show ?thesis by (simp add: estop_post_reset_def)
  next
    case (Some p)
    have "ensures (estop_post_reset t c) (at_phase (Terminal p))"
      using that Some
      apply (cases "reset_window e"; simp add: estop_post_reset_def)
       apply (simp_all add: ctx_simps at_phase_def episode_phase_def)
      done
    then show ?thesis using that Some
      by (intro ensures_edges) (auto intro: follows_edge fsm_edge.E17)
  qed
  show ?thesis
    using assms
    by (auto simp: on_estop_def enter_terminal_def episode_phase_def active_def Let_def
        lease_outcome_emit_def ctx_simps edges_same at_phase_def
        intro!: post edges_at [of "Terminal Abort"] follows_edge fsm_edge.E11)
qed

text \<open>What the handback of a window may apply: a reported result in its phase, or a deadline.\<close>

definition handback_due :: "session_fsm \<Rightarrow> session_event \<Rightarrow> episode_state \<Rightarrow> handback_then \<Rightarrow> bool" where
  "handback_due s ev e thn \<longleftrightarrow> (case thn of
     ApplyPreResult ok v \<Rightarrow> ep_phase e = Resetting \<and> reset_reported ev s e = Some (ok, v)
   | ApplyPostResult ok \<Rightarrow> ep_phase e = PostReset \<and> post_reported ev s e
   | TimeoutClose \<Rightarrow> window_deadline ev s \<and> (reset_window e \<noteq> None \<or> minting ev s \<noteq> None) \<and>
       (ep_phase e = PostReset \<longrightarrow> reset_window e \<noteq> None) \<and>
       (open_window_deadline ev s e \<or> is_terminal (ep_phase e) \<or> minting ev s = Some (ResetHandback TimeoutClose)))"

lemma late_deadline_follows:
  assumes "handback_due s ev e TimeoutClose" "ep_phase e \<noteq> PostReset" "window_ok e"
  shows "follows s ev e (Terminal Abort)"
proof (cases "is_terminal (ep_phase e)")
  case True
  with assms show ?thesis
    by (auto simp: handback_due_def intro: follows_deviation deviation.late_deadline)
next
  case open_run: False
  show ?thesis
  proof (cases "open_window_deadline ev s e")
    case True
    then have "reset_window e \<noteq> None"
      by (induction ev s e rule: open_window_deadline.induct) (auto split: option.splits)
    with True open_run assms(2,3) show ?thesis
      by (auto simp: window_ok_def split: if_splits intro: follows_edge fsm_edge.E22)
  next
    case False
    with open_run assms show ?thesis
      by (auto simp: handback_due_def intro: follows_deviation deviation.stale_handback)
  qed
qed

lemma handback_edges:
  assumes "episode (st c) = Some e" "closing_ok e"
    and kind: "map_option rw_kind (reset_window e) = Some RK_Post \<longleftrightarrow> ep_phase e = PostReset"
    and "handback_due s ev e thn"
  shows "ensures (close_reset_window t thn c) (edges s ev e)"
proof (cases thn)
  case (ApplyPreResult ok v)
  with assms show ?thesis
    by (intro ensures_edges [OF close_reset_window_phase(1) reset_target_follows])
      (auto simp: handback_due_def)
next
  case (ApplyPostResult ok)
  with assms obtain p where "pinned_outcome e = Some p"
    by (auto simp: handback_due_def episode_inv_defs split: option.splits)
  with assms ApplyPostResult show ?thesis
    by (intro ensures_edges [OF close_reset_window_phase(2)])
      (auto simp: handback_due_def intro!: follows_pinned)
next
  case TimeoutClose
  have "follows s ev e (Terminal (if map_option rw_kind (reset_window e) = Some RK_Post
         then the (pinned_outcome e) else Abort))"
  proof (cases "ep_phase e = PostReset")
    case True
    with assms(2) obtain p where "pinned_outcome e = Some p"
      by (auto simp: episode_inv_defs split: option.splits)
    with True kind TimeoutClose assms(4) show ?thesis
      by (auto simp: handback_due_def intro!: follows_pinned simp del: map_option_eq_Some)
  next
    case False
    with kind have "map_option rw_kind (reset_window e) \<noteq> Some RK_Post" by simp
    with late_deadline_follows [of s ev e] False TimeoutClose assms(2,4) show ?thesis
      by (simp add: closing_ok_def del: map_option_eq_Some)
  qed
  with assms TimeoutClose show ?thesis
    by (intro ensures_edges [OF close_reset_window_phase(3)])
qed

lemma begin_handback_edges:
  assumes "episode (st c) = Some e" "closing_ok e" "reset_window e = Some w" "handback_due s ev e thn"
  shows "ensures (begin_reset_handback cfg t thn c) (edges s ev e)"
proof -
  have "ensures (close_reset_window t thn c) (edges s ev e)"
    using assms window_kind_phase(1) [OF assms(2,3)] by (intro handback_edges) simp_all
  moreover have "edges s ev e (request_mint p c)" for p
    using assms by (simp add: edges_same request_mint_def ctx_simps)
  ultimately show ?thesis
    using assms(1) by (simp add: begin_reset_handback_def split: bool.split option.split)
qed

lemma window_edges:
  assumes "fsm_inv cfg s" "episode s = Some e"
  shows "yields (on_reset_window_timeout cfg t s) (edges s (TimerFired ResetWindowTimeout t) e)"
    "yields (on_reset_window_complete cfg i ok v t s) (edges s (ResetWindowComplete i ok v t) e)"
proof -
  have cl: "closing_ok e"
    using fsm_inv_episode_inv [OF assms] by (rule episode_inv_closing)
  show "yields (on_reset_window_timeout cfg t s) (edges s (TimerFired ResetWindowTimeout t) e)"
    using assms cl
    by (auto simp: on_reset_window_timeout_def ctx_simps edges_same [of _ e] split: option.split
        simp: handback_due_def intro!: begin_handback_edges)
  have "ensures (begin_reset_handback cfg t (window_result (rw_kind w) ok v) c)
      (edges s (ResetWindowComplete i ok v t) e)"
    if "reset_window e = Some w" "reset_phase s" "holds_claim i s" "episode (st c) = Some e" for w c
    using that cl assms(2) window_kind_phase(1) [OF cl that(1)]
    by (intro begin_handback_edges; cases "rw_kind w")
      (auto simp: reset_phase_def episode_phase_def handback_due_def)
  with assms show "yields (on_reset_window_complete cfg i ok v t s)
      (edges s (ResetWindowComplete i ok v t) e)"
    by (simp add: on_reset_window_complete_def ctx_simps split: option.split)
qed

lemma after_lease_phase:
  assumes "episode (st c) = Some e"
  shows "ensures (after_engage t c) (at_phase (Intervention IP_Settle))"
    "ensures (after_release t c) (at_phase Running)"
    "ensures (after_reset_engage t c) (at_phase (ep_phase e))"
  using assms
  by (auto simp: after_engage_def after_release_def after_reset_engage_def set_gate_def take_claim_def
      ctx_simps at_phase_def episode_phase_def intro!: ensures_read split: option.split)
    (simp_all add: ensures_def)

lemma minted_edges:
  assumes inv: "fsm_inv cfg s" and e: "episode s = Some e"
  shows "yields (on_lease_token_minted cfg m t s) (edges s (LeaseTokenMinted m t) e)"
proof (cases "pending_lease s")
  case None
  then show ?thesis by (simp add: on_lease_token_minted_def)
next
  case (Some p)
  have epi: "episode_inv e" using inv e by (rule fsm_inv_episode_inv)
  show ?thesis
  proof (cases "stale_reset_mint s p")
    case True
    with Some e show ?thesis
      by (simp add: on_lease_token_minted_def lease_outcome_emit_def ctx_simps edges_same)
  next
    case False
    let ?c = "\<lambda>ev. emit ev (put (\<lambda>s. s\<lparr>pending_lease := None, lease := Held m (op_target (po_op p))\<rparr>)
      (begin_ctx s))"
    have op: "op_planned (po_op p) (lease s)"
      and thn: "then_ok cfg e s (op_target (po_op p)) (po_then p)"
      using inv e Some by (simp_all add: fsm_inv_Some pending_ok_def)
    from minted_unfold [OF Some False op] obtain ev where
      eq: "on_lease_token_minted cfg m t s = run (after_lease_applied t (po_then p) (?c ev))" by blast
    have c: "episode (st (?c ev)) = Some e" using e by (simp add: ctx_simps)
    have ph: "ep_phase e = Intervention IP_Engage" if "engage_stage s = Some AwaitLease"
      using inv e that by (auto simp: fsm_inv_Some intervention_ok_def)
    have "ensures (after_lease_applied t (po_then p) (?c ev)) (edges s (LeaseTokenMinted m t) e)"
    proof (cases "po_then p")
      case (ResetHandback thn')
      have "map_option rw_kind (reset_window e) = Some RK_Post \<longleftrightarrow> ep_phase e = PostReset"
        using thn ResetHandback window_kind_phase(1) [OF episode_inv_closing [OF epi]]
        by (cases thn'; cases "reset_window e") (auto simp: window_is_def)
      moreover have "handback_due s (LeaseTokenMinted m t) e thn'"
        using thn ResetHandback Some
        by (cases thn') (auto simp: handback_due_def)
      ultimately have "ensures (close_reset_window t thn' (?c ev))
          (edges s (LeaseTokenMinted m t) e)"
        using episode_inv_closing [OF epi] c
        by (intro handback_edges) simp_all
      with ResetHandback show ?thesis by simp
    next
      case ReleaseComplete
      with thn show ?thesis
        using Some by (auto intro!: ensures_edges [OF after_lease_phase(2) follows_edge [OF fsm_edge.E8]] c simp: ctx_simps e)
    qed (use thn ph c Some in \<open>auto intro!: ensures_edges [OF after_lease_phase(1) [OF c] follows_edge [OF fsm_edge.I2]]
        ensures_edges [OF after_lease_phase(3) [OF c] follows_edge [OF fsm_edge.stay]] edges_same\<close>)
    with eq show ?thesis by simp
  qed
qed

fun opens :: "session_event \<Rightarrow> bool" where
  "opens (EpisodeOpen i ver born par post_reset pre post invite t) = True"
| "opens ev = False"

lemma entry_episode: "\<not> opens ev \<Longrightarrow> episode (st (entry ev s)) = episode s"
  by (cases ev) (simp_all add: ctx_simps)

lemma step_evolves_same:
  assumes "step cfg s ev = Step s' efs" "fsm_inv cfg s" "\<not> opens ev" "episode s = Some e"
  obtains e' where "episode s' = Some e'" "ep_evolves e e'"
    "pinned_outcome e \<noteq> None \<longrightarrow> pinned_outcome e' = pinned_outcome e"
  using step_evolves [OF assms(1,2)] entry_episode [OF assms(3)] assms(4) by metis

lemma timer_edges:
  "fsm_inv cfg s \<Longrightarrow> episode s = Some e \<Longrightarrow> yields (on_timer cfg i t s) (edges s (TimerFired i t) e)"
  by (cases i) (simp_all add: stay_edges simple_edges closing_edges window_edges)

lemma handle_edges:
  assumes "fsm_inv cfg s" "episode s = Some e" "\<not> opens ev"
  shows "yields (handle cfg ev s) (edges s ev e)"
  using assms
  by (cases ev) (simp_all add: stay_edges simple_edges run_edges retake_edges closing_edges
      reset_edges post_result_edges estop_edges window_edges minted_edges timer_edges)

lemma step_edge:
  assumes "fsm_inv cfg s" "episode s = Some e" "\<not> opens ev" "step cfg s ev = Step s' efs"
  shows "\<exists>e'. episode s' = Some e' \<and> follows s ev e (ep_phase e')"
proof -
  obtain c where "handle cfg ev s = accept c" "s' = st c"
    using step_handle [OF assms(4)] by blast
  with handle_edges [OF assms(1-3)] show ?thesis
    by (auto simp: edges_def at_phase_def episode_phase_def)
qed

end
