(* ===== verification/Waddle_Scenario.thy ===== *)
theory Waddle_Scenario
  imports Waddle_Spec
begin

text \<open>
  Concrete sessions: one configuration and scripted event sequences that reach the states
  the properties talk about. Every state here is computed by the model itself from a fresh
  session, so it is reachable.
\<close>

definition demo_config :: session_config where
  "demo_config =
     \<lparr>cfg_session_id = ''s'', cfg_robot_id = ''r'', cfg_cell_id = ''c'', loop_client = ''loop'',
      enforcement = LE_Enforced, handoff = HP_Immediate 0,
      cfg_grants = [\<lparr>g_verb = V_Send, g_send_interfaces = [],
        g_declared_latency_bound_ns = Some 100, g_hardware = False\<rparr>],
      space_contains_delta = False, clutch_source = ''pedal'', clutch_actor = AK_SiteOperator,
      heartbeat_timeout_ns = 2000, engage_timeout_ns = 10000, demote_after = 1, promote_after = 3,
      hysteresis_ratio = Fin (4 / 5)\<rparr>"

definition play :: "session_event list \<Rightarrow> session_fsm" where
  "play evs = foldl (after demo_config) (session_new demo_config) evs"

text \<open>No event other than the reset window timer needs a guard to be delivered.\<close>

fun unguarded :: "session_event \<Rightarrow> bool" where
  "unguarded (TimerFired ResetWindowTimeout t) = False"
| "unguarded ev = True"

lemma unguarded_deliverable: "unguarded ev \<Longrightarrow> deliverable s ev"
  by (cases "(s, ev)" rule: deliverable.cases) auto

lemma reachable_after:
  assumes "reachable cfg s" "deliverable s ev"
  shows "reachable cfg (after cfg s ev)"
  using assms step_ok(1) [OF reachable_inv [OF assms(1)] assms(2)]
  by (cases "step cfg s ev") (auto simp: after_def intro: reachable.step)

lemma reachable_foldl: "reachable cfg s \<Longrightarrow> list_all unguarded evs \<Longrightarrow> reachable cfg (foldl (after cfg) s evs)"
  by (induction evs arbitrary: s) (simp_all add: reachable_after unguarded_deliverable)

lemma reachable_play: "list_all unguarded evs \<Longrightarrow> reachable demo_config (play evs)"
  unfolding play_def by (rule reachable_foldl) (simp_all add: reachable.init)

fun accepted :: "step_result \<Rightarrow> bool" where
  "accepted (Step s efs) = True"
| "accepted r = False"

lemma accepted_step:
  "accepted (step cfg s ev) \<Longrightarrow> step cfg s ev = Step (after cfg s ev) (step_effects (step cfg s ev))"
  by (cases "step cfg s ev") (simp_all add: after_def)

subsection \<open>Scripts\<close>

definition operator :: actor_ref where "operator = of_kind AK_Teleoperator"

definition open_event :: "bool \<Rightarrow> window_spec option \<Rightarrow> agent_invite option \<Rightarrow> session_event" where
  "open_event post pre invite = EpisodeOpen ''e1'' Blocking False None post pre None invite 0"

definition to_running :: "bool \<Rightarrow> session_event list" where
  "to_running post = [open_event post None None, LeaseTokenMinted ''L1'' 1, ResetResult True (Some True) 2, Start 3]"

definition to_settle :: "bool \<Rightarrow> session_event list" where
  "to_settle post = to_running post @
     [ClaimGranted ''c1'' ''teleop'' operator False 4, Engage ''c1'' 5, LeaseTokenMinted ''L2'' 6]"

lemma reachable_scripts:
  "reachable demo_config (play (to_running post))" "reachable demo_config (play (to_settle post))"
  by (rule reachable_play; simp add: to_settle_def to_running_def open_event_def)+

definition to_terminal :: "session_event list" where
  "to_terminal = to_running False @ [Terminate Success ''done'' 4]"

definition to_post_reset :: "session_event list" where
  "to_post_reset = to_running True @ [Mark MK_EndSuccess 4]"

definition to_engage :: "session_event list" where
  "to_engage = to_running False @ [ClaimGranted ''c1'' ''teleop'' operator False 4, Engage ''c1'' 5]"

definition hold_config :: session_config where
  "hold_config = demo_config\<lparr>handoff := HP_HoldFirst\<rparr>"

text \<open>An engage that waits for its hold.\<close>

definition holding :: session_fsm where
  "holding = foldl (after hold_config) (session_new hold_config) to_engage"

lemma reachable_holding: "reachable hold_config holding"
  unfolding holding_def
  by (rule reachable_foldl) (simp_all add: reachable.init to_engage_def to_running_def open_event_def)

definition claim_operator :: session_event where
  "claim_operator = ClaimGranted ''c1'' ''teleop'' operator False 4"

definition pre_window :: window_spec where
  "pre_window = \<lparr>ws_expected = AK_Teleoperator, ws_prompt = ''reset the cell'', ws_timeout_ns = 100\<rparr>"

definition to_window :: "session_event list" where
  "to_window = [open_event False (Some pre_window) None, LeaseTokenMinted ''L1'' 1,
     ClaimGranted ''c1'' ''teleop'' operator False 2]"

text \<open>The deadline of an engaged window after its episode was terminated, then the next open.\<close>

definition to_next_open :: "session_event list" where
  "to_next_open = to_window @ [ResetWindowEngage ''c1'' 3, LeaseTokenMinted ''L2'' 4, Terminate Success ''done'' 5,
     TimerFired ResetWindowTimeout 6, EpisodeOpen ''e2'' Blocking False None False None None None 7]"

definition open_agent_event :: session_event where
  "open_agent_event = open_event False None
     (Some \<lparr>ai_prompt = ''fold the towel'', ai_timeout_ns = 50, ai_task_metadata = []\<rparr>)"

definition phase_and_holder :: "session_event list \<Rightarrow> phase option \<times> lease_state" where
  "phase_and_holder evs = (map_option ep_phase (episode (play evs)), lease (play evs))"

text \<open>What the model computes for the scripts, evaluated at once.\<close>

lemma scenario_results:
  "deliverable (play (to_settle True)) (TimerFired ResetWindowTimeout 9) \<and>
   accepted (step demo_config (session_new demo_config) (open_event True None None)) \<and>
   episode_phase (play (to_settle False)) = Some (Intervention IP_Settle) \<and>
   accepted (step demo_config (play (to_settle False)) (Release ''c1'' 7)) \<and>
   episode_ref (play (to_settle False)) = Some ''e1'' \<and>
   accepted (step demo_config (play to_terminal) (Estop 9)) \<and>
   map_option (\<lambda>e. (ep_id e, ep_phase e)) (episode (play to_terminal)) = Some (''e1'', Terminal Success) \<and>
   accepted (step demo_config (play to_post_reset) (Estop 9)) \<and>
   map_option (\<lambda>e. (ep_phase e, pinned_outcome e)) (episode (play to_post_reset)) = Some (PostReset, Some Success) \<and>
   map_option (\<lambda>e. (ep_phase e, ep_verification e)) (episode (play (to_running False))) = Some (Running, Blocking) \<and>
   accepted (step demo_config (play to_terminal) (VerificationResult False True 9)) \<and>
   map_option ep_verified (episode (play to_terminal)) = Some True \<and>
   retake_legal (play (to_settle False)) \<and> holds_claim ''c1'' (play (to_settle False)) \<and>
   episode_phase (play (to_running False @ [claim_operator])) = Some Running \<and>
   map_option cl_id (claim (play (to_running False @ [claim_operator]))) = Some ''c1'' \<and>
   engage_stage holding = Some AwaitHoldOk \<and> accepted (step hold_config holding (TimerFired EngageTimeout 9)) \<and>
   engage_stage (play to_engage) = Some AwaitLease \<and> loop_client demo_config = ''loop'' \<and>
   accepted (step demo_config (play to_engage) (LeaseTokenMinted ''L2'' 6)) \<and>
   lease (after demo_config (play to_engage) (LeaseTokenMinted ''L2'' 6)) \<noteq> lease (play to_engage) \<and>
   lease_token (lease (play (to_settle False))) \<noteq> Some ''L1'' \<and>
   accepted (step demo_config (session_new demo_config) open_agent_event) \<and>
   gate_plan_inputs (after demo_config (session_new demo_config) open_agent_event) \<noteq>
     gate_plan_inputs (session_new demo_config) \<and>
   gate_mode (after demo_config (session_new demo_config) open_agent_event) = GM_Passthrough \<and>
   gate_mode (play (to_window @ [ResetWindowEngage ''c1'' 3, LeaseTokenMinted ''L2'' 4])) = GM_Reset \<and>
   map_option (\<lambda>e. (ep_phase e, map_option rw_engaged (reset_window e))) (episode (play to_window)) =
     Some (Resetting, Some False) \<and>
   map_option cl_id (claim (play to_window)) = Some ''c1'' \<and>
   map_option (\<lambda>e. (invite_open e, post_reset_declared e)) (episode (play [open_agent_event])) = Some (True, False) \<and>
   fst (phase_and_holder (to_window @ [Terminate Success ''done'' 3])) = Some (Terminal Success) \<and>
   fst (phase_and_holder (to_window @ [Terminate Success ''done'' 3, TimerFired ResetWindowTimeout 5,
     LeaseTokenMinted ''L2'' 6])) = Some (Terminal Abort) \<and>
   map_option cl_id (claim (play (to_window @ [ResetWindowEngage ''c1'' 3, ClaimReleased ''c1'' 4,
     ClaimGranted ''c2'' ''other'' operator False 5, LeaseTokenMinted ''L2'' 6]))) = Some ''c2'' \<and>
   phase_and_holder (to_window @ [ResetWindowEngage ''c1'' 3, ClaimReleased ''c1'' 4,
     ClaimGranted ''c2'' ''other'' operator False 5, LeaseTokenMinted ''L2'' 6]) =
     (Some Resetting, Held ''L2'' ''teleop'') \<and>
   phase_and_holder (to_window @ [ResetWindowEngage ''c1'' 3, LeaseTokenMinted ''L2'' 4,
     TimerFired ResetWindowTimeout 5, ResetWindowComplete ''c1'' True (Some True) 6, LeaseTokenMinted ''L3'' 7]) =
     (Some Ready, Held ''L3'' ''loop'') \<and>
   fst (phase_and_holder [open_event False None None, Terminate Success ''early'' 1]) = Some (Terminal Success) \<and>
   map_option (\<lambda>e. (ep_id e, ep_phase e)) (episode (play (to_next_open @ [LeaseTokenMinted ''L3'' 8]))) =
     Some (''e2'', Terminal Abort)"
  by code_simp

end
