(* ===== verification/Waddle_Safety.thy ===== *)
theory Waddle_Safety
  imports Waddle_Scenario
begin

text \<open>
  The safety properties of a session: it never panics, it keeps its invariant, the
  intervenor is the only writer while it intervenes, every step is an edge of the document's
  episode machine or one of three named departures, terminal episodes stay terminal, and outcomes, once pinned, stand.
\<close>

text \<open>
  C1. No event panics the session machine in a reachable state: every \<^verbatim>\<open>expect\<close> and
  \<^verbatim>\<open>unreachable!\<close> of \<^verbatim>\<open>session.rs\<close> is justified, except that the
  reset window timer must not fire before the first episode opens.
\<close>

theorem session_never_panics:
  assumes "reachable cfg s" "deliverable s ev"
  shows "step cfg s ev \<noteq> Panic"
  using step_ok(1) [OF reachable_inv [OF assms(1)] assms(2)] .

theorem session_never_panics_witness:
  "step demo_config (play (to_settle True)) (TimerFired ResetWindowTimeout 9) \<noteq> Panic"
proof (rule session_never_panics)
  show "reachable demo_config (play (to_settle True))" by (rule reachable_scripts)
  show "deliverable (play (to_settle True)) (TimerFired ResetWindowTimeout 9)"
    using scenario_results by blast
qed

text \<open>
  C2. The session invariant holds in a fresh session and every event keeps it.
\<close>

theorem session_invariant:
  "fsm_inv cfg (session_new cfg) \<and>
   (\<forall>s ev s' efs. fsm_inv cfg s \<longrightarrow> deliverable s ev \<longrightarrow> step cfg s ev = Step s' efs \<longrightarrow> fsm_inv cfg s')"
  using fsm_inv_new step_ok(2) by blast

theorem session_invariant_witness:
  "fsm_inv demo_config (after demo_config (session_new demo_config) (open_event True None None))"
proof -
  have "accepted (step demo_config (session_new demo_config) (open_event True None None))"
    using scenario_results by blast
  from accepted_step [OF this] show ?thesis
    using session_invariant [of demo_config]
    by (metis deliverable.simps(2) open_event_def)
qed

text \<open>
  C3. Single writer: while an intervention is settled or being released, the lease is held by
  the client of the active claim, and the gate is claimed (INTERVENTION or BYPASS), so the
  caller's own actions do not pass.
\<close>

theorem intervenor_is_the_writer:
  assumes "reachable cfg s"
    "episode_phase s = Some (Intervention IP_Settle) \<or> episode_phase s = Some (Intervention IP_Release)"
  shows "\<exists>cl l. claim s = Some cl \<and> lease s = Held l (claim_client cl) \<and>
    (gate_mode s = GM_Intervention \<or> gate_mode s = GM_Bypass)"
proof -
  obtain e where e: "episode s = Some e"
      "ep_phase e = Intervention IP_Settle \<or> ep_phase e = Intervention IP_Release"
    using assms(2) by (auto simp: episode_phase_def)
  then have "intervenor_writes s"
    using reachable_inv [OF assms(1)] by (auto simp: fsm_inv_Some intervention_ok_def)
  then show ?thesis
    by (cases "lease s") (auto simp: intervenor_writes_def claimed_gate_def)
qed

theorem intervenor_is_the_writer_witness:
  "\<exists>cl l. claim (play (to_settle False)) = Some cl \<and>
    lease (play (to_settle False)) = Held l (claim_client cl) \<and>
    (gate_mode (play (to_settle False)) = GM_Intervention \<or>
     gate_mode (play (to_settle False)) = GM_Bypass)"
proof (rule intervenor_is_the_writer)
  show "reachable demo_config (play (to_settle False))" by (rule reachable_scripts)
  show "episode_phase (play (to_settle False)) = Some (Intervention IP_Settle) \<or>
    episode_phase (play (to_settle False)) = Some (Intervention IP_Release)"
    using scenario_results by blast
qed

text \<open>
  C4. Refinement: an accepted event other than an episode open takes the episode along an edge
  of the episode machine as the protocol document has it (rows E2 to E26, I2, I3, with their
  guards), or along one of the three departures of the code that \<open>deviation\<close> names: the close of
  a run that has not started, the deadline of a window left behind by a terminal episode, and
  the handback of such a window after the next open. Identity and declarations never change.
\<close>

theorem step_refines_episode_machine:
  assumes "reachable cfg s" "episode s = Some e" "\<not> opens ev" "step cfg s ev = Step s' efs"
  shows "\<exists>e'. episode s' = Some e' \<and> ep_id e' = ep_id e \<and>
    (fsm_edge s ev e (ep_phase e') \<or> deviation s ev e (ep_phase e')) \<and>
    post_reset_declared e' = post_reset_declared e \<and> agent_invited e' = agent_invited e"
proof -
  obtain e' where e': "episode s' = Some e'" "follows s ev e (ep_phase e')"
    using step_edge [OF reachable_inv [OF assms(1)] assms(2-4)] by blast
  moreover have "ep_evolves e e'"
    using step_evolves_same [OF assms(4) reachable_inv [OF assms(1)] assms(3,2)] e'(1) by force
  ultimately show ?thesis
    by (intro exI [of _ e']) (simp add: ep_evolves_def follows_def)
qed

theorem step_refines_episode_machine_witness:
  "\<exists>e'. episode (after demo_config (play (to_settle False)) (Release ''c1'' 7)) = Some e' \<and>
    ep_id e' = ''e1'' \<and>
    fsm_edge (play (to_settle False)) (Release ''c1'' 7) (the (episode (play (to_settle False)))) (ep_phase e')"
proof -
  have "accepted (step demo_config (play (to_settle False)) (Release ''c1'' 7))"
    using scenario_results by blast
  moreover obtain e where "episode (play (to_settle False)) = Some e" "ep_id e = ''e1''"
  proof -
    have "episode_ref (play (to_settle False)) = Some ''e1''" using scenario_results by blast
    with that show ?thesis by (auto simp: episode_ref_def)
  qed
  moreover have "\<not> deviation s (Release ''c1'' 7) e' p" for s e' p
    by (auto simp: minting_def elim: deviation_from)
  ultimately show ?thesis
    using step_refines_episode_machine [OF reachable_scripts(2) _ _ accepted_step,
        of False e "Release ''c1'' 7"] by auto
qed

text \<open>
  C5. TERMINAL is absorbing (row E12): in a terminal episode no event but the next open changes
  the phase, unless a reset window's deadline is still outstanding (its timer, or the mint of
  its deferred handback).
\<close>

theorem terminal_is_absorbing:
  assumes "reachable cfg s" "episode s = Some e" "ep_phase e = Terminal out"
    "\<not> opens ev" "\<not> window_deadline ev s" "step cfg s ev = Step s' efs"
  shows "\<exists>e'. episode s' = Some e' \<and> ep_id e' = ep_id e \<and> ep_phase e' = Terminal out"
proof -
  obtain e' where e': "episode s' = Some e'" "follows s ev e (ep_phase e')"
    using step_edge [OF reachable_inv [OF assms(1)] assms(2,4,6)] by blast
  have "ep_phase e' = Terminal out"
    using e'(2) terminal_follows [OF _ _ assms(5)] assms(3) by simp
  moreover have "ep_evolves e e'"
    using step_evolves_same [OF assms(6) reachable_inv [OF assms(1)] assms(4,2)] e'(1) by force
  ultimately show ?thesis
    using e'(1) by (intro exI [of _ e']) (simp add: ep_evolves_def)
qed

theorem terminal_is_absorbing_witness:
  "\<exists>e'. episode (after demo_config (play to_terminal) (Estop 9)) = Some e' \<and> ep_id e' = ''e1'' \<and>
    ep_phase e' = Terminal Success"
proof -
  have "accepted (step demo_config (play to_terminal) (Estop 9))" using scenario_results by blast
  moreover have "reachable demo_config (play to_terminal)"
    by (rule reachable_play) (simp add: to_terminal_def to_running_def open_event_def)
  moreover obtain e where "episode (play to_terminal) = Some e" "ep_id e = ''e1''"
      "ep_phase e = Terminal Success"
  proof -
    have "map_option (\<lambda>e. (ep_id e, ep_phase e)) (episode (play to_terminal)) =
        Some (''e1'', Terminal Success)" using scenario_results by blast
    with that show ?thesis by auto
  qed
  ultimately show ?thesis
    using terminal_is_absorbing [OF _ _ _ _ _ accepted_step, of demo_config "play to_terminal" e Success "Estop 9"]
    by simp
qed

text \<open>
  C6. An outcome is pinned once: in POST_RESET the episode has one, no event changes it, and the
  episode leaves POST_RESET only for TERMINAL with exactly that outcome (rows E14b to E17, E22).
\<close>

theorem pinned_outcome_stands:
  assumes "reachable cfg s" "episode s = Some e" "ep_phase e = PostReset" "step cfg s ev = Step s' efs"
  shows "\<exists>e' p. pinned_outcome e = Some p \<and> episode s' = Some e' \<and> ep_id e' = ep_id e \<and>
    pinned_outcome e' = Some p \<and> (ep_phase e' = PostReset \<or> ep_phase e' = Terminal p)"
proof -
  note inv = reachable_inv [OF assms(1)]
  obtain p where p: "pinned_outcome e = Some p"
    using post_reset_pinned [OF fsm_inv_episode_inv [OF inv assms(2)] assms(3)] by blast
  have "\<not> opens ev"
    using assms by (cases ev) (auto simp: step_def close_step_def on_episode_open_def active_def)
  obtain e' where e': "episode s' = Some e'" "follows s ev e (ep_phase e')"
    using step_edge [OF inv assms(2) \<open>\<not> opens ev\<close> assms(4)] by blast
  have "ep_phase e' = PostReset \<or> ep_phase e' = Terminal p"
    by (rule post_reset_follows [OF e'(2) assms(3) p])
  moreover have "ep_evolves e e'" "pinned_outcome e' = Some p"
    using step_evolves_same [OF assms(4) inv \<open>\<not> opens ev\<close> assms(2)] e'(1) p by force+
  ultimately show ?thesis
    using e'(1) p by (intro exI [of _ e'] exI [of _ p]) (simp add: ep_evolves_def)
qed

theorem pinned_outcome_stands_witness:
  "\<exists>e' p. Some Success = Some p \<and> episode (after demo_config (play to_post_reset) (Estop 9)) = Some e' \<and>
    pinned_outcome e' = Some p \<and> (ep_phase e' = PostReset \<or> ep_phase e' = Terminal p)"
proof -
  have "accepted (step demo_config (play to_post_reset) (Estop 9))" using scenario_results by blast
  moreover have "reachable demo_config (play to_post_reset)"
    by (rule reachable_play) (simp add: to_post_reset_def to_running_def open_event_def)
  moreover obtain e where "episode (play to_post_reset) = Some e" "ep_phase e = PostReset"
      "pinned_outcome e = Some Success"
  proof -
    have "map_option (\<lambda>e. (ep_phase e, pinned_outcome e)) (episode (play to_post_reset)) =
        Some (PostReset, Some Success)" using scenario_results by blast
    with that show ?thesis by auto
  qed
  ultimately show ?thesis
    using pinned_outcome_stands [OF _ _ _ accepted_step, of demo_config "play to_post_reset" e "Estop 9"]
    by auto
qed

text \<open>
  C7. Verified or flagged (invariant I6): past RESETTING the reset was reported ok, a
  BLOCKING episode is verified, and an optimistic one is verified or marked as an optimistic
  entry, which makes a later failed verification flag it.
\<close>

theorem past_reset_is_verified:
  assumes "reachable cfg s" "episode s = Some e" "past_reset (ep_phase e)"
  shows "reset_ok e \<and> (ep_verification e = Blocking \<longrightarrow> ep_verified e) \<and>
    (ep_verification e = OptimisticAsync \<longrightarrow> ep_verified e \<or> optimistic_entry e)"
proof -
  have "verified_ok e"
    using fsm_inv_episode_inv [OF reachable_inv [OF assms(1)] assms(2)]
    by (simp add: episode_inv_def closing_ok_def)
  with assms(3) show ?thesis
    by (cases "ep_verification e") (simp_all add: verified_ok_def)
qed

theorem past_reset_is_verified_witness:
  "\<exists>e. episode (play (to_running False)) = Some e \<and> reset_ok e \<and> ep_verified e"
proof -
  obtain e where "episode (play (to_running False)) = Some e" "ep_phase e = Running"
      "ep_verification e = Blocking"
  proof -
    have "map_option (\<lambda>e. (ep_phase e, ep_verification e)) (episode (play (to_running False))) =
        Some (Running, Blocking)" using scenario_results by blast
    with that show ?thesis by auto
  qed
  then show ?thesis
    using past_reset_is_verified [OF reachable_scripts(1)] by auto
qed

text \<open>
  Corrections are permanent: no event other than an open clears
  \<open>reset_unverified\<close>, \<open>post_reset_failed\<close>, the agent latches, or the verified
  flag of the episode.
\<close>

theorem flags_are_permanent:
  assumes "reachable cfg s" "episode s = Some e" "\<not> opens ev" "step cfg s ev = Step s' efs"
  shows "\<exists>e'. episode s' = Some e' \<and>
    (reset_unverified e \<longrightarrow> reset_unverified e') \<and> (post_reset_failed e \<longrightarrow> post_reset_failed e') \<and>
    (agent_engaged e \<longrightarrow> agent_engaged e') \<and> (invite_aborted e \<longrightarrow> invite_aborted e') \<and>
    (ep_verified e \<longrightarrow> ep_verified e')"
proof -
  obtain e' where "episode s' = Some e'" "ep_evolves e e'"
    using step_evolves_same [OF assms(4) reachable_inv [OF assms(1)] assms(3,2)] by blast
  then show ?thesis
    by (intro exI [of _ e']) (simp add: ep_evolves_def)
qed

theorem flags_are_permanent_witness:
  "\<exists>e'. episode (after demo_config (play to_terminal) (VerificationResult False True 9)) = Some e' \<and> ep_verified e'"
proof -
  have "accepted (step demo_config (play to_terminal) (VerificationResult False True 9))" using scenario_results by blast
  moreover have "reachable demo_config (play to_terminal)"
    by (rule reachable_play) (simp add: to_terminal_def to_running_def open_event_def)
  moreover obtain e where "episode (play to_terminal) = Some e" "ep_verified e"
  proof -
    have "map_option ep_verified (episode (play to_terminal)) = Some True" using scenario_results by blast
    with that show ?thesis by auto
  qed
  ultimately show ?thesis
    using flags_are_permanent [OF _ _ _ accepted_step, of demo_config "play to_terminal" e
        "VerificationResult False True 9"] by auto
qed

end
