(* ===== verification/Waddle_Hold.thy ===== *)
theory Waddle_Hold
  imports Waddle_Spec
begin

text \<open>
  While a HOLD_FIRST engage waits for its hold: no row but the successful result of that hold
  asks for the engage token, over any sequence of events. The invariant is stated on the
  context of a row, so that each helper is covered once.
\<close>

subsection \<open>No engage token asked for\<close>

fun is_mint :: "effect \<Rightarrow> bool" where
  "is_mint (MintLeaseToken p) = True"
| "is_mint ef = False"

fun mint_within :: "(after_lease \<Rightarrow> bool) \<Rightarrow> effect \<Rightarrow> bool" where
  "mint_within A (MintLeaseToken p) = A (po_then p)"
| "mint_within A ef = True"

definition not_handing :: "session_fsm \<Rightarrow> bool" where
  "not_handing s \<longleftrightarrow> engage_stage s = None \<or> engage_stage s = Some AwaitHoldOk"

definition quiet :: "(after_lease \<Rightarrow> bool) \<Rightarrow> ctx \<Rightarrow> bool" where
  "quiet A c \<longleftrightarrow> not_handing (st c) \<and> list_all (mint_within A) (effects c)"

lemma quiet_ctx [ctx_simps]:
  "quiet A (emit ev c) = quiet A c"
  "quiet A (push ef c) \<longleftrightarrow> quiet A c \<and> mint_within A ef"
  "quiet A (request_mint p c) \<longleftrightarrow> quiet A c \<and> A (po_then p)"
  by (auto simp: quiet_def not_handing_def request_mint_def ctx_simps)

lemma quiet_begin [ctx_simps]: "quiet A (begin_ctx s) = not_handing s"
  by (simp add: quiet_def ctx_simps)

lemma quiet_put: "quiet A c \<Longrightarrow> engage_stage (f (st c)) = engage_stage (st c) \<Longrightarrow> quiet A (put f c)"
  by (simp add: quiet_def not_handing_def ctx_simps)

lemma quiet_stage:
  "quiet A c \<Longrightarrow> engage_stage (f (st c)) = None \<or> engage_stage (f (st c)) = Some AwaitHoldOk \<Longrightarrow> quiet A (put f c)"
  by (simp add: quiet_def not_handing_def ctx_simps)

lemma quiet_emits: "emits_only c c' \<Longrightarrow> quiet A c \<Longrightarrow> quiet A c'"
  by (auto simp: quiet_def not_handing_def emits_only_def same_core_def list_all_iff)

lemma quiet_mut:
  "quiet A c \<Longrightarrow> (\<And>c'. quiet A c' \<Longrightarrow> Q c') \<Longrightarrow> ensures (episode_mut f c) Q"
  by (auto simp: episode_mut_def ensures_guard quiet_put split: option.split)

lemma quiet_set_gate:
  "quiet A c \<Longrightarrow> (\<And>c'. quiet A c' \<Longrightarrow> Q c') \<Longrightarrow> ensures (set_gate t to reason c) Q"
  by (auto simp: set_gate_def ensures_guard ctx_simps quiet_put split: option.split)

lemma quiet_transition:
  "quiet A c \<Longrightarrow> (\<And>c'. quiet A c' \<Longrightarrow> Q c') \<Longrightarrow> ensures (transition t to reason out c) Q"
  by (auto simp: transition_def ctx_simps intro!: quiet_mut [of A] ensures_read)

lemma quiet_take_claim:
  "quiet A c \<Longrightarrow> (\<And>c'. quiet A c' \<Longrightarrow> Q c') \<Longrightarrow> ensures (take_claim t reason c) Q"
  by (auto simp: take_claim_def ctx_simps quiet_put intro!: ensures_read split: option.split)

lemma quiet_grants: "quiet A c \<Longrightarrow> quiet A (emit_grants t ep frm to reason vs c)"
  by (induction t ep frm to reason vs c rule: emit_grants.induct) (simp_all add: ctx_simps)

lemma quiet_directives: "quiet A c \<Longrightarrow> quiet A (apply_directives t ep ds c)"
  by (induction t ep ds c rule: apply_directives.induct)
    (auto simp: ctx_simps quiet_put split: option.split)

lemma quiet_pending: "quiet A c \<Longrightarrow> quiet A (apply_pending_demotions t c)"
  by (rule quiet_emits [OF emits_only_apply_pending])

lemma quiet_close_run:
  assumes "quiet A c" "\<And>c'. quiet A c' \<Longrightarrow> Q c'"
  shows "ensures (close_run t to reason out rel c) Q"
  using assms(1) unfolding close_run_def
  by (auto simp: ctx_simps intro!: quiet_set_gate [of A] quiet_transition [of A] quiet_take_claim [of A]
      quiet_pending quiet_stage assms(2))

lemma quiet_open_window:
  assumes "quiet A c" "\<And>c'. quiet A c' \<Longrightarrow> Q c'"
  shows "ensures (open_reset_window t k spec c) Q"
  using assms(1) unfolding open_reset_window_def
  by (auto simp: ctx_simps intro!: quiet_mut [of A] ensures_read assms(2))

lemma quiet_post_reset:
  assumes "quiet A c" "\<And>c'. quiet A c' \<Longrightarrow> Q c'"
  shows "ensures (enter_post_reset t out reason c) Q"
  using assms(1) unfolding enter_post_reset_def
  by (auto simp: ctx_simps split: option.split
      intro!: quiet_mut [of A] quiet_close_run [of A] quiet_open_window [of A] ensures_read assms(2))

lemma quiet_request_terminal:
  assumes "quiet A c" "\<And>c'. quiet A c' \<Longrightarrow> Q c'"
  shows "ensures (request_terminal t out reason c) Q"
  using assms(1) unfolding request_terminal_def enter_terminal_def
  by (auto split: option.split
      intro!: quiet_post_reset [of A] quiet_close_run [of A] ensures_read assms(2))

lemma quiet_results:
  assumes "quiet A c" "\<And>c'. quiet A c' \<Longrightarrow> Q c'"
  shows "ensures (apply_post_reset_result t ok detail c) Q" "ensures (apply_reset_result t ok verified c) Q"
    "ensures (timeout_close t kind c) Q" "ensures (estop_post_reset t c) Q"
  using assms(1)
  unfolding apply_post_reset_result_def apply_reset_result_def timeout_close_def estop_post_reset_def
    enter_terminal_def
  by (cases verified; auto simp: ctx_simps split: reset_verification_mode.split option.split
      intro!: quiet_mut [of A] quiet_close_run [of A] quiet_transition [of A] ensures_read assms(2))+

lemma quiet_close_window:
  assumes "quiet A c" "\<And>c'. quiet A c' \<Longrightarrow> Q c'"
  shows "ensures (close_reset_window t thn c) Q"
  using assms(1) unfolding close_reset_window_def
  by (cases thn) (auto intro!: quiet_set_gate [of A] quiet_take_claim [of A] quiet_mut [of A] ensures_read
      quiet_results [of A] assms(2))

lemma quiet_handback:
  assumes "quiet A c" "A (ResetHandback thn)"
  shows "ensures (begin_reset_handback cfg t thn c) (quiet A)"
  using assms unfolding begin_reset_handback_def
  by (auto simp: ctx_simps intro!: quiet_close_window [of A] ensures_read split: bool.split option.split)

lemma quiet_begin_engage:
  assumes "quiet A c" "effective_handoff cfg = HP_HoldFirst"
  shows "ensures (begin_engage cfg t c) (quiet A)"
  using assms unfolding begin_engage_def
  by (auto simp: ctx_simps intro!: quiet_transition [of A] quiet_mut [of A] quiet_stage ensures_read)

lemma quiet_begin_release:
  assumes "quiet A c" "A ReleaseComplete"
  shows "ensures (begin_release cfg t c) (quiet A)"
  using assms unfolding begin_release_def
  by (auto simp: ctx_simps intro!: quiet_mut [of A] ensures_read)

lemma quiet_after_lease:
  assumes "quiet A c"
  shows "ensures (after_lease_applied t thn c) (quiet A)"
  using assms
  by (cases thn) (auto simp: after_engage_def after_release_def after_reset_engage_def ctx_simps
      intro!: quiet_mut [of A] quiet_set_gate [of A] quiet_transition [of A] quiet_take_claim [of A]
        quiet_close_window [of A] quiet_stage ensures_read)

subsection \<open>Every row\<close>

fun hold_succeeds :: "session_event \<Rightarrow> bool" where
  "hold_succeeds (VerbResult V_Hold ok fault t) = ok"
| "hold_succeeds ev = False"

lemma hold_succeeds_verb [simp]: "hold_succeeds (VerbResult v ok fault t) \<longleftrightarrow> v = V_Hold \<and> ok"
  by (cases v) simp_all

text \<open>Any other token may be asked for, or the episode is in ENGAGE, where no row asks for one.\<close>

definition other_mints :: "(after_lease \<Rightarrow> bool) \<Rightarrow> session_fsm \<Rightarrow> bool" where
  "other_mints A s \<longleftrightarrow> (\<forall>a. a \<noteq> EngageComplete \<longrightarrow> A a) \<or>
     (\<exists>e. episode s = Some e \<and> ep_phase e = Intervention IP_Engage \<and> reset_window e = None)"

lemma quiet_simple_rows:
  assumes "not_handing s"
  shows "yields (on_judge_result judge passed t s) (quiet A)"
    "yields (on_claim_requested i src actor self t s) (quiet A)"
    "yields (on_claim_granted i src actor self t s) (quiet A)"
    "yields (on_claim_released i t s) (quiet A)"
    "yields (on_dual_write m w tr t s) (quiet A)"
    "yields (on_intervention_rejected src reason t s) (quiet A)"
    "yields (on_start t s) (quiet A)"
    "yields (on_gate_tick t s) (quiet A)"
    "yields (on_stall_detected t s) (quiet A)"
    "yields (on_ticks_resumed t s) (quiet A)"
    "yields (on_engage_timeout s) (quiet A)"
    "yields (on_chunk_boundary s) (quiet A)"
    "yields (on_chunk_boundary_cap s) (quiet A)"
    "yields (on_reset_result ok ver t s) (quiet A)"
    "yields (on_post_reset_result ok d t s) (quiet A)"
  using assms
  unfolding on_judge_result_def on_claim_requested_def on_claim_granted_def on_claim_released_def
    on_dual_write_def on_intervention_rejected_def on_start_def on_gate_tick_def on_stall_detected_def
    on_ticks_resumed_def on_engage_timeout_def on_chunk_boundary_def on_chunk_boundary_cap_def
    on_reset_result_def on_post_reset_result_def
  by (auto simp: ctx_simps not_handing_def [of s] split: option.split
      intro!: quiet_transition [of A] quiet_take_claim [of A] quiet_set_gate [of A] quiet_results [of A]
        quiet_put ensures_read)

lemma quiet_grant_rows:
  assumes "not_handing s"
  shows "yields (on_proxy_signals cfg sm t s) (quiet A)"
    "yields (on_heartbeat_ack ds t s) (quiet A)"
    "yields (on_partition_start cfg t s) (quiet A)"
    "yields (on_partition_end t s) (quiet A)"
    "yields (on_heartbeat_stale t s) (quiet A)"
  using assms
  unfolding on_proxy_signals_def on_heartbeat_ack_def on_partition_start_def on_partition_end_def
    on_heartbeat_stale_def Let_def
  by (auto simp: ctx_simps intro!: quiet_grants quiet_directives quiet_pending quiet_put)

lemma quiet_closing_rows:
  assumes "not_handing s"
  shows "yields (on_terminate out reason t s) (quiet A)"
    "yields (on_mark kind t s) (quiet A)"
    "yields (on_agent_invite_timeout t s) (quiet A)"
    "yields (on_agent_task_denied d t s) (quiet A)"
    "yields (on_retake i k succ t s) (quiet A)"
    "yields (on_verification_result v inval t s) (quiet A)"
    "yields (on_estop cfg t s) (quiet A)"
  using assms
  unfolding on_terminate_def on_mark_def on_agent_invite_timeout_def on_agent_task_denied_def
    abort_invite_def on_retake_def on_verification_result_def on_estop_def enter_terminal_def Let_def
    lease_outcome_emit_def
  by (auto simp: ctx_simps split: option.split bool.split
      intro!: quiet_request_terminal [of A] quiet_close_run [of A] quiet_mut [of A] quiet_transition [of A]
        quiet_results [of A] quiet_put ensures_read)

lemma quiet_engage_rows:
  assumes "not_handing s" "effective_handoff cfg = HP_HoldFirst" "other_mints A s"
  shows "yields (on_engage cfg i t s) (quiet A)"
    "yields (on_release cfg i t s) (quiet A)"
    "yields (on_clutch cfg b t s) (quiet A)"
    "\<not> (v = V_Hold \<and> ok) \<Longrightarrow> yields (on_verb_result v ok fault t s) (quiet A)"
  using assms
  unfolding on_engage_def on_release_def on_clutch_def clutch_engage_def clutch_disengage_def
    on_verb_result_def other_mints_def Let_def
  by (auto simp: ctx_simps episode_phase_def split: option.split
      intro!: quiet_begin_engage quiet_begin_release quiet_put ensures_read)

lemma quiet_window_rows:
  assumes "not_handing s" "other_mints A s"
  shows "yields (on_reset_window_timeout cfg t s) (quiet A)"
    "yields (on_reset_window_complete cfg i ok ver t s) (quiet A)"
    "yields (on_reset_window_engage i s) (quiet A)"
    "yields (on_episode_open cfg j mode born par post_reset pre post invite t s) (quiet A)"
  using assms
  unfolding on_reset_window_timeout_def on_reset_window_complete_def on_reset_window_engage_def
    begin_reset_engage_def on_episode_open_def open_window_and_lease_def open_invite_def other_mints_def
  by (auto simp: ctx_simps reset_phase_def episode_phase_def active_def split: option.split
      intro!: quiet_handback quiet_open_window [of A] quiet_put ensures_read)

lemma quiet_mint_row:
  assumes "not_handing s"
  shows "yields (on_lease_token_minted cfg m t s) (quiet A)"
  using assms unfolding on_lease_token_minted_def lease_outcome_emit_def Let_def
  by (auto simp: ctx_simps split: option.split prod.split lease_outcome.split
      intro!: quiet_after_lease quiet_put)

lemma quiet_timer_row:
  "not_handing s \<Longrightarrow> other_mints A s \<Longrightarrow> yields (on_timer cfg i t s) (quiet A)"
  by (cases i) (simp_all add: quiet_simple_rows quiet_grant_rows quiet_closing_rows quiet_window_rows)

lemma quiet_handle:
  assumes "not_handing s" "effective_handoff cfg = HP_HoldFirst" "other_mints A s" "\<not> hold_succeeds ev"
  shows "yields (handle cfg ev s) (quiet A)"
  using assms
  by (cases ev) (auto simp: quiet_simple_rows quiet_grant_rows quiet_closing_rows quiet_engage_rows
      quiet_window_rows quiet_mint_row quiet_timer_row)

subsection \<open>Runs without a successful hold\<close>

text \<open>The states a session reaches from \<open>s\<close> by accepted events none of which is the result of a
  successful HOLD.\<close>

inductive unheld :: "session_config \<Rightarrow> session_fsm \<Rightarrow> session_fsm \<Rightarrow> bool" for cfg s where
  here: "unheld cfg s s"
| event: "unheld cfg s s1 \<Longrightarrow> deliverable s1 ev \<Longrightarrow> \<not> hold_succeeds ev \<Longrightarrow> step cfg s1 ev = Step s2 efs \<Longrightarrow>
     unheld cfg s s2"

lemma unheld_reachable: "unheld cfg s s' \<Longrightarrow> reachable cfg s \<Longrightarrow> reachable cfg s'"
  by (induction rule: unheld.induct) (auto intro: reachable.step)

definition mid_run :: "session_fsm \<Rightarrow> bool" where
  "mid_run s \<longleftrightarrow> episode_phase s = Some (Intervention IP_Settle) \<or>
     episode_phase s = Some (Intervention IP_Release)"

lemma finish_mint_within: "list_all (mint_within A) (effects (finish g c)) = list_all (mint_within A) (effects c)"
  by (auto simp: finish_def ctx_simps)

lemma unheld_step:
  assumes "not_handing s" "effective_handoff cfg = HP_HoldFirst" "other_mints A s" "\<not> hold_succeeds ev"
    "step cfg s ev = Step s' efs"
  shows "not_handing s' \<and> list_all (mint_within A) efs"
proof -
  obtain c where "handle cfg ev s = accept c" "s' = st c" "efs = effects (finish (gate_plan_inputs s) c)"
    using step_handle [OF assms(5)] by blast
  with quiet_handle [OF assms(1-4)] show ?thesis
    by (simp add: quiet_def finish_mint_within)
qed

lemma opened_phase:
  "opens ev \<Longrightarrow> step cfg s ev = Step s' efs \<Longrightarrow> episode_phase s' = Some Resetting"
proof (cases ev)
  case (EpisodeOpen i ver born par post_reset pre post invite t)
  assume "step cfg s ev = Step s' efs"
  moreover have "yields (on_episode_open cfg i ver born par post_reset pre post invite t s) (at_phase Resetting)"
    by (auto simp: on_episode_open_def open_window_and_lease_def open_reset_window_def open_invite_def
        request_mint_def new_episode_def episode_open_state_def at_phase_def episode_phase_def ctx_simps
        split: option.split intro!: ensures_read)
  ultimately show ?thesis
    using EpisodeOpen by (auto simp: at_phase_def elim!: step_handle)
qed simp_all

text \<open>SETTLE and RELEASE are entered through the engage token only.\<close>

lemma follows_mid_run:
  "follows s ev e p \<Longrightarrow> p = Intervention IP_Settle \<or> p = Intervention IP_Release \<Longrightarrow>
   ep_phase e = Intervention IP_Settle \<or> ep_phase e = Intervention IP_Release \<or> minting ev s = Some EngageComplete"
  by (auto simp: follows_def elim!: edge_from deviation_from)

lemma no_engage_token:
  assumes "fsm_inv cfg s" "not_handing s" "pending_lease s = Some p"
  shows "po_then p \<noteq> EngageComplete"
  using assms by (cases "episode s") (auto simp: fsm_inv_None fsm_inv_Some pending_ok_def not_handing_def)

interpretation idle_frame: session_frame False
  "\<lambda>c c'. episode (st c) = None \<longrightarrow> episode (st c') = None"
  by unfold_locales (simp_all add: ctx_simps)

lemma idle_stays:
  assumes "step cfg s ev = Step s' efs" "\<not> opens ev" "episode s = None"
  shows "episode s' = None"
  using idle_frame.handle_R [of s cfg ev] entry_episode [OF assms(2), of s] assms(3)
  by (rule_tac step_handle [OF assms(1)]) simp

lemma settles_only_by_mint:
  assumes "fsm_inv cfg s" "not_handing s" "\<not> mid_run s" "step cfg s ev = Step s' efs"
  shows "\<not> mid_run s'"
proof (cases "opens ev")
  case True
  with opened_phase assms(4) show ?thesis by (simp add: mid_run_def)
next
  case False
  show ?thesis
  proof (cases "episode s")
    case None
    then have "episode s' = None"
      by (rule idle_stays [OF assms(4) False])
    then show ?thesis by (simp add: mid_run_def episode_phase_def)
  next
    case (Some e)
    obtain e' where e': "episode s' = Some e'" "follows s ev e (ep_phase e')"
      using step_edge [OF assms(1) Some False assms(4)] by blast
    have "minting ev s \<noteq> Some EngageComplete"
      using no_engage_token [OF assms(1,2)] by (auto simp: minting_def split: session_event.splits)
    with follows_mid_run [OF e'(2)] e'(1) Some assms(3) show ?thesis
      by (auto simp: mid_run_def episode_phase_def)
  qed
qed

lemma unheld_run:
  assumes "unheld cfg s s'" "reachable cfg s" "effective_handoff cfg = HP_HoldFirst" "not_handing s" "\<not> mid_run s"
  shows "not_handing s' \<and> \<not> mid_run s'"
  using assms
proof (induction rule: unheld.induct)
  case (event s1 ev s2 efs)
  then have s1: "not_handing s1" "\<not> mid_run s1" "fsm_inv cfg s1"
    by (auto intro: reachable_inv unheld_reachable)
  have "other_mints (\<lambda>a. a \<noteq> EngageComplete) s1" by (simp add: other_mints_def)
  from unheld_step [OF s1(1) event.prems(2) this event.hyps(3,4)] settles_only_by_mint [OF s1(3,1,2) event.hyps(4)]
  show ?case by simp
qed simp

text \<open>While the hold is awaited no row asks for any token, and the lease can only be revoked or
  end up with the loop, by a token that had been asked for before the engage.\<close>

lemma waiting_step:
  assumes "reachable cfg s" "engage_stage s = Some AwaitHoldOk" "effective_handoff cfg = HP_HoldFirst"
    "\<not> hold_succeeds ev" "step cfg s ev = Step s' efs"
  shows "\<not> list_ex is_mint efs"
    "lease s' = lease s \<or> lease s' = Vacant \<or> (\<exists>m. lease s' = Held m (loop_client cfg))"
proof -
  note inv = reachable_inv [OF assms(1)]
  obtain e where e: "episode s = Some e"
    using inv assms(2) by (cases "episode s") (auto simp: fsm_inv_None)
  have ph: "ep_phase e = Intervention IP_Engage"
    using inv e assms(2) by (simp add: fsm_inv_Some intervention_ok_def)
  have "window_ok e"
    using fsm_inv_episode_inv [OF inv e] by (simp add: episode_inv_def closing_ok_def)
  then have w: "reset_window e = None"
    using ph by (auto simp: window_ok_def split: option.splits if_splits)
  have nh: "not_handing s" and om: "other_mints (\<lambda>a. False) s"
    using assms(2) e ph w by (auto simp: not_handing_def other_mints_def)
  have "list_all (mint_within (\<lambda>a. False)) efs"
    using unheld_step [OF nh assms(3) om assms(4,5)] by blast
  moreover have "mint_within (\<lambda>a. False) ef \<Longrightarrow> \<not> is_mint ef" for ef by (cases ef) simp_all
  ultimately show "\<not> list_ex is_mint efs" by (auto simp: list_all_iff list_ex_iff)
  have loose: "loose_pending cfg s"
    using inv e assms(2) ph w pending_ok_loose [of s e cfg] by (simp add: fsm_inv_Some)
  have "lease s' = lease (st (entry ev s))" by (rule step_lease [OF assms(5)])
  with loose show "lease s' = lease s \<or> lease s' = Vacant \<or> (\<exists>m. lease s' = Held m (loop_client cfg))"
    by (cases ev) (auto simp: ctx_simps loose_pending_def planned_lease_step(1) split: option.splits if_splits)
qed

text \<open>The whole wait: what no sequence of events without a successful hold brings about.\<close>

lemma unheld_asks_for_no_token:
  assumes "effective_handoff cfg = HP_HoldFirst" "reachable cfg s1" "engage_stage s1 = Some AwaitHoldOk"
    "unheld cfg s1 s2" "\<not> hold_succeeds ev" "step cfg s2 ev = Step s3 efs"
  shows "\<not> mid_run s2 \<and> engage_stage s2 \<noteq> Some AwaitLease \<and>
    (\<forall>p. MintLeaseToken p \<in> set efs \<longrightarrow> po_then p \<noteq> EngageComplete) \<and>
    (engage_stage s2 = Some AwaitHoldOk \<longrightarrow> \<not> list_ex is_mint efs \<and>
      (lease s3 = lease s2 \<or> lease s3 = Vacant \<or> (\<exists>m. lease s3 = Held m (loop_client cfg))))"
proof -
  have "episode_phase s1 = Some (Intervention IP_Engage)"
    using reachable_inv [OF assms(2)] assms(3)
    by (cases "episode s1") (auto simp: fsm_inv_None fsm_inv_Some intervention_ok_def episode_phase_def)
  then have s2: "not_handing s2" "\<not> mid_run s2"
    using unheld_run [OF assms(4,2,1)] assms(3) by (auto simp: not_handing_def mid_run_def)
  have "other_mints (\<lambda>a. a \<noteq> EngageComplete) s2" by (simp add: other_mints_def)
  from unheld_step [OF s2(1) assms(1) this assms(5,6)]
  have "\<forall>p. MintLeaseToken p \<in> set efs \<longrightarrow> po_then p \<noteq> EngageComplete"
    by (auto simp: list_all_iff)
  with s2 waiting_step [OF unheld_reachable [OF assms(4,2)] _ assms(1,5,6)] show ?thesis
    by (auto simp: not_handing_def)
qed

end
