(* ===== verification/Waddle_Intervention.thy ===== *)
theory Waddle_Intervention
  imports Waddle_Safety Waddle_Hold
begin

text \<open>
  What the intervention rows do: emergency stop, engage, release, retake, the lease tokens
  they move, and the gate plan the derivers project from their effects.
\<close>

subsection \<open>Emergency stop\<close>

lemma on_estop_split:
  "\<exists>c. on_estop cfg t s =
     (if episode_phase s = Some PostReset then run (estop_post_reset t c)
      else if active s then run (enter_terminal t Abort ''estop'' True c) else accept c) \<and>
   same_core (s\<lparr>lease := Vacant, pending_lease := None\<rparr>) (st c) \<and> RequestVerb V_Estop \<in> set (effects c)"
proof -
  define c where "c = put (\<lambda>s. s\<lparr>pending_lease := None\<rparr>) (push (RequestVerb V_Estop)
    (emit (fault_event t (episode_ref s) FK_Estop ''estop'' ''emergency stop'')
      (lease_outcome_emit cfg t LK_RevokedAll None
        (case map_option fst (holder (lease s)) of None \<Rightarrow> [] | Some l \<Rightarrow> ''revoked '' @ l)
        (put (\<lambda>s. s\<lparr>lease := Vacant\<rparr>) (begin_ctx s)))))"
  have "on_estop cfg t s =
     (if episode_phase s = Some PostReset then run (estop_post_reset t c)
      else if active s then run (enter_terminal t Abort ''estop'' True c) else accept c)"
    by (simp add: on_estop_def Let_def c_def)
  moreover have "same_core (s\<lparr>lease := Vacant, pending_lease := None\<rparr>) (st c)"
    "RequestVerb V_Estop \<in> set (effects c)"
    by (simp_all add: c_def same_core_def lease_outcome_emit_def ctx_simps)
  ultimately show ?thesis by blast
qed

text \<open>Every helper only appends to the effect list.\<close>

lemma append_effects:
  "close_run t to reason out rel c = Some c' \<Longrightarrow> set (effects c) \<subseteq> set (effects c')"
  "estop_post_reset t c = Some c' \<Longrightarrow> set (effects c) \<subseteq> set (effects c')"
  using gate_frame.rows_R(4) [of c c t to reason out rel] gate_frame.rows_R(12) [of c c t]
  by (force simp: ensures_def)+

lemma estop_post_reset_result:
  assumes "episode (st c) = Some e" "pinned_outcome e = Some p"
  shows "\<exists>c' e'. estop_post_reset t c = Some c' \<and> episode (st c') = Some e' \<and> ep_id e' = ep_id e \<and>
    ep_phase e' = Terminal p \<and> claim (st c') = None \<and> gate_mode (st c') = GM_Passthrough \<and>
    lease (st c') = lease (st c) \<and> pending_lease (st c') = None"
  using assms
  apply (cases "reset_window e"; simp add: estop_post_reset_def)
   apply (simp_all add: ctx_simps)
  done

lemma finish_effects: "set (effects c) \<subseteq> set (effects (finish g c))"
  by (auto simp: finish_def ctx_simps)

lemma step_of_handle:
  "handle cfg ev s = accept c \<Longrightarrow> step cfg s ev = Step (st c) (effects (finish (gate_plan_inputs s) c))"
  by (simp add: step_def close_step_def Let_def ctx_simps)

text \<open>
  C8. An emergency stop is always accepted: the lease is revoked, no mint stays pending, the
  adapter is asked for ESTOP, and an active episode is terminal afterwards (with its pinned
  outcome from POST_RESET, with ABORT from any other phase), its claim released and the gate
  passing.
\<close>

theorem estop_stops_everything:
  assumes "reachable cfg s"
  shows "\<exists>s' efs. step cfg s (Estop t) = Step s' efs \<and> lease s' = Vacant \<and> pending_lease s' = None \<and>
    RequestVerb V_Estop \<in> set efs \<and>
    (active s \<longrightarrow> claim s' = None \<and> gate_mode s' = GM_Passthrough \<and>
      (\<exists>e e'. episode s = Some e \<and> episode s' = Some e' \<and> ep_id e' = ep_id e \<and>
         ep_phase e' = Terminal (if ep_phase e = PostReset then the (pinned_outcome e) else Abort)))"
proof -
  obtain c where c: "on_estop cfg t s =
     (if episode_phase s = Some PostReset then run (estop_post_reset t c)
      else if active s then run (enter_terminal t Abort ''estop'' True c) else accept c)"
    and core: "same_core (s\<lparr>lease := Vacant, pending_lease := None\<rparr>) (st c)"
    and verb: "RequestVerb V_Estop \<in> set (effects c)"
    using on_estop_split by blast
  have "\<exists>c'. on_estop cfg t s = accept c' \<and> lease (st c') = Vacant \<and> pending_lease (st c') = None \<and>
    RequestVerb V_Estop \<in> set (effects c') \<and>
    (active s \<longrightarrow> claim (st c') = None \<and> gate_mode (st c') = GM_Passthrough \<and>
      (\<exists>e e'. episode s = Some e \<and> episode (st c') = Some e' \<and> ep_id e' = ep_id e \<and>
         ep_phase e' = Terminal (if ep_phase e = PostReset then the (pinned_outcome e) else Abort)))"
  proof (cases "active s")
    case False
    then have "episode_phase s \<noteq> Some PostReset"
      by (auto simp: active_def episode_phase_def)
    with c core verb False show ?thesis by (simp add: same_core_def)
  next
    case True
    then obtain e where e: "episode s = Some e"
      by (auto simp: active_def split: option.splits)
    then have ec: "episode (st c) = Some e" using core by (simp add: same_core_def)
    show ?thesis
    proof (cases "ep_phase e = PostReset")
      case post: True
      obtain p where p: "pinned_outcome e = Some p"
        using post_reset_pinned [OF fsm_inv_episode_inv [OF reachable_inv [OF assms] e] post] by blast
      obtain c' e' where "estop_post_reset t c = Some c'" "episode (st c') = Some e'" "ep_id e' = ep_id e"
        "ep_phase e' = Terminal p" "claim (st c') = None" "gate_mode (st c') = GM_Passthrough"
        "lease (st c') = lease (st c)" "pending_lease (st c') = None"
        using estop_post_reset_result [OF ec p] by blast
      with c core verb e p post True append_effects(2) [of t c c'] show ?thesis
        by (auto simp: episode_phase_def same_core_def)
    next
      case False
      let ?c' = "closed_run t (Terminal Abort) ''estop'' (Some Abort) True c"
      have "close_run t (Terminal Abort) ''estop'' (Some Abort) True c = Some ?c'"
        using ec by (simp add: ctx_simps)
      with c core verb e ec False True append_effects(1) [OF this] show ?thesis
        by (auto simp: episode_phase_def enter_terminal_def same_core_def ctx_simps)
    qed
  qed
  then obtain c' where c': "handle cfg (Estop t) s = accept c'" "lease (st c') = Vacant"
    "pending_lease (st c') = None" "RequestVerb V_Estop \<in> set (effects c')"
    "active s \<longrightarrow> claim (st c') = None \<and> gate_mode (st c') = GM_Passthrough \<and>
      (\<exists>e e'. episode s = Some e \<and> episode (st c') = Some e' \<and> ep_id e' = ep_id e \<and>
         ep_phase e' = Terminal (if ep_phase e = PostReset then the (pinned_outcome e) else Abort))"
    by auto
  then show ?thesis
    using step_of_handle [OF c'(1)] finish_effects [of c' "gate_plan_inputs s"]
    by (intro exI [of _ "st c'"] exI [of _ "effects (finish (gate_plan_inputs s) c')"]) auto
qed

theorem estop_stops_everything_witness:
  "\<exists>s' efs. step demo_config (play to_post_reset) (Estop 9) = Step s' efs \<and> lease s' = Vacant \<and>
    RequestVerb V_Estop \<in> set efs"
proof -
  have "reachable demo_config (play to_post_reset)"
    by (rule reachable_play) (simp add: to_post_reset_def to_running_def open_event_def)
  from estop_stops_everything [OF this] show ?thesis by blast
qed

subsection \<open>Retake\<close>

text \<open>Closing a run emits, re-projects the gate and cancels timers, and does nothing else.\<close>

fun closing_effect :: "effect \<Rightarrow> bool" where
  "closing_effect (Emit ev) = True"
| "closing_effect (SetGateMode m) = True"
| "closing_effect (CancelTimer i) = True"
| "closing_effect ef = False"

lemma apply_pending_effects:
  "\<exists>evs. effects (apply_pending_demotions t c) = effects c @ map Emit evs"
  using emits_only_apply_pending [of c t] by (simp add: emits_only_def)

lemma closing_emits [simp]: "list_all closing_effect (map Emit evs)"
  by (simp add: list_all_iff)

lemma closed_run_effects:
  assumes "episode (st c) = Some e"
  shows "\<exists>efs. effects (closed_run t to reason out rel c) = effects c @ efs \<and> list_all closing_effect efs"
proof -
  obtain c1 x where c1: "(if rel \<and> gate_mode (st c) \<noteq> GM_Passthrough
      then set_gate t GM_Passthrough reason c else Some c) = Some c1"
    "episode (st c1) = Some e" "effects c1 = effects c @ x" "list_all closing_effect x"
    using assms by (cases "rel \<and> gate_mode (st c) \<noteq> GM_Passthrough") (auto simp: set_gate_def ctx_simps)
  define c2 where "c2 = the (transition t to reason out c1)"
  have c2: "transition t to reason out c1 = Some c2" "episode (st c2) = Some (e\<lparr>ep_phase := to\<rparr>)"
    "\<exists>y. effects c2 = effects c1 @ y \<and> list_all closing_effect y"
    using c1(2) by (simp_all add: c2_def ctx_simps)
  obtain c3 z where c3: "(if rel then take_claim t reason c2 else Some c2) = Some c3"
    "effects c3 = effects c2 @ z" "list_all closing_effect z"
    using c2(2) by (cases rel; cases "claim (st c2)") (auto simp: take_claim_def ctx_simps)
  define c4 where "c4 = put (\<lambda>s. s\<lparr>engage_stage := None, engage_timed_out := False, pending_lease := None\<rparr>)
    (push (CancelTimer AgentInviteTimeout) (push (CancelTimer ResetWindowTimeout)
      (push (CancelTimer ChunkBoundaryCap) (push (CancelTimer EngageTimeout) c3))))"
  have "closed_run t to reason out rel c = apply_pending_demotions t c4"
    using c1(1) c2(1) c3(1) by (simp add: closed_run_def close_run_def Let_def c4_def del: if_split)
  moreover have "\<exists>w. effects c4 = effects c3 @ w \<and> list_all closing_effect w"
    by (simp add: c4_def ctx_simps)
  ultimately show ?thesis
    using apply_pending_effects [of t c4] c1(3,4) c2(3) c3(2,3) by auto
qed

text \<open>
  C9. A legal retake ends the episode with ABORTED_RETAKE while the claim survives and lease
  and gate stay as they are for the hand reset, and asks for exactly one successor, born
  claimed, whose verification mode depends on the initiator.
\<close>

theorem retake_keeps_the_claim:
  assumes "retake_legal s" "holds_claim i s"
  shows "\<exists>s' efs e e'. step cfg s (Retake i k succ t) = Step s' efs \<and>
    episode s = Some e \<and> episode s' = Some e' \<and> ep_phase e' = Terminal AbortedRetake \<and>
    claim s' = claim s \<and> lease s' = lease s \<and> gate_mode s' = gate_mode s \<and> pending_lease s' = None \<and>
    filter (\<lambda>ef. case ef of OpenSuccessor _ _ _ _ _ \<Rightarrow> True | _ \<Rightarrow> False) efs =
      [OpenSuccessor (ep_id e) succ i True (retake_mode k)]"
proof -
  obtain e where e: "episode s = Some e"
    using assms(1) by (auto simp: retake_legal_def episode_phase_def)
  let ?c = "emit (intervention_event t (ep_id e) IP_Retake i) (begin_ctx s)"
  let ?c' = "closed_run t (Terminal AbortedRetake) ''retake'' (Some AbortedRetake) False ?c"
  let ?succ = "OpenSuccessor (ep_id e) succ i True (retake_mode k)"
  let ?is = "\<lambda>ef. case ef of OpenSuccessor _ _ _ _ _ \<Rightarrow> True | _ \<Rightarrow> False"
  have ec: "episode (st ?c) = Some e" using e by (simp add: ctx_simps)
  have h: "handle cfg (Retake i k succ t) s = accept (push ?succ ?c')"
    using assms e ec by (simp add: on_retake_def enter_terminal_def ctx_simps)
  obtain x where x: "effects ?c' = Emit (intervention_event t (ep_id e) IP_Retake i) # x"
    "list_all closing_effect x"
    using closed_run_effects [OF ec, of t "Terminal AbortedRetake" "''retake''" "Some AbortedRetake" False]
    by (auto simp: ctx_simps)
  have none: "filter ?is y = []" if "list_all closing_effect y" for y
    using that by (induction y) (auto split: effect.split)
  have "filter ?is (effects (finish g (push ?succ ?c'))) = [?succ]" for g
    using x none by (simp add: finish_def ctx_simps)
  with step_of_handle [OF h] show ?thesis
    using e ec
    by (intro exI [of _ "st ?c'"] exI [of _ "effects (finish (gate_plan_inputs s) (push ?succ ?c'))"]
        exI [of _ e] exI [of _ "e\<lparr>ep_phase := Terminal AbortedRetake\<rparr>"]) (simp add: ctx_simps)
qed

theorem retake_keeps_the_claim_witness:
  "\<exists>s' efs e e'. step demo_config (play (to_settle False)) (Retake ''c1'' AK_Agent ''e2'' 9) = Step s' efs \<and>
    episode (play (to_settle False)) = Some e \<and> episode s' = Some e' \<and> ep_phase e' = Terminal AbortedRetake \<and>
    claim s' = claim (play (to_settle False)) \<and>
    filter (\<lambda>ef. case ef of OpenSuccessor _ _ _ _ _ \<Rightarrow> True | _ \<Rightarrow> False) efs =
      [OpenSuccessor (ep_id e) ''e2'' ''c1'' True Blocking]"
proof -
  have "retake_legal (play (to_settle False))" "holds_claim ''c1'' (play (to_settle False))"
    using scenario_results by blast+
  from retake_keeps_the_claim [OF this, of demo_config AK_Agent "''e2''" 9]
  show ?thesis
    unfolding retake_mode.simps by - (elim exE conjE, intro exI conjI, assumption+)
qed

subsection \<open>Engage and release\<close>

lemma finish_mints: "list_ex is_mint (effects (finish g c)) = list_ex is_mint (effects c)"
  by (simp add: finish_def ctx_simps)

lemma accepted_ex:
  assumes "handle cfg ev s = accept c" "P (st c) (effects (finish (gate_plan_inputs s) c))"
  shows "\<exists>s' efs. step cfg s ev = Step s' efs \<and> P s' efs"
  using assms step_of_handle [OF assms(1)] by blast

lemma hold_first_engage:
  assumes "effective_handoff cfg = HP_HoldFirst" "episode s = Some e" "ep_phase e = Running"
    "claim s = Some cl"
  shows "\<exists>s' efs. step cfg s (Engage (cl_id cl) t) = Step s' efs \<and> RequestVerb V_Hold \<in> set efs \<and>
    \<not> list_ex is_mint efs \<and> engage_stage s' = Some AwaitHoldOk \<and> lease s' = lease s \<and>
    pending_lease s' = pending_lease s \<and> claim s' = claim s \<and> episode s' \<noteq> None"
proof -
  have "\<exists>c. handle cfg (Engage (cl_id cl) t) s = accept c \<and> RequestVerb V_Hold \<in> set (effects c) \<and>
    \<not> list_ex is_mint (effects c) \<and> engage_stage (st c) = Some AwaitHoldOk \<and> lease (st c) = lease s \<and>
    pending_lease (st c) = pending_lease s \<and> claim (st c) = claim s \<and> episode (st c) \<noteq> None"
    using assms
    by (cases "agent_invited e \<and> \<not> agent_engaged e")
      (simp_all add: on_engage_def begin_engage_def episode_phase_def Let_def ctx_simps)
  then obtain c where c: "handle cfg (Engage (cl_id cl) t) s = accept c" "RequestVerb V_Hold \<in> set (effects c)"
    "\<not> list_ex is_mint (effects c)" "engage_stage (st c) = Some AwaitHoldOk" "lease (st c) = lease s"
    "pending_lease (st c) = pending_lease s" "claim (st c) = claim s" "episode (st c) \<noteq> None" by blast
  from c(1) show ?thesis
    by (rule accepted_ex) (use c(2-) finish_effects [of c "gate_plan_inputs s"] in \<open>auto simp: finish_mints\<close>)
qed

lemma hold_result:
  assumes "engage_stage s = Some AwaitHoldOk" "episode s = Some e" "claim s = Some cl"
  shows "\<exists>s' efs. step cfg s (VerbResult V_Hold False f t) = Step s' efs \<and> \<not> list_ex is_mint efs \<and>
      engage_stage s' = Some AwaitHoldOk \<and> lease s' = lease s \<and> pending_lease s' = pending_lease s"
    "\<exists>s' efs. step cfg s (VerbResult V_Hold True None t) = Step s' efs \<and>
      engage_stage s' = Some AwaitLease \<and> lease s' = lease s \<and>
      pending_lease s' = Some \<lparr>po_op = lease_op_to (lease s) (claim_client cl), po_then = EngageComplete\<rparr>"
proof -
  have "handle cfg (VerbResult V_Hold False f t) s = accept
      (emit (fault_event t (Some (ep_id e)) (case f of None \<Rightarrow> FK_AdapterError | Some k \<Rightarrow> k) ''engage''
         ''hold failed during HOLD_FIRST engage; writers remain stopped'') (begin_ctx s))"
    using assms by (simp add: on_verb_result_def)
  then show "\<exists>s' efs. step cfg s (VerbResult V_Hold False f t) = Step s' efs \<and> \<not> list_ex is_mint efs \<and>
      engage_stage s' = Some AwaitHoldOk \<and> lease s' = lease s \<and> pending_lease s' = pending_lease s"
    by (rule accepted_ex) (use assms in \<open>simp add: finish_mints ctx_simps\<close>)
  let ?p = "\<lparr>po_op = lease_op_to (lease s) (claim_client cl), po_then = EngageComplete\<rparr>"
  have "handle cfg (VerbResult V_Hold True None t) s =
      accept (put (\<lambda>s. s\<lparr>engage_stage := Some AwaitLease\<rparr>) (request_mint ?p (begin_ctx s)))"
    using assms by (simp add: on_verb_result_def mint_engage_handoff_def ctx_simps)
  then show "\<exists>s' efs. step cfg s (VerbResult V_Hold True None t) = Step s' efs \<and>
      engage_stage s' = Some AwaitLease \<and> lease s' = lease s \<and> pending_lease s' = Some ?p"
    by (rule accepted_ex) (simp add: request_mint_def ctx_simps)
qed

text \<open>
  C10. HOLD_FIRST engages stop the running writer before the lease moves: the engage requests
  HOLD and no lease token; a failed hold keeps waiting, with lease and pending operation as
  they were; a successful hold asks for the token, for the client of the claim. And nothing
  else does: from any reachable state that waits for its hold, by whatever sequence of events
  other than a successful HOLD (engage timeouts, chunk boundaries, clutch edges, marks, mints,
  closes and new episodes included), no intervention settles, no event asks for an engage
  token, and as long as the hold is awaited no event asks for any token and the lease can only
  be revoked or end up with the loop. An IMMEDIATE policy on a space with delta parts is such a
  HOLD_FIRST engage.
\<close>

theorem hold_first_stops_before_the_lease_moves:
  assumes "handoff cfg = HP_HoldFirst \<or> handoff cfg = HP_Immediate b \<and> space_contains_delta cfg"
    "episode_phase s = Some Running" "claim s = Some cl"
  shows "(\<exists>s1 efs1 s2 efs2 s3 efs3.
    step cfg s (Engage (cl_id cl) t) = Step s1 efs1 \<and> RequestVerb V_Hold \<in> set efs1 \<and>
      \<not> list_ex is_mint efs1 \<and> engage_stage s1 = Some AwaitHoldOk \<and> lease s1 = lease s \<and>
      pending_lease s1 = pending_lease s \<and>
    step cfg s1 (VerbResult V_Hold False f t') = Step s2 efs2 \<and> \<not> list_ex is_mint efs2 \<and>
      engage_stage s2 = Some AwaitHoldOk \<and> lease s2 = lease s \<and> pending_lease s2 = pending_lease s \<and>
    step cfg s1 (VerbResult V_Hold True None t') = Step s3 efs3 \<and> engage_stage s3 = Some AwaitLease \<and>
      pending_lease s3 = Some \<lparr>po_op = lease_op_to (lease s) (claim_client cl), po_then = EngageComplete\<rparr> \<and>
      lease s3 = lease s) \<and>
    (\<forall>s1 s2 ev s3 efs. reachable cfg s1 \<longrightarrow> engage_stage s1 = Some AwaitHoldOk \<longrightarrow> unheld cfg s1 s2 \<longrightarrow>
      \<not> hold_succeeds ev \<longrightarrow> step cfg s2 ev = Step s3 efs \<longrightarrow>
        \<not> mid_run s2 \<and> engage_stage s2 \<noteq> Some AwaitLease \<and>
        (\<forall>p. MintLeaseToken p \<in> set efs \<longrightarrow> po_then p \<noteq> EngageComplete) \<and>
        (engage_stage s2 = Some AwaitHoldOk \<longrightarrow> \<not> list_ex is_mint efs \<and>
          (lease s3 = lease s2 \<or> lease s3 = Vacant \<or> (\<exists>m. lease s3 = Held m (loop_client cfg)))))"
proof
  obtain e where e: "episode s = Some e" "ep_phase e = Running"
    using assms(2) by (auto simp: episode_phase_def)
  have pol: "effective_handoff cfg = HP_HoldFirst"
    using assms(1) by (auto simp: effective_handoff_def)
  from hold_first_engage [OF this e assms(3)] obtain s1 efs1 where
    s1: "step cfg s (Engage (cl_id cl) t) = Step s1 efs1" "RequestVerb V_Hold \<in> set efs1"
      "\<not> list_ex is_mint efs1" "engage_stage s1 = Some AwaitHoldOk" "lease s1 = lease s"
      "pending_lease s1 = pending_lease s" "claim s1 = claim s" "episode s1 \<noteq> None"
    by blast
  obtain e1 where "episode s1 = Some e1" using s1(8) by blast
  with s1(7) assms(3) hold_result(1) [OF s1(4), of e1 cl cfg f t'] hold_result(2) [OF s1(4), of e1 cl cfg t']
  show "\<exists>s1 efs1 s2 efs2 s3 efs3.
    step cfg s (Engage (cl_id cl) t) = Step s1 efs1 \<and> RequestVerb V_Hold \<in> set efs1 \<and>
      \<not> list_ex is_mint efs1 \<and> engage_stage s1 = Some AwaitHoldOk \<and> lease s1 = lease s \<and>
      pending_lease s1 = pending_lease s \<and>
    step cfg s1 (VerbResult V_Hold False f t') = Step s2 efs2 \<and> \<not> list_ex is_mint efs2 \<and>
      engage_stage s2 = Some AwaitHoldOk \<and> lease s2 = lease s \<and> pending_lease s2 = pending_lease s \<and>
    step cfg s1 (VerbResult V_Hold True None t') = Step s3 efs3 \<and> engage_stage s3 = Some AwaitLease \<and>
      pending_lease s3 = Some \<lparr>po_op = lease_op_to (lease s) (claim_client cl), po_then = EngageComplete\<rparr> \<and>
      lease s3 = lease s"
    using s1(1-6) by auto
next
  have "effective_handoff cfg = HP_HoldFirst"
    using assms(1) by (auto simp: effective_handoff_def)
  from unheld_asks_for_no_token [OF this]
  show "\<forall>s1 s2 ev s3 efs. reachable cfg s1 \<longrightarrow> engage_stage s1 = Some AwaitHoldOk \<longrightarrow> unheld cfg s1 s2 \<longrightarrow>
      \<not> hold_succeeds ev \<longrightarrow> step cfg s2 ev = Step s3 efs \<longrightarrow>
        \<not> mid_run s2 \<and> engage_stage s2 \<noteq> Some AwaitLease \<and>
        (\<forall>p. MintLeaseToken p \<in> set efs \<longrightarrow> po_then p \<noteq> EngageComplete) \<and>
        (engage_stage s2 = Some AwaitHoldOk \<longrightarrow> \<not> list_ex is_mint efs \<and>
          (lease s3 = lease s2 \<or> lease s3 = Vacant \<or> (\<exists>m. lease s3 = Held m (loop_client cfg))))"
    by blast
qed

theorem hold_first_stops_before_the_lease_moves_witness:
  "(\<exists>s1 efs1. step hold_config (play (to_running False @ [claim_operator])) (Engage ''c1'' 5) = Step s1 efs1 \<and>
    RequestVerb V_Hold \<in> set efs1 \<and> \<not> list_ex is_mint efs1 \<and>
    engage_stage (after hold_config s1 (VerbResult V_Hold True None 6)) = Some AwaitLease) \<and>
   engage_stage holding = Some AwaitHoldOk \<and>
   \<not> list_ex is_mint (step_effects (step hold_config holding (TimerFired EngageTimeout 9)))"
proof -
  let ?s = "play (to_running False @ [claim_operator])"
  have pol: "handoff hold_config = HP_HoldFirst" by (simp add: hold_config_def)
  moreover have "episode_phase ?s = Some Running" using scenario_results by blast
  moreover obtain cl where "claim ?s = Some cl" "cl_id cl = ''c1''"
  proof -
    have "map_option cl_id (claim ?s) = Some ''c1''" using scenario_results by blast
    with that show ?thesis by blast
  qed
  ultimately have *: "\<exists>s1 efs1. step hold_config ?s (Engage ''c1'' 5) = Step s1 efs1 \<and>
      RequestVerb V_Hold \<in> set efs1 \<and> \<not> list_ex is_mint efs1 \<and>
      engage_stage (after hold_config s1 (VerbResult V_Hold True None 6)) = Some AwaitLease"
    and **: "\<And>s1 s2 ev s3 efs. reachable hold_config s1 \<Longrightarrow> engage_stage s1 = Some AwaitHoldOk \<Longrightarrow>
      unheld hold_config s1 s2 \<Longrightarrow> \<not> hold_succeeds ev \<Longrightarrow> step hold_config s2 ev = Step s3 efs \<Longrightarrow>
      engage_stage s2 = Some AwaitHoldOk \<Longrightarrow> \<not> list_ex is_mint efs"
    using hold_first_stops_before_the_lease_moves [of hold_config 0 ?s cl 5 None 6]
    by (fastforce simp: after_def)+
  have "engage_stage holding = Some AwaitHoldOk" "accepted (step hold_config holding (TimerFired EngageTimeout 9))"
    using scenario_results by blast+
  with * ** [OF reachable_holding _ unheld.here _ accepted_step] show ?thesis by simp
qed

text \<open>
  C11. An engage completes: in a reachable state that waits for its token, the mint hands the
  lease to the client of the claim, settles the intervention and claims the gate.
\<close>

theorem engage_completes:
  assumes "reachable cfg s" "engage_stage s = Some AwaitLease"
  shows "\<exists>s' efs cl. claim s = Some cl \<and> step cfg s (LeaseTokenMinted m t) = Step s' efs \<and>
    lease s' = Held m (claim_client cl) \<and> episode_phase s' = Some (Intervention IP_Settle) \<and>
    gate_mode s' = GM_Intervention \<and> claim s' = claim s \<and> engage_stage s' = None \<and> pending_lease s' = None"
proof -
  note inv = reachable_inv [OF assms(1)]
  obtain e cl where e: "episode s = Some e" "ep_phase e = Intervention IP_Engage" "claim s = Some cl"
    using engage_facts [OF inv] assms(2) by (metis option.distinct(1))
  obtain p where p: "pending_lease s = Some p" "po_then p = EngageComplete"
      "op_planned (po_op p) (lease s)" "claim_client_is s (op_target (po_op p))"
    using inv e(1) assms(2) by (cases "pending_lease s") (auto simp: fsm_inv_Some pending_ok_def)
  from p e(3) have cl: "op_target (po_op p) = claim_client cl" by (simp add: claim_client_is_def)
  have "\<not> stale_reset_mint s p" using p by (simp add: stale_reset_mint_def)
  from minted_unfold [OF p(1) this p(3), of cfg m t] obtain ev where
    eq: "on_lease_token_minted cfg m t s = run (after_engage t (emit ev
      (put (\<lambda>s. s\<lparr>pending_lease := None, lease := Held m (claim_client cl)\<rparr>) (begin_ctx s))))"
    using p(2) cl by auto
  have "\<exists>c'. on_lease_token_minted cfg m t s = accept c' \<and> lease (st c') = Held m (claim_client cl) \<and>
      episode_phase (st c') = Some (Intervention IP_Settle) \<and> gate_mode (st c') = GM_Intervention \<and>
      claim (st c') = claim s \<and> engage_stage (st c') = None \<and> pending_lease (st c') = None"
    unfolding eq using e
    by (simp add: after_engage_def set_gate_def ctx_simps episode_phase_def Let_def)
  then obtain c' where c': "handle cfg (LeaseTokenMinted m t) s = accept c'"
      "lease (st c') = Held m (claim_client cl)" "episode_phase (st c') = Some (Intervention IP_Settle)"
      "gate_mode (st c') = GM_Intervention" "claim (st c') = claim s" "engage_stage (st c') = None"
      "pending_lease (st c') = None"
    by auto
  from step_of_handle [OF c'(1)] c'(2-) e(3) show ?thesis
    by (intro exI [of _ "st c'"] exI [of _ "effects (finish (gate_plan_inputs s) c')"] exI [of _ cl]) simp
qed

theorem engage_completes_witness:
  "\<exists>s' efs cl. claim (play to_engage) = Some cl \<and>
    step demo_config (play to_engage) (LeaseTokenMinted ''L2'' 6) = Step s' efs \<and>
    lease s' = Held ''L2'' (claim_client cl) \<and> episode_phase s' = Some (Intervention IP_Settle)"
proof -
  have "reachable demo_config (play to_engage)"
    by (rule reachable_play) (simp add: to_engage_def to_running_def open_event_def)
  moreover have "engage_stage (play to_engage) = Some AwaitLease" using scenario_results by blast
  ultimately show ?thesis using engage_completes [of demo_config "play to_engage" "''L2''" 6] by metis
qed

end
