(* ===== verification/Waddle_Authority.thy ===== *)
theory Waddle_Authority
  imports Waddle_Intervention
begin

text \<open>
  Who may write, and how that authority moves: the handback of a release, the lease tokens,
  the gate plan, the reset windows and the agent invite.
\<close>

subsection \<open>Release\<close>

lemma begin_release_step:
  assumes "fsm_inv cfg s" "episode s = Some e" "ep_phase e = Intervention IP_Settle" "holds_claim i s"
  shows "\<exists>s' efs. step cfg s (Release i t) = Step s' efs \<and> ReprimePolicy \<in> set efs \<and>
    episode_phase s' = Some (Intervention IP_Release) \<and> lease s' = lease s \<and>
    gate_mode s' = gate_mode s \<and> claim s' = claim s"
proof -
  have "intervenor_writes s" using assms by (simp add: fsm_inv_Some intervention_ok_def)
  then obtain cl l where cl: "claim s = Some cl" "lease s = Held l (claim_client cl)"
    by (cases "lease s") (auto simp: intervenor_writes_def)
  have "\<exists>c. handle cfg (Release i t) s = accept c \<and> ReprimePolicy \<in> set (effects c) \<and>
    episode_phase (st c) = Some (Intervention IP_Release) \<and> lease (st c) = lease s \<and>
    gate_mode (st c) = gate_mode s \<and> claim (st c) = claim s"
    using assms(2-4) cl
    by (simp add: on_release_def begin_release_def request_mint_def episode_phase_def Let_def ctx_simps)
  then obtain c where c: "handle cfg (Release i t) s = accept c" "ReprimePolicy \<in> set (effects c)"
    "episode_phase (st c) = Some (Intervention IP_Release)" "lease (st c) = lease s"
    "gate_mode (st c) = gate_mode s" "claim (st c) = claim s" by blast
  from c(1) show ?thesis
    by (rule accepted_ex) (use c(2-) finish_effects [of c "gate_plan_inputs s"] in auto)
qed

lemma release_minted_step:
  assumes "fsm_inv cfg s" "episode s = Some e" "ep_phase e = Intervention IP_Release"
  shows "\<exists>s' efs. step cfg s (LeaseTokenMinted m t) = Step s' efs \<and> lease s' = Held m (loop_client cfg) \<and>
    episode_phase s' = Some Running \<and> claim s' = None \<and> gate_mode s' = GM_Passthrough \<and> pending_lease s' = None"
proof -
  obtain p where p: "pending_lease s = Some p" "po_then p = ReleaseComplete" "op_planned (po_op p) (lease s)"
    "op_target (po_op p) = loop_client cfg"
    using assms by (cases "pending_lease s") (auto simp: fsm_inv_Some pending_ok_def)
  have "\<not> stale_reset_mint s p" using p by (simp add: stale_reset_mint_def)
  from minted_unfold [OF p(1) this p(3), of cfg m t] obtain ev where
    eq: "on_lease_token_minted cfg m t s = run (after_release t (emit ev
      (put (\<lambda>s. s\<lparr>pending_lease := None, lease := Held m (loop_client cfg)\<rparr>) (begin_ctx s))))"
    using p(2,4) by auto
  have "\<exists>c. on_lease_token_minted cfg m t s = accept c \<and> lease (st c) = Held m (loop_client cfg) \<and>
    episode_phase (st c) = Some Running \<and> claim (st c) = None \<and> gate_mode (st c) = GM_Passthrough \<and>
    pending_lease (st c) = None"
    unfolding eq using assms(2)
    by (cases "gate_mode s = GM_Passthrough"; cases "claim s")
      (simp_all add: after_release_def set_gate_def take_claim_def ctx_simps episode_phase_def Let_def)
  then obtain c where c: "handle cfg (LeaseTokenMinted m t) s = accept c" "lease (st c) = Held m (loop_client cfg)"
    "episode_phase (st c) = Some Running" "claim (st c) = None" "gate_mode (st c) = GM_Passthrough"
    "pending_lease (st c) = None" by auto
  then show ?thesis using step_of_handle [OF c(1)] by auto
qed

text \<open>
  A release hands control back completely: from SETTLE the claim holder's release
  reprimes the policy while lease and gate stay with the intervenor; the mint that follows
  gives the lease to the loop, resumes RUNNING, ends the claim and opens the gate.
\<close>

theorem release_hands_control_back:
  assumes "reachable cfg s" "episode_phase s = Some (Intervention IP_Settle)" "holds_claim i s"
  shows "\<exists>s1 efs1 s2 efs2. step cfg s (Release i t) = Step s1 efs1 \<and> ReprimePolicy \<in> set efs1 \<and>
      lease s1 = lease s \<and> gate_mode s1 = gate_mode s \<and> claim s1 = claim s \<and>
    step cfg s1 (LeaseTokenMinted m t') = Step s2 efs2 \<and> lease s2 = Held m (loop_client cfg) \<and>
      episode_phase s2 = Some Running \<and> claim s2 = None \<and> gate_mode s2 = GM_Passthrough \<and>
      pending_lease s2 = None"
proof -
  note inv = reachable_inv [OF assms(1)]
  obtain e where "episode s = Some e" "ep_phase e = Intervention IP_Settle"
    using assms(2) by (auto simp: episode_phase_def)
  from begin_release_step [OF inv this assms(3), of t] obtain s1 efs1 where
    s1: "step cfg s (Release i t) = Step s1 efs1" "ReprimePolicy \<in> set efs1"
      "episode_phase s1 = Some (Intervention IP_Release)" "lease s1 = lease s"
      "gate_mode s1 = gate_mode s" "claim s1 = claim s" by blast
  have inv1: "fsm_inv cfg s1" using step_ok(2) [OF inv _ s1(1)] by simp
  obtain e1 where "episode s1 = Some e1" "ep_phase e1 = Intervention IP_Release"
    using s1(3) by (auto simp: episode_phase_def)
  from release_minted_step [OF inv1 this, of m t'] s1 show ?thesis by blast
qed

theorem release_hands_control_back_witness:
  "\<exists>s1 efs1 s2 efs2. step demo_config (play (to_settle False)) (Release ''c1'' 7) = Step s1 efs1 \<and>
    ReprimePolicy \<in> set efs1 \<and> step demo_config s1 (LeaseTokenMinted ''L3'' 8) = Step s2 efs2 \<and>
    lease s2 = Held ''L3'' ''loop'' \<and> claim s2 = None \<and> gate_mode s2 = GM_Passthrough"
proof -
  have "episode_phase (play (to_settle False)) = Some (Intervention IP_Settle)"
    "holds_claim ''c1'' (play (to_settle False))" "loop_client demo_config = ''loop''"
    using scenario_results by blast+
  with release_hands_control_back [OF reachable_scripts(2), of False "''c1''" 7 "''L3''" 8] show ?thesis
    by auto
qed

subsection \<open>The lease\<close>

text \<open>
  C12. The lease moves only as planned: an accepted event that changes it is an emergency stop,
  which vacates it, or the mint of a pending operation, which gives it to the client the
  operation was planned for under the freshly minted token.
\<close>

theorem lease_moves_only_as_planned:
  assumes "reachable cfg s" "step cfg s ev = Step s' efs" "lease s' \<noteq> lease s"
  shows "(\<exists>t. ev = Estop t) \<and> lease s' = Vacant \<or>
    (\<exists>m t p. ev = LeaseTokenMinted m t \<and> pending_lease s = Some p \<and> lease s' = Held m (op_target (po_op p)))"
proof -
  have l: "lease s' = lease (st (entry ev s))" by (rule step_lease [OF assms(2)])
  show ?thesis
  proof (cases ev)
    case (Estop t)
    with l show ?thesis by (simp add: ctx_simps)
  next
    case (LeaseTokenMinted m t)
    with l assms(3) obtain p where p: "pending_lease s = Some p"
      "lease s' = fst (lease_step (lease s) (pending_cmd (po_op p) m))"
      by (auto simp: ctx_simps split: option.splits if_splits)
    have "op_planned (po_op p) (lease s)"
      using reachable_inv [OF assms(1)] p(1)
      by (cases "episode s") (auto simp: fsm_inv_Some fsm_inv_None pending_ok_def)
    then have "lease s' = Held m (op_target (po_op p))"
      using p(2) by (cases "po_op p"; cases "lease s") (auto simp: lease_token_def)
    with LeaseTokenMinted p(1) show ?thesis by blast
  qed (use l assms(3) in \<open>simp_all add: ctx_simps\<close>)
qed

theorem lease_moves_only_as_planned_witness:
  "\<exists>p. pending_lease (play to_engage) = Some p \<and>
    lease (after demo_config (play to_engage) (LeaseTokenMinted ''L2'' 6)) = Held ''L2'' (op_target (po_op p))"
proof -
  have "accepted (step demo_config (play to_engage) (LeaseTokenMinted ''L2'' 6))"
    "lease (after demo_config (play to_engage) (LeaseTokenMinted ''L2'' 6)) \<noteq> lease (play to_engage)"
    using scenario_results by blast+
  moreover have "reachable demo_config (play to_engage)"
    by (rule reachable_play) (simp add: to_engage_def to_running_def open_event_def)
  ultimately show ?thesis
    using lease_moves_only_as_planned [OF _ accepted_step, of demo_config "play to_engage" "LeaseTokenMinted ''L2'' 6"]
    by auto
qed

text \<open>
  A dead token never revives: once a lease token is not the live one, no sequence of events
  makes it live again unless a mint hands out that same token.
\<close>

theorem dead_tokens_stay_dead:
  assumes "lease_token (lease s) \<noteq> Some tok" "\<forall>ev \<in> set evs. session_mints ev \<noteq> Some tok"
  shows "lease_token (lease (foldl (after cfg) s evs)) \<noteq> Some tok"
  using assms by (rule session_tokens.dead_stays_dead)

theorem dead_tokens_stay_dead_witness:
  "lease_token (lease (foldl (after demo_config) (play (to_settle False))
     [Release ''c1'' 7, LeaseTokenMinted ''L3'' 8])) \<noteq> Some ''L1''"
proof (rule dead_tokens_stay_dead)
  show "lease_token (lease (play (to_settle False))) \<noteq> Some ''L1''" using scenario_results by blast
qed simp

subsection \<open>The gate plan\<close>

text \<open>
  The gate always runs the plan of the current state: replaying the gate effects of a step
  gives the gate mode of the state it ends in, and whenever an input of the plan changes (the
  mode, or whether the loop of an agent episode is held at no-op) the last gate effect
  re-projects the plan.
\<close>

theorem gate_plan_is_reprojected:
  assumes "step cfg s ev = Step s' efs"
  shows "gate_mode s' = gate_after (gate_mode s) efs \<and>
    (gate_plan_inputs s' \<noteq> gate_plan_inputs s \<longrightarrow> last_gate_mode efs = Some (gate_mode s'))"
proof
  show "gate_mode s' = gate_after (gate_mode s) efs" by (rule step_gate [OF assms])
  obtain c where c: "s' = st c" "efs = effects (finish (gate_plan_inputs s) c)"
    using step_handle [OF assms] by blast
  have "last_gate_mode (xs @ [SetGateMode g]) = Some g" for xs g
    by (simp add: last_gate_mode_def)
  with c show "gate_plan_inputs s' \<noteq> gate_plan_inputs s \<longrightarrow> last_gate_mode efs = Some (gate_mode s')"
    by (auto simp: finish_def ctx_simps)
qed

theorem gate_plan_is_reprojected_witness:
  "\<exists>efs. step demo_config (session_new demo_config) open_agent_event =
      Step (play [open_agent_event]) efs \<and> last_gate_mode efs = Some GM_Passthrough"
proof -
  have s: "accepted (step demo_config (session_new demo_config) open_agent_event)"
    "gate_plan_inputs (after demo_config (session_new demo_config) open_agent_event) \<noteq>
      gate_plan_inputs (session_new demo_config)"
    "gate_mode (after demo_config (session_new demo_config) open_agent_event) = GM_Passthrough"
    using scenario_results by blast+
  from gate_plan_is_reprojected [OF accepted_step [OF s(1)]] accepted_step [OF s(1)] s(2,3)
  show ?thesis by (auto simp: play_def)
qed

end
