(* ===== verification/Waddle_Windows.thy ===== *)
theory Waddle_Windows
  imports Waddle_Authority
begin

text \<open>
  Remote reset windows and the agent invite: the life of a window from the claim to the
  handback, what the RESET gate mode means, and the latches that let an invite end an
  episode at most once.
\<close>

subsection \<open>The RESET gate\<close>

text \<open>
  C13. The gate is in RESET exactly while an engaged reset window is open in RESETTING or
  POST_RESET, and then somebody holds the lease.
\<close>

theorem reset_gate_iff_engaged_window:
  assumes "reachable cfg s"
  shows "(gate_mode s = GM_Reset \<longleftrightarrow>
      (\<exists>e w. episode s = Some e \<and> (ep_phase e = Resetting \<or> ep_phase e = PostReset) \<and>
        reset_window e = Some w \<and> rw_engaged w)) \<and>
    (gate_mode s = GM_Reset \<longrightarrow> lease s \<noteq> Vacant)"
proof -
  note inv = reachable_inv [OF assms]
  have "gate_mode s = GM_Reset \<longleftrightarrow> (case episode s of None \<Rightarrow> False | Some e \<Rightarrow> window_is e True)"
    "gate_mode s = GM_Reset \<longrightarrow> lease s \<noteq> Vacant"
    using inv by (cases "episode s"; simp add: fsm_inv_None fsm_inv_Some)+
  then show ?thesis
    by (auto simp: window_is_def split: option.splits)
qed

lemma reachable_to_window: "reachable demo_config (play to_window)"
  by (rule reachable_play) (simp add: to_window_def open_event_def)

theorem reset_gate_iff_engaged_window_witness:
  "lease (play (to_window @ [ResetWindowEngage ''c1'' 3, LeaseTokenMinted ''L2'' 4])) \<noteq> Vacant"
proof -
  let ?evs = "to_window @ [ResetWindowEngage ''c1'' 3, LeaseTokenMinted ''L2'' 4]"
  have "reachable demo_config (play ?evs)"
    by (rule reachable_play) (simp add: to_window_def open_event_def)
  moreover have "gate_mode (play ?evs) = GM_Reset" using scenario_results by blast
  ultimately show ?thesis using reset_gate_iff_engaged_window by blast
qed

subsection \<open>The life of a window\<close>

lemma window_engage_step:
  assumes "reset_phase s" "episode s = Some e" "reset_window e = Some w" "\<not> rw_engaged w" "claim s = Some cl"
  shows "\<exists>s' efs. step cfg s (ResetWindowEngage (cl_id cl) t) = Step s' efs \<and>
    s' = s\<lparr>pending_lease := Some \<lparr>po_op = lease_op_to (lease s) (claim_client cl),
      po_then = ResetEngageComplete\<rparr>\<rparr>"
proof -
  let ?p = "\<lparr>po_op = lease_op_to (lease s) (claim_client cl), po_then = ResetEngageComplete\<rparr>"
  have "handle cfg (ResetWindowEngage (cl_id cl) t) s = accept (request_mint ?p (begin_ctx s))"
    using assms by (simp add: on_reset_window_engage_def begin_reset_engage_def holds_claim_def ctx_simps)
  then show ?thesis
    by (rule accepted_ex) (simp add: request_mint_def ctx_simps)
qed

lemma planned_by_lease_op_to [simp]:
  "op_planned (lease_op_to l c) l" "op_target (lease_op_to l c) = c"
  by (cases l; simp add: lease_op_to_def lease_token_def)+

lemma window_engaged_step:
  assumes "pending_lease s = Some \<lparr>po_op = lease_op_to (lease s) (claim_client cl), po_then = ResetEngageComplete\<rparr>"
    "episode s = Some e" "reset_window e = Some w" "claim s = Some cl"
  shows "\<exists>s' efs. step cfg s (LeaseTokenMinted m t) = Step s' efs \<and> lease s' = Held m (claim_client cl) \<and>
    gate_mode s' = GM_Reset \<and> claim s' = Some cl \<and> pending_lease s' = None \<and>
    episode s' = Some (e\<lparr>reset_window := Some (w\<lparr>rw_engaged := True\<rparr>)\<rparr>)"
proof -
  let ?p = "\<lparr>po_op = lease_op_to (lease s) (claim_client cl), po_then = ResetEngageComplete\<rparr>"
  have "\<not> stale_reset_mint s ?p" using assms by (simp add: stale_reset_mint_def)
  from minted_unfold [OF assms(1) this, of cfg m t] obtain ev where
    eq: "on_lease_token_minted cfg m t s = run (after_reset_engage t (emit ev
      (put (\<lambda>s. s\<lparr>pending_lease := None, lease := Held m (claim_client cl)\<rparr>) (begin_ctx s))))"
    by auto
  have "\<exists>c. on_lease_token_minted cfg m t s = accept c \<and> lease (st c) = Held m (claim_client cl) \<and>
    gate_mode (st c) = GM_Reset \<and> claim (st c) = Some cl \<and> pending_lease (st c) = None \<and>
    episode (st c) = Some (e\<lparr>reset_window := Some (w\<lparr>rw_engaged := True\<rparr>)\<rparr>)"
    unfolding eq using assms(2-)
    by (cases "gate_mode s = GM_Reset") (simp_all add: after_reset_engage_def set_gate_def Let_def ctx_simps)
  then obtain c where c: "handle cfg (LeaseTokenMinted m t) s = accept c"
    "lease (st c) = Held m (claim_client cl)" "gate_mode (st c) = GM_Reset" "claim (st c) = Some cl"
    "pending_lease (st c) = None" "episode (st c) = Some (e\<lparr>reset_window := Some (w\<lparr>rw_engaged := True\<rparr>)\<rparr>)"
    by auto
  from c(1) show ?thesis by (rule accepted_ex) (use c(2-) in simp)
qed

lemma window_complete_step:
  assumes "reset_phase s" "episode s = Some e" "reset_window e = Some w" "rw_engaged w" "claim s = Some cl"
    "lease s = Held l who" "pending_lease s = None"
  shows "\<exists>s' efs. step cfg s (ResetWindowComplete (cl_id cl) ok verified t) = Step s' efs \<and>
    lease s' = lease s \<and> gate_mode s' = gate_mode s \<and> claim s' = Some cl \<and> episode s' = Some e \<and>
    pending_lease s' = Some \<lparr>po_op = Op_Handoff l (loop_client cfg),
      po_then = ResetHandback (window_result (rw_kind w) ok verified)\<rparr>"
proof -
  have "\<exists>c. handle cfg (ResetWindowComplete (cl_id cl) ok verified t) s = accept c \<and>
    lease (st c) = lease s \<and> gate_mode (st c) = gate_mode s \<and> claim (st c) = Some cl \<and>
    episode (st c) = Some e \<and> pending_lease (st c) = Some \<lparr>po_op = Op_Handoff l (loop_client cfg),
      po_then = ResetHandback (window_result (rw_kind w) ok verified)\<rparr>"
    using assms
    by (simp add: on_reset_window_complete_def begin_reset_handback_def holds_claim_def engage_in_flight_def
        request_mint_def Let_def ctx_simps)
  then obtain c where c: "handle cfg (ResetWindowComplete (cl_id cl) ok verified t) s = accept c"
    "lease (st c) = lease s" "gate_mode (st c) = gate_mode s" "claim (st c) = Some cl"
    "episode (st c) = Some e" "pending_lease (st c) = Some \<lparr>po_op = Op_Handoff l (loop_client cfg),
      po_then = ResetHandback (window_result (rw_kind w) ok verified)\<rparr>" by blast
  from c(1) show ?thesis by (rule accepted_ex) (use c(2-) in simp)
qed

lemma reset_verified:
  assumes "episode (st c) = Some e"
  shows "\<exists>c' e'. apply_reset_result t True (Some True) c = Some c' \<and> lease (st c') = lease (st c) \<and>
    gate_mode (st c') = gate_mode (st c) \<and> claim (st c') = claim (st c) \<and>
    pending_lease (st c') = pending_lease (st c) \<and> episode (st c') = Some e' \<and> ep_phase e' = Ready \<and>
    reset_window e' = reset_window e \<and> reset_ok e' \<and> ep_verified e'"
  using assms by (cases "ep_verification e") (simp_all add: apply_reset_result_def Let_def ctx_simps)

lemma close_engaged_window:
  assumes "episode (st c) = Some e" "gate_mode (st c) = GM_Reset"
  shows "\<exists>c'. close_reset_window t (ApplyPreResult ok v) c = apply_reset_result t ok v c' \<and>
    lease (st c') = lease (st c) \<and> gate_mode (st c') = GM_Passthrough \<and> claim (st c') = None \<and>
    pending_lease (st c') = pending_lease (st c) \<and> episode (st c') = Some (e\<lparr>reset_window := None\<rparr>)"
  using assms
  by (cases "claim (st c)") (auto simp: close_reset_window_def set_gate_def take_claim_def Let_def ctx_simps)

lemma pre_window_handed_back:
  assumes "pending_lease s = Some \<lparr>po_op = Op_Handoff l (loop_client cfg),
      po_then = ResetHandback (ApplyPreResult True (Some True))\<rparr>"
    "lease s = Held l who" "episode s = Some e" "gate_mode s = GM_Reset"
  shows "\<exists>s' efs e'. step cfg s (LeaseTokenMinted m t) = Step s' efs \<and> lease s' = Held m (loop_client cfg) \<and>
    gate_mode s' = GM_Passthrough \<and> claim s' = None \<and> pending_lease s' = None \<and>
    episode s' = Some e' \<and> ep_phase e' = Ready \<and> reset_window e' = None \<and> reset_ok e' \<and> ep_verified e'"
proof -
  let ?p = "\<lparr>po_op = Op_Handoff l (loop_client cfg), po_then = ResetHandback (ApplyPreResult True (Some True))\<rparr>"
  have "\<not> stale_reset_mint s ?p" "op_planned (po_op ?p) (lease s)"
    using assms by (simp_all add: stale_reset_mint_def lease_token_def)
  from minted_unfold [OF assms(1) this, of cfg m t] obtain ev where
    eq: "on_lease_token_minted cfg m t s = run (close_reset_window t (ApplyPreResult True (Some True)) (emit ev
      (put (\<lambda>s. s\<lparr>pending_lease := None, lease := Held m (loop_client cfg)\<rparr>) (begin_ctx s))))"
    by auto
  obtain c where c: "close_reset_window t (ApplyPreResult True (Some True)) (emit ev
      (put (\<lambda>s. s\<lparr>pending_lease := None, lease := Held m (loop_client cfg)\<rparr>) (begin_ctx s))) =
      apply_reset_result t True (Some True) c" "lease (st c) = Held m (loop_client cfg)"
      "gate_mode (st c) = GM_Passthrough" "claim (st c) = None" "pending_lease (st c) = None"
      "episode (st c) = Some (e\<lparr>reset_window := None\<rparr>)"
    using close_engaged_window [of "emit ev (put (\<lambda>s. s\<lparr>pending_lease := None,
        lease := Held m (loop_client cfg)\<rparr>) (begin_ctx s))" e t True "Some True"] assms(3,4)
    by (auto simp: ctx_simps)
  obtain c' e' where c': "apply_reset_result t True (Some True) c = Some c'" "lease (st c') = lease (st c)"
      "gate_mode (st c') = gate_mode (st c)" "claim (st c') = claim (st c)"
      "pending_lease (st c') = pending_lease (st c)" "episode (st c') = Some e'" "ep_phase e' = Ready"
      "reset_window e' = None" "reset_ok e'" "ep_verified e'"
    using reset_verified [OF c(6), of t] by auto
  have "handle cfg (LeaseTokenMinted m t) s = accept c'" using eq c(1) c'(1) by simp
  from step_of_handle [OF this] c(2-5) c'(2-) show ?thesis by auto
qed

text \<open>
  A pre-reset window runs its whole course: the holder of the reset claim engages it, the
  mint gives it the lease and puts the gate in RESET, results of the automatic pipeline are
  refused meanwhile (E19b), completing keeps lease and gate until the handback mint, and that
  mint returns the lease to the loop, ends the claim and leaves a verified READY episode.
\<close>

theorem reset_window_runs_its_course:
  assumes "reachable cfg s" "episode s = Some e" "ep_phase e = Resetting" "reset_window e = Some w"
    "\<not> rw_engaged w" "claim s = Some cl"
  shows "\<exists>s1 efs1 s2 efs2 s3 efs3 s4 efs4 e'.
    step cfg s (ResetWindowEngage (cl_id cl) t1) = Step s1 efs1 \<and> lease s1 = lease s \<and>
    step cfg s1 (LeaseTokenMinted m t2) = Step s2 efs2 \<and> lease s2 = Held m (claim_client cl) \<and>
      gate_mode s2 = GM_Reset \<and> (\<exists>r. step cfg s2 (ResetResult ok v t) = Rejected r) \<and>
    step cfg s2 (ResetWindowComplete (cl_id cl) True (Some True) t3) = Step s3 efs3 \<and>
      lease s3 = lease s2 \<and> gate_mode s3 = GM_Reset \<and>
    step cfg s3 (LeaseTokenMinted m' t4) = Step s4 efs4 \<and> lease s4 = Held m' (loop_client cfg) \<and>
      gate_mode s4 = GM_Passthrough \<and> claim s4 = None \<and> episode s4 = Some e' \<and> ep_phase e' = Ready \<and>
      reset_window e' = None \<and> reset_ok e' \<and> ep_verified e'"
proof -
  have rp: "reset_phase s" using assms(2,3) by (simp add: reset_phase_def episode_phase_def)
  have pre: "rw_kind w = RK_Pre"
    using fsm_inv_episode_inv [OF reachable_inv [OF assms(1)] assms(2)] assms(3,4)
    by (auto simp: episode_inv_defs split: if_splits)
  obtain s1 efs1 where s1: "step cfg s (ResetWindowEngage (cl_id cl) t1) = Step s1 efs1"
    "s1 = s\<lparr>pending_lease := Some \<lparr>po_op = lease_op_to (lease s) (claim_client cl), po_then = ResetEngageComplete\<rparr>\<rparr>"
    using window_engage_step [OF rp assms(2,4,5,6)] by blast
  have "pending_lease s1 = Some \<lparr>po_op = lease_op_to (lease s1) (claim_client cl), po_then = ResetEngageComplete\<rparr>"
    "episode s1 = Some e" "claim s1 = Some cl" using s1(2) assms by simp_all
  from window_engaged_step [OF this(1,2) assms(4) this(3), of cfg m t2] obtain s2 efs2 where
    s2: "step cfg s1 (LeaseTokenMinted m t2) = Step s2 efs2" "lease s2 = Held m (claim_client cl)"
      "gate_mode s2 = GM_Reset" "claim s2 = Some cl" "pending_lease s2 = None"
      "episode s2 = Some (e\<lparr>reset_window := Some (w\<lparr>rw_engaged := True\<rparr>)\<rparr>)" by blast
  have rp2: "reset_phase s2" using s2(6) assms(3) by (simp add: reset_phase_def episode_phase_def)
  have rej: "\<exists>r. step cfg s2 (ResetResult ok v t) = Rejected r"
    using s2(6) assms(3) by (simp add: step_def close_step_def on_reset_result_def episode_phase_def)
  obtain s3 efs3 where s3: "step cfg s2 (ResetWindowComplete (cl_id cl) True (Some True) t3) = Step s3 efs3"
    "lease s3 = lease s2" "gate_mode s3 = gate_mode s2" "claim s3 = Some cl"
    "episode s3 = Some (e\<lparr>reset_window := Some (w\<lparr>rw_engaged := True\<rparr>)\<rparr>)"
    "pending_lease s3 = Some \<lparr>po_op = Op_Handoff m (loop_client cfg),
        po_then = ResetHandback (ApplyPreResult True (Some True))\<rparr>"
    using window_complete_step [OF rp2 s2(6) _ _ s2(4,2,5), of "w\<lparr>rw_engaged := True\<rparr>" cfg True "Some True" t3] pre
    by auto
  have "lease s3 = Held m (claim_client cl)" "gate_mode s3 = GM_Reset" using s3 s2 by simp_all
  from pre_window_handed_back [OF s3(6) this(1) s3(5) this(2), of m' t4] obtain s4 efs4 e' where
    "step cfg s3 (LeaseTokenMinted m' t4) = Step s4 efs4" "lease s4 = Held m' (loop_client cfg)"
    "gate_mode s4 = GM_Passthrough" "claim s4 = None" "episode s4 = Some e'" "ep_phase e' = Ready"
    "reset_window e' = None" "reset_ok e'" "ep_verified e'" by blast
  with s1 s2(1-3) s3(1,2) rej \<open>gate_mode s3 = GM_Reset\<close> show ?thesis
    by (intro exI [of _ s1] exI [of _ efs1] exI [of _ s2] exI [of _ efs2] exI [of _ s3] exI [of _ efs3]
        exI [of _ s4] exI [of _ efs4] exI [of _ e']) simp
qed

theorem reset_window_runs_its_course_witness:
  "\<exists>s1 efs1 s2 efs2. step demo_config (play to_window) (ResetWindowEngage ''c1'' 3) = Step s1 efs1 \<and>
    step demo_config s1 (LeaseTokenMinted ''L2'' 4) = Step s2 efs2 \<and> gate_mode s2 = GM_Reset \<and>
    (\<exists>r. step demo_config s2 (ResetResult True None 5) = Rejected r)"
proof -
  have "map_option (\<lambda>e. (ep_phase e, map_option rw_engaged (reset_window e))) (episode (play to_window)) =
      Some (Resetting, Some False)" "map_option cl_id (claim (play to_window)) = Some ''c1''"
    using scenario_results by blast+
  then obtain e w cl where "episode (play to_window) = Some e" "ep_phase e = Resetting" "reset_window e = Some w"
      "\<not> rw_engaged w" "claim (play to_window) = Some cl" "cl_id cl = ''c1''"
    by auto
  from reset_window_runs_its_course [OF reachable_to_window this(1-5), of 3 "''L2''" 4 True None 5 6 "''L3''" 7]
    this(6) show ?thesis by auto
qed

subsection \<open>The agent invite\<close>

lemma request_terminal_result:
  assumes "episode (st c) = Some e"
  shows "\<exists>c' e'. request_terminal t out reason c = Some c' \<and> episode (st c') = Some e' \<and>
    invite_aborted e' = invite_aborted e \<and> agent_engaged e' = agent_engaged e \<and>
    agent_invited e' = agent_invited e \<and> claim (st c') = None \<and>
    (if post_reset_declared e \<and> run_started (ep_phase e)
     then ep_phase e' = PostReset \<and> pinned_outcome e' = Some out else ep_phase e' = Terminal out)"
proof (cases "post_reset_declared e \<and> run_started (ep_phase e)")
  case True
  with assms show ?thesis
    by (cases "post_window e")
      (simp_all add: request_terminal_def enter_post_reset_def open_reset_window_def Let_def ctx_simps)
next
  case False
  then have "request_terminal t out reason c = enter_terminal t out reason True c"
    using assms by (auto simp: request_terminal_def)
  then show ?thesis
    using False assms by (simp add: enter_terminal_def ctx_simps del: if_split)
qed

lemma idle_step: "handle cfg ev s = accept (begin_ctx s) \<Longrightarrow> step cfg s ev = Step s []"
  by (simp add: step_of_handle finish_def ctx_simps)

text \<open>
  An open agent invite ends the episode at most once: its deadline aborts the run (through
  POST_RESET when a cleanup is declared and the run has started), ends any claim and latches
  the abort, after which a late denial is refused and a second deadline changes nothing
  (rows E25, E26, E26b).
\<close>

theorem invite_aborts_at_most_once:
  assumes "episode s = Some e" "invite_open e"
  shows "\<exists>s' efs e'. step cfg s (TimerFired AgentInviteTimeout t) = Step s' efs \<and>
    episode s' = Some e' \<and> invite_aborted e' \<and> claim s' = None \<and>
    (if post_reset_declared e \<and> run_started (ep_phase e)
     then ep_phase e' = PostReset \<and> pinned_outcome e' = Some Abort else ep_phase e' = Terminal Abort) \<and>
    (\<exists>r. step cfg s' (AgentTaskDenied d t') = Rejected r) \<and>
    step cfg s' (TimerFired AgentInviteTimeout t') = Step s' []"
proof -
  let ?e = "e\<lparr>invite_aborted := True\<rparr>"
  let ?c = "put (\<lambda>s. s\<lparr>episode := Some ?e\<rparr>) (begin_ctx s)"
  have "episode (st ?c) = Some ?e" by (simp add: ctx_simps)
  from request_terminal_result [OF this, of t Abort "''no agent engaged''"] obtain c' e' where
    c': "request_terminal t Abort ''no agent engaged'' ?c = Some c'" "episode (st c') = Some e'"
      "invite_aborted e'" "agent_invited e' = agent_invited e" "claim (st c') = None"
      "if post_reset_declared e \<and> run_started (ep_phase e)
       then ep_phase e' = PostReset \<and> pinned_outcome e' = Some Abort else ep_phase e' = Terminal Abort"
    by auto
  have "handle cfg (TimerFired AgentInviteTimeout t) s = accept c'"
    using assms c'(1) by (simp add: on_agent_invite_timeout_def abort_invite_def ctx_simps)
  note s' = step_of_handle [OF this]
  have shut: "\<not> invite_open e'" using c'(6) by (auto simp: invite_open_def split: if_splits)
  then have "step cfg (st c') (TimerFired AgentInviteTimeout t') = Step (st c') []"
    using c'(2) by (intro idle_step) (simp add: on_agent_invite_timeout_def)
  moreover have "\<exists>r. step cfg (st c') (AgentTaskDenied d t') = Rejected r"
    using c'(2) shut by (simp add: step_def close_step_def on_agent_task_denied_def)
  ultimately show ?thesis using s' c'(2-) by blast
qed

theorem invite_aborts_at_most_once_witness:
  "\<exists>s' efs e'. step demo_config (play [open_agent_event]) (TimerFired AgentInviteTimeout 60) = Step s' efs \<and>
    episode s' = Some e' \<and> ep_phase e' = Terminal Abort \<and>
    (\<exists>r. step demo_config s' (AgentTaskDenied [] 61) = Rejected r)"
proof -
  have "map_option (\<lambda>e. (invite_open e, post_reset_declared e)) (episode (play [open_agent_event])) =
      Some (True, False)" using scenario_results by blast
  then obtain e where "episode (play [open_agent_event]) = Some e" "invite_open e" "\<not> post_reset_declared e"
    by auto
  with invite_aborts_at_most_once [OF this(1,2), of demo_config 60 "[]" 61] show ?thesis by auto
qed

subsection \<open>Races around a reset window\<close>

text \<open>
  Orders of events that the rows do not exclude. A terminate closes an episode that is still
  resetting, though E10 starts from RUNNING or INTERVENTION. A window deadline that arrives after the
  episode ended replaces its outcome; the mint of a reset engage whose claim was released and
  succeeded by another one seats the released claim's client; and a completion that arrives
  between the deadline of a window and its handback turns the expired window into a verified reset.
  The deadline of a window that a terminated episode left engaged plans a handback that aborts
  the next episode when its token arrives.
\<close>

lemma late_window_deadline_replaces_the_outcome:
  "fst (phase_and_holder (to_window @ [Terminate Success ''done'' 3])) = Some (Terminal Success) \<and>
   fst (phase_and_holder (to_window @ [Terminate Success ''done'' 3, TimerFired ResetWindowTimeout 5,
     LeaseTokenMinted ''L2'' 6])) = Some (Terminal Abort)"
  using scenario_results by blast

lemma early_terminate_closes:
  "fst (phase_and_holder [open_event False None None, Terminate Success ''early'' 1]) = Some (Terminal Success)"
  using scenario_results by blast

lemma late_window_handback_aborts_the_next_episode:
  "map_option (\<lambda>e. (ep_id e, ep_phase e)) (episode (play (to_next_open @ [LeaseTokenMinted ''L3'' 8]))) =
     Some (''e2'', Terminal Abort)"
  using scenario_results by blast

lemma stale_reset_mint_seats_the_released_claimant:
  "map_option cl_id (claim (play (to_window @ [ResetWindowEngage ''c1'' 3, ClaimReleased ''c1'' 4,
     ClaimGranted ''c2'' ''other'' operator False 5, LeaseTokenMinted ''L2'' 6]))) = Some ''c2'' \<and>
   phase_and_holder (to_window @ [ResetWindowEngage ''c1'' 3, ClaimReleased ''c1'' 4,
     ClaimGranted ''c2'' ''other'' operator False 5, LeaseTokenMinted ''L2'' 6]) =
     (Some Resetting, Held ''L2'' ''teleop'')"
  using scenario_results by blast

lemma completion_overrides_an_expired_window:
  "phase_and_holder (to_window @ [ResetWindowEngage ''c1'' 3, LeaseTokenMinted ''L2'' 4,
     TimerFired ResetWindowTimeout 5, ResetWindowComplete ''c1'' True (Some True) 6, LeaseTokenMinted ''L3'' 7]) =
     (Some Ready, Held ''L3'' ''loop'')"
  using scenario_results by blast

end
