(* ===== verification/Waddle_Buffers.thy ===== *)
theory Waddle_Buffers
  imports Waddle_Types "HOL-Library.Multiset"
begin

text \<open>
  Bounded buffers. The contract of a drop-oldest window is stated once, as the locale
  \<open>drop_oldest\<close>, and proved to keep exactly the newest items; the offline buffer of the
  control-plane client (\<^verbatim>\<open>waddle-controlplane/src/buffer.rs\<close>) and the sliding
  window of the clock-offset estimator (\<^verbatim>\<open>waddle-ingest/src/offset.rs\<close>)
  interpret it. The reconnect backoff table and the in-flight limiter of the transport follow,
  the latter with its racing callers as a step relation.
\<close>

subsection \<open>The contract of a drop-oldest window\<close>

definition newest :: "nat \<Rightarrow> 'a list \<Rightarrow> 'a list" where
  "newest n xs = drop (length xs - n) xs"

lemma newest_all: "length xs \<le> n \<Longrightarrow> newest n xs = xs"
  by (simp add: newest_def)

lemma length_newest: "length (newest n xs) = min n (length xs)"
  by (simp add: newest_def)

lemma newest_snoc: "0 < n \<Longrightarrow>
  newest n (xs @ [x]) = (if length (newest n xs) = n then tl (newest n xs) else newest n xs) @ [x]"
  by (auto simp: newest_def Suc_diff_le tl_drop drop_Suc)

locale drop_oldest =
  fixes items :: "'b \<Rightarrow> 'a list" and cap :: "'b \<Rightarrow> nat" and push :: "'a \<Rightarrow> 'b \<Rightarrow> 'b"
    and invar :: "'b \<Rightarrow> bool"
  assumes bounded: "invar b \<Longrightarrow> 0 < cap b \<and> length (items b) \<le> cap b"
    and invar_push: "invar b \<Longrightarrow> invar (push x b)"
    and cap_push: "cap (push x b) = cap b"
    and items_push: "invar b \<Longrightarrow>
      items (push x b) = (if length (items b) = cap b then tl (items b) else items b) @ [x]"
begin

lemma invar_pushes: "invar b \<Longrightarrow> invar (fold push xs b)"
  by (induction xs arbitrary: b) (simp_all add: invar_push)

lemma cap_pushes: "cap (fold push xs b) = cap b"
  by (induction xs arbitrary: b) (simp_all add: cap_push)

lemma items_pushes:
  assumes "invar b"
  shows "items (fold push xs b) = newest (cap b) (items b @ xs)"
proof (induction xs rule: rev_induct)
  case Nil
  then show ?case using bounded [OF assms] by (simp add: newest_all)
next
  case (snoc x xs)
  let ?b = "fold push xs b"
  have "items (push x ?b) = (if length (items ?b) = cap b then tl (items ?b) else items ?b) @ [x]"
    using items_push [OF invar_pushes [OF assms]] by (simp add: cap_pushes)
  moreover have "newest (cap b) (items b @ xs @ [x]) =
      (if length (newest (cap b) (items b @ xs)) = cap b then tl (newest (cap b) (items b @ xs))
       else newest (cap b) (items b @ xs)) @ [x]"
    using newest_snoc [of "cap b" "items b @ xs" x] bounded [OF assms] by simp
  ultimately show ?case by (simp add: snoc)
qed

lemma never_overfull: "invar b \<Longrightarrow> length (items (fold push xs b)) \<le> cap b"
  using bounded [OF invar_pushes, of b xs] by (simp add: cap_pushes)

end

subsection \<open>The offline buffer\<close>

record 'a offline_buffer =
  ob_items :: "'a list"
  ob_capacity :: nat
  ob_dropped :: u64

definition offline_buffer_new :: "nat \<Rightarrow> 'a offline_buffer" where
  "offline_buffer_new capacity = \<lparr>ob_items = [], ob_capacity = max capacity 1, ob_dropped = 0\<rparr>"

definition offline_buffer_push :: "'a \<Rightarrow> 'a offline_buffer \<Rightarrow> 'a offline_buffer \<times> bool" where
  "offline_buffer_push item b =
     (let full = length (ob_items b) = ob_capacity b;
          b = (if full then b\<lparr>ob_items := tl (ob_items b), ob_dropped := ob_dropped b + 1\<rparr> else b)
      in (b\<lparr>ob_items := ob_items b @ [item]\<rparr>, full))"

definition offline_buffer_drain :: "'a offline_buffer \<Rightarrow> 'a list \<times> 'a offline_buffer" where
  "offline_buffer_drain b = (ob_items b, b\<lparr>ob_items := []\<rparr>)"

definition buffer_push :: "'a \<Rightarrow> 'a offline_buffer \<Rightarrow> 'a offline_buffer" where
  "buffer_push item b = fst (offline_buffer_push item b)"

definition buffer_ok :: "'a offline_buffer \<Rightarrow> bool" where
  "buffer_ok b \<longleftrightarrow> 0 < ob_capacity b \<and> length (ob_items b) \<le> ob_capacity b"

lemma buffer_push_items:
  "ob_items (buffer_push x b) = (if length (ob_items b) = ob_capacity b then tl (ob_items b) else ob_items b) @ [x]"
  "ob_capacity (buffer_push x b) = ob_capacity b"
  "ob_dropped (buffer_push x b) = ob_dropped b + (if length (ob_items b) = ob_capacity b then 1 else 0)"
  by (simp_all add: buffer_push_def offline_buffer_push_def Let_def)

interpretation offline: drop_oldest ob_items ob_capacity buffer_push buffer_ok
proof
  fix b :: "'a offline_buffer" and x
  show "buffer_ok b \<Longrightarrow> buffer_ok (buffer_push x b)"
    by (auto simp: buffer_ok_def buffer_push_items)
qed (simp_all add: buffer_ok_def buffer_push_items)

lemma buffer_ok_new: "buffer_ok (offline_buffer_new n)"
  by (simp add: buffer_ok_def offline_buffer_new_def)

lemma buffer_dropped:
  assumes "buffer_ok b"
  shows "ob_dropped (fold buffer_push xs b) = ob_dropped b + of_nat (length (ob_items b) + length xs - ob_capacity b)"
  using assms
proof (induction xs rule: rev_induct)
  case Nil
  then show ?case by (simp add: buffer_ok_def)
next
  case (snoc x xs)
  have "length (ob_items (fold buffer_push xs b)) = min (ob_capacity b) (length (ob_items b) + length xs)"
    using offline.items_pushes [OF snoc.prems, of xs] by (simp add: length_newest)
  moreover have "ob_capacity (fold buffer_push xs b) = ob_capacity b" by (rule offline.cap_pushes)
  ultimately show ?case
    using snoc by (auto simp: buffer_push_items min_def Suc_diff_le not_le)
qed

text \<open>
  C14. The offline buffer keeps exactly the newest messages in arrival order and counts every
  message it lost: after any sequence of pushes into a fresh buffer, draining yields the last
  \<open>capacity\<close> of them (at least one), and the counter is the number of the others.
\<close>

theorem offline_buffer_keeps_the_newest:
  "fst (offline_buffer_drain (fold buffer_push xs (offline_buffer_new n))) = newest (max n 1) xs \<and>
   ob_dropped (fold buffer_push xs (offline_buffer_new n)) = of_nat (length xs - max n 1)"
  using offline.items_pushes [OF buffer_ok_new, of xs n] buffer_dropped [OF buffer_ok_new, of xs n]
  by (simp add: offline_buffer_drain_def offline_buffer_new_def)

subsection \<open>Reconnect backoff\<close>

record backoff =
  steps_ns :: "int list"
  plateau_ns :: int

definition backoff_production :: backoff where
  "backoff_production = \<lparr>steps_ns = [1000000000, 4000000000, 16000000000], plateau_ns = 16000000000\<rparr>"

definition delay_ns :: "backoff \<Rightarrow> u32 \<Rightarrow> int" where
  "delay_ns b attempt =
     (if unat attempt < length (steps_ns b) then steps_ns b ! unat attempt else plateau_ns b)"

subsection \<open>The in-flight limiter\<close>

record inflight_limit =
  il_cap :: nat
  il_live :: nat
  il_dropped :: u64

definition default_inflight_cap :: nat where "default_inflight_cap = 4"

definition inflight_new :: "nat \<Rightarrow> u64 \<Rightarrow> inflight_limit" where
  "inflight_new cap dropped = \<lparr>il_cap = max cap 1, il_live = 0, il_dropped = dropped\<rparr>"

text \<open>
  One caller at a time, \<open>admit\<close> gives \<open>Some slot\<close> for a message that passes, where
  \<open>slot\<close> tells whether it holds an in-flight slot, and \<open>None\<close> for one that is
  shed. Dropping or unwrapping a message with a slot returns the slot.
\<close>

definition admit :: "bool \<Rightarrow> inflight_limit \<Rightarrow> inflight_limit \<times> bool option" where
  "admit droppable l =
     (if \<not> droppable then (l, Some False)
      else if il_cap l \<le> il_live l then (l\<lparr>il_dropped := il_dropped l + 1\<rparr>, None)
      else (l\<lparr>il_live := il_live l + 1\<rparr>, Some True))"

definition drop_slot :: "inflight_limit \<Rightarrow> inflight_limit" where
  "drop_slot l = l\<lparr>il_live := il_live l - 1\<rparr>"

text \<open>
  Callers on several threads race between the atomic operations of \<open>admit\<close>. Every message
  offered is a ticket: \<open>History\<close> passed unmetered; \<open>Slot\<close> observed a counter
  below the cap and is in flight; \<open>Over\<close> has incremented the counter and must back
  off; \<open>Counting\<close> has backed off and must count itself; \<open>Shed\<close> is counted;
  \<open>Returned\<close> gave its slot back.
\<close>

datatype ticket = History | Slot | Over | Counting | Shed | Returned

record inflight_race =
  rc_limit :: inflight_limit
  rc_tickets :: "ticket multiset"

definition live_add :: "inflight_limit \<Rightarrow> inflight_limit" where
  "live_add l = l\<lparr>il_live := il_live l + 1\<rparr>"

inductive inflight_step :: "inflight_race \<Rightarrow> inflight_race \<Rightarrow> bool" where
  offer_history: "inflight_step r (r\<lparr>rc_tickets := add_mset History (rc_tickets r)\<rparr>)"
| fetch_add_ok: "il_live (rc_limit r) < il_cap (rc_limit r) \<Longrightarrow>
    inflight_step r \<lparr>rc_limit = live_add (rc_limit r), rc_tickets = add_mset Slot (rc_tickets r)\<rparr>"
| fetch_add_over: "il_cap (rc_limit r) \<le> il_live (rc_limit r) \<Longrightarrow>
    inflight_step r \<lparr>rc_limit = live_add (rc_limit r), rc_tickets = add_mset Over (rc_tickets r)\<rparr>"
| back_off: "rc_tickets r = add_mset Over ts \<Longrightarrow>
    inflight_step r \<lparr>rc_limit = drop_slot (rc_limit r), rc_tickets = add_mset Counting ts\<rparr>"
| count_shed: "rc_tickets r = add_mset Counting ts \<Longrightarrow>
    inflight_step r \<lparr>rc_limit = (rc_limit r)\<lparr>il_dropped := il_dropped (rc_limit r) + 1\<rparr>,
      rc_tickets = add_mset Shed ts\<rparr>"
| release: "rc_tickets r = add_mset Slot ts \<Longrightarrow>
    inflight_step r \<lparr>rc_limit = drop_slot (rc_limit r), rc_tickets = add_mset Returned ts\<rparr>"

inductive inflight_reachable :: "nat \<Rightarrow> inflight_race \<Rightarrow> bool" for cap :: nat where
  start: "inflight_reachable cap \<lparr>rc_limit = inflight_new cap 0, rc_tickets = {#}\<rparr>"
| step: "inflight_reachable cap r \<Longrightarrow> inflight_step r r' \<Longrightarrow> inflight_reachable cap r'"

definition inflight_inv :: "inflight_race \<Rightarrow> bool" where
  "inflight_inv r \<longleftrightarrow> il_live (rc_limit r) = count (rc_tickets r) Slot + count (rc_tickets r) Over \<and>
     count (rc_tickets r) Slot \<le> il_cap (rc_limit r) \<and>
     il_dropped (rc_limit r) = of_nat (count (rc_tickets r) Shed)"

lemma inflight_inv_step: "inflight_step r r' \<Longrightarrow> inflight_inv r \<Longrightarrow> inflight_inv r'"
  by (induction rule: inflight_step.induct) (auto simp: inflight_inv_def live_add_def drop_slot_def)

lemma inflight_cap_step: "inflight_step r r' \<Longrightarrow> il_cap (rc_limit r') = il_cap (rc_limit r)"
  by (induction rule: inflight_step.induct) (auto simp: live_add_def drop_slot_def)

lemma inflight_reachable_inv:
  "inflight_reachable cap r \<Longrightarrow> inflight_inv r \<and> il_cap (rc_limit r) = max cap 1"
  by (induction rule: inflight_reachable.induct)
    (auto simp: inflight_inv_step inflight_cap_step, simp_all add: inflight_inv_def inflight_new_def)

text \<open>
  However callers race, at most \<open>cap\<close> droppable messages hold a slot; the counter is
  the held slots plus the callers still backing off, and the shared counter is exactly the
  messages shed.
\<close>

theorem inflight_bound_holds_under_races:
  assumes "inflight_reachable cap r"
  shows "count (rc_tickets r) Slot \<le> max cap 1 \<and>
    il_live (rc_limit r) = count (rc_tickets r) Slot + count (rc_tickets r) Over \<and>
    il_dropped (rc_limit r) = of_nat (count (rc_tickets r) Shed)"
  using inflight_reachable_inv [OF assms] by (auto simp: inflight_inv_def)

definition overshoot :: inflight_race where
  "overshoot = \<lparr>rc_limit = \<lparr>il_cap = 1, il_live = 2, il_dropped = 0\<rparr>, rc_tickets = {#Over, Slot#}\<rparr>"

lemma overshoot_reachable: "inflight_reachable 1 overshoot"
proof -
  let ?r0 = "\<lparr>rc_limit = inflight_new 1 0, rc_tickets = {#}\<rparr>"
  let ?r1 = "\<lparr>rc_limit = \<lparr>il_cap = 1, il_live = 1, il_dropped = 0\<rparr>, rc_tickets = {#Slot#}\<rparr>"
  have "inflight_step ?r0 ?r1"
    using inflight_step.fetch_add_ok [of ?r0] by (simp add: inflight_new_def live_add_def)
  moreover have "inflight_step ?r1 overshoot"
    using inflight_step.fetch_add_over [of ?r1] by (simp add: overshoot_def live_add_def numeral_2_eq_2)
  ultimately show ?thesis
    by (meson inflight_reachable.start inflight_reachable.step)
qed

theorem inflight_bound_holds_under_races_witness:
  "count (rc_tickets overshoot) Slot \<le> max 1 1 \<and> il_live (rc_limit overshoot) = 2"
  using inflight_bound_holds_under_races [OF overshoot_reachable] by (simp add: overshoot_def)

text \<open>
  The counter itself may exceed the cap while a caller is between its increment and its
  back-off, so \<^verbatim>\<open>InflightLimit::live\<close> can report more than \<open>cap\<close>.
\<close>

lemma live_counter_can_exceed_the_cap:
  "\<exists>r. inflight_reachable 1 r \<and> il_cap (rc_limit r) < il_live (rc_limit r)"
  using overshoot_reachable by (intro exI [of _ overshoot]) (simp add: overshoot_def)

text \<open>Run by one caller at a time, the race is \<open>admit\<close>.\<close>

lemma admit_serial:
  assumes "admit True l = (l', res)"
  shows "\<exists>ts'. inflight_step\<^sup>*\<^sup>* \<lparr>rc_limit = l, rc_tickets = ts\<rparr> \<lparr>rc_limit = l', rc_tickets = ts'\<rparr> \<and>
    ts' = add_mset (if res = None then Shed else Slot) ts"
proof (cases "il_cap l \<le> il_live l")
  case True
  let ?r = "\<lparr>rc_limit = l, rc_tickets = ts\<rparr>"
  have "inflight_step ?r \<lparr>rc_limit = live_add l, rc_tickets = add_mset Over ts\<rparr>"
    using True inflight_step.fetch_add_over [of ?r] by simp
  moreover have "inflight_step \<lparr>rc_limit = live_add l, rc_tickets = add_mset Over ts\<rparr>
      \<lparr>rc_limit = l, rc_tickets = add_mset Counting ts\<rparr>"
    using inflight_step.back_off [of "\<lparr>rc_limit = live_add l, rc_tickets = add_mset Over ts\<rparr>" ts]
    by (simp add: live_add_def drop_slot_def)
  moreover have "inflight_step \<lparr>rc_limit = l, rc_tickets = add_mset Counting ts\<rparr>
      \<lparr>rc_limit = l', rc_tickets = add_mset Shed ts\<rparr>"
    using inflight_step.count_shed [of "\<lparr>rc_limit = l, rc_tickets = add_mset Counting ts\<rparr>" ts] True assms
    by (simp add: admit_def)
  ultimately have "inflight_step\<^sup>*\<^sup>* ?r \<lparr>rc_limit = l', rc_tickets = add_mset Shed ts\<rparr>"
    by (meson r_into_rtranclp rtranclp_trans)
  then show ?thesis using True assms by (auto simp: admit_def)
next
  case False
  then show ?thesis
    using assms inflight_step.fetch_add_ok [of "\<lparr>rc_limit = l, rc_tickets = ts\<rparr>"]
    by (auto simp: admit_def live_add_def)
qed

end
