(* ===== verification/Waddle_Ingest.thy ===== *)
theory Waddle_Ingest
  imports Waddle_Buffers
begin

text \<open>
  Ingest (\<^verbatim>\<open>waddle-ingest\<close>): the session clock and its anchor, the manually
  advanced clock of tests, the per-source clock-offset estimator, and the hub that stamps
  samples. Reads of the operating system's clocks are arguments; the mutexes and the
  wait-free slot are taken at their word, so an operation is one atomic update of the hub.
\<close>

subsection \<open>Clocks\<close>

record clock_read =
  cr_instant :: int
  cr_unix_ns :: int
  cr_delta :: nat

text \<open>The paired reads of \<open>capture\<close>, keeping the first one with the least delay.\<close>

fun best_read :: "clock_read option \<Rightarrow> clock_read list \<Rightarrow> clock_read option" where
  "best_read best [] = best"
| "best_read best (r # rs) =
     best_read (case best of None \<Rightarrow> Some r | Some b \<Rightarrow> if cr_delta r < cr_delta b then Some r else Some b) rs"

record session_clock =
  sc_origin :: int
  sc_anchor :: clock_anchor

definition clock_capture :: "clock_read list \<Rightarrow> session_clock option" where
  "clock_capture reads = map_option (\<lambda>r. \<lparr>sc_origin = cr_instant r,
     sc_anchor = \<lparr>monotonic_ns = 0, unix_ns = i64_wrap (cr_unix_ns r)\<rparr>\<rparr>) (best_read None reads)"

definition clock_now :: "session_clock \<Rightarrow> int \<Rightarrow> mono_ns" where
  "clock_now c instant = i64_wrap (max 0 (instant - sc_origin c))"

definition clock_stamp_now :: "session_clock \<Rightarrow> int \<Rightarrow> stamp" where
  "clock_stamp_now c instant =
     (let t = clock_now c instant in \<lparr>mono = t, epoch = locate (sc_anchor c) t\<rparr>)"

record fake_clock =
  fc_mono :: mono_ns
  fc_anchor :: clock_anchor

definition fake_clock_new :: "mono_ns \<Rightarrow> epoch_ns \<Rightarrow> fake_clock" where
  "fake_clock_new start unix_at_zero =
     \<lparr>fc_mono = start, fc_anchor = \<lparr>monotonic_ns = 0, unix_ns = unix_at_zero\<rparr>\<rparr>"

definition fake_clock_advance :: "int \<Rightarrow> fake_clock \<Rightarrow> fake_clock" where
  "fake_clock_advance ns c = c\<lparr>fc_mono := i64_wrap (fc_mono c + ns)\<rparr>"

definition fake_clock_set :: "mono_ns \<Rightarrow> fake_clock \<Rightarrow> fake_clock" where
  "fake_clock_set t c = c\<lparr>fc_mono := t\<rparr>"

definition fake_clock_stamp_now :: "fake_clock \<Rightarrow> stamp" where
  "fake_clock_stamp_now c = \<lparr>mono = fc_mono c, epoch = locate (fc_anchor c) (fc_mono c)\<rparr>"

lemma best_read_spec:
  assumes "best_read b rs = Some r"
  shows "(b = Some r \<or> r \<in> set rs) \<and> (\<forall>x \<in> set rs. cr_delta r \<le> cr_delta x) \<and>
    (\<forall>x. b = Some x \<longrightarrow> cr_delta r \<le> cr_delta x)"
  using assms
proof (induction b rs rule: best_read.induct)
  case (2 b r' rs)
  let ?b = "case b of None \<Rightarrow> Some r' | Some b \<Rightarrow> if cr_delta r' < cr_delta b then Some r' else Some b"
  have ih: "(?b = Some r \<or> r \<in> set rs) \<and> (\<forall>x \<in> set rs. cr_delta r \<le> cr_delta x) \<and>
      (\<forall>x. ?b = Some x \<longrightarrow> cr_delta r \<le> cr_delta x)"
    using 2 by simp
  then show ?case by (cases b) (auto split: if_splits)
qed simp

lemma best_read_exists: "rs \<noteq> [] \<or> b \<noteq> None \<Longrightarrow> \<exists>r. best_read b rs = Some r"
  by (induction b rs rule: best_read.induct) (auto split: option.splits)

subsection \<open>The clock-offset estimator\<close>

record source_offset_estimator =
  oe_window :: nat
  oe_deltas :: "int list"

definition offset_new :: "nat \<Rightarrow> source_offset_estimator" where
  "offset_new window = \<lparr>oe_window = max window 1, oe_deltas = []\<rparr>"

definition push_delta :: "int \<Rightarrow> source_offset_estimator \<Rightarrow> source_offset_estimator" where
  "push_delta d e =
     (let ds = (if length (oe_deltas e) = oe_window e then tl (oe_deltas e) else oe_deltas e)
      in e\<lparr>oe_deltas := ds @ [d]\<rparr>)"

definition offset_observe :: "int \<Rightarrow> mono_ns \<Rightarrow> source_offset_estimator \<Rightarrow> source_offset_estimator" where
  "offset_observe source_ts_ns host_recv e = push_delta (i64_wrap (host_recv - source_ts_ns)) e"

fun list_min :: "int list \<Rightarrow> int option" where
  "list_min [] = None"
| "list_min (d # ds) = Some (fold min ds d)"

definition offset_ns :: "source_offset_estimator \<Rightarrow> int option" where
  "offset_ns e = list_min (oe_deltas e)"

definition offset_map :: "int \<Rightarrow> source_offset_estimator \<Rightarrow> mono_ns option" where
  "offset_map source_ts_ns e = map_option (\<lambda>off. i64_wrap (source_ts_ns + off)) (offset_ns e)"

lemma list_min_spec: "xs \<noteq> [] \<Longrightarrow> list_min xs = Some (Min (set xs))"
  using Min.set_eq_fold [of "hd xs" "tl xs"] by (cases xs) simp_all

definition offset_ok :: "source_offset_estimator \<Rightarrow> bool" where
  "offset_ok e \<longleftrightarrow> 0 < oe_window e \<and> length (oe_deltas e) \<le> oe_window e"

interpretation offsets: drop_oldest oe_deltas oe_window push_delta offset_ok
  by unfold_locales (auto simp: offset_ok_def push_delta_def Let_def)

lemma offset_ok_new: "offset_ok (offset_new w)"
  by (simp add: offset_ok_def offset_new_def)

definition delta_of :: "int \<times> mono_ns \<Rightarrow> int" where
  "delta_of smp = i64_wrap (snd smp - fst smp)"

lemma observes_pushes:
  "fold (\<lambda>(src, recv). offset_observe src recv) samples e = fold push_delta (map delta_of samples) e"
  by (induction samples arbitrary: e) (auto simp: offset_observe_def delta_of_def)

lemma newest_nonempty: "xs \<noteq> [] \<Longrightarrow> 0 < n \<Longrightarrow> newest n xs \<noteq> []"
  by (cases xs) (auto simp: newest_def)

lemma set_newest: "set (newest n xs) \<subseteq> set xs"
  by (simp add: newest_def set_drop_subset)

text \<open>
  The offset estimate is within the jitter of the true offset: when every sample arrives
  between the true offset and the true offset plus a jitter bound after its source time, the
  estimate of a window fed with at least one sample is too, and it is the least delay seen in
  the window.
\<close>

theorem offset_estimate_is_within_jitter:
  assumes "samples \<noteq> []"
    "\<forall>(src, recv) \<in> set samples. off \<le> recv - src \<and> recv - src \<le> off + jitter \<and> in_i64 (recv - src)"
  shows "\<exists>est. offset_ns (fold (\<lambda>(src, recv). offset_observe src recv) samples (offset_new w)) = Some est \<and>
    off \<le> est \<and> est \<le> off + jitter \<and>
    est = Min (set (newest (max w 1) (map (\<lambda>(src, recv). recv - src) samples)))"
proof -
  let ?ds = "map (\<lambda>(src, recv). recv - src) samples"
  have ds: "map delta_of samples = ?ds"
    using assms(2) by (auto simp: delta_of_def i64_wrap_id)
  have "oe_deltas (fold push_delta ?ds (offset_new w)) = newest (max w 1) ?ds"
    using offsets.items_pushes [OF offset_ok_new, of ?ds w] by (simp add: offset_new_def)
  moreover have ne: "newest (max w 1) ?ds \<noteq> []"
    using assms(1) by (intro newest_nonempty) auto
  ultimately have "offset_ns (fold (\<lambda>(src, recv). offset_observe src recv) samples (offset_new w)) =
      Some (Min (set (newest (max w 1) ?ds)))"
    by (simp add: offset_ns_def observes_pushes ds list_min_spec)
  moreover have "Min (set (newest (max w 1) ?ds)) \<in> set ?ds"
    by (rule subsetD [OF set_newest Min_in]) (use ne in simp_all)
  ultimately show ?thesis using assms(2) by auto
qed

theorem offset_estimate_is_within_jitter_witness:
  "\<exists>est. offset_ns (fold (\<lambda>(src, recv). offset_observe src recv) [(0, 100), (10, 150), (20, 121)] (offset_new 8)) =
    Some est \<and> 100 \<le> est \<and> est \<le> 100 + 50"
proof -
  have "\<forall>(src, recv) \<in> set [(0, 100), (10, 150), (20, 121)].
      (100 :: int) \<le> recv - src \<and> recv - src \<le> 100 + 50 \<and> in_i64 (recv - src)"
    by (simp add: in_i64_def i64_min_def i64_max_def)
  from offset_estimate_is_within_jitter [OF _ this, of 8] show ?thesis by blast
qed

subsection \<open>The hub\<close>

record obs_frame =
  of_source :: source_id
  of_stamp :: stamp
  of_values :: "flt list"

record source_entry =
  se_offset :: source_offset_estimator
  se_latest :: "obs_frame option"

type_synonym ingest_hub = "source_id \<rightharpoonup> source_entry"

definition hub_register :: "source_id \<Rightarrow> ingest_hub \<Rightarrow> ingest_hub" where
  "hub_register source hub = (case hub source of
     Some _ \<Rightarrow> hub
   | None \<Rightarrow> hub(source \<mapsto> \<lparr>se_offset = offset_new 256, se_latest = None\<rparr>))"

definition push_now :: "source_id \<Rightarrow> stamp \<Rightarrow> flt list \<Rightarrow> ingest_hub \<Rightarrow> ingest_hub \<times> stamp option" where
  "push_now source arrival vals hub = (case hub source of
     None \<Rightarrow> (hub, None)
   | Some e \<Rightarrow> (hub(source \<mapsto> e\<lparr>se_latest :=
         Some \<lparr>of_source = source, of_stamp = arrival, of_values = vals\<rparr>\<rparr>), Some arrival))"

definition mapped_stamp :: "stamp \<Rightarrow> mono_ns \<Rightarrow> stamp" where
  "mapped_stamp arrival t =
     \<lparr>mono = t, epoch = i64_wrap (epoch arrival - i64_wrap (mono arrival - t))\<rparr>"

definition push_with_source_ts ::
  "source_id \<Rightarrow> int \<Rightarrow> stamp \<Rightarrow> flt list \<Rightarrow> ingest_hub \<Rightarrow> ingest_hub \<times> stamp option" where
  "push_with_source_ts source source_ts_ns arrival vals hub = (case hub source of
     None \<Rightarrow> (hub, None)
   | Some e \<Rightarrow>
       let est = offset_observe source_ts_ns (mono arrival) (se_offset e);
           stmp = (case offset_map source_ts_ns est of
                     Some t \<Rightarrow> mapped_stamp arrival t
                   | None \<Rightarrow> arrival)
       in (hub(source \<mapsto> e\<lparr>se_offset := est, se_latest :=
             Some \<lparr>of_source = source, of_stamp = stmp, of_values = vals\<rparr>\<rparr>), Some stmp))"

definition hub_latest :: "source_id \<Rightarrow> ingest_hub \<Rightarrow> obs_frame option" where
  "hub_latest source hub = (case hub source of None \<Rightarrow> None | Some e \<Rightarrow> se_latest e)"

lemma centred_mod_cong:
  fixes x y h m :: int
  shows "((x + h) mod m - h + y + h) mod m = (x + y + h) mod m"
    "(x + ((y + h) mod m - h) + h) mod m = (x + y + h) mod m"
    "(x - ((y + h) mod m - h) + h) mod m = (x - y + h) mod m"
proof -
  have "((x + h) mod m - h + y + h) mod m = ((x + h) mod m + y) mod m" by (simp add: algebra_simps)
  also have "\<dots> = (x + h + y) mod m" by (rule mod_add_left_eq)
  finally show "((x + h) mod m - h + y + h) mod m = (x + y + h) mod m" by (simp add: algebra_simps)
  have "(x + ((y + h) mod m - h) + h) mod m = (x + (y + h) mod m) mod m" by (simp add: algebra_simps)
  also have "\<dots> = (x + (y + h)) mod m" by (rule mod_add_right_eq)
  finally show "(x + ((y + h) mod m - h) + h) mod m = (x + y + h) mod m" by (simp add: algebra_simps)
  have "(x - ((y + h) mod m - h) + h) mod m = (x + 2 * h - (y + h) mod m) mod m" by (simp add: algebra_simps)
  also have "\<dots> = (x + 2 * h - (y + h)) mod m" by (rule mod_diff_right_eq)
  finally show "(x - ((y + h) mod m - h) + h) mod m = (x - y + h) mod m" by (simp add: algebra_simps)
qed

lemma i64_wrap_cong: "i64_wrap (i64_wrap x + y) = i64_wrap (x + y)" "i64_wrap (x + i64_wrap y) = i64_wrap (x + y)"
  "i64_wrap (x - i64_wrap y) = i64_wrap (x - y)"
  unfolding i64_wrap_def by (simp_all only: centred_mod_cong)

lemma i64_wrap_diff_left: "i64_wrap (i64_wrap x - y) = i64_wrap (x - y)"
  using i64_wrap_cong(1) [of x "- y"] by simp

lemma set_tl_subset: "set (tl xs) \<subseteq> set xs"
  by (cases xs) auto

text \<open>
  The hub stamps on the session timeline and keeps both clocks paired: a sample with a
  source time is stamped no later than it arrived (and exactly at arrival minus its excess over
  the least delay in the window), its epoch twin is where the anchor locates that time, and it
  is the latest frame of its source, of no other one.
\<close>

theorem hub_maps_source_time_onto_the_session:
  assumes "hub source = Some e" "offset_ok (se_offset e)"
    "arrival = \<lparr>mono = t, epoch = locate anchor t\<rparr>" "in_i64 t" "in_i64 (t - src_ts)"
    "\<forall>d \<in> set (oe_deltas (se_offset e)). in_i64 (src_ts + d)"
  shows "\<exists>hub' t' est. push_with_source_ts source src_ts arrival vals hub = (hub', Some \<lparr>mono = t', epoch = locate anchor t'\<rparr>) \<and>
    offset_ns (offset_observe src_ts t (se_offset e)) = Some est \<and> t' = src_ts + est \<and> t' \<le> t \<and>
    map_option of_stamp (hub_latest source hub') = Some \<lparr>mono = t', epoch = locate anchor t'\<rparr> \<and>
    (\<forall>other. other \<noteq> source \<longrightarrow> hub_latest other hub' = hub_latest other hub)"
proof -
  let ?est = "offset_observe src_ts t (se_offset e)"
  have ds: "oe_deltas ?est = (if length (oe_deltas (se_offset e)) = oe_window (se_offset e)
      then tl (oe_deltas (se_offset e)) else oe_deltas (se_offset e)) @ [t - src_ts]"
    using offsets.items_push [OF assms(2)] assms(5) by (simp add: offset_observe_def i64_wrap_id)
  define est where "est = Min (set (oe_deltas ?est))"
  have off: "offset_ns ?est = Some est"
    using ds by (simp add: offset_ns_def list_min_spec est_def)
  have le: "est \<le> t - src_ts" unfolding est_def by (rule Min_le) (simp_all add: ds)
  have "est \<in> set (oe_deltas ?est)" unfolding est_def by (rule Min_in) (simp_all add: ds)
  then have "est = t - src_ts \<or> est \<in> set (oe_deltas (se_offset e))"
    using set_tl_subset [of "oe_deltas (se_offset e)"] by (auto simp: ds split: if_splits)
  then have i64: "i64_wrap (src_ts + est) = src_ts + est"
    using assms(4,6) by (auto simp: i64_wrap_id)
  have "mapped_stamp arrival (src_ts + est) = \<lparr>mono = src_ts + est, epoch = locate anchor (src_ts + est)\<rparr>"
    unfolding mapped_stamp_def assms(3) locate_def stamp.simps i64_wrap_cong i64_wrap_diff_left
    by (simp add: algebra_simps)
  then show ?thesis
    using assms(1,3) off le i64
    by (auto simp: push_with_source_ts_def offset_map_def hub_latest_def Let_def)
qed

theorem hub_maps_source_time_onto_the_session_witness:
  "\<exists>hub' t'. push_with_source_ts ''cam'' 50 \<lparr>mono = 1050, epoch = locate \<lparr>monotonic_ns = 0, unix_ns = 7\<rparr> 1050\<rparr> []
     (hub_register ''cam'' Map.empty) = (hub', Some \<lparr>mono = t', epoch = locate \<lparr>monotonic_ns = 0, unix_ns = 7\<rparr> t'\<rparr>) \<and>
     t' \<le> 1050"
proof -
  have "hub_register ''cam'' Map.empty ''cam'' = Some \<lparr>se_offset = offset_new 256, se_latest = None\<rparr>"
    by (simp add: hub_register_def)
  from hub_maps_source_time_onto_the_session [where hub = "hub_register ''cam'' Map.empty", OF this, of _ 1050 "\<lparr>monotonic_ns = 0, unix_ns = 7\<rparr>" 50 "[]"]
  show ?thesis
    by (auto simp: in_i64_def i64_min_def i64_max_def offset_ok_def offset_new_def)
qed

end
