(* ===== verification/Waddle_Client.thy ===== *)
theory Waddle_Client
  imports Waddle_Buffers "HOL-Library.Sublist"
begin

text \<open>
  The control-plane client (\<^verbatim>\<open>waddle-controlplane/src/client.rs\<close>, with the message
  classification of \<^verbatim>\<open>transport.rs\<close> and the flag names of
  \<^verbatim>\<open>flags.rs\<close>): one thread that dials, registers, replays the offline buffer and
  pumps, and that buffers while it waits. The thread is a step function over the answers of its
  environment (the transport's dial, the command channel, the server's messages, whether a
  write was taken, the shutdown flag); the sleeping between polls is not modelled. Bodies of
  wire messages that no decision reads are opaque strings.
\<close>

subsection \<open>Flags and messages\<close>

definition flag_acks :: string where "flag_acks = ''waddle.v0.plane.acks''"

definition flag_stills :: string where "flag_stills = ''waddle.v0.obs.stills''"

definition flag_parts :: string where "flag_parts = ''waddle.v0.parts''"

definition flag_chat :: string where "flag_chat = ''waddle.v0.agent.chat''"

definition flag_task_sessions :: string where "flag_task_sessions = ''waddle.v0.task.sessions''"

definition flag_calibration :: string where "flag_calibration = ''waddle.v0.calibration.measurements''"

definition flag_workspace_artifacts :: string where
  "flag_workspace_artifacts = ''waddle.v0.workspace.artifacts''"

definition flag_hosted_runs :: string where "flag_hosted_runs = ''waddle.v0.hosted.runs''"

definition flag_connector_binding :: string where "flag_connector_binding = ''waddle.v0.connector.binding''"

datatype observation_payload = OP_Proprio string | OP_Series | OP_Frame | OP_Still

datatype gate_payload =
    GP_Event | GP_VerbResult | GP_Status | GP_Ack | GP_ChatRequest | GP_TaskSessionRequest
  | GP_CalibrationMeasurement | GP_WorkspaceArtifactRequest | GP_HostedRunStatus

record register_request =
  rq_session_nonce :: string
  rq_customer_id :: string
  rq_workspace_id :: string
  rq_authorization_only :: bool
  rq_body :: string

datatype client_msg =
    CM_Register register_request
  | CM_Negotiate string
  | CM_Observation "observation_payload option" string
  | CM_Gate "gate_payload option" string
  | CM_Heartbeat string
  | CM_ClaimEpisode string
  | CM_HandoffLease string
  | CM_RequestReset string

fun is_droppable :: "client_msg \<Rightarrow> bool" where
  "is_droppable (CM_Heartbeat b) = True"
| "is_droppable (CM_Observation p b) = (p = Some OP_Still)"
| "is_droppable m = False"

fun observation_flag :: "observation_payload option \<Rightarrow> string option" where
  "observation_flag (Some (OP_Proprio part)) = (if part \<noteq> [] then Some flag_parts else None)"
| "observation_flag (Some OP_Still) = Some flag_stills"
| "observation_flag p = None"

fun gate_flag :: "gate_payload option \<Rightarrow> string option" where
  "gate_flag (Some GP_Ack) = Some flag_acks"
| "gate_flag (Some GP_ChatRequest) = Some flag_chat"
| "gate_flag (Some GP_TaskSessionRequest) = Some flag_task_sessions"
| "gate_flag (Some GP_CalibrationMeasurement) = Some flag_calibration"
| "gate_flag (Some GP_WorkspaceArtifactRequest) = Some flag_workspace_artifacts"
| "gate_flag (Some GP_HostedRunStatus) = Some flag_hosted_runs"
| "gate_flag p = None"

fun connection_scoped_flag :: "client_msg \<Rightarrow> string option" where
  "connection_scoped_flag (CM_Observation p b) = observation_flag p"
| "connection_scoped_flag (CM_Gate p b) = gate_flag p"
| "connection_scoped_flag m = None"

definition buffer_when_offline :: "client_msg \<Rightarrow> bool" where
  "buffer_when_offline m \<longleftrightarrow> \<not> is_droppable m \<and> connection_scoped_flag m = None"

record register_response =
  rr_accepted_feature_flags :: "string list"
  rr_body :: string

record registration_rejection =
  rj_code :: string
  rj_detail :: string

datatype server_msg =
    SM_Registered register_response
  | SM_RegistrationRejected registration_rejection
  | SM_Negotiated string
  | SM_Gate string
  | SM_HeartbeatAck string
  | SM_ClaimResponse string
  | SM_LeaseResponse string
  | SM_ResetProgress string

datatype plane_event =
    PE_Connected
  | PE_Registered register_response
  | PE_RegistrationRejected registration_rejection
  | PE_Server server_msg
  | PE_Disconnected
  | PE_BufferOverflowed u64

subsection \<open>The client thread\<close>

record client_config =
  cc_register :: register_request
  cc_backoff :: backoff
  cc_buffer_capacity :: nat

text \<open>What was written on one physical connection, and the flags it accepted once it answered.\<close>

record connection =
  conn_sent :: "client_msg list"
  conn_accepted :: "string list option"

datatype client_point =
    Dialing
  | AwaitingRegistration u64
  | Replaying
  | PumpTop
  | Outbound
  | Inbound
  | BackingOff nat u64
  | Stopped

record client =
  ct_point :: client_point
  ct_buffer :: "client_msg offline_buffer"
  ct_attempt :: u32
  ct_conns :: "connection list"
  ct_events :: "plane_event list"
  ct_taken :: "client_msg list"

definition client_new :: "client_config \<Rightarrow> client" where
  "client_new cfg = \<lparr>ct_point = Dialing, ct_buffer = offline_buffer_new (cc_buffer_capacity cfg),
     ct_attempt = 0, ct_conns = [], ct_events = [], ct_taken = []\<rparr>"

text \<open>The newest connection is the head of \<open>ct_conns\<close>; the events and the commands taken
  from the channel are kept in order.\<close>

definition surface :: "plane_event \<Rightarrow> client \<Rightarrow> client" where
  "surface ev c = c\<lparr>ct_events := ct_events c @ [ev]\<rparr>"

definition write_msg :: "client_msg \<Rightarrow> client \<Rightarrow> client" where
  "write_msg m c = c\<lparr>ct_conns := (case ct_conns c of [] \<Rightarrow> [] | k # ks \<Rightarrow> k\<lparr>conn_sent := conn_sent k @ [m]\<rparr> # ks)\<rparr>"

definition buffer_offline :: "client_msg \<Rightarrow> client_msg offline_buffer \<Rightarrow> client_msg offline_buffer" where
  "buffer_offline m b = (if buffer_when_offline m then buffer_push m b else b)"

definition buffer_pending :: "client_msg list \<Rightarrow> client \<Rightarrow> client" where
  "buffer_pending ms c = c\<lparr>ct_buffer := fold buffer_offline ms (ct_buffer c), ct_taken := ct_taken c @ ms\<rparr>"

definition report_overflow :: "u64 \<Rightarrow> client \<Rightarrow> client" where
  "report_overflow before c =
     (let dropped = ob_dropped (ct_buffer c) - before in
      if 0 < dropped then surface (PE_BufferOverflowed dropped) c else c)"

definition saturating_succ :: "u32 \<Rightarrow> u32" where
  "saturating_succ n = (if n = - 1 then n else n + 1)"

definition begin_backoff :: "client_config \<Rightarrow> client \<Rightarrow> client" where
  "begin_backoff cfg c =
     c\<lparr>ct_point := BackingOff (nat (delay_ns (cc_backoff cfg) (ct_attempt c))) (ob_dropped (ct_buffer c)),
       ct_attempt := saturating_succ (ct_attempt c)\<rparr>"

definition lose_connection :: "client_config \<Rightarrow> client \<Rightarrow> client" where
  "lose_connection cfg c = begin_backoff cfg (surface PE_Disconnected c)"

datatype dial_result = DialRefused | DialDead | DialOpen

definition client_dial :: "client_config \<Rightarrow> string \<Rightarrow> dial_result \<Rightarrow> client \<Rightarrow> client" where
  "client_dial cfg nonce r c = (case r of
     DialRefused \<Rightarrow> lose_connection cfg c
   | DialDead \<Rightarrow> lose_connection cfg (surface PE_Connected
       (c\<lparr>ct_conns := \<lparr>conn_sent = [], conn_accepted = None\<rparr> # ct_conns c\<rparr>))
   | DialOpen \<Rightarrow>
       (write_msg (CM_Register ((cc_register cfg)\<lparr>rq_session_nonce := nonce\<rparr>))
         (surface PE_Connected (c\<lparr>ct_conns := \<lparr>conn_sent = [], conn_accepted = None\<rparr> # ct_conns c\<rparr>)))
       \<lparr>ct_point := AwaitingRegistration (ob_dropped (ct_buffer c))\<rparr>)"

datatype rx_result = RxEmpty | RxMsg server_msg | RxDead

definition connector_binding_required :: "client_config \<Rightarrow> bool" where
  "connector_binding_required cfg \<longleftrightarrow> rq_customer_id (cc_register cfg) \<noteq> [] \<or>
     rq_workspace_id (cc_register cfg) \<noteq> [] \<or> rq_authorization_only (cc_register cfg)"

definition accept_registration :: "client_config \<Rightarrow> register_response \<Rightarrow> client \<Rightarrow> client" where
  "accept_registration cfg r c =
     (let c = surface (PE_Registered r) (c\<lparr>ct_conns := (case ct_conns c of [] \<Rightarrow> []
              | k # ks \<Rightarrow> k\<lparr>conn_accepted := Some (rr_accepted_feature_flags r)\<rparr> # ks)\<rparr>)
      in if connector_binding_required cfg \<and> flag_connector_binding \<notin> set (rr_accepted_feature_flags r)
         then lose_connection cfg c
         else c\<lparr>ct_point := Replaying, ct_attempt := 0\<rparr>)"

definition registration_outcome :: "client_config \<Rightarrow> rx_result \<Rightarrow> client \<Rightarrow> client" where
  "registration_outcome cfg rx c = (case rx of
     RxMsg (SM_Registered r) \<Rightarrow> accept_registration cfg r c
   | RxMsg (SM_RegistrationRejected rj) \<Rightarrow> lose_connection cfg (surface (PE_RegistrationRejected rj) c)
   | _ \<Rightarrow> lose_connection cfg c)"

text \<open>One poll of the handshake. \<open>shutdown\<close> is the flag as the thread reads it when the
  handshake has an outcome: it then leaves without acting on the outcome.\<close>

definition await_poll ::
  "client_config \<Rightarrow> u64 \<Rightarrow> client_msg list \<Rightarrow> rx_result \<Rightarrow> bool \<Rightarrow> client \<Rightarrow> client" where
  "await_poll cfg before ms rx shutdown c =
     (let c = buffer_pending ms c in
      if rx = RxEmpty then c
      else let c = report_overflow before c in
        if shutdown then c\<lparr>ct_point := Stopped\<rparr> else registration_outcome cfg rx c)"

text \<open>The replay of the offline buffer, of which the connection takes the first \<open>taken\<close>
  messages before it dies; the failed write and the unattempted rest are buffered again.\<close>

definition replay_buffer :: "client_config \<Rightarrow> nat \<Rightarrow> client \<Rightarrow> client" where
  "replay_buffer cfg taken c =
     (let (pending, b) = offline_buffer_drain (ct_buffer c);
          c = fold write_msg (take taken pending) (c\<lparr>ct_buffer := b\<rparr>)
      in if length pending \<le> taken then c\<lparr>ct_point := PumpTop\<rparr>
         else lose_connection cfg
           (c\<lparr>ct_buffer := fold buffer_offline (drop taken pending) (ct_buffer c)\<rparr>))"

definition current_accepted :: "client \<Rightarrow> string list" where
  "current_accepted c = (case ct_conns c of [] \<Rightarrow> []
     | k # ks \<Rightarrow> (case conn_accepted k of None \<Rightarrow> [] | Some fs \<Rightarrow> fs))"

definition flag_allows :: "string list \<Rightarrow> client_msg \<Rightarrow> bool" where
  "flag_allows acc m \<longleftrightarrow> (case connection_scoped_flag m of None \<Rightarrow> True | Some f \<Rightarrow> f \<in> set acc)"

definition pump_command :: "client_msg \<Rightarrow> bool \<Rightarrow> client \<Rightarrow> client" where
  "pump_command m sent c =
     (let c = c\<lparr>ct_taken := ct_taken c @ [m]\<rparr> in
      if \<not> flag_allows (current_accepted c) m then c
      else if sent then write_msg m c
      else surface PE_Disconnected
             (c\<lparr>ct_buffer := buffer_offline m (ct_buffer c), ct_point := Dialing\<rparr>))"

definition pump_inbound :: "client_config \<Rightarrow> rx_result \<Rightarrow> client \<Rightarrow> client" where
  "pump_inbound cfg rx c = (case rx of
     RxMsg (SM_Registered r) \<Rightarrow> (surface PE_Disconnected c)\<lparr>ct_point := Dialing\<rparr>
   | RxMsg m \<Rightarrow> (surface (PE_Server m) c)\<lparr>ct_point := PumpTop\<rparr>
   | RxEmpty \<Rightarrow> c\<lparr>ct_point := PumpTop\<rparr>
   | RxDead \<Rightarrow> lose_connection cfg c)"

definition backoff_slice :: nat where "backoff_slice = 5000000"

definition backoff_poll :: "nat \<Rightarrow> u64 \<Rightarrow> client_msg list \<Rightarrow> bool \<Rightarrow> client \<Rightarrow> client" where
  "backoff_poll remaining before ms shutdown c =
     (let c = buffer_pending ms c in
      if remaining = 0 \<or> shutdown
      then (report_overflow before c)\<lparr>ct_point := (if shutdown then Stopped else Dialing)\<rparr>
      else c\<lparr>ct_point := BackingOff (remaining - min remaining backoff_slice) before\<rparr>)"

datatype client_input =
    CI_Dial string dial_result
  | CI_Await "client_msg list" rx_result bool
  | CI_Replay nat
  | CI_Pump
  | CI_Command client_msg bool
  | CI_NoCommand
  | CI_Inbound rx_result
  | CI_Backoff "client_msg list"
  | CI_Shutdown "client_msg list"
  | CI_HandleDropped

text \<open>One turn of the thread. An input that the current program point does not poll gives
  \<open>None\<close>. A shutdown seen in a backoff drains the channel once more; elsewhere the thread
  leaves at once. \<open>CI_HandleDropped\<close> is the command channel without a sender.\<close>

fun client_turn :: "client_config \<Rightarrow> client_point \<Rightarrow> client_input \<Rightarrow> client \<Rightarrow> client option" where
  "client_turn cfg Dialing (CI_Dial nonce r) c = Some (client_dial cfg nonce r c)"
| "client_turn cfg Dialing (CI_Shutdown ms) c = Some (c\<lparr>ct_point := Stopped\<rparr>)"
| "client_turn cfg (AwaitingRegistration before) (CI_Await ms rx stop) c = Some (await_poll cfg before ms rx stop c)"
| "client_turn cfg (AwaitingRegistration before) (CI_Shutdown ms) c =
     Some ((report_overflow before c)\<lparr>ct_point := Stopped\<rparr>)"
| "client_turn cfg Replaying (CI_Replay taken) c = Some (replay_buffer cfg taken c)"
| "client_turn cfg PumpTop CI_Pump c = Some (c\<lparr>ct_point := Outbound\<rparr>)"
| "client_turn cfg PumpTop (CI_Shutdown ms) c = Some (c\<lparr>ct_point := Stopped\<rparr>)"
| "client_turn cfg Outbound (CI_Command m sent) c = Some (pump_command m sent c)"
| "client_turn cfg Outbound CI_NoCommand c = Some (c\<lparr>ct_point := Inbound\<rparr>)"
| "client_turn cfg Outbound CI_HandleDropped c = Some (c\<lparr>ct_point := Stopped\<rparr>)"
| "client_turn cfg Inbound (CI_Inbound rx) c = Some (pump_inbound cfg rx c)"
| "client_turn cfg (BackingOff remaining before) (CI_Backoff ms) c =
     Some (backoff_poll remaining before ms False c)"
| "client_turn cfg (BackingOff remaining before) (CI_Shutdown ms) c =
     Some (backoff_poll remaining before ms True c)"
| "client_turn cfg p i c = None"

definition client_step :: "client_config \<Rightarrow> client \<Rightarrow> client_input \<Rightarrow> client option" where
  "client_step cfg c i = client_turn cfg (ct_point c) i c"

inductive client_reachable :: "client_config \<Rightarrow> client \<Rightarrow> bool" for cfg :: client_config where
  start: "client_reachable cfg (client_new cfg)"
| turn: "client_reachable cfg c \<Longrightarrow> client_step cfg c i = Some c' \<Longrightarrow> client_reachable cfg c'"

subsection \<open>Frame lemmas\<close>

named_theorems client_simps \<open>projections of the client operations\<close>

lemma surface_simps [client_simps]:
  "ct_point (surface ev c) = ct_point c" "ct_buffer (surface ev c) = ct_buffer c"
  "ct_attempt (surface ev c) = ct_attempt c" "ct_conns (surface ev c) = ct_conns c"
  "ct_events (surface ev c) = ct_events c @ [ev]" "ct_taken (surface ev c) = ct_taken c"
  by (simp_all add: surface_def)

lemma write_msg_simps [client_simps]:
  "ct_point (write_msg m c) = ct_point c" "ct_buffer (write_msg m c) = ct_buffer c"
  "ct_events (write_msg m c) = ct_events c" "ct_taken (write_msg m c) = ct_taken c"
  by (simp_all add: write_msg_def)

lemma write_msgs_simps [client_simps]:
  "ct_point (fold write_msg ms c) = ct_point c" "ct_buffer (fold write_msg ms c) = ct_buffer c"
  "ct_events (fold write_msg ms c) = ct_events c" "ct_taken (fold write_msg ms c) = ct_taken c"
  by (induction ms arbitrary: c) (simp_all add: client_simps)

lemma write_msgs_conns [client_simps]:
  "ct_conns (fold write_msg ms c) =
     (case ct_conns c of [] \<Rightarrow> [] | k # ks \<Rightarrow> k\<lparr>conn_sent := conn_sent k @ ms\<rparr> # ks)"
  by (induction ms arbitrary: c) (auto simp: write_msg_def split: list.split)

lemma buffer_pending_simps [client_simps]:
  "ct_point (buffer_pending ms c) = ct_point c" "ct_conns (buffer_pending ms c) = ct_conns c"
  "ct_events (buffer_pending ms c) = ct_events c" "ct_taken (buffer_pending ms c) = ct_taken c @ ms"
  "ct_buffer (buffer_pending ms c) = fold buffer_offline ms (ct_buffer c)"
  by (simp_all add: buffer_pending_def)

lemma report_overflow_simps [client_simps]:
  "ct_point (report_overflow b c) = ct_point c" "ct_conns (report_overflow b c) = ct_conns c"
  "ct_buffer (report_overflow b c) = ct_buffer c" "ct_taken (report_overflow b c) = ct_taken c"
  by (simp_all add: report_overflow_def Let_def client_simps)

lemma lose_connection_simps [client_simps]:
  "ct_point (lose_connection cfg c) =
     BackingOff (nat (delay_ns (cc_backoff cfg) (ct_attempt c))) (ob_dropped (ct_buffer c))"
  "ct_conns (lose_connection cfg c) = ct_conns c" "ct_buffer (lose_connection cfg c) = ct_buffer c"
  "ct_taken (lose_connection cfg c) = ct_taken c"
  "ct_events (lose_connection cfg c) = ct_events c @ [PE_Disconnected]"
  by (simp_all add: lose_connection_def begin_backoff_def client_simps)

lemma fold_buffer_offline: "fold buffer_offline ms b = fold buffer_push (filter buffer_when_offline ms) b"
  by (induction ms arbitrary: b) (simp_all add: buffer_offline_def)

subsection \<open>What a connection may carry\<close>

definition binding_ok :: "client_config \<Rightarrow> string list \<Rightarrow> bool" where
  "binding_ok cfg acc \<longleftrightarrow> (connector_binding_required cfg \<longrightarrow> flag_connector_binding \<in> set acc)"

fun barrier_first :: "client_config \<Rightarrow> client_msg list \<Rightarrow> bool" where
  "barrier_first cfg [] = True"
| "barrier_first cfg (m # ms) \<longleftrightarrow> (\<exists>nonce. m = CM_Register ((cc_register cfg)\<lparr>rq_session_nonce := nonce\<rparr>))"

definition conn_ok :: "client_config \<Rightarrow> connection \<Rightarrow> bool" where
  "conn_ok cfg k \<longleftrightarrow> barrier_first cfg (conn_sent k) \<and>
     (tl (conn_sent k) \<noteq> [] \<longrightarrow> (case conn_accepted k of None \<Rightarrow> False
        | Some acc \<Rightarrow> binding_ok cfg acc \<and> list_all (flag_allows acc) (tl (conn_sent k))))"

fun pumping :: "client_point \<Rightarrow> bool" where
  "pumping PumpTop = True"
| "pumping Outbound = True"
| "pumping Inbound = True"
| "pumping p = False"

definition live_ok :: "client_config \<Rightarrow> client_point \<Rightarrow> connection list \<Rightarrow> bool" where
  "live_ok cfg p ks \<longleftrightarrow> (case p of
     AwaitingRegistration b \<Rightarrow> ks \<noteq> [] \<and> length (conn_sent (hd ks)) = 1
   | _ \<Rightarrow> p = Replaying \<or> pumping p \<longrightarrow> ks \<noteq> [] \<and> conn_sent (hd ks) \<noteq> [] \<and>
       (case conn_accepted (hd ks) of None \<Rightarrow> False | Some acc \<Rightarrow> binding_ok cfg acc))"

definition client_inv :: "client_config \<Rightarrow> client \<Rightarrow> bool" where
  "client_inv cfg c \<longleftrightarrow> buffer_ok (ct_buffer c) \<and>
     list_all buffer_when_offline (ob_items (ct_buffer c)) \<and>
     (pumping (ct_point c) \<longrightarrow> ob_items (ct_buffer c) = []) \<and>
     list_all (conn_ok cfg) (ct_conns c) \<and> live_ok cfg (ct_point c) (ct_conns c)"

lemma offline_keeps:
  assumes "buffer_ok b" "list_all buffer_when_offline (ob_items b)"
  shows "buffer_ok (fold buffer_offline ms b)" "list_all buffer_when_offline (ob_items (fold buffer_offline ms b))"
proof -
  let ?ms = "filter buffer_when_offline ms"
  show "buffer_ok (fold buffer_offline ms b)"
    using offline.invar_pushes [OF assms(1)] by (simp add: fold_buffer_offline)
  have "set (newest (ob_capacity b) (ob_items b @ ?ms)) \<subseteq> set (ob_items b @ ?ms)"
    by (simp only: newest_def set_drop_subset)
  then show "list_all buffer_when_offline (ob_items (fold buffer_offline ms b))"
    using assms(2) offline.items_pushes [OF assms(1), of ?ms] by (auto simp: fold_buffer_offline list_all_iff)
qed

lemma refill:
  "list_all buffer_when_offline ms \<Longrightarrow> length (ob_items b) + length ms \<le> ob_capacity b \<Longrightarrow>
   fold buffer_offline ms b = b\<lparr>ob_items := ob_items b @ ms\<rparr>"
proof (induction ms arbitrary: b)
  case (Cons m ms)
  have "buffer_offline m b = b\<lparr>ob_items := ob_items b @ [m]\<rparr>"
    using Cons.prems by (simp add: buffer_offline_def buffer_push_def offline_buffer_push_def Let_def)
  with Cons show ?case by simp
qed simp

lemma replay_refill:
  assumes "buffer_ok b" "list_all buffer_when_offline (ob_items b)"
  shows "fold buffer_offline (drop n (ob_items b)) (b\<lparr>ob_items := []\<rparr>) = b\<lparr>ob_items := drop n (ob_items b)\<rparr>"
proof -
  have "list_all buffer_when_offline (drop n (ob_items b))"
    using assms(2) in_set_dropD by (fastforce simp: list_all_iff)
  moreover have "length (drop n (ob_items b)) \<le> ob_capacity b"
    using assms(1) by (auto simp: buffer_ok_def)
  ultimately show ?thesis
    using refill [of "drop n (ob_items b)" "b\<lparr>ob_items := []\<rparr>"] by simp
qed

lemma replay_cases:
  assumes "buffer_ok (ct_buffer c)" "list_all buffer_when_offline (ob_items (ct_buffer c))"
  shows "replay_buffer cfg n c =
    (let c' = (fold write_msg (take n (ob_items (ct_buffer c))) c)
         \<lparr>ct_buffer := (ct_buffer c)\<lparr>ob_items := drop n (ob_items (ct_buffer c))\<rparr>\<rparr>
     in if length (ob_items (ct_buffer c)) \<le> n then c'\<lparr>ct_point := PumpTop\<rparr> else lose_connection cfg c')"
proof -
  have "write_msg m (c\<lparr>ct_buffer := b\<rparr>) = (write_msg m c)\<lparr>ct_buffer := b\<rparr>" for m b c
    by (simp add: write_msg_def)
  then have "fold write_msg ms (c\<lparr>ct_buffer := b\<rparr>) = (fold write_msg ms c)\<lparr>ct_buffer := b\<rparr>" for ms b c
    by (induction ms arbitrary: c) simp_all
  with replay_refill [OF assms] show ?thesis
    by (simp add: replay_buffer_def offline_buffer_drain_def Let_def)
qed

text \<open>Writing history that the flags allow on a connection past its barrier.\<close>

lemma conn_ok_write:
  assumes "conn_ok cfg k" "conn_sent k \<noteq> []" "conn_accepted k = Some acc" "binding_ok cfg acc"
    "list_all (flag_allows acc) ms"
  shows "conn_ok cfg (k\<lparr>conn_sent := conn_sent k @ ms\<rparr>)"
  using assms by (cases "conn_sent k") (auto simp: conn_ok_def)

lemma history_allowed: "list_all buffer_when_offline ms \<Longrightarrow> list_all (flag_allows acc) ms"
  by (auto simp: list_all_iff buffer_when_offline_def flag_allows_def)

lemmas client_inv_defs = client_inv_def live_ok_def

lemma dial_keeps:
  assumes "client_inv cfg c"
  shows "client_inv cfg (client_dial cfg nonce r c)"
  using assms
  by (cases r) (auto simp: client_inv_defs client_dial_def client_simps write_msg_def conn_ok_def)

lemma accept_registration_keeps:
  assumes "client_inv cfg c" "ct_point c = AwaitingRegistration b"
  shows "client_inv cfg (accept_registration cfg r c)"
proof -
  obtain k ks m where k: "ct_conns c = k # ks" "conn_sent k = [m]"
    using assms by (cases "ct_conns c"; cases "conn_sent (hd (ct_conns c))") (auto simp: client_inv_defs)
  with assms show ?thesis
    by (auto simp: client_inv_defs accept_registration_def client_simps conn_ok_def binding_ok_def Let_def)
qed

lemma buffer_pending_keeps: "client_inv cfg c \<Longrightarrow> \<not> pumping (ct_point c) \<Longrightarrow> client_inv cfg (buffer_pending ms c)"
  by (simp add: client_inv_def client_simps offline_keeps)

lemma report_overflow_keeps: "client_inv cfg (report_overflow b c) = client_inv cfg c"
  by (simp add: client_inv_def client_simps)

lemma lose_connection_keeps: "client_inv cfg c \<Longrightarrow> client_inv cfg (lose_connection cfg c)"
  by (simp add: client_inv_defs client_simps)

lemma surface_keeps: "client_inv cfg (surface ev c) = client_inv cfg c"
  by (simp add: client_inv_def client_simps)

lemma leave_keeps: "client_inv cfg c \<Longrightarrow> client_inv cfg (c\<lparr>ct_point := Stopped\<rparr>)"
  "client_inv cfg c \<Longrightarrow> client_inv cfg (c\<lparr>ct_point := Dialing\<rparr>)"
  "client_inv cfg c \<Longrightarrow> client_inv cfg (c\<lparr>ct_point := BackingOff n b\<rparr>)"
  by (simp_all add: client_inv_defs)

lemma pump_keeps: "client_inv cfg c \<Longrightarrow> pumping (ct_point c) \<Longrightarrow> pumping p \<Longrightarrow> client_inv cfg (c\<lparr>ct_point := p\<rparr>)"
  by (cases p; cases "ct_point c") (simp_all add: client_inv_defs)

lemma await_poll_keeps:
  assumes "client_inv cfg c" "ct_point c = AwaitingRegistration b"
  shows "client_inv cfg (await_poll cfg b ms rx stop c)"
proof -
  let ?c = "report_overflow b (buffer_pending ms c)"
  have c: "client_inv cfg (buffer_pending ms c)" using assms by (simp add: buffer_pending_keeps)
  then have c': "client_inv cfg ?c" "ct_point ?c = AwaitingRegistration b"
    using assms(2) by (simp_all add: report_overflow_keeps client_simps)
  have "client_inv cfg (registration_outcome cfg rx ?c)"
    unfolding registration_outcome_def using c'
    by (auto split: rx_result.split server_msg.split
        intro: lose_connection_keeps accept_registration_keeps simp: surface_keeps)
  with c c' show ?thesis by (simp add: await_poll_def Let_def leave_keeps)
qed

lemma live_conn:
  assumes "client_inv cfg c" "ct_point c = Replaying \<or> pumping (ct_point c)"
  obtains k ks acc where "ct_conns c = k # ks" "conn_sent k \<noteq> []" "conn_accepted k = Some acc" "binding_ok cfg acc"
    "conn_ok cfg k" "list_all (conn_ok cfg) ks"
  using assms
  by (cases "ct_conns c"; cases "ct_point c"; cases "conn_accepted (hd (ct_conns c))") (auto simp: client_inv_defs)

lemma replay_keeps:
  assumes "client_inv cfg c" "ct_point c = Replaying"
  shows "client_inv cfg (replay_buffer cfg n c)"
proof -
  obtain k ks acc where k: "ct_conns c = k # ks" "conn_sent k \<noteq> []" "conn_accepted k = Some acc" "binding_ok cfg acc"
    "conn_ok cfg k" "list_all (conn_ok cfg) ks" using live_conn assms by metis
  let ?items = "ob_items (ct_buffer c)"
  have b: "buffer_ok (ct_buffer c)" "list_all buffer_when_offline ?items" using assms by (simp_all add: client_inv_def)
  have "list_all buffer_when_offline (take n ?items)" "list_all buffer_when_offline (drop n ?items)"
    using b(2) in_set_takeD in_set_dropD by (fastforce simp: list_all_iff)+
  moreover from this have "conn_ok cfg (k\<lparr>conn_sent := conn_sent k @ take n ?items\<rparr>)"
    using conn_ok_write [OF k(5,2,3,4)] history_allowed by blast
  ultimately show ?thesis
    using b k(1-4,6) assms(2)
    by (auto simp: replay_cases [OF b] client_inv_defs client_simps Let_def buffer_ok_def)
qed

lemma pump_command_keeps:
  assumes "client_inv cfg c" "ct_point c = Outbound"
  shows "client_inv cfg (pump_command m sent c)"
proof -
  obtain k ks acc where k: "ct_conns c = k # ks" "conn_sent k \<noteq> []" "conn_accepted k = Some acc" "binding_ok cfg acc"
    "conn_ok cfg k" "list_all (conn_ok cfg) ks" using live_conn assms by (metis pumping.simps(2))
  have acc: "current_accepted (c\<lparr>ct_taken := ts\<rparr>) = acc" for ts using k by (simp add: current_accepted_def)
  have "flag_allows acc m \<Longrightarrow> conn_ok cfg (k\<lparr>conn_sent := conn_sent k @ [m]\<rparr>)"
    using conn_ok_write [OF k(5,2,3,4), of "[m]"] by simp
  then show ?thesis
    using assms k(1-4,6) offline_keeps [of "ct_buffer c" "[m]"]
    by (auto simp: pump_command_def acc client_inv_defs client_simps write_msg_def Let_def)
qed

lemma pump_inbound_keeps:
  assumes "client_inv cfg c" "ct_point c = Inbound"
  shows "client_inv cfg (pump_inbound cfg rx c)"
  using assms unfolding pump_inbound_def
  by (auto split: rx_result.split server_msg.split
      intro!: lose_connection_keeps leave_keeps pump_keeps simp: surface_keeps client_simps)

lemma backoff_poll_keeps:
  assumes "client_inv cfg c" "ct_point c = BackingOff n b"
  shows "client_inv cfg (backoff_poll n b ms stop c)"
  using buffer_pending_keeps [OF assms(1), of ms] assms(2)
  by (auto simp: backoff_poll_def Let_def report_overflow_keeps intro!: leave_keeps)

lemma client_turn_keeps:
  assumes "client_turn cfg p i c = Some c'" "client_inv cfg c" "ct_point c = p"
  shows "client_inv cfg c'"
  using assms
  by (induction cfg p i c rule: client_turn.induct)
    (auto simp: report_overflow_keeps intro!: dial_keeps await_poll_keeps replay_keeps pump_command_keeps
      pump_inbound_keeps backoff_poll_keeps leave_keeps pump_keeps)

lemma client_reachable_inv: "client_reachable cfg c \<Longrightarrow> client_inv cfg c"
proof (induction rule: client_reachable.induct)
  case start
  show ?case by (simp add: client_inv_defs client_new_def offline_buffer_new_def buffer_ok_def)
next
  case (turn c i c')
  then show ?case by (auto simp: client_step_def intro: client_turn_keeps)
qed

text \<open>
  C15. Registration is a barrier and flags are per connection: on every connection the client
  ever opened, nothing precedes its Register; anything after it was written only once the
  connection had answered, with the connector binding accepted when the registration needs it,
  and every message whose content depends on a feature flag left on a connection that accepted
  that flag.
\<close>

theorem registration_is_a_barrier:
  assumes "client_reachable cfg c" "k \<in> set (ct_conns c)" "conn_sent k = first # rest"
  shows "(\<exists>nonce. first = CM_Register ((cc_register cfg)\<lparr>rq_session_nonce := nonce\<rparr>)) \<and>
    (rest \<noteq> [] \<longrightarrow> (\<exists>acc. conn_accepted k = Some acc \<and>
      (connector_binding_required cfg \<longrightarrow> flag_connector_binding \<in> set acc) \<and>
      (\<forall>m f. m \<in> set rest \<longrightarrow> connection_scoped_flag m = Some f \<longrightarrow> f \<in> set acc)))"
proof -
  have "conn_ok cfg k"
    using client_reachable_inv [OF assms(1)] assms(2) by (auto simp: client_inv_def list_all_iff)
  with assms(3) show ?thesis
    by (fastforce simp: conn_ok_def binding_ok_def flag_allows_def list_all_iff split: option.splits)
qed

subsection \<open>History is kept in order\<close>

definition sent_after_barrier :: "connection list \<Rightarrow> client_msg list" where
  "sent_after_barrier ks = concat (map (\<lambda>k. tl (conn_sent k)) (rev ks))"

definition sent_history :: "client \<Rightarrow> client_msg list" where
  "sent_history c = filter buffer_when_offline (sent_after_barrier (ct_conns c))"

definition history_ok :: "client \<Rightarrow> bool" where
  "history_ok c \<longleftrightarrow> (let hist = filter buffer_when_offline (ct_taken c); kept = sent_history c @ ob_items (ct_buffer c)
     in subseq kept hist \<and> of_nat (length hist) = of_nat (length kept) + ob_dropped (ct_buffer c))"

lemma sent_history_conns: "ct_conns c' = ct_conns c \<Longrightarrow> sent_history c' = sent_history c"
  by (simp add: sent_history_def)

lemma sent_after_barrier_write:
  "conn_sent k \<noteq> [] \<Longrightarrow> sent_after_barrier (k\<lparr>conn_sent := conn_sent k @ ms\<rparr> # ks) =
   sent_after_barrier (k # ks) @ ms"
  by (simp add: sent_after_barrier_def)

lemma history_ok_cong:
  assumes "sent_history c' @ ob_items (ct_buffer c') = sent_history c @ ob_items (ct_buffer c)"
    "ob_dropped (ct_buffer c') = ob_dropped (ct_buffer c)"
    "filter buffer_when_offline (ct_taken c') = filter buffer_when_offline (ct_taken c)"
  shows "history_ok c' = history_ok c"
  using assms by (simp add: history_ok_def Let_def)

text \<open>Two contexts that differ in none of what the invariant reads.\<close>

lemma history_ok_same [client_simps]:
  "history_ok (surface ev c) = history_ok c" "history_ok (report_overflow b c) = history_ok c"
  "history_ok (lose_connection cfg c) = history_ok c" "history_ok (c\<lparr>ct_point := p\<rparr>) = history_ok c"
  "history_ok (c\<lparr>ct_attempt := a\<rparr>) = history_ok c"
  by (rule history_ok_cong; simp add: client_simps sent_history_def)+

lemma history_offline:
  assumes "history_ok c" "buffer_ok (ct_buffer c)"
  shows "history_ok (buffer_pending ms c)"
proof -
  let ?h = "filter buffer_when_offline ms" and ?hist = "filter buffer_when_offline (ct_taken c)"
  let ?b = "ct_buffer c" and ?sent = "sent_history c"
  have sent: "sent_history (buffer_pending ms c) = ?sent" by (rule sent_history_conns) (simp add: client_simps)
  have items: "ob_items (ct_buffer (buffer_pending ms c)) = newest (ob_capacity ?b) (ob_items ?b @ ?h)"
    using offline.items_pushes [OF assms(2)] by (simp add: client_simps fold_buffer_offline)
  have "subseq (?sent @ newest (ob_capacity ?b) (ob_items ?b @ ?h)) (?sent @ (ob_items ?b @ ?h))"
    unfolding newest_def by (intro list_emb_append_mono suffix_imp_subseq suffix_drop) simp
  also have "subseq (?sent @ (ob_items ?b @ ?h)) (?hist @ ?h)"
    using assms(1) list_emb_append_mono [of "(=)" "?sent @ ob_items ?b" ?hist ?h ?h]
    by (simp add: history_ok_def Let_def)
  finally have sub: "subseq (?sent @ newest (ob_capacity ?b) (ob_items ?b @ ?h)) (?hist @ ?h)" .
  have "of_nat (length (?hist @ ?h)) = of_nat (length ?sent + min (ob_capacity ?b) (length (ob_items ?b @ ?h))) +
      (ob_dropped ?b + of_nat (length (ob_items ?b) + length ?h - ob_capacity ?b))"
  proof -
    have "length (ob_items ?b) + length ?h = min (ob_capacity ?b) (length (ob_items ?b @ ?h)) +
        (length (ob_items ?b) + length ?h - ob_capacity ?b)" by simp
    then have "(of_nat (length (ob_items ?b) + length ?h) :: u64) = of_nat (min (ob_capacity ?b) (length (ob_items ?b @ ?h))) +
        of_nat (length (ob_items ?b) + length ?h - ob_capacity ?b)" by (metis of_nat_add)
    with assms(1) show ?thesis by (simp add: history_ok_def Let_def algebra_simps)
  qed
  with sub sent items buffer_dropped [OF assms(2), of ?h] show ?thesis
    by (simp add: history_ok_def Let_def client_simps length_newest fold_buffer_offline)
qed

lemma history_dial: "history_ok c \<Longrightarrow> history_ok (client_dial cfg nonce r c)"
  by (cases r) (auto simp: client_dial_def client_simps write_msg_def sent_history_def sent_after_barrier_def
      elim!: iffD2 [OF history_ok_cong, rotated -1])

lemma history_accept: "history_ok c \<Longrightarrow> history_ok (accept_registration cfg r c)"
proof -
  assume "history_ok c"
  moreover have "history_ok (surface ev (c\<lparr>ct_conns := (case ct_conns c of [] \<Rightarrow> []
      | k # ks \<Rightarrow> k\<lparr>conn_accepted := a\<rparr> # ks)\<rparr>)) = history_ok c" for a ev
    by (rule history_ok_cong)
      (auto simp: client_simps sent_history_def sent_after_barrier_def split: list.split)
  ultimately show ?thesis
    by (simp add: accept_registration_def Let_def client_simps)
qed

lemma history_await:
  assumes "history_ok c" "client_inv cfg c"
  shows "history_ok (await_poll cfg b ms rx stop c)"
proof -
  have c: "history_ok (buffer_pending ms c)"
    using history_offline [OF assms(1)] assms(2) by (simp add: client_inv_def)
  then have "history_ok (registration_outcome cfg rx (report_overflow b (buffer_pending ms c)))"
    unfolding registration_outcome_def
    by (auto split: rx_result.split server_msg.split intro!: history_accept simp: client_simps)
  with c show ?thesis by (simp add: await_poll_def Let_def client_simps)
qed

lemma history_replay:
  assumes "history_ok c" "client_inv cfg c" "ct_point c = Replaying"
  shows "history_ok (replay_buffer cfg n c)"
proof -
  obtain k ks where k: "ct_conns c = k # ks" "conn_sent k \<noteq> []" using live_conn assms(2,3) by metis
  let ?items = "ob_items (ct_buffer c)"
  have b: "buffer_ok (ct_buffer c)" "list_all buffer_when_offline ?items" using assms by (simp_all add: client_inv_def)
  let ?c' = "(fold write_msg (take n ?items) c)\<lparr>ct_buffer := (ct_buffer c)\<lparr>ob_items := drop n ?items\<rparr>\<rparr>"
  have "filter buffer_when_offline (take n ?items) = take n ?items"
    using b(2) in_set_takeD by (fastforce simp: list_all_iff filter_id_conv)
  then have "sent_history ?c' = sent_history c @ take n ?items"
    using k by (simp add: sent_history_def client_simps sent_after_barrier_write)
  then have "history_ok ?c' = history_ok c"
    by (intro history_ok_cong) (simp_all add: client_simps)
  with assms(1) show ?thesis unfolding replay_cases [OF b] Let_def by (simp only: history_ok_same split: if_split) simp
qed

lemma history_pump:
  assumes "history_ok c" "client_inv cfg c" "ct_point c = Outbound"
  shows "history_ok (pump_command m sent c)"
proof -
  obtain k ks acc where k: "ct_conns c = k # ks" "conn_sent k \<noteq> []" "conn_accepted k = Some acc"
    using live_conn assms(2,3) by (metis pumping.simps(2))
  have items: "ob_items (ct_buffer c) = []" and cap: "0 < ob_capacity (ct_buffer c)"
    using assms(2,3) by (simp_all add: client_inv_def buffer_ok_def)
  let ?c = "c\<lparr>ct_taken := ct_taken c @ [m]\<rparr>"
  have acc: "current_accepted ?c = acc" using k by (simp add: current_accepted_def)
  have "\<not> flag_allows acc m \<Longrightarrow> \<not> buffer_when_offline m"
    by (auto simp: flag_allows_def buffer_when_offline_def)
  then have skip: "\<not> flag_allows acc m \<Longrightarrow> history_ok ?c"
    using assms(1) by (intro iffD2 [OF history_ok_cong assms(1)]) (simp_all add: sent_history_def)
  have sent: "history_ok (write_msg m ?c)"
    using assms(1) k items
    by (auto simp: history_ok_def Let_def sent_history_def client_simps write_msg_def sent_after_barrier_write
        intro: list_emb_append_mono)
  have "history_ok (buffer_pending [m] c)"
    using history_offline [OF assms(1)] assms(2) by (simp add: client_inv_def)
  then have "history_ok (?c\<lparr>ct_buffer := buffer_offline m (ct_buffer c), ct_point := Dialing\<rparr>)"
    by (rule iffD2 [OF history_ok_cong, rotated -1]) (simp_all add: client_simps sent_history_def)
  with skip sent show ?thesis by (simp add: pump_command_def Let_def acc client_simps)
qed

lemma history_turn:
  assumes "client_turn cfg p i c = Some c'" "history_ok c" "client_inv cfg c" "ct_point c = p"
  shows "history_ok c'"
proof -
  have drain: "history_ok (buffer_pending ms c)" for ms
    using history_offline [OF assms(2)] assms(3) by (simp add: client_inv_def)
  then have "history_ok (backoff_poll n b ms stop c)" for n b ms stop
    by (simp add: backoff_poll_def Let_def client_simps)
  moreover have "history_ok (pump_inbound cfg rx c)" for rx
    using assms(2) by (auto simp: pump_inbound_def client_simps split: rx_result.split server_msg.split)
  ultimately show ?thesis
    using assms history_dial [OF assms(2)] history_await [OF assms(2,3)] history_replay [OF assms(2,3)]
      history_pump [OF assms(2,3)]
    by (cases "(cfg, p, i, c)" rule: client_turn.cases) (auto simp: client_simps)
qed

lemma client_reachable_history: "client_reachable cfg c \<Longrightarrow> history_ok c"
proof (induction rule: client_reachable.induct)
  case start
  show ?case
    by (simp add: history_ok_def client_new_def offline_buffer_new_def sent_history_def sent_after_barrier_def)
next
  case (turn c i c')
  then show ?case
    by (auto simp: client_step_def intro: history_turn [OF _ _ client_reachable_inv])
qed

text \<open>
  C16. History is delivered in order and never lost silently: at any moment the history written
  on the connections so far, followed by what waits in the offline buffer, is a subsequence of
  the history taken from the command channel, and what is missing is exactly what the buffer's
  drop counter counts.
\<close>

theorem history_is_delivered_in_order:
  assumes "client_reachable cfg c"
  shows "subseq (sent_history c @ ob_items (ct_buffer c)) (filter buffer_when_offline (ct_taken c)) \<and>
    of_nat (length (filter buffer_when_offline (ct_taken c))) =
      of_nat (length (sent_history c) + length (ob_items (ct_buffer c))) + ob_dropped (ct_buffer c)"
  using client_reachable_history [OF assms] by (simp add: history_ok_def Let_def)

subsection \<open>Overflow is reported\<close>

fun overflow_of :: "plane_event \<Rightarrow> u64" where
  "overflow_of (PE_BufferOverflowed d) = d"
| "overflow_of ev = 0"

definition reported :: "client \<Rightarrow> u64" where
  "reported c = sum_list (map overflow_of (ct_events c))"

text \<open>What has been reported: everything dropped, or, while the thread drains the channel in a
  handshake or a backoff, everything dropped before that began.\<close>

definition to_report :: "client \<Rightarrow> u64" where
  "to_report c = (case ct_point c of AwaitingRegistration b \<Rightarrow> b | BackingOff n b \<Rightarrow> b
     | _ \<Rightarrow> ob_dropped (ct_buffer c))"

lemma reported_simps [client_simps]:
  "reported (surface ev c) = reported c + overflow_of ev"
  "reported (buffer_pending ms c) = reported c"
  "reported (write_msg m c) = reported c"
  "reported (c\<lparr>ct_point := p\<rparr>) = reported c" "reported (c\<lparr>ct_conns := ks\<rparr>) = reported c"
  "reported (c\<lparr>ct_buffer := b\<rparr>) = reported c" "reported (c\<lparr>ct_taken := ts\<rparr>) = reported c"
  "reported (fold write_msg ms c) = reported c"
  "reported (lose_connection cfg c) = reported c"
  by (simp_all add: reported_def client_simps)

lemma reported_overflow [client_simps]:
  "reported (report_overflow b c) = reported c + (ob_dropped (ct_buffer c) - b)"
  by (simp add: report_overflow_def Let_def client_simps word_gt_0)

lemma to_report_simps [client_simps]:
  "to_report (lose_connection cfg c) = ob_dropped (ct_buffer c)"
  "to_report (c\<lparr>ct_point := Stopped\<rparr>) = ob_dropped (ct_buffer c)"
  "to_report (c\<lparr>ct_point := Dialing\<rparr>) = ob_dropped (ct_buffer c)"
  "to_report (c\<lparr>ct_point := PumpTop\<rparr>) = ob_dropped (ct_buffer c)"
  "to_report (c\<lparr>ct_point := Outbound\<rparr>) = ob_dropped (ct_buffer c)"
  "to_report (c\<lparr>ct_point := Inbound\<rparr>) = ob_dropped (ct_buffer c)"
  "to_report (c\<lparr>ct_point := BackingOff n b\<rparr>) = b"
  by (simp_all add: to_report_def client_simps)

lemma reported_accept [client_simps]:
  "reported (accept_registration cfg r c) = reported c"
  "to_report (accept_registration cfg r c) = ob_dropped (ct_buffer c)"
  by (simp_all add: accept_registration_def Let_def client_simps) (simp_all add: to_report_def reported_def client_simps)

lemma reported_outcome [client_simps]:
  "reported (registration_outcome cfg rx c) = reported c"
  "to_report (registration_outcome cfg rx c) = ob_dropped (ct_buffer c)"
  by (auto simp: registration_outcome_def client_simps split: rx_result.split server_msg.split)

lemma reported_replay:
  assumes "client_inv cfg c" "ct_point c = Replaying" "reported c = to_report c"
  shows "reported (replay_buffer cfg n c) = to_report (replay_buffer cfg n c)"
proof -
  have b: "buffer_ok (ct_buffer c)" "list_all buffer_when_offline (ob_items (ct_buffer c))"
    using assms(1) by (simp_all add: client_inv_def)
  have "reported c = ob_dropped (ct_buffer c)" using assms(2,3) by (simp add: to_report_def)
  then show ?thesis by (simp add: replay_cases [OF b] Let_def client_simps)
qed

lemma reported_await:
  assumes "ct_point c = AwaitingRegistration b" "reported c = to_report c"
  shows "reported (await_poll cfg b ms rx stop c) = to_report (await_poll cfg b ms rx stop c)"
proof (cases "rx = RxEmpty")
  case True
  with assms show ?thesis by (simp add: await_poll_def Let_def client_simps to_report_def)
next
  case False
  have "reported c = b" using assms by (simp add: to_report_def)
  with False show ?thesis by (simp add: await_poll_def Let_def client_simps)
qed

lemma reported_turn:
  assumes "client_turn cfg p i c = Some c'" "client_inv cfg c" "ct_point c = p" "reported c = to_report c"
  shows "reported c' = to_report c'"
proof (cases "(cfg, p, i, c)" rule: client_turn.cases)
  case (1 cfg' nonce r c'')
  then show ?thesis using assms
    by (cases r) (auto simp: client_dial_def client_simps to_report_def)
next
  case (3 cfg' b ms rx stop c'')
  then show ?thesis using assms reported_await [of c b cfg ms rx stop] by auto
next
  case (5 cfg' n c'')
  then show ?thesis using assms reported_replay [of cfg c n] by auto
next
  case (8 cfg' m sent c'')
  then have "ob_items (ct_buffer c) = []" "0 < ob_capacity (ct_buffer c)"
    using assms(2,3) by (simp_all add: client_inv_def buffer_ok_def)
  then have "ob_dropped (buffer_offline m (ct_buffer c)) = ob_dropped (ct_buffer c)"
    by (simp add: buffer_offline_def buffer_push_items)
  with 8 assms show ?thesis
    by (auto simp: pump_command_def Let_def client_simps to_report_def)
next
  case (11 cfg' rx c'')
  with assms show ?thesis
    by (auto simp: pump_inbound_def client_simps split: rx_result.split server_msg.split)
      (simp_all add: to_report_def client_simps)
qed (use assms in \<open>auto simp: backoff_poll_def Let_def client_simps to_report_def\<close>)

lemma client_reachable_reported: "client_reachable cfg c \<Longrightarrow> reported c = to_report c"
proof (induction rule: client_reachable.induct)
  case start
  show ?case by (simp add: reported_def to_report_def client_new_def offline_buffer_new_def)
next
  case (turn c i c')
  then show ?case
    by (auto simp: client_step_def intro: reported_turn [OF _ client_reachable_inv])
qed

text \<open>
  The offline buffer never overflows silently: outside a handshake and a backoff the
  overflow events surfaced so far add up to every message the buffer ever dropped.
\<close>

theorem overflow_is_reported:
  assumes "client_reachable cfg c"
    "ct_point c = Dialing \<or> ct_point c = Replaying \<or> pumping (ct_point c) \<or> ct_point c = Stopped"
  shows "reported c = ob_dropped (ct_buffer c)"
  using client_reachable_reported [OF assms(1)] assms(2)
  by (cases "ct_point c") (auto simp: to_report_def)

subsection \<open>Backoff ends\<close>

definition client_run :: "client_config \<Rightarrow> client \<Rightarrow> client_input list \<Rightarrow> client option" where
  "client_run cfg c is = foldl (\<lambda>r i. Option.bind r (\<lambda>c. client_step cfg c i)) (Some c) is"

lemma client_run_None: "foldl (\<lambda>r i. Option.bind r (\<lambda>c. client_step cfg c i)) None is = None"
  by (induction "is") simp_all

lemma client_run_Cons:
  "client_run cfg c (i # is) = Option.bind (client_step cfg c i) (\<lambda>c'. client_run cfg c' is)"
  by (cases "client_step cfg c i") (simp_all add: client_run_def client_run_None)

lemma client_run_reachable:
  "client_reachable cfg c \<Longrightarrow> client_run cfg c is = Some c' \<Longrightarrow> client_reachable cfg c'"
proof (induction "is" arbitrary: c)
  case (Cons i "is")
  then show ?case by (auto simp: client_run_Cons intro: client_reachable.turn)
qed (simp add: client_run_def)

text \<open>
  C17. A backoff ends: a client that waits \<open>n\<close> nanoseconds dials again after exactly one
  drain of the command channel per started slice of 5 ms and a last one, whatever it drains.
\<close>

theorem backoff_ends:
  assumes "ct_point c = BackingOff n before" "length batches = (n + (backoff_slice - 1)) div backoff_slice + 1"
  shows "\<exists>c'. client_run cfg c (map CI_Backoff batches) = Some c' \<and> ct_point c' = Dialing \<and>
    ct_taken c' = ct_taken c @ concat batches"
  using assms
proof (induction batches arbitrary: c n)
  case Nil
  then show ?case by simp
next
  case (Cons ms batches)
  show ?case
  proof (cases "n = 0")
    case True
    with Cons.prems show ?thesis
      by (simp add: client_run_Cons client_step_def backoff_poll_def Let_def client_simps backoff_slice_def client_run_def)
  next
    case False
    let ?n = "n - min n backoff_slice"
    let ?c = "(buffer_pending ms c)\<lparr>ct_point := BackingOff ?n before\<rparr>"
    have "(n + (backoff_slice - 1)) div backoff_slice = (?n + (backoff_slice - 1)) div backoff_slice + 1"
      using False by (auto simp: backoff_slice_def min_def)
    with Cons.prems(2) have len: "length batches = (?n + (backoff_slice - 1)) div backoff_slice + 1" by simp
    have "client_step cfg c (CI_Backoff ms) = Some ?c"
      using Cons.prems(1) False by (simp add: client_step_def backoff_poll_def Let_def)
    with Cons.IH [of ?c, OF _ len] show ?thesis by (simp add: client_run_Cons client_simps)
  qed
qed

subsection \<open>A scripted client\<close>

definition demo_client_config :: client_config where
  "demo_client_config =
     \<lparr>cc_register = \<lparr>rq_session_nonce = [], rq_customer_id = [], rq_workspace_id = [],
        rq_authorization_only = False, rq_body = []\<rparr>,
      cc_backoff = \<lparr>steps_ns = [], plateau_ns = 0\<rparr>, cc_buffer_capacity = 2\<rparr>"

text \<open>A first dial fails; two events and a still arrive, then the plane accepts stills, the backlog
  is replayed, and a still and a chat request (whose flag was not accepted) are offered.\<close>

definition demo_client_script :: "client_input list" where
  "demo_client_script =
     [CI_Dial ''1'' DialRefused,
      CI_Backoff [CM_Gate (Some GP_Event) ''a'', CM_Observation (Some OP_Still) ''s'', CM_Gate (Some GP_Event) ''b''],
      CI_Dial ''2'' DialOpen,
      CI_Await [CM_Gate (Some GP_Event) ''c''] (RxMsg (SM_Registered
        \<lparr>rr_accepted_feature_flags = [flag_stills], rr_body = []\<rparr>)) False,
      CI_Replay 2, CI_Pump, CI_Command (CM_Observation (Some OP_Still) ''t'') True,
      CI_Command (CM_Gate (Some GP_ChatRequest) ''d'') True]"

definition demo_client :: client where
  "demo_client = the (client_run demo_client_config (client_new demo_client_config) demo_client_script)"

lemma demo_client_reachable: "client_reachable demo_client_config demo_client"
proof -
  have "map_option (\<lambda>_. ()) (client_run demo_client_config (client_new demo_client_config) demo_client_script) = Some ()"
    by code_simp
  then show ?thesis
    unfolding demo_client_def by (auto intro: client_run_reachable client_reachable.start)
qed

lemma demo_client_facts:
  "map conn_sent (ct_conns demo_client) = [[CM_Register ((cc_register demo_client_config)\<lparr>rq_session_nonce := ''2''\<rparr>),
     CM_Gate (Some GP_Event) ''b'', CM_Gate (Some GP_Event) ''c'', CM_Observation (Some OP_Still) ''t'']]"
  "ct_point demo_client = Outbound" "ob_dropped (ct_buffer demo_client) = 1"
  by code_simp+

theorem registration_is_a_barrier_witness:
  "\<exists>k acc. ct_conns demo_client = [k] \<and> conn_accepted k = Some acc \<and> flag_stills \<in> set acc"
proof -
  obtain k where k: "ct_conns demo_client = [k]" "conn_sent k = [CM_Register ((cc_register demo_client_config)
      \<lparr>rq_session_nonce := ''2''\<rparr>), CM_Gate (Some GP_Event) ''b'', CM_Gate (Some GP_Event) ''c'',
      CM_Observation (Some OP_Still) ''t'']"
    using demo_client_facts(1) by auto
  from registration_is_a_barrier [OF demo_client_reachable _ this(2)] k(1) show ?thesis by auto
qed

theorem history_is_delivered_in_order_witness:
  "subseq (sent_history demo_client @ ob_items (ct_buffer demo_client))
    (filter buffer_when_offline (ct_taken demo_client)) \<and> ob_dropped (ct_buffer demo_client) = 1"
  using history_is_delivered_in_order [OF demo_client_reachable] demo_client_facts(3) by simp

theorem overflow_is_reported_witness: "reported demo_client = 1"
  using overflow_is_reported [OF demo_client_reachable] demo_client_facts(2,3) by simp

theorem backoff_ends_witness:
  "\<exists>c'. client_run demo_client_config ((client_new demo_client_config)\<lparr>ct_point := BackingOff 8000000 0\<rparr>)
     (map CI_Backoff [[CM_Negotiate ''n''], [], []]) = Some c' \<and> ct_point c' = Dialing"
proof -
  have "length [[CM_Negotiate ''n''], [], []] = (8000000 + (backoff_slice - 1)) div backoff_slice + 1"
    by (simp add: backoff_slice_def)
  from backoff_ends [OF _ this] show ?thesis by force
qed

end
