(* ===== verification/Waddle_Rounding.thy ===== *)
theory Waddle_Rounding
  imports Waddle_Float
begin

text \<open>
  Order facts about the rounding of \<open>Waddle_Float\<close>: the exponent search is right,
  rounding is monotone and fixes the representable bounds, and the two further operations the
  gate needs (division and the correctly rounded square root).
\<close>

subsection \<open>Powers of two\<close>

lemma pow2_powi: "pow2 e = 2 powi e"
  by (simp add: pow2_def power_int_def inverse_eq_divide power_one_over)

lemma pow2_pos [simp]: "0 < pow2 e"
  by (simp add: pow2_powi)

lemma pow2_add: "pow2 (a + b) = pow2 a * pow2 b"
  by (simp add: pow2_powi power_int_add)

lemma pow2_diff: "pow2 (a - b) = pow2 a / pow2 b"
  by (simp add: pow2_powi power_int_diff)

lemma pow2_mono: "a \<le> b \<Longrightarrow> pow2 a \<le> pow2 b"
  by (simp add: pow2_powi power_int_increasing)

lemma pow2_int: "0 \<le> e \<Longrightarrow> pow2 e = of_int (2 ^ nat e)"
  by (simp add: pow2_def)

lemma bits_of_bounds: "0 < n \<Longrightarrow> pow2 (bits_of n - 1) \<le> of_int n \<and> of_int n < pow2 (bits_of n)"
proof -
  have "0 < n \<Longrightarrow> \<exists>k. bits_of n = int k + 1 \<and> 2 ^ k \<le> n \<and> n < 2 ^ (k + 1)" for n
  proof (induction n rule: bits_of.induct)
    case (1 n)
    show ?case
    proof (cases "n = 1")
      case True
      then show ?thesis by (intro exI [of _ 0]) (simp add: bits_of.simps [of 1] bits_of.simps [of 0])
    next
      case False
      with "1.prems" have "0 < n div 2" by (simp add: pos_imp_zdiv_pos_iff)
      with 1 obtain k where "bits_of (n div 2) = int k + 1" "2 ^ k \<le> n div 2" "n div 2 < 2 ^ (k + 1)"
        by auto
      with 1 show ?thesis by (intro exI [of _ "k + 1"]) (auto simp: bits_of.simps [of n])
    qed
  qed
  then show "0 < n \<Longrightarrow> ?thesis"
    by (fastforce simp: pow2_def nat_add_distrib simp flip: of_int_power of_int_less_iff)
qed

lemma ilog2_bounds:
  assumes "0 < q"
  shows "pow2 (ilog2 q) \<le> q \<and> q < pow2 (ilog2 q + 1)"
proof -
  obtain n d where nd: "quotient_of q = (n, d)" by fastforce
  then have d: "0 < d" and q: "q = of_int n / of_int d"
    using quotient_of_denom_pos quotient_of_div by auto
  with assms have n: "0 < n" by (simp add: zero_less_divide_iff)
  note bn = bits_of_bounds [OF n] and bd = bits_of_bounds [OF d]
  let ?k = "bits_of n - bits_of d"
  have "pow2 (?k - 1) \<le> q"
  proof -
    have "pow2 (bits_of n - 1) / pow2 (bits_of d) \<le> of_int n / of_int d"
      using bn bd d n by (intro frac_le) auto
    then show ?thesis by (simp add: q pow2_diff [symmetric] diff_right_commute)
  qed
  moreover have "q < pow2 (?k + 1)"
  proof -
    have "of_int n / of_int d < pow2 (bits_of n) / pow2 (bits_of d - 1)"
      using bn bd d n by (intro frac_less) auto
    then show ?thesis by (simp add: q pow2_diff [symmetric] algebra_simps)
  qed
  ultimately show ?thesis by (simp add: ilog2_def nd Let_def)
qed

lemma ilog2_mono: "0 < x \<Longrightarrow> x \<le> y \<Longrightarrow> ilog2 x \<le> ilog2 y"
proof (rule ccontr)
  assume "0 < x" "x \<le> y" "\<not> ilog2 x \<le> ilog2 y"
  then have "pow2 (ilog2 y + 1) \<le> pow2 (ilog2 x)" by (intro pow2_mono) simp
  with ilog2_bounds [of x] ilog2_bounds [of y] \<open>0 < x\<close> \<open>x \<le> y\<close> show False by linarith
qed

subsection \<open>Rounding to an integer\<close>

lemma round_half_even_floor:
  "\<lfloor>q\<rfloor> \<le> round_half_even q" "round_half_even q \<le> \<lfloor>q\<rfloor> + 1"
  by (auto simp: round_half_even_def Let_def)

lemma round_half_even_int [simp]: "round_half_even (of_int n) = n"
  by (simp add: round_half_even_def)

lemma round_half_even_mono: "x \<le> y \<Longrightarrow> round_half_even x \<le> round_half_even y"
proof -
  assume le: "x \<le> y"
  then consider "\<lfloor>x\<rfloor> = \<lfloor>y\<rfloor>" | "\<lfloor>x\<rfloor> + 1 \<le> \<lfloor>y\<rfloor>" using floor_mono [OF le] by linarith
  then show ?thesis
  proof cases
    case 1
    with le show ?thesis by (auto simp: round_half_even_def Let_def)
  next
    case 2
    with round_half_even_floor(1) [of y] round_half_even_floor(2) [of x] show ?thesis by linarith
  qed
qed

subsection \<open>Rounding to a format\<close>

definition unit_of :: "float_format \<Rightarrow> rat \<Rightarrow> int" where
  "unit_of ff q = max (ilog2 q - (ff_prec ff - 1)) (ff_emin ff)"

definition rounded :: "float_format \<Rightarrow> rat \<Rightarrow> rat" where
  "rounded ff q = of_int (round_half_even (q / pow2 (unit_of ff q))) * pow2 (unit_of ff q)"

lemma round_to_pos:
  "0 < q \<Longrightarrow> round_to ff q = (if pow2 (ff_emax ff) \<le> rounded ff q then PInf else Fin (rounded ff q))"
proof -
  assume "0 < q"
  then have "0 \<le> q / pow2 (unit_of ff q)" by (simp add: less_imp_le)
  then have "0 \<le> round_half_even (q / pow2 (unit_of ff q))"
    using round_half_even_mono [of 0 "q / pow2 (unit_of ff q)"] round_half_even_int [of 0] by simp
  then have "0 \<le> rounded ff q" by (simp add: rounded_def less_imp_le)
  with \<open>0 < q\<close> show ?thesis
    by (auto simp: round_to_def Let_def rounded_def [symmetric] unit_of_def [symmetric])
qed

lemma rounded_le_multiple:
  assumes "x \<le> of_int n * pow2 (unit_of ff x)"
  shows "rounded ff x \<le> of_int n * pow2 (unit_of ff x)"
proof -
  have "x / pow2 (unit_of ff x) \<le> of_int n" using assms by (simp add: divide_le_eq)
  from round_half_even_mono [OF this] show ?thesis by (simp add: rounded_def)
qed

lemma rounded_ge_multiple:
  assumes "of_int n * pow2 (unit_of ff x) \<le> x"
  shows "of_int n * pow2 (unit_of ff x) \<le> rounded ff x"
proof -
  have "of_int n \<le> x / pow2 (unit_of ff x)" using assms by (simp add: le_divide_eq)
  from round_half_even_mono [OF this] show ?thesis by (simp add: rounded_def)
qed

lemma rounded_mono:
  assumes "0 < x" and "x \<le> y" and prec: "1 \<le> ff_prec ff"
  shows "rounded ff x \<le> rounded ff y"
proof -
  have "unit_of ff x \<le> unit_of ff y"
    using ilog2_mono [OF assms(1,2)] by (simp add: unit_of_def)
  then consider "unit_of ff x = unit_of ff y" | "unit_of ff x < unit_of ff y" by linarith
  then show ?thesis
  proof cases
    case 1
    with assms show ?thesis
      by (simp add: rounded_def round_half_even_mono divide_right_mono less_imp_le)
  next
    case 2
    let ?e = "ilog2 y"
    have uy: "unit_of ff y = ?e - (ff_prec ff - 1)" and ux: "ilog2 x < ?e" "unit_of ff x \<le> ?e"
      using 2 prec by (auto simp: unit_of_def max_def split: if_splits)
    have bound: "pow2 ?e = of_int (2 ^ nat (?e - u)) * pow2 u" if "u \<le> ?e" for u
      using that pow2_add [of "?e - u" u] by (simp add: pow2_int)
    have "x \<le> pow2 ?e"
      using ilog2_bounds [OF assms(1)] pow2_mono [of "ilog2 x + 1" ?e] ux(1) by simp
    then have "rounded ff x \<le> pow2 ?e"
      using rounded_le_multiple bound [OF ux(2)] by metis
    moreover have "pow2 ?e \<le> rounded ff y"
    proof -
      have "unit_of ff y \<le> ?e" using uy prec by simp
      moreover have "pow2 ?e \<le> y" using ilog2_bounds [of y] assms by simp
      ultimately show ?thesis using rounded_ge_multiple [of "2 ^ nat (?e - unit_of ff y)" ff y] bound by metis
    qed
    ultimately show ?thesis by simp
  qed
qed

lemma round_to_mono:
  assumes "0 \<le> x" and "x \<le> y" and "1 \<le> ff_prec ff"
  shows "flt_le (round_to ff x) (round_to ff y)"
proof (cases "x = 0")
  case True
  then show ?thesis
  proof (cases "y = 0")
    case False
    with True assms have "0 < y" by simp
    moreover have "0 \<le> rounded ff y"
      using rounded_ge_multiple [of 0 ff y] \<open>0 < y\<close> by simp
    ultimately show ?thesis using True by (simp add: round_to_pos) (simp add: round_to_def)
  qed (simp add: round_to_def)
next
  case False
  with assms have "0 < x" "0 < y" by auto
  with rounded_mono [OF _ assms(2,3)] show ?thesis by (auto simp: round_to_pos)
qed

subsection \<open>Division and square root\<close>

fun fdiv :: "float_format \<Rightarrow> flt \<Rightarrow> flt \<Rightarrow> flt" where
  "fdiv ff NaN _ = NaN"
| "fdiv ff _ NaN = NaN"
| "fdiv ff (Fin x) (Fin y) = (if y = 0 then (if x = 0 then NaN else finf (x < 0)) else round_to ff (x / y))"
| "fdiv ff (Fin x) _ = Fin 0"
| "fdiv ff PInf (Fin y) = finf (y < 0)"
| "fdiv ff NInf (Fin y) = finf (0 \<le> y)"
| "fdiv ff _ _ = NaN"

text \<open>The integer square root, by halving the number of bits.\<close>

function isqrt :: "int \<Rightarrow> int" where
  "isqrt n = (if n \<le> 0 then 0
     else let r = 2 * isqrt (n div 4) in if (r + 1) * (r + 1) \<le> n then r + 1 else r)"
  by pat_completeness auto
termination
  by (relation "measure nat") auto

declare isqrt.simps [simp del]

lemma isqrt_bounds: "0 \<le> n \<Longrightarrow> 0 \<le> isqrt n \<and> isqrt n * isqrt n \<le> n \<and> n < (isqrt n + 1) * (isqrt n + 1)"
proof (induction n rule: isqrt.induct)
  case (1 n)
  show ?case
  proof (cases "n = 0")
    case False
    with 1 have IH: "0 \<le> isqrt (n div 4)" "isqrt (n div 4) * isqrt (n div 4) \<le> n div 4"
      "n div 4 < (isqrt (n div 4) + 1) * (isqrt (n div 4) + 1)" by auto
    have "4 * (n div 4) \<le> n" "n < 4 * (n div 4) + 4" by linarith+
    with IH "1.prems" False show ?thesis
      by (subst (1 2 3 4 5) isqrt.simps) (auto simp: Let_def algebra_simps)
  qed (simp add: isqrt.simps)
qed

text \<open>The square root of a non-negative rational, rounded to nearest even: the integer part in
  units of the result, and an exact comparison with the midpoint.\<close>

definition sqrt_round :: "float_format \<Rightarrow> rat \<Rightarrow> rat" where
  "sqrt_round ff q =
     (let u = max (ilog2 q div 2 - (ff_prec ff - 1)) (ff_emin ff);
          s = isqrt \<lfloor>q / pow2 (2 * u)\<rfloor>;
          m = (of_int s + 1 / 2) * pow2 u
      in of_int (if q < m * m then s else if m * m < q then s + 1 else if even s then s else s + 1) * pow2 u)"

fun fsqrt :: "float_format \<Rightarrow> flt \<Rightarrow> flt" where
  "fsqrt ff (Fin q) = (if q < 0 then NaN else if q = 0 then Fin 0 else Fin (sqrt_round ff q))"
| "fsqrt ff PInf = PInf"
| "fsqrt ff x = NaN"

end
