(* ===== verification/Waddle_Space.thy ===== *)
theory Waddle_Space
  imports Waddle_Types
begin

text \<open>
  Action spaces (\<^verbatim>\<open>waddle-types/src/space.rs\<close>): the wire declarations, their
  validation (\<^verbatim>\<open>from_pb\<close>, where everything must be declared and nothing is guessed),
  the width of the flattened row, and the gripper conventions. Wire enums are their numbers;
  \<open>f64\<close> fields are \<open>flt\<close>.
\<close>

subsection \<open>Results\<close>

definition rbind :: "'e + 'a \<Rightarrow> ('a \<Rightarrow> 'e + 'b) \<Rightarrow> 'e + 'b" where
  "rbind r f = (case r of Inl e \<Rightarrow> Inl e | Inr x \<Rightarrow> f x)"

lemma rbind_simps [simp]: "rbind (Inl e) f = Inl e" "rbind (Inr x) f = f x"
  by (simp_all add: rbind_def)

lemma rbind_Inr: "rbind r f = Inr y \<longleftrightarrow> (\<exists>x. r = Inr x \<and> f x = Inr y)"
  by (cases r) auto

lemma rbind_Inl: "rbind r f = Inl e \<longleftrightarrow> r = Inl e \<or> (\<exists>x. r = Inr x \<and> f x = Inl e)"
  by (cases r) auto

lemma rbind_cong [fundef_cong]:
  "r = r' \<Longrightarrow> (\<And>x. r' = Inr x \<Longrightarrow> f x = f' x) \<Longrightarrow> rbind r f = rbind r' f'"
  by (cases r') auto

definition ok_or :: "'e \<Rightarrow> 'a option \<Rightarrow> 'e + 'a" where
  "ok_or e x = (case x of None \<Rightarrow> Inl e | Some v \<Rightarrow> Inr v)"

lemma ok_or_simps [simp]: "ok_or e None = Inl e" "ok_or e (Some v) = Inr v"
  by (simp_all add: ok_or_def)

text \<open>\<^verbatim>\<open>Option::map(f).transpose()?\<close>\<close>

definition transpose_opt :: "('a \<Rightarrow> 'e + 'b) \<Rightarrow> 'a option \<Rightarrow> 'e + 'b option" where
  "transpose_opt f x = (case x of None \<Rightarrow> Inr None | Some v \<Rightarrow> rbind (f v) (\<lambda>y. Inr (Some y)))"

text \<open>\<^verbatim>\<open>iter().map(f).collect::<Result<_, _>>()\<close>\<close>

fun collect_results :: "('a \<Rightarrow> 'e + 'b) \<Rightarrow> 'a list \<Rightarrow> 'e + 'b list" where
  "collect_results f [] = Inr []"
| "collect_results f (x # xs) = rbind (f x) (\<lambda>y. rbind (collect_results f xs) (\<lambda>ys. Inr (y # ys)))"

subsection \<open>The pieces of a declaration\<close>

record joint_descriptor =
  jd_name :: string
  jd_min_position :: "flt option"
  jd_max_position :: "flt option"
  jd_max_velocity :: "flt option"
  jd_max_effort :: "flt option"

datatype rotation_encoding = RE_AxisAngle | RE_RotVec | RE_EulerRpy | RE_EulerXyz | RE_QuatXyzw | RE_QuatWxyz

definition rotation_encoding_from_pb :: "int \<Rightarrow> types_error + rotation_encoding" where
  "rotation_encoding_from_pb v =
     (if v = 1 then Inr RE_AxisAngle else if v = 2 then Inr RE_RotVec
      else if v = 3 then Inr RE_EulerRpy else if v = 4 then Inr RE_EulerXyz
      else if v = 5 then Inr RE_QuatXyzw else if v = 6 then Inr RE_QuatWxyz
      else if v = 0 then Inl (MustDeclare ''rotation_encoding'')
      else Inl (InvalidEnum ''rotation_encoding'' v))"

datatype delta_frame = DF_Base | DF_Body

definition delta_frame_from_pb :: "int \<Rightarrow> types_error + delta_frame" where
  "delta_frame_from_pb v =
     (if v = 1 then Inr DF_Base else if v = 2 then Inr DF_Body
      else if v = 0 then Inl (MustDeclare ''delta_frame'')
      else Inl (InvalidEnum ''delta_frame'' v))"

datatype replan_policy = RP_Immediate | RP_ChunkBoundary | RP_Blend

datatype interp = IN_Hold | IN_Linear | IN_Cubic

record chunking =
  ck_horizon_steps :: u32
  ck_replan :: replan_policy
  ck_interp :: interp

definition chunking_default :: chunking where
  "chunking_default = \<lparr>ck_horizon_steps = 1, ck_replan = RP_Immediate, ck_interp = IN_Hold\<rparr>"

record pb_chunking =
  pc_horizon_steps :: u32
  pc_replan :: int
  pc_interpolation :: int

definition replan_from_pb :: "int \<Rightarrow> types_error + replan_policy" where
  "replan_from_pb v =
     (if v = 1 \<or> v = 0 then Inr RP_Immediate else if v = 2 then Inr RP_ChunkBoundary
      else if v = 3 then Inr RP_Blend else Inl (InvalidEnum ''replan'' v))"

definition interp_from_pb :: "int \<Rightarrow> types_error + interp" where
  "interp_from_pb v =
     (if v = 1 \<or> v = 0 then Inr IN_Hold else if v = 2 then Inr IN_Linear
      else if v = 3 then Inr IN_Cubic else Inl (InvalidEnum ''interpolation'' v))"

definition chunking_from_pb :: "pb_chunking \<Rightarrow> types_error + chunking" where
  "chunking_from_pb c =
     rbind (replan_from_pb (pc_replan c)) (\<lambda>r.
     rbind (interp_from_pb (pc_interpolation c)) (\<lambda>i.
     Inr \<lparr>ck_horizon_steps = max (pc_horizon_steps c) 1, ck_replan = r, ck_interp = i\<rparr>))"

datatype gripper_kind =
    GK_Parallel flt flt int
  | GK_Suction
  | GK_Dexterous "joint_descriptor list"

text \<open>The wire specification is a \<open>kind\<close> oneof that may be absent.\<close>

definition gripper_from_pb :: "gripper_kind option \<Rightarrow> types_error + gripper_kind" where
  "gripper_from_pb g = ok_or (MissingField ''GripperSpec.kind'') g"

fun map_normalized :: "gripper_kind \<Rightarrow> flt \<Rightarrow> flt" where
  "map_normalized (GK_Parallel open_value closed_value action_dim) g =
     fadd binary64 closed_value (fmul binary64 g (fsub binary64 open_value closed_value))"
| "map_normalized GK_Suction g = (if flt_le (Fin (1 / 2)) g then Fin 1 else Fin 0)"
| "map_normalized (GK_Dexterous js) g = g"

subsection \<open>Wire and validated spaces\<close>

datatype pb_space =
    PS_JointPosition "joint_descriptor list"
  | PS_JointVelocity "joint_descriptor list"
  | PS_EeDelta string int int "flt option" "flt option"
  | PS_EeAbsolute string int
  | PS_BaseTwist string "flt option" "flt option"
  | PS_Composite "(string \<times> pb_action_space option) list"
  | PS_Opaque string "u32 option"
and pb_action_space =
    PbActionSpace (pas_space: "pb_space option") (pas_rate_hz: flt)
      (pas_chunking: "pb_chunking option") (pas_gripper: "gripper_kind option option")

datatype space_spec =
    SS_JointPosition "joint_descriptor list"
  | SS_JointVelocity "joint_descriptor list"
  | SS_EePoseDelta string rotation_encoding delta_frame "flt option" "flt option"
  | SS_EePoseAbs string rotation_encoding
  | SS_BaseTwist string "flt option" "flt option"
  | SS_Composite "(string \<times> action_space) list"
  | SS_Opaque string "u32 option"
and action_space =
    ActionSpace (as_spec: space_spec) (as_rate_hz: flt) (as_chunking: chunking)
      (as_gripper: "gripper_kind option")

fun spec_dims :: "space_spec \<Rightarrow> nat option" and dims :: "action_space \<Rightarrow> nat option"
  and parts_dims :: "(string \<times> action_space) list \<Rightarrow> nat option" where
  "spec_dims (SS_JointPosition js) = Some (length js)"
| "spec_dims (SS_JointVelocity js) = Some (length js)"
| "spec_dims (SS_EePoseDelta f r d l a) = Some 6"
| "spec_dims (SS_BaseTwist f l a) = Some 6"
| "spec_dims (SS_EePoseAbs f r) = Some 7"
| "spec_dims (SS_Composite parts) = parts_dims parts"
| "spec_dims (SS_Opaque h d) = map_option unat d"
| "dims (ActionSpace spec r c g) = spec_dims spec"
| "parts_dims [] = Some 0"
| "parts_dims ((n, space) # parts) =
     (case dims space of None \<Rightarrow> None
      | Some d \<Rightarrow> (case parts_dims parts of None \<Rightarrow> None | Some ds \<Rightarrow> Some (d + ds)))"

fun space_kind_of :: "space_spec \<Rightarrow> space_kind" where
  "space_kind_of (SS_JointPosition js) = SpK_JointPosition"
| "space_kind_of (SS_JointVelocity js) = SpK_JointVelocity"
| "space_kind_of (SS_EePoseDelta f r d l a) = SpK_EePoseDelta"
| "space_kind_of (SS_EePoseAbs f r) = SpK_EePoseAbs"
| "space_kind_of (SS_BaseTwist f l a) = SpK_BaseTwist"
| "space_kind_of (SS_Composite parts) = SpK_Composite"
| "space_kind_of (SS_Opaque h d) = SpK_Opaque"

fun spec_contains_delta :: "space_spec \<Rightarrow> bool" and contains_delta :: "action_space \<Rightarrow> bool"
  and parts_contain_delta :: "(string \<times> action_space) list \<Rightarrow> bool" where
  "spec_contains_delta (SS_EePoseDelta f r d l a) = True"
| "spec_contains_delta (SS_Composite parts) = parts_contain_delta parts"
| "spec_contains_delta spec = False"
| "contains_delta (ActionSpace spec r c g) = spec_contains_delta spec"
| "parts_contain_delta [] = False"
| "parts_contain_delta ((n, space) # parts) = (contains_delta space \<or> parts_contain_delta parts)"

subsection \<open>Validation\<close>

fun is_pb_composite :: "pb_action_space \<Rightarrow> bool" where
  "is_pb_composite (PbActionSpace (Some (PS_Composite ps)) r c g) = True"
| "is_pb_composite p = False"

fun space_from_pb :: "nat \<Rightarrow> pb_action_space \<Rightarrow> types_error + action_space"
  and spec_from_pb :: "nat \<Rightarrow> pb_space \<Rightarrow> types_error + space_spec"
  and parts_from_pb :: "nat \<Rightarrow> (string \<times> action_space) list \<Rightarrow>
    (string \<times> pb_action_space option) list \<Rightarrow> types_error + (string \<times> action_space) list" where
  "space_from_pb depth (PbActionSpace None rate ck gr) = Inl (MissingField ''ActionSpace.space'')"
| "space_from_pb depth (PbActionSpace (Some sp) rate ck gr) =
     rbind (spec_from_pb depth sp) (\<lambda>spec.
     if depth = 0 \<and> flt_le rate (Fin 0)
     then Inl (InvalidValue ''rate_hz'' ''must be > 0 at the top level'')
     else rbind (transpose_opt chunking_from_pb ck) (\<lambda>c.
          rbind (transpose_opt gripper_from_pb gr) (\<lambda>g.
          Inr (ActionSpace spec rate (case c of None \<Rightarrow> chunking_default | Some c \<Rightarrow> c) g))))"
| "spec_from_pb depth (PS_JointPosition js) = Inr (SS_JointPosition js)"
| "spec_from_pb depth (PS_JointVelocity js) = Inr (SS_JointVelocity js)"
| "spec_from_pb depth (PS_EeDelta f rot df l a) =
     rbind (frame_id_new f) (\<lambda>frame. rbind (rotation_encoding_from_pb rot) (\<lambda>r.
     rbind (delta_frame_from_pb df) (\<lambda>d. Inr (SS_EePoseDelta frame r d l a))))"
| "spec_from_pb depth (PS_EeAbsolute f rot) =
     rbind (frame_id_new f) (\<lambda>frame. rbind (rotation_encoding_from_pb rot) (\<lambda>r.
     Inr (SS_EePoseAbs frame r)))"
| "spec_from_pb depth (PS_BaseTwist f l a) =
     rbind (frame_id_new f) (\<lambda>frame. Inr (SS_BaseTwist frame l a))"
| "spec_from_pb depth (PS_Opaque h d) = Inr (SS_Opaque h d)"
| "spec_from_pb depth (PS_Composite ps) =
     (if 0 < depth then Inl (CompositeDepth ''<nested>'')
      else rbind (parts_from_pb depth [] ps) (\<lambda>parts.
        if parts = [] then Inl (MissingField ''Composite.parts'') else Inr (SS_Composite parts)))"
| "parts_from_pb depth parts [] = Inr parts"
| "parts_from_pb depth parts ((name, sp) # ps) =
     (if name = [] then Inl (MissingField ''Composite.Part.name'')
      else if name \<in> fst ` set parts then Inl (DuplicatePart name)
      else case sp of
        None \<Rightarrow> Inl (MissingField ''Composite.Part.space'')
      | Some inner \<Rightarrow>
          if is_pb_composite inner then Inl (CompositeDepth name)
          else rbind (space_from_pb (depth + 1) inner) (\<lambda>space.
                 parts_from_pb depth (parts @ [(name, space)]) ps))"

definition action_space_from_pb :: "pb_action_space \<Rightarrow> types_error + action_space" where
  "action_space_from_pb p = space_from_pb 0 p"

subsection \<open>What a validated space guarantees\<close>

fun leaf_ok :: "space_spec \<Rightarrow> bool" where
  "leaf_ok (SS_EePoseDelta f r d l a) \<longleftrightarrow> f \<noteq> []"
| "leaf_ok (SS_EePoseAbs f r) \<longleftrightarrow> f \<noteq> []"
| "leaf_ok (SS_BaseTwist f l a) \<longleftrightarrow> f \<noteq> []"
| "leaf_ok (SS_Composite ps) \<longleftrightarrow> False"
| "leaf_ok spec \<longleftrightarrow> True"

definition part_ok :: "string \<times> action_space \<Rightarrow> bool" where
  "part_ok p \<longleftrightarrow> fst p \<noteq> [] \<and> leaf_ok (as_spec (snd p)) \<and> 1 \<le> ck_horizon_steps (as_chunking (snd p))"

fun spec_ok :: "space_spec \<Rightarrow> bool" where
  "spec_ok (SS_Composite ps) \<longleftrightarrow> ps \<noteq> [] \<and> distinct (map fst ps) \<and> list_all part_ok ps"
| "spec_ok spec = leaf_ok spec"

definition space_ok :: "action_space \<Rightarrow> bool" where
  "space_ok s \<longleftrightarrow> spec_ok (as_spec s) \<and> 1 \<le> ck_horizon_steps (as_chunking s) \<and> \<not> flt_le (as_rate_hz s) (Fin 0)"

lemma chunking_from_pb_ok: "transpose_opt chunking_from_pb ck = Inr c \<Longrightarrow>
  1 \<le> ck_horizon_steps (case c of None \<Rightarrow> chunking_default | Some c \<Rightarrow> c)"
  by (auto simp: transpose_opt_def chunking_from_pb_def rbind_Inr chunking_default_def split: option.splits)

lemma frame_id_new_Inr: "frame_id_new f = Inr g \<longleftrightarrow> f \<noteq> [] \<and> g = f"
  by (auto simp: frame_id_new_def)

lemma from_pb_ok:
  "space_from_pb depth p = Inr s \<Longrightarrow>
     (if depth = 0 then space_ok s else (\<not> is_pb_composite p \<longrightarrow> leaf_ok (as_spec s)) \<and>
        1 \<le> ck_horizon_steps (as_chunking s))"
  "spec_from_pb depth sp = Inr spec \<Longrightarrow>
     (case sp of PS_Composite ps \<Rightarrow> depth = 0 \<and> spec_ok spec | _ \<Rightarrow> leaf_ok spec \<and> spec_ok spec)"
  "parts_from_pb depth acc ps = Inr parts \<Longrightarrow> distinct (map fst acc) \<Longrightarrow> list_all part_ok acc \<Longrightarrow>
     distinct (map fst parts) \<and> list_all part_ok parts"
proof (induction depth p and depth sp and depth acc ps arbitrary: s and spec and parts
    rule: space_from_pb_spec_from_pb_parts_from_pb.induct)
  case (2 depth sp rate ck gr)
  from "2.prems" obtain spec c g where s: "spec_from_pb depth sp = Inr spec"
      "depth \<noteq> 0 \<or> \<not> flt_le rate (Fin 0)" "transpose_opt chunking_from_pb ck = Inr c"
      "s = ActionSpace spec rate (case c of None \<Rightarrow> chunking_default | Some c \<Rightarrow> c) g"
    by (simp only: space_from_pb.simps rbind_Inr) (auto split: if_splits simp: rbind_Inr)
  note spec = "2.IH" [OF s(1)]
  have "spec_ok spec" using spec by (cases sp) simp_all
  moreover have "depth \<noteq> 0 \<Longrightarrow> \<not> is_pb_composite (PbActionSpace (Some sp) rate ck gr) \<longrightarrow> leaf_ok spec"
    using spec by (cases sp) simp_all
  ultimately show ?case
    using s(2,4) chunking_from_pb_ok [OF s(3)] by (auto simp: space_ok_def)
next
  case (11 depth acc name sp ps)
  then show ?case
    by (auto simp: rbind_Inr part_ok_def split: if_splits option.splits)
qed (auto simp: rbind_Inr frame_id_new_Inr split: if_splits)

lemma validated_space_ok: "action_space_from_pb p = Inr s \<Longrightarrow> space_ok s"
  using from_pb_ok(1) [of 0 p s] by (simp add: action_space_from_pb_def)

text \<open>
  C18. A declaration that validates is usable as it stands. Its name-addressed parts are
  non-empty, distinctly named and one level deep (no part is itself a composite); every pose
  or twist layout names its frame; the horizon is at least one step, in the space and in every
  part; and the top-level rate is not at or below zero (a NaN rate passes that comparison).
\<close>

theorem validated_spaces_are_declared:
  assumes "action_space_from_pb p = Inr s"
  shows "\<not> flt_le (as_rate_hz s) (Fin 0) \<and> 1 \<le> ck_horizon_steps (as_chunking s) \<and>
    (case as_spec s of
       SS_Composite parts \<Rightarrow> parts \<noteq> [] \<and> distinct (map fst parts) \<and>
         (\<forall>(n, q) \<in> set parts. n \<noteq> [] \<and> leaf_ok (as_spec q) \<and> 1 \<le> ck_horizon_steps (as_chunking q))
     | spec \<Rightarrow> leaf_ok spec)"
  using validated_space_ok [OF assms]
  by (cases "as_spec s") (auto simp: space_ok_def list_all_iff part_ok_def)

definition demo_joint :: "string \<Rightarrow> joint_descriptor" where
  "demo_joint n = \<lparr>jd_name = n, jd_min_position = None, jd_max_position = None,
     jd_max_velocity = None, jd_max_effort = None\<rparr>"

definition demo_pb_space :: pb_action_space where
  "demo_pb_space = PbActionSpace (Some (PS_Composite
     [(''arm'', Some (PbActionSpace (Some (PS_JointPosition [demo_joint ''j0'', demo_joint ''j1''])) (Fin 0) None None)),
      (''base'', Some (PbActionSpace (Some (PS_BaseTwist ''map'' None None)) (Fin 0) None None))])) (Fin 10) None None"

definition demo_space :: action_space where
  "demo_space = ActionSpace (SS_Composite
     [(''arm'', ActionSpace (SS_JointPosition [demo_joint ''j0'', demo_joint ''j1'']) (Fin 0) chunking_default None),
      (''base'', ActionSpace (SS_BaseTwist ''map'' None None) (Fin 0) chunking_default None)]) (Fin 10) chunking_default None"

lemma demo_pb_space_validates: "action_space_from_pb demo_pb_space = Inr demo_space"
  by (simp add: action_space_from_pb_def demo_pb_space_def demo_space_def transpose_opt_def frame_id_new_def)

theorem validated_spaces_are_declared_witness:
  "1 \<le> ck_horizon_steps (as_chunking demo_space)"
  using validated_spaces_are_declared [OF demo_pb_space_validates] by blast

text \<open>The comparison that guards the rate, \<^verbatim>\<open>rate_hz <= 0.0\<close>, lets NaN through.\<close>

lemma nan_rate_validates:
  "action_space_from_pb (PbActionSpace (Some (PS_JointPosition [])) NaN None None) =
     Inr (ActionSpace (SS_JointPosition []) NaN chunking_default None)"
  by (simp add: action_space_from_pb_def transpose_opt_def)

end
