(* ===== verification/Waddle_Jitter.thy ===== *)
theory Waddle_Jitter
  imports Waddle_Types Waddle_Space
begin

text \<open>
  The teleop jitter buffer (\<^verbatim>\<open>waddle-gate/src/jitter.rs\<close>): two channels with
  separate reorder windows and late-drop cursors, chunk boundaries with the declared replan
  policy, and playout after a fixed delay. A \<^verbatim>\<open>BTreeMap\<close> is a sorted association
  list behind the interface \<open>pending_map\<close>; the buffer's lemmas use only its laws.
\<close>

subsection \<open>Ordered maps\<close>

fun bt_insert :: "'k::linorder \<Rightarrow> 'v \<Rightarrow> ('k \<times> 'v) list \<Rightarrow> ('k \<times> 'v) list" where
  "bt_insert k v [] = [(k, v)]"
| "bt_insert k v ((k', v') # m) =
     (if k < k' then (k, v) # (k', v') # m else if k = k' then (k, v) # m else (k', v') # bt_insert k v m)"

definition bt_remove :: "'k \<Rightarrow> ('k \<times> 'v) list \<Rightarrow> ('k \<times> 'v) list" where
  "bt_remove k m = filter (\<lambda>e. fst e \<noteq> k) m"

fun bt_first :: "('k \<times> 'v) list \<Rightarrow> ('k \<times> 'v) option" where
  "bt_first [] = None"
| "bt_first (e # m) = Some e"

definition bt_ok :: "('k::linorder \<times> 'v) list \<Rightarrow> bool" where
  "bt_ok m \<longleftrightarrow> sorted_wrt (<) (map fst m)"

locale pending_map =
  fixes look :: "'m \<Rightarrow> 'k::linorder \<Rightarrow> 'v option" and ins :: "'k \<Rightarrow> 'v \<Rightarrow> 'm \<Rightarrow> 'm"
    and del :: "'k \<Rightarrow> 'm \<Rightarrow> 'm" and first :: "'m \<Rightarrow> ('k \<times> 'v) option" and ok :: "'m \<Rightarrow> bool"
  assumes ok_ins: "ok m \<Longrightarrow> ok (ins k v m)"
    and ok_del: "ok m \<Longrightarrow> ok (del k m)"
    and look_ins: "ok m \<Longrightarrow> look (ins k v m) = (look m)(k \<mapsto> v)"
    and look_del: "ok m \<Longrightarrow> look (del k m) = (look m)(k := None)"
    and first_None: "ok m \<Longrightarrow> first m = None \<longleftrightarrow> look m = Map.empty"
    and first_Some: "ok m \<Longrightarrow> first m = Some (k, v) \<Longrightarrow> look m k = Some v \<and> (\<forall>k' \<in> dom (look m). k \<le> k')"
begin

lemma pop_above:
  assumes "ok m" and "first m = Some (k, v)" and "look (del k m) k' = Some v'"
  shows "k < k'" and "look m k' = Some v'"
proof -
  from assms(1,3) have "k' \<noteq> k" "look m k' = Some v'" by (auto simp: look_del split: if_splits)
  then show "k < k'" "look m k' = Some v'"
    using first_Some [OF assms(1,2)] by (auto simp: order_less_le dom_def)
qed

end

lemma bt_insert_keys: "fst ` set (bt_insert k v m) = insert k (fst ` set m)"
  by (induction k v m rule: bt_insert.induct) (simp_all add: insert_commute)

interpretation bt: pending_map map_of bt_insert bt_remove bt_first bt_ok
proof
  fix m :: "('k::linorder \<times> 'v) list" and k v
  show "bt_ok (bt_insert k v m)" if "bt_ok m"
    using that
  proof (induction k v m rule: bt_insert.induct)
    case (2 k v k' v' m)
    then show ?case
      by (cases k k' rule: linorder_cases) (auto simp: bt_ok_def bt_insert_keys simp del: map_map intro: less_trans)
  qed (simp add: bt_ok_def)
  show "bt_ok m \<Longrightarrow> bt_ok (bt_remove k m)"
    by (induction m) (auto simp: bt_ok_def bt_remove_def)
  show "map_of (bt_insert k v m) = (map_of m)(k \<mapsto> v)" if "bt_ok m"
    using that
  proof (induction m)
    case (Cons e m)
    then show ?case
      by (cases e) (auto simp: bt_ok_def fun_eq_iff)
  qed simp
  show "map_of (bt_remove k m) = (map_of m)(k := None)"
    by (induction m) (auto simp: bt_remove_def fun_eq_iff)
  show "bt_first m = None \<longleftrightarrow> map_of m = Map.empty"
    by (cases m) auto
  show "bt_first m = Some (k, v) \<Longrightarrow> map_of m k = Some v \<and> (\<forall>k' \<in> dom (map_of m). k \<le> k')" if "bt_ok m"
    using that by (cases m) (auto simp: bt_ok_def dom_map_of_conv_image_fst order_less_imp_le)
qed

subsection \<open>The buffer\<close>

record owned_action =
  oa_values :: "flt list"
  oa_velocity_feedforward :: "flt list option"
  oa_gripper :: "flt option"
  oa_part :: "string option"

datatype stream_channel = SC_Teleop | SC_AgentChunk

record chunk_meta =
  cm_chunk_seq :: u64
  cm_t_emitted_ns :: int

record timed_action =
  ta_channel :: stream_channel
  ta_seq :: u64
  ta_received :: mono_ns
  ta_action :: owned_action
  ta_chunk :: "chunk_meta option"

record channel_state =
  cs_pending :: "(u64 \<times> timed_action) list"
  cs_last_popped_seq :: "u64 option"
  cs_active_chunk :: "chunk_meta option"

record jitter_buffer =
  jb_playout_delay_ns :: int
  jb_agent_chunk_replan :: replan_policy
  jb_teleop :: channel_state
  jb_agent_chunk :: channel_state
  jb_dropped_late :: u64
  jb_dropped_stale_chunks :: u64

definition channel_default :: channel_state where
  "channel_default = \<lparr>cs_pending = [], cs_last_popped_seq = None, cs_active_chunk = None\<rparr>"

definition jitter_new :: "int \<Rightarrow> replan_policy \<Rightarrow> jitter_buffer" where
  "jitter_new delay replan =
     \<lparr>jb_playout_delay_ns = max delay 0, jb_agent_chunk_replan = replan, jb_teleop = channel_default,
      jb_agent_chunk = channel_default, jb_dropped_late = 0, jb_dropped_stale_chunks = 0\<rparr>"

fun chan :: "stream_channel \<Rightarrow> jitter_buffer \<Rightarrow> channel_state" where
  "chan SC_Teleop b = jb_teleop b"
| "chan SC_AgentChunk b = jb_agent_chunk b"

fun set_chan :: "stream_channel \<Rightarrow> channel_state \<Rightarrow> jitter_buffer \<Rightarrow> jitter_buffer" where
  "set_chan SC_Teleop st b = b\<lparr>jb_teleop := st\<rparr>"
| "set_chan SC_AgentChunk st b = b\<lparr>jb_agent_chunk := st\<rparr>"

datatype chunk_transition = Same | Stale | Replan

definition transition_of :: "chunk_meta option \<Rightarrow> chunk_meta \<Rightarrow> chunk_transition" where
  "transition_of active_chunk meta = (case active_chunk of
     None \<Rightarrow> Replan
   | Some c \<Rightarrow>
       if c = meta then Same
       else if cm_chunk_seq meta \<le> cm_chunk_seq c \<or>
               (cm_t_emitted_ns meta \<noteq> 0 \<and> cm_t_emitted_ns c \<noteq> 0 \<and> cm_t_emitted_ns meta \<le> cm_t_emitted_ns c)
       then Stale else Replan)"

definition replan_channel :: "replan_policy \<Rightarrow> chunk_meta \<Rightarrow> channel_state \<Rightarrow> channel_state" where
  "replan_channel replan meta st =
     (let st = (if replan = RP_Immediate \<or> replan = RP_Blend then st\<lparr>cs_pending := []\<rparr> else st)
      in st\<lparr>cs_active_chunk := Some meta\<rparr>)"

definition enqueue :: "timed_action \<Rightarrow> jitter_buffer \<Rightarrow> jitter_buffer" where
  "enqueue a b =
     (let st = chan (ta_channel a) b in
      if (case cs_last_popped_seq st of Some l \<Rightarrow> ta_seq a \<le> l | None \<Rightarrow> False)
      then b\<lparr>jb_dropped_late := jb_dropped_late b + 1\<rparr>
      else set_chan (ta_channel a) (st\<lparr>cs_pending := bt_insert (ta_seq a) a (cs_pending st)\<rparr>) b)"

definition ingest :: "timed_action \<Rightarrow> jitter_buffer \<Rightarrow> jitter_buffer" where
  "ingest a b = (case ta_chunk a of
     None \<Rightarrow> enqueue a b
   | Some meta \<Rightarrow>
       (let st = chan (ta_channel a) b in
        case transition_of (cs_active_chunk st) meta of
          Same \<Rightarrow> enqueue a b
        | Stale \<Rightarrow> b\<lparr>jb_dropped_stale_chunks := jb_dropped_stale_chunks b + 1\<rparr>
        | Replan \<Rightarrow> enqueue a (set_chan (ta_channel a) (replan_channel (jb_agent_chunk_replan b) meta st) b)))"

text \<open>One turn of the loop over the channels: the head of a channel that is due and arrived
  strictly before the best so far.\<close>

definition better_head ::
  "mono_ns \<Rightarrow> jitter_buffer \<Rightarrow> stream_channel \<Rightarrow> (stream_channel \<times> u64 \<times> timed_action) option \<Rightarrow>
   (stream_channel \<times> u64 \<times> timed_action) option" where
  "better_head now b c best = (case bt_first (cs_pending (chan c b)) of
     None \<Rightarrow> best
   | Some (seq, head) \<Rightarrow>
       if i64_wrap (ta_received head + jb_playout_delay_ns b) \<le> now \<and>
          (case best of None \<Rightarrow> True | Some (_, _, a) \<Rightarrow> ta_received head < ta_received a)
       then Some (c, seq, head) else best)"

definition due_head :: "mono_ns \<Rightarrow> jitter_buffer \<Rightarrow> (stream_channel \<times> u64 \<times> timed_action) option" where
  "due_head now b = better_head now b SC_AgentChunk (better_head now b SC_Teleop None)"

definition take_head :: "stream_channel \<Rightarrow> u64 \<Rightarrow> jitter_buffer \<Rightarrow> jitter_buffer" where
  "take_head c seq b =
     (let st = chan c b in
      set_chan c (st\<lparr>cs_pending := bt_remove seq (cs_pending st), cs_last_popped_seq := Some seq\<rparr>) b)"

definition pop_due :: "mono_ns \<Rightarrow> jitter_buffer \<Rightarrow> owned_action option \<times> jitter_buffer" where
  "pop_due now b = (case due_head now b of
     None \<Rightarrow> (None, b)
   | Some (c, seq, a) \<Rightarrow> (Some (ta_action a), take_head c seq b))"

definition clear_channel :: "channel_state \<Rightarrow> channel_state" where
  "clear_channel st = st\<lparr>cs_pending := [], cs_active_chunk := None\<rparr>"

definition clear_pending :: "jitter_buffer \<Rightarrow> jitter_buffer" where
  "clear_pending b = b\<lparr>jb_teleop := clear_channel (jb_teleop b), jb_agent_chunk := clear_channel (jb_agent_chunk b)\<rparr>"

definition jitter_is_empty :: "jitter_buffer \<Rightarrow> bool" where
  "jitter_is_empty b \<longleftrightarrow> cs_pending (jb_teleop b) = [] \<and> cs_pending (jb_agent_chunk b) = []"

subsection \<open>Runs of the buffer\<close>

datatype jb_op = JB_Ingest timed_action | JB_Pop mono_ns | JB_Clear

fun jb_apply :: "jb_op \<Rightarrow> jitter_buffer \<Rightarrow> jitter_buffer" where
  "jb_apply (JB_Ingest a) b = ingest a b"
| "jb_apply (JB_Pop now) b = snd (pop_due now b)"
| "jb_apply JB_Clear b = clear_pending b"

text \<open>What one operation delivers, with its channel and the time of delivery.\<close>

fun jb_out :: "jb_op \<Rightarrow> jitter_buffer \<Rightarrow> (stream_channel \<times> timed_action \<times> mono_ns) list" where
  "jb_out (JB_Pop now) b = (case due_head now b of None \<Rightarrow> [] | Some (c, seq, a) \<Rightarrow> [(c, a, now)])"
| "jb_out op b = []"

fun delivered :: "jitter_buffer \<Rightarrow> jb_op list \<Rightarrow> (stream_channel \<times> timed_action \<times> mono_ns) list" where
  "delivered b [] = []"
| "delivered b (op # ops) = jb_out op b @ delivered (jb_apply op b) ops"

definition waiting :: "stream_channel \<Rightarrow> jitter_buffer \<Rightarrow> u64 \<Rightarrow> timed_action option" where
  "waiting c b = map_of (cs_pending (chan c b))"

definition channel_ok :: "stream_channel \<Rightarrow> jitter_buffer \<Rightarrow> bool" where
  "channel_ok c b \<longleftrightarrow> bt_ok (cs_pending (chan c b)) \<and>
     (\<forall>k a. waiting c b k = Some a \<longrightarrow> ta_seq a = k \<and> ta_channel a = c \<and>
        (\<forall>l. cs_last_popped_seq (chan c b) = Some l \<longrightarrow> l < k))"

definition jitter_ok :: "jitter_buffer \<Rightarrow> bool" where
  "jitter_ok b \<longleftrightarrow> (\<forall>c. channel_ok c b)"

lemma chan_set_chan [simp]: "chan c (set_chan c' st b) = (if c = c' then st else chan c b)"
  by (cases c; cases c') simp_all

lemma set_chan_keeps [simp]:
  "jb_playout_delay_ns (set_chan c st b) = jb_playout_delay_ns b"
  "jb_agent_chunk_replan (set_chan c st b) = jb_agent_chunk_replan b"
  by (cases c; simp)+

lemma chan_counters [simp]:
  "chan c (b\<lparr>jb_dropped_late := n\<rparr>) = chan c b" "chan c (b\<lparr>jb_dropped_stale_chunks := n\<rparr>) = chan c b"
  by (cases c; simp)+

lemma chan_clear [simp]: "chan c (clear_pending b) = clear_channel (chan c b)"
  by (cases c) (simp_all add: clear_pending_def)

lemma waiting_clear [simp]: "waiting c (clear_pending b) = Map.empty"
  by (simp add: waiting_def clear_channel_def)

lemma ok_set_chan:
  "jitter_ok b \<Longrightarrow> channel_ok c (set_chan c st b) \<Longrightarrow> jitter_ok (set_chan c st b)"
  by (simp add: jitter_ok_def channel_ok_def waiting_def)

lemma enqueue_ok: "jitter_ok b \<Longrightarrow> jitter_ok (enqueue a b)"
  by (auto simp: enqueue_def Let_def jitter_ok_def channel_ok_def waiting_def bt.look_ins bt.ok_ins
      split: option.splits if_splits)

lemma replan_ok: "jitter_ok b \<Longrightarrow> jitter_ok (set_chan c (replan_channel r m (chan c b)) b)"
  by (auto simp: replan_channel_def Let_def jitter_ok_def channel_ok_def waiting_def bt_ok_def)

lemma counters_ok: "jitter_ok (b\<lparr>jb_dropped_stale_chunks := n\<rparr>) = jitter_ok b"
  by (simp add: jitter_ok_def channel_ok_def waiting_def)

lemma ingest_ok: "jitter_ok b \<Longrightarrow> jitter_ok (ingest a b)"
  by (auto simp: ingest_def Let_def enqueue_ok replan_ok counters_ok split: option.split chunk_transition.split)

lemma clear_ok: "jitter_ok b \<Longrightarrow> jitter_ok (clear_pending b)"
  by (simp add: jitter_ok_def channel_ok_def clear_channel_def bt_ok_def)

lemma due_head_Some:
  assumes "jitter_ok b" and "due_head now b = Some (c, seq, a)"
  shows "bt_first (cs_pending (chan c b)) = Some (seq, a) \<and> waiting c b seq = Some a \<and>
    i64_wrap (ta_received a + jb_playout_delay_ns b) \<le> now"
proof -
  have head: "bt_first (cs_pending (chan c b)) = Some (seq, a)"
    and due: "i64_wrap (ta_received a + jb_playout_delay_ns b) \<le> now"
    using assms(2) by (auto simp: due_head_def better_head_def split: option.splits if_splits)
  have "bt_ok (cs_pending (chan c b))" using assms(1) by (simp add: jitter_ok_def channel_ok_def)
  from bt.first_Some [OF this head] head due show ?thesis by (simp add: waiting_def)
qed

lemma take_head_ok:
  assumes "jitter_ok b" and "bt_first (cs_pending (chan c b)) = Some (seq, a)"
  shows "jitter_ok (take_head c seq b)"
proof -
  have "channel_ok c b" using assms(1) by (simp add: jitter_ok_def)
  then have ok: "bt_ok (cs_pending (chan c b))"
    and held: "\<And>k a. map_of (cs_pending (chan c b)) k = Some a \<Longrightarrow> ta_seq a = k \<and> ta_channel a = c"
    by (auto simp: channel_ok_def waiting_def)
  note above = bt.pop_above [OF ok assms(2)]
  show ?thesis
    unfolding take_head_def Let_def
  proof (rule ok_set_chan [OF assms(1)])
    show "channel_ok c (set_chan c (chan c b\<lparr>cs_pending := bt_remove seq (cs_pending (chan c b)),
        cs_last_popped_seq := Some seq\<rparr>) b)"
      using above held bt.ok_del [OF ok] by (simp add: channel_ok_def waiting_def) blast
  qed
qed

lemma pop_ok: "jitter_ok b \<Longrightarrow> jitter_ok (snd (pop_due now b))"
  by (auto simp: pop_due_def split: option.split dest: due_head_Some intro: take_head_ok)

lemma apply_ok: "jitter_ok b \<Longrightarrow> jitter_ok (jb_apply op b)"
  by (cases op) (simp_all add: ingest_ok pop_ok clear_ok)

lemma new_ok: "jitter_ok (jitter_new d r)"
proof -
  have "chan c (jitter_new d r) = channel_default" for c
    by (cases c) (simp_all add: jitter_new_def)
  then show ?thesis by (simp add: jitter_ok_def channel_ok_def waiting_def channel_default_def bt_ok_def)
qed

subsection \<open>Order of playout\<close>

definition above :: "stream_channel \<Rightarrow> jitter_buffer \<Rightarrow> u64 \<Rightarrow> bool" where
  "above c b k \<longleftrightarrow> (\<forall>l. cs_last_popped_seq (chan c b) = Some l \<longrightarrow> l < k)"

lemma take_head_chan: "chan c (take_head c' seq b) = (if c = c'
    then chan c b\<lparr>cs_pending := bt_remove seq (cs_pending (chan c b)), cs_last_popped_seq := Some seq\<rparr>
    else chan c b)"
  by (simp add: take_head_def Let_def)

lemma ingest_cursor: "cs_last_popped_seq (chan c (ingest a b)) = cs_last_popped_seq (chan c b)"
  by (auto simp: ingest_def Let_def enqueue_def replan_channel_def split: option.splits chunk_transition.splits)

lemma ingest_waiting:
  "jitter_ok b \<Longrightarrow> waiting c (ingest a b) k = Some x \<Longrightarrow> waiting c b k = Some x \<or> x = a"
proof -
  assume ok: "jitter_ok b"
  have enq: "waiting c (enqueue a b') k = Some x \<Longrightarrow> waiting c b' k = Some x \<or> x = a" if "jitter_ok b'" for b'
    using that by (auto simp: enqueue_def Let_def waiting_def jitter_ok_def channel_ok_def bt.look_ins
        split: option.splits if_splits)
  have rep: "waiting c (set_chan c' (replan_channel r m (chan c' b)) b) k = Some x \<Longrightarrow> waiting c b k = Some x" for c' r m
    by (auto simp: waiting_def replan_channel_def Let_def split: if_splits)
  assume w: "waiting c (ingest a b) k = Some x"
  show ?thesis
  proof (cases "ta_chunk a")
    case None
    with w show ?thesis by (simp add: ingest_def enq [OF ok])
  next
    case (Some meta)
    show ?thesis
    proof (cases "transition_of (cs_active_chunk (chan (ta_channel a) b)) meta")
      case Same
      with w Some show ?thesis by (simp add: ingest_def enq [OF ok])
    next
      case Stale
      with w Some show ?thesis by (simp add: ingest_def waiting_def)
    next
      case Replan
      with w Some have "waiting c (enqueue a (set_chan (ta_channel a)
          (replan_channel (jb_agent_chunk_replan b) meta (chan (ta_channel a) b)) b)) k = Some x"
        by (simp add: ingest_def)
      from enq [OF replan_ok [OF ok] this] rep show ?thesis by blast
    qed
  qed
qed

lemma apply_waiting:
  assumes "jitter_ok b" and "waiting c (jb_apply op b) k = Some x"
  shows "waiting c b k = Some x \<or> op = JB_Ingest x"
proof (cases op)
  case (JB_Ingest a)
  with assms ingest_waiting [OF assms(1), of c a k x] show ?thesis by auto
next
  case (JB_Pop now)
  with assms show ?thesis
    by (auto simp: pop_due_def take_head_chan waiting_def jitter_ok_def channel_ok_def bt.look_del
        split: option.splits if_splits)
qed (use assms in simp)

lemma apply_delay: "jb_playout_delay_ns (jb_apply op b) = jb_playout_delay_ns b"
proof (cases op)
  case (JB_Ingest a)
  then show ?thesis
    by (auto simp: ingest_def enqueue_def Let_def split: option.split chunk_transition.split)
next
  case (JB_Pop now)
  then show ?thesis by (auto simp: pop_due_def take_head_def Let_def split: option.split)
qed (simp add: clear_pending_def)

lemma apply_cursor:
  "jb_out op b = [] \<Longrightarrow> cs_last_popped_seq (chan c (jb_apply op b)) = cs_last_popped_seq (chan c b)"
  by (cases op) (auto simp: ingest_cursor clear_channel_def pop_due_def split: option.splits)

lemma apply_out:
  assumes "jitter_ok b" and "(c, a, now) \<in> set (jb_out op b)"
  shows "op = JB_Pop now \<and> jb_out op b = [(c, a, now)] \<and> waiting c b (ta_seq a) = Some a \<and> above c b (ta_seq a) \<and>
    i64_wrap (ta_received a + jb_playout_delay_ns b) \<le> now \<and> ta_channel a = c \<and>
    (\<forall>c'. cs_last_popped_seq (chan c' (jb_apply op b)) =
      (if c' = c then Some (ta_seq a) else cs_last_popped_seq (chan c' b)))"
proof -
  obtain seq where op: "op = JB_Pop now" and head: "due_head now b = Some (c, seq, a)"
  proof (cases op)
    case (JB_Pop t)
    with assms(2) that show ?thesis by (cases "due_head t b") auto
  qed (use assms(2) in auto)
  from due_head_Some [OF assms(1) head] have h: "waiting c b seq = Some a"
    "i64_wrap (ta_received a + jb_playout_delay_ns b) \<le> now" by auto
  moreover from h(1) assms(1) have "ta_seq a = seq" "ta_channel a = c" "above c b seq"
    by (auto simp: jitter_ok_def channel_ok_def above_def)
  ultimately show ?thesis by (simp add: op head pop_due_def take_head_chan)
qed

definition seqs :: "stream_channel \<Rightarrow> (stream_channel \<times> timed_action \<times> mono_ns) list \<Rightarrow> u64 list" where
  "seqs c xs = map (\<lambda>(c', a, now). ta_seq a) (filter (\<lambda>(c', a, now). c' = c) xs)"

lemma seqs_simps [simp]:
  "seqs c [] = []" "seqs c ((c', a, now) # xs) = (if c' = c then ta_seq a # seqs c xs else seqs c xs)"
  by (simp_all add: seqs_def)

lemma delivered_sorted:
  "jitter_ok b \<Longrightarrow> sorted_wrt (<) (seqs c (delivered b ops)) \<and> (\<forall>k \<in> set (seqs c (delivered b ops)). above c b k)"
proof (induction ops arbitrary: b)
  case (Cons op ops)
  note prems = Cons.prems
  note tail = Cons.IH [OF apply_ok [OF prems], of op]
  show ?case
  proof (cases "jb_out op b")
    case Nil
    then show ?thesis using tail apply_cursor [OF Nil] by (simp add: above_def)
  next
    case (Cons e es)
    obtain c' a now where e: "e = (c', a, now)" by (cases e) auto
    have out: "jb_out op b = [(c', a, now)]" "above c' b (ta_seq a)"
        "cs_last_popped_seq (chan d (jb_apply op b)) =
          (if d = c' then Some (ta_seq a) else cs_last_popped_seq (chan d b))" for d
      using apply_out [OF prems, of c' a now op] Cons e by auto
    show ?thesis
      using tail out by (auto simp: above_def intro: less_trans)
  qed
qed simp

lemma delivered_origin:
  assumes "jitter_ok b" and "(c, a, now) \<in> set (delivered b ops)"
  shows "(waiting c b (ta_seq a) = Some a \<or> JB_Ingest a \<in> set ops) \<and> ta_channel a = c \<and> JB_Pop now \<in> set ops \<and>
    i64_wrap (ta_received a + jb_playout_delay_ns b) \<le> now"
  using assms
proof (induction ops arbitrary: b)
  case (Cons op ops)
  show ?case
  proof (cases "(c, a, now) \<in> set (jb_out op b)")
    case True
    then show ?thesis using apply_out [OF Cons.prems(1)] by auto
  next
    case False
    then have "(c, a, now) \<in> set (delivered (jb_apply op b) ops)" using Cons.prems(2) by auto
    note IH = Cons.IH [OF apply_ok [OF Cons.prems(1)] this]
    with apply_waiting [OF Cons.prems(1)] show ?thesis by (auto simp: apply_delay)
  qed
qed simp

lemma waiting_new [simp]: "waiting c (jitter_new d r) = Map.empty"
  by (cases c) (simp_all add: waiting_def jitter_new_def channel_default_def)

text \<open>
  C20. Playout never goes backwards. Whatever sequence of arrivals, polls and clears a fresh
  buffer sees, the sequence numbers it plays out on a channel strictly increase (so nothing is
  played twice, and the other channel never disturbs the order), and everything it plays out
  arrived on that channel and has waited out the playout delay.
\<close>

theorem playout_never_goes_back:
  "sorted_wrt (<) (seqs c (delivered (jitter_new delay replan) ops)) \<and>
   ((c, a, now) \<in> set (delivered (jitter_new delay replan) ops) \<longrightarrow>
      JB_Ingest a \<in> set ops \<and> ta_channel a = c \<and> i64_wrap (ta_received a + max delay 0) \<le> now)"
  using delivered_sorted [OF new_ok] delivered_origin [OF new_ok]
  by (fastforce simp: jitter_new_def [of delay replan, THEN arg_cong, of jb_playout_delay_ns])

definition demo_timed :: "u64 \<Rightarrow> chunk_meta option \<Rightarrow> timed_action" where
  "demo_timed k meta = \<lparr>ta_channel = SC_AgentChunk, ta_seq = k, ta_received = 0,
     ta_action = \<lparr>oa_values = [Fin 1], oa_velocity_feedforward = None, oa_gripper = None, oa_part = None\<rparr>,
     ta_chunk = meta\<rparr>"

definition demo_ops :: "jb_op list" where
  "demo_ops = [JB_Ingest (demo_timed 2 None), JB_Ingest (demo_timed 1 None), JB_Pop 5, JB_Pop 6]"

lemma demo_ops_delivered: "delivered (jitter_new 0 RP_Immediate) demo_ops =
  [(SC_AgentChunk, demo_timed 1 None, 5), (SC_AgentChunk, demo_timed 2 None, 6)]"
  by code_simp

theorem playout_never_goes_back_witness:
  "JB_Ingest (demo_timed 1 None) \<in> set demo_ops \<and>
   sorted_wrt (<) (seqs SC_AgentChunk (delivered (jitter_new 0 RP_Immediate) demo_ops))"
  using playout_never_goes_back [of SC_AgentChunk 0 RP_Immediate demo_ops "demo_timed 1 None" 5]
  unfolding demo_ops_delivered by simp

subsection \<open>Superseded chunks\<close>

definition chunks_current :: "jitter_buffer \<Rightarrow> bool" where
  "chunks_current b \<longleftrightarrow> (\<forall>c k a m. waiting c b k = Some a \<longrightarrow> ta_chunk a = Some m \<longrightarrow>
     cs_active_chunk (chan c b) = Some m)"

definition active_since :: "stream_channel \<Rightarrow> u64 \<Rightarrow> jitter_buffer \<Rightarrow> bool" where
  "active_since c n b \<longleftrightarrow> (case cs_active_chunk (chan c b) of None \<Rightarrow> False | Some m \<Rightarrow> n \<le> cm_chunk_seq m)"

definition replaces :: "jitter_buffer \<Rightarrow> bool" where
  "replaces b \<longleftrightarrow> jb_agent_chunk_replan b = RP_Immediate \<or> jb_agent_chunk_replan b = RP_Blend"

lemma apply_replaces: "replaces (jb_apply op b) = replaces b"
proof (cases op)
  case (JB_Ingest a)
  then show ?thesis
    by (auto simp: replaces_def ingest_def enqueue_def Let_def split: option.split chunk_transition.split)
next
  case (JB_Pop now)
  then show ?thesis by (auto simp: replaces_def pop_due_def take_head_def Let_def split: option.split)
qed (simp add: replaces_def clear_pending_def)

lemma enqueue_active: "cs_active_chunk (chan c (enqueue a b)) = cs_active_chunk (chan c b)"
  by (auto simp: enqueue_def Let_def)

lemma enqueue_current:
  assumes "jitter_ok b" and "chunks_current b"
    and "\<And>m. ta_chunk a = Some m \<Longrightarrow> cs_active_chunk (chan (ta_channel a) b) = Some m"
  shows "chunks_current (enqueue a b)"
  using assms
  by (auto simp: chunks_current_def enqueue_active)
    (auto simp: enqueue_def Let_def waiting_def jitter_ok_def channel_ok_def bt.look_ins split: option.splits if_splits)

lemma ingest_current:
  assumes "jitter_ok b" and "replaces b" and "chunks_current b"
  shows "chunks_current (ingest a b)"
proof (cases "ta_chunk a")
  case None
  then show ?thesis using enqueue_current [OF assms(1,3), of a] by (simp add: ingest_def)
next
  case (Some meta)
  show ?thesis
  proof (cases "transition_of (cs_active_chunk (chan (ta_channel a) b)) meta")
    case Same
    then have "cs_active_chunk (chan (ta_channel a) b) = Some meta"
      by (auto simp: transition_of_def split: option.splits if_splits)
    with Same Some show ?thesis using enqueue_current [OF assms(1,3), of a] by (simp add: ingest_def)
  next
    case Stale
    with Some assms(3) show ?thesis by (simp add: ingest_def chunks_current_def waiting_def)
  next
    case Replan
    let ?b = "set_chan (ta_channel a) (replan_channel (jb_agent_chunk_replan b) meta (chan (ta_channel a) b)) b"
    have "chunks_current ?b"
      using assms(2,3) by (auto simp: chunks_current_def waiting_def replan_channel_def replaces_def)
    then have "chunks_current (enqueue a ?b)"
      by (rule enqueue_current [OF replan_ok [OF assms(1)]]) (use Some in \<open>simp add: replan_channel_def Let_def\<close>)
    with Replan Some show ?thesis by (simp add: ingest_def)
  qed
qed

lemma apply_current:
  assumes "jitter_ok b" and "replaces b" and "chunks_current b"
  shows "chunks_current (jb_apply op b)"
proof (cases op)
  case (JB_Pop now)
  then have same: "cs_active_chunk (chan c (jb_apply op b)) = cs_active_chunk (chan c b)" for c
    by (auto simp: pop_due_def take_head_chan split: option.split)
  show ?thesis
    unfolding chunks_current_def same
  proof (intro allI impI)
    fix c k a m
    assume "waiting c (jb_apply op b) k = Some a" "ta_chunk a = Some m"
    with apply_waiting [OF assms(1)] JB_Pop assms(3) show "cs_active_chunk (chan c b) = Some m"
      unfolding chunks_current_def by blast
  qed
qed (use assms ingest_current in \<open>auto simp: chunks_current_def\<close>)

lemma ingest_active_since:
  assumes "active_since c n b"
  shows "active_since c n (ingest a b)"
  using assms
  by (auto simp: active_since_def ingest_def enqueue_active Let_def transition_of_def replan_channel_def
      split: option.splits chunk_transition.splits if_splits)

lemma apply_active_since:
  assumes "active_since c n b" and "op \<noteq> JB_Clear"
  shows "active_since c n (jb_apply op b)"
proof (cases op)
  case (JB_Pop now)
  with assms(1) show ?thesis by (auto simp: active_since_def pop_due_def take_head_chan split: option.splits)
qed (use assms ingest_active_since in auto)

lemma delivered_since:
  assumes "jitter_ok b" "replaces b" "chunks_current b" "active_since c n b" "JB_Clear \<notin> set ops"
    and "(c, x, now) \<in> set (delivered b ops)" "ta_chunk x = Some m"
  shows "n \<le> cm_chunk_seq m"
  using assms
proof (induction ops arbitrary: b)
  case (Cons op ops)
  show ?case
  proof (cases "(c, x, now) \<in> set (jb_out op b)")
    case True
    from apply_out [OF Cons.prems(1) True] Cons.prems(3,4,7) show ?thesis
      by (auto simp: chunks_current_def active_since_def split: option.splits)
  next
    case False
    with Cons.prems show ?thesis
      by (intro Cons.IH [of "jb_apply op b"])
        (auto simp: apply_ok apply_replaces apply_current apply_active_since)
  qed
qed simp

lemma run_ok:
  assumes "jitter_ok b" "replaces b" "chunks_current b"
  shows "jitter_ok (fold jb_apply ops b) \<and> replaces (fold jb_apply ops b) \<and> chunks_current (fold jb_apply ops b)"
  using assms by (induction ops arbitrary: b) (auto simp: apply_ok apply_replaces apply_current)

text \<open>
  A newer chunk replaces the one it supersedes. Under the immediate (or blend) replan
  policy, once a buffer accepts a step of a chunk, no step of an older chunk is played out on
  that channel until the buffer is cleared, whatever arrives in between.
\<close>

theorem superseded_chunks_never_play:
  assumes "replan = RP_Immediate \<or> replan = RP_Blend"
    and "b = fold jb_apply before (jitter_new delay replan)"
    and "ta_chunk a = Some meta" and "transition_of (cs_active_chunk (chan (ta_channel a) b)) meta \<noteq> Stale"
    and "JB_Clear \<notin> set ops"
    and "(ta_channel a, x, now) \<in> set (delivered (ingest a b) ops)" and "ta_chunk x = Some m"
  shows "cm_chunk_seq meta \<le> cm_chunk_seq m"
proof -
  have "replaces (jitter_new delay replan)" "chunks_current (jitter_new delay replan)"
    using assms(1) by (simp_all add: replaces_def jitter_new_def chunks_current_def waiting_new [unfolded jitter_new_def])
  from run_ok [OF new_ok this] have b: "jitter_ok b" "replaces b" "chunks_current b"
    by (auto simp: assms(2))
  have "active_since (ta_channel a) (cm_chunk_seq meta) (ingest a b)"
    using assms(3,4)
    by (auto simp: active_since_def ingest_def enqueue_active Let_def transition_of_def replan_channel_def
        split: option.splits if_splits)
  then show ?thesis
    using b assms(5-7) delivered_since [of "ingest a b"]
    by (metis apply_current apply_ok apply_replaces jb_apply.simps(1))
qed

definition demo_meta :: "u64 \<Rightarrow> chunk_meta" where
  "demo_meta n = \<lparr>cm_chunk_seq = n, cm_t_emitted_ns = 0\<rparr>"

theorem superseded_chunks_never_play_witness:
  "(7 :: u64) \<le> cm_chunk_seq (demo_meta 7)"
proof -
  let ?b = "fold jb_apply [JB_Ingest (demo_timed 1 (Some (demo_meta 6)))] (jitter_new 0 RP_Immediate)"
  have "delivered (ingest (demo_timed 2 (Some (demo_meta 7))) ?b) [JB_Pop 5] =
      [(SC_AgentChunk, demo_timed 2 (Some (demo_meta 7)), 5)]"
    by code_simp
  moreover have "transition_of (cs_active_chunk (chan SC_AgentChunk ?b)) (demo_meta 7) = Replan"
    by code_simp
  ultimately show ?thesis
    using superseded_chunks_never_play [of RP_Immediate ?b "[JB_Ingest (demo_timed 1 (Some (demo_meta 6)))]" 0
        "demo_timed 2 (Some (demo_meta 7))" "demo_meta 7" "[JB_Pop 5]" "demo_timed 2 (Some (demo_meta 7))" 5 "demo_meta 7"]
    by (simp add: demo_timed_def demo_meta_def)
qed

lemma cleared_delivers_nothing_old:
  assumes "jitter_ok b" and "(c, a, now) \<in> set (delivered (clear_pending b) ops)"
  shows "JB_Ingest a \<in> set ops"
  using delivered_origin [OF clear_ok [OF assms(1)] assms(2)] by simp

end
