(* ===== verification/Waddle_Blend.thy ===== *)
theory Waddle_Blend
  imports Waddle_Rounding Waddle_Jitter
begin

text \<open>
  The hand-off blend: the schedule of a cross-fade (\<^verbatim>\<open>waddle-gate/src/plan.rs\<close>,
  with \<open>f64\<close> progress narrowed to \<open>f32\<close>) and one step of it
  (\<^verbatim>\<open>waddle-gate/src/blend.rs\<close>).
\<close>

subsection \<open>Progress\<close>

record blend_schedule =
  bs_start :: mono_ns
  bs_blend_ns :: int
  bs_interp :: interp

fun to_f32 :: "flt \<Rightarrow> flt" where
  "to_f32 (Fin x) = round_to binary32 x"
| "to_f32 x = x"

definition fclamp :: "flt \<Rightarrow> flt \<Rightarrow> flt \<Rightarrow> flt" where
  "fclamp lo hi x = (if flt_less x lo then lo else if flt_less hi x then hi else x)"

definition progress :: "blend_schedule \<Rightarrow> mono_ns \<Rightarrow> flt" where
  "progress s now =
     (if bs_blend_ns s \<le> 0 then Fin 1
      else to_f32 (fclamp (Fin 0) (Fin 1)
             (fdiv binary64 (f64_of_int (i64_wrap (now - bs_start s))) (f64_of_int (bs_blend_ns s)))))"

subsection \<open>One step\<close>

definition weight :: "interp \<Rightarrow> flt \<Rightarrow> flt" where
  "weight i t =
     (let t = fclamp (Fin 0) (Fin 1) t in
      case i of
        IN_Hold \<Rightarrow> if flt_le (Fin 1) t then Fin 1 else Fin 0
      | IN_Linear \<Rightarrow> t
      | IN_Cubic \<Rightarrow> fmul binary32 (fmul binary32 t t) (fsub binary32 (Fin 3) (fmul binary32 (Fin 2) t)))"

definition crosses_parts :: "owned_action \<Rightarrow> owned_action \<Rightarrow> bool" where
  "crosses_parts from to = (case (oa_part from, oa_part to) of
     (Some anchor, Some target) \<Rightarrow> anchor \<noteq> target
   | _ \<Rightarrow> False)"

definition mix :: "flt \<Rightarrow> flt \<Rightarrow> flt \<Rightarrow> flt" where
  "mix w a b = fadd binary64 (fmul binary64 a (fsub binary64 (Fin 1) w)) (fmul binary64 b w)"

definition carries_only_grip :: "owned_action \<Rightarrow> bool" where
  "carries_only_grip a \<longleftrightarrow> oa_values a = [] \<and> oa_gripper a \<noteq> None"

definition blend_step :: "owned_action option \<Rightarrow> owned_action \<Rightarrow> flt \<Rightarrow> interp \<Rightarrow> owned_action option" where
  "blend_step from to t i =
     (let gripper_only = carries_only_grip to in
      case from of
        None \<Rightarrow> if gripper_only \<or> oa_part to = None then Some to else None
      | Some from \<Rightarrow>
          if crosses_parts from to \<or> (\<not> gripper_only \<and> length (oa_values from) \<noteq> length (oa_values to)) then None
          else (let w = weight i t in
            Some \<lparr>oa_values = map (\<lambda>(a, b). mix w a b) (zip (oa_values from) (oa_values to)),
                  oa_velocity_feedforward = None,
                  oa_gripper = (case (oa_gripper from, oa_gripper to) of
                      (Some a, Some b) \<Rightarrow> Some (mix w a b)
                    | (_, Some b) \<Rightarrow> Some b
                    | (a, None) \<Rightarrow> a),
                  oa_part = oa_part to\<rparr>))"

subsection \<open>The schedule runs from zero to one\<close>

lemma round_to_zero [simp]: "round_to ff 0 = Fin 0"
  by (simp add: round_to_def)

lemma prec_ok [simp]: "1 \<le> ff_prec binary64" "1 \<le> ff_prec binary32"
  by (simp_all add: binary64_def binary32_def)

lemma round_one: "round_to binary64 1 = Fin 1" "round_to binary32 1 = Fin 1"
  by code_simp+

lemma round_to_nonneg: "0 \<le> q \<Longrightarrow> 1 \<le> ff_prec ff \<Longrightarrow> flt_le (Fin 0) (round_to ff q)"
  using round_to_mono [of 0 q ff] by simp

lemma round_to_ge_one: "1 \<le> q \<Longrightarrow> flt_le (Fin 1) (round_to binary64 q)"
  using round_to_mono [of 1 q binary64] by (simp add: round_one)

lemma round_to_unit: "0 \<le> q \<Longrightarrow> q \<le> 1 \<Longrightarrow> \<exists>p. round_to binary32 q = Fin p \<and> 0 \<le> p \<and> p \<le> 1"
  using round_to_mono [of q 1 binary32] round_to_nonneg [of q binary32]
  by (cases "round_to binary32 q") (auto simp: round_one)

lemma flt_le_trans: "flt_le a b \<Longrightarrow> flt_le b c \<Longrightarrow> flt_le a c"
  by (cases a; cases b; cases c) auto

lemma round_to_le_PInf [simp]: "flt_le (round_to ff q) PInf"
  by (simp add: round_to_def Let_def)

lemma fdiv_mono:
  assumes "flt_le (Fin 0) x" and "flt_le x y" and "0 < z"
  shows "flt_le (fdiv binary64 x (Fin z)) (fdiv binary64 y (Fin z))"
  using assms round_to_mono [of "p / z" "q / z" binary64 for p q]
  by (cases x; cases y) (auto simp: finf_def divide_right_mono flt_le.simps split: flt.splits)

lemma round_to_neg: "q < 0 \<Longrightarrow> flt_le (round_to ff q) (Fin 0)"
proof -
  assume "q < 0"
  have "round_half_even (q / pow2 u) \<le> 0" for u
  proof -
    have "q / pow2 u \<le> of_int 0" using \<open>q < 0\<close> by (simp add: divide_le_0_iff less_imp_le)
    from round_half_even_mono [OF this] show ?thesis by (simp only: round_half_even_int)
  qed
  then show ?thesis
    using \<open>q < 0\<close> by (auto simp: round_to_def Let_def mult_nonpos_nonneg less_imp_le)
qed

lemma f64_of_int_window:
  assumes "0 < z" and "in_i64 z"
  shows "\<exists>r. f64_of_int z = Fin r \<and> 1 \<le> r"
proof -
  have "f64_of_int (2 ^ 63) = Fin (2 ^ 63)" by code_simp
  moreover have "flt_le (f64_of_int z) (f64_of_int (2 ^ 63))"
    unfolding f64_of_int_def
    by (rule round_to_mono) (use assms in \<open>simp_all add: in_i64_def i64_max_def\<close>)
  moreover have "flt_le (Fin 1) (f64_of_int z)"
    unfolding f64_of_int_def by (rule round_to_ge_one) (use assms(1) in simp)
  ultimately show ?thesis by (cases "f64_of_int z") auto
qed

definition window_ratio :: "int \<Rightarrow> int \<Rightarrow> flt" where
  "window_ratio e z = fclamp (Fin 0) (Fin 1) (fdiv binary64 (f64_of_int e) (f64_of_int z))"

lemma fclamp_unit: "flt_le (Fin 0) x \<Longrightarrow> \<exists>q. fclamp (Fin 0) (Fin 1) x = Fin q \<and> 0 \<le> q \<and> q \<le> 1"
  by (cases x) (auto simp: fclamp_def)

lemma fclamp_low: "flt_le x (Fin 0) \<Longrightarrow> fclamp (Fin 0) (Fin 1) x = Fin 0"
  by (cases x) (auto simp: fclamp_def)

lemma fclamp_high: "flt_le (Fin 1) x \<Longrightarrow> fclamp (Fin 0) (Fin 1) x = Fin 1"
  by (cases x) (auto simp: fclamp_def)

lemma fclamp_mono: "flt_le (Fin 0) x \<Longrightarrow> flt_le x y \<Longrightarrow>
  flt_le (fclamp (Fin 0) (Fin 1) x) (fclamp (Fin 0) (Fin 1) y)"
  by (cases x; cases y) (auto simp: fclamp_def)

lemma fdiv_neg: "flt_le x (Fin 0) \<Longrightarrow> 0 < z \<Longrightarrow> flt_le (fdiv binary64 x (Fin z)) (Fin 0)"
  using round_to_neg [of "q / z" binary64 for q]
  by (cases x) (auto simp: finf_def divide_neg_pos order_le_less)

lemma fdiv_nonneg: "flt_le (Fin 0) x \<Longrightarrow> 0 < z \<Longrightarrow> flt_le (Fin 0) (fdiv binary64 x (Fin z))"
  using fdiv_mono [of "Fin 0" x z] by simp

lemma f64_of_int_mono: "0 \<le> e \<Longrightarrow> e \<le> e' \<Longrightarrow> flt_le (f64_of_int e) (f64_of_int e')"
  unfolding f64_of_int_def by (rule round_to_mono) simp_all

lemma f64_of_int_sign: "0 \<le> e \<Longrightarrow> flt_le (Fin 0) (f64_of_int e)" "e < 0 \<Longrightarrow> flt_le (f64_of_int e) (Fin 0)"
  by (simp_all add: f64_of_int_def round_to_nonneg round_to_neg)

lemma window_ratio_facts:
  assumes "0 < z" and "in_i64 z"
  shows "\<exists>q. window_ratio e z = Fin q \<and> 0 \<le> q \<and> q \<le> 1"
    and "e \<le> e' \<Longrightarrow> flt_le (window_ratio e z) (window_ratio e' z)"
    and "z \<le> e \<Longrightarrow> window_ratio e z = Fin 1"
proof -
  obtain r where r: "f64_of_int z = Fin r" "1 \<le> r" using f64_of_int_window [OF assms] by auto
  have low: "window_ratio e z = Fin 0" if "e < 0" for e
    using fclamp_low [OF fdiv_neg [OF f64_of_int_sign(2) [OF that], of r]] r by (simp add: window_ratio_def)
  have unit: "\<exists>q. window_ratio e z = Fin q \<and> 0 \<le> q \<and> q \<le> 1" if "0 \<le> e" for e
    using fclamp_unit [OF fdiv_nonneg [OF f64_of_int_sign(1) [OF that], of r]] r by (simp add: window_ratio_def)
  show "\<exists>q. window_ratio e z = Fin q \<and> 0 \<le> q \<and> q \<le> 1"
    using low [of e] unit [of e] by (cases "e < 0") auto
  show "flt_le (window_ratio e z) (window_ratio e' z)" if "e \<le> e'"
  proof (cases "e < 0")
    case True
    then show ?thesis using low [of e] low [of e'] unit [of e'] by (cases "e' < 0") auto
  next
    case False
    then show ?thesis
      using fclamp_mono [OF fdiv_nonneg fdiv_mono, of "f64_of_int e" r "f64_of_int e'"] r that
      by (simp add: window_ratio_def f64_of_int_sign f64_of_int_mono)
  qed
  show "window_ratio e z = Fin 1" if "z \<le> e"
  proof -
    have "flt_le (Fin r) (f64_of_int e)" using f64_of_int_mono [of z e] that assms(1) r by simp
    then have "flt_le (fdiv binary64 (Fin r) (Fin r)) (fdiv binary64 (f64_of_int e) (Fin r))"
      using r by (intro fdiv_mono) simp_all
    then have "flt_le (Fin 1) (fdiv binary64 (f64_of_int e) (Fin r))" using r by (simp add: round_one)
    from fclamp_high [OF this] show ?thesis by (simp add: window_ratio_def r)
  qed
qed

text \<open>
  The cross-fade window runs from zero to one and ends: in time stamps that do not wrap
  the progress is a finite number between 0 and 1, it never decreases as time advances, and it
  is exactly 1 from the end of the declared window on, whatever the rounding of the division
  and of the narrowing to \<open>f32\<close>.
\<close>

theorem blend_window_ends:
  assumes "in_i64 (bs_blend_ns s)" and "in_i64 (now - bs_start s)" and "in_i64 (now' - bs_start s)"
  shows "(\<exists>p. progress s now = Fin p \<and> 0 \<le> p \<and> p \<le> 1) \<and>
    (now \<le> now' \<longrightarrow> flt_le (progress s now) (progress s now')) \<and>
    (bs_start s + bs_blend_ns s \<le> now \<longrightarrow> progress s now = Fin 1)"
proof (cases "bs_blend_ns s \<le> 0")
  case False
  then have z: "0 < bs_blend_ns s" by simp
  have p: "progress s t = to_f32 (window_ratio (t - bs_start s) (bs_blend_ns s))" if "in_i64 (t - bs_start s)" for t
    using z i64_wrap_id [OF that] by (simp add: progress_def window_ratio_def)
  note facts = window_ratio_facts [OF z assms(1)]
  obtain q where q: "window_ratio (now - bs_start s) (bs_blend_ns s) = Fin q" "0 \<le> q" "q \<le> 1"
    using facts(1) by blast
  obtain q' where q': "window_ratio (now' - bs_start s) (bs_blend_ns s) = Fin q'" "0 \<le> q'" "q' \<le> 1"
    using facts(1) by blast
  have "now \<le> now' \<Longrightarrow> q \<le> q'" using facts(2) [of "now - bs_start s" "now' - bs_start s"] q(1) q'(1) by simp
  moreover have "bs_start s + bs_blend_ns s \<le> now \<Longrightarrow> q = 1"
    using facts(3) [of "now - bs_start s"] q(1) by simp
  ultimately show ?thesis
    using round_to_unit [OF q(2,3)] round_to_mono [OF q(2), of q' binary32]
    by (auto simp: p [OF assms(2)] p [OF assms(3)] q(1) q'(1) round_one)
qed (simp add: progress_def)

definition demo_schedule :: blend_schedule where
  "demo_schedule = \<lparr>bs_start = 100, bs_blend_ns = 10, bs_interp = IN_Linear\<rparr>"

theorem blend_window_ends_witness:
  "flt_le (progress demo_schedule 103) (progress demo_schedule 112) \<and> progress demo_schedule 112 = Fin 1"
  using blend_window_ends [of demo_schedule 103 112] blend_window_ends [of demo_schedule 112 112]
  by (simp add: demo_schedule_def in_i64_def i64_min_def i64_max_def)

subsection \<open>What one blend step may do\<close>

lemma blend_step_keeps_scope: "blend_step from to t i = Some a \<Longrightarrow>
  length (oa_values a) = length (oa_values to) \<and> oa_part a = oa_part to"
  by (auto simp: blend_step_def Let_def carries_only_grip_def split: option.splits if_splits)

text \<open>
  A blend step refuses exactly the pairs that are not endpoints of one cross-fade (an arm
  row for a named part with nothing to fade from, two different parts, two different widths),
  and what it lets through commands what the target commands: the target's width and part, a
  gripper position whenever the target has one, and a velocity only if it is the untouched target.
\<close>

theorem blend_step_keeps_the_target_scope:
  "(blend_step from to t i = None \<longleftrightarrow>
      (case from of
         None \<Rightarrow> \<not> carries_only_grip to \<and> oa_part to \<noteq> None
       | Some f \<Rightarrow> crosses_parts f to \<or>
           (\<not> carries_only_grip to \<and> length (oa_values f) \<noteq> length (oa_values to)))) \<and>
   (blend_step from to t i = Some a \<longrightarrow>
      length (oa_values a) = length (oa_values to) \<and> oa_part a = oa_part to \<and>
      (oa_gripper to \<noteq> None \<longrightarrow> oa_gripper a \<noteq> None) \<and>
      (oa_velocity_feedforward a \<noteq> None \<longrightarrow> from = None \<and> a = to))"
  by (auto simp: blend_step_def Let_def carries_only_grip_def split: option.splits)

definition demo_arm :: "string option \<Rightarrow> flt list \<Rightarrow> flt option \<Rightarrow> owned_action" where
  "demo_arm part vs g = \<lparr>oa_values = vs, oa_velocity_feedforward = None, oa_gripper = g, oa_part = part\<rparr>"

lemma demo_blend: "blend_step (Some (demo_arm None [Fin 0] None)) (demo_arm None [Fin 1] None) (Fin 0) IN_Hold =
  Some (demo_arm None [Fin 0] None)"
proof -
  have "mix (Fin 0) (Fin 0) (Fin 1) = Fin 0"
    by (simp add: mix_def fsub_def round_one)
  moreover have "weight IN_Hold (Fin 0) = Fin 0" by (simp add: weight_def fclamp_def)
  ultimately show ?thesis by (simp add: blend_step_def demo_arm_def carries_only_grip_def crosses_parts_def)
qed

theorem blend_step_keeps_the_target_scope_witness:
  "length (oa_values (demo_arm None [Fin 0] None)) = length (oa_values (demo_arm None [Fin 1] None))"
  by (rule blend_step_keeps_the_target_scope [THEN conjunct2, THEN mp, OF demo_blend, THEN conjunct1])

text \<open>
  A gripper-only action that fades from an anchor leaves an anchor without an arm row, so every
  arm row that comes due in the rest of the window is refused, although an arm point was
  commanded before it.
\<close>

lemma gripper_only_evicts_the_anchor:
  assumes "carries_only_grip to" and "blend_step (Some from) to t i = Some a" and "oa_values arm \<noteq> []"
  shows "blend_step (Some a) arm t' i' = None"
proof -
  have "oa_values a = []" using assms(1,2)
    by (auto simp: blend_step_def carries_only_grip_def Let_def split: if_splits)
  then show ?thesis using assms(3) by (auto simp: blend_step_def carries_only_grip_def)
qed

end
