(* ===== verification/Waddle_Gate.thy ===== *)
theory Waddle_Gate
  imports Waddle_Blend Waddle_Event Waddle_Buffers
begin

text \<open>
  The gate (\<^verbatim>\<open>waddle-gate/src/gate.rs\<close>, \<^verbatim>\<open>plan.rs\<close>,
  \<^verbatim>\<open>record.rs\<close>, \<^verbatim>\<open>stats.rs\<close>): one synchronous call per tick,
  which stamps and counts the tick, consults the plan, and returns the caller's own action, an
  intervention's, or nothing. The rings are a third-party single-producer queue: a tick receives
  the arrivals its consumer end yields, and whether the record ring had room, as arguments.
\<close>

subsection \<open>Plans and records\<close>

datatype plan_mode =
    PM_Passthrough
  | PM_Claimed provenance_tag "blend_schedule option"
  | PM_Bypass provenance_tag
  | PM_Reset provenance_tag
  | PM_AgentEpisode provenance_tag
  | PM_Held

record gate_plan =
  pl_mode :: plan_mode
  pl_since :: mono_ns

definition plan_passthrough :: "mono_ns \<Rightarrow> gate_plan" where
  "plan_passthrough since = \<lparr>pl_mode = PM_Passthrough, pl_since = since\<rparr>"

datatype gate_decision = GD_Pass | GD_Substitute | GD_Blend | GD_Noop | GD_Hold | GD_ResetActive | GD_AgentEpisode

record gate_record =
  gr_stamp :: stamp
  gr_seq :: u64
  gr_decision :: gate_decision
  gr_provenance :: provenance_tag
  gr_action :: "owned_action option"
  gr_obs :: "flt list option"

datatype gate_output =
    GO_Pass provenance_tag
  | GO_Substitute owned_action provenance_tag
  | GO_Blend owned_action flt provenance_tag
  | GO_Noop provenance_tag
  | GO_Hold

subsection \<open>Tick statistics\<close>

definition slots :: nat where "slots = 128"

record tick_stats =
  tk_last_tick_ns :: int
  tk_deltas :: "int list"
  tk_count :: u64

record tick_snapshot =
  sn_p50_ns :: int
  sn_p95_ns :: int
  sn_max_ns :: int
  sn_samples :: nat

definition tick_stats_new :: tick_stats where
  "tick_stats_new = \<lparr>tk_last_tick_ns = 0, tk_deltas = replicate slots 0, tk_count = 0\<rparr>"

definition record_tick :: "mono_ns \<Rightarrow> tick_stats \<Rightarrow> tick_stats" where
  "record_tick now s =
     (let prev = tk_last_tick_ns s; s = s\<lparr>tk_last_tick_ns := now\<rparr> in
      if prev \<noteq> 0
      then s\<lparr>tk_count := tk_count s + 1,
             tk_deltas := (tk_deltas s)[unat (tk_count s) mod slots := i64_wrap (now - prev)]\<rparr>
      else s)"

definition last_tick :: "tick_stats \<Rightarrow> mono_ns option" where
  "last_tick s = (if tk_last_tick_ns s = 0 then None else Some (tk_last_tick_ns s))"

definition snapshot :: "tick_stats \<Rightarrow> tick_snapshot" where
  "snapshot s =
     (let filled = min (unat (tk_count s)) slots in
      if filled = 0 then \<lparr>sn_p50_ns = 0, sn_p95_ns = 0, sn_max_ns = 0, sn_samples = 0\<rparr>
      else (let vals = sort (take filled (tk_deltas s)) in
            \<lparr>sn_p50_ns = vals ! (filled div 2), sn_p95_ns = vals ! (filled * 95 div 100),
             sn_max_ns = last vals, sn_samples = filled\<rparr>))"

subsection \<open>The gate\<close>

definition intake_pop_due :: "mono_ns \<Rightarrow> timed_action list \<Rightarrow> jitter_buffer \<Rightarrow> owned_action option \<times> jitter_buffer" where
  "intake_pop_due now arrivals jitter = pop_due now (fold ingest arrivals jitter)"

text \<open>Clearing discards what the ring still holds with the jitter buffer's contents.\<close>

definition intake_clear :: "timed_action list \<Rightarrow> jitter_buffer \<Rightarrow> jitter_buffer" where
  "intake_clear arrivals jitter = clear_pending jitter"

record gate_shared =
  gs_plan :: gate_plan
  gs_stats :: tick_stats
  gs_jitter :: jitter_buffer

definition gate_shared_new :: "gate_plan \<Rightarrow> int \<Rightarrow> replan_policy \<Rightarrow> gate_shared" where
  "gate_shared_new initial delay replan =
     \<lparr>gs_plan = initial, gs_stats = tick_stats_new, gs_jitter = jitter_new delay replan\<rparr>"

record gate_state =
  ga_shared :: gate_shared
  ga_seq :: u64
  ga_last_action :: "owned_action option"
  ga_records_dropped :: u64

definition gate_new :: "gate_shared \<Rightarrow> gate_state" where
  "gate_new sh = \<lparr>ga_shared = sh, ga_seq = 0, ga_last_action = None, ga_records_dropped = 0\<rparr>"

record tick =
  ti_stamp :: stamp
  ti_arrivals :: "timed_action list"
  ti_ring_has_room :: bool

definition push_record ::
  "tick \<Rightarrow> gate_decision \<Rightarrow> provenance_tag \<Rightarrow> owned_action option \<Rightarrow> flt list option \<Rightarrow> gate_state \<Rightarrow> gate_record \<times> gate_state" where
  "push_record ti decision prov act obs g =
     (\<lparr>gr_stamp = ti_stamp ti, gr_seq = ga_seq g, gr_decision = decision, gr_provenance = prov,
       gr_action = act, gr_obs = obs\<rparr>,
      if ti_ring_has_room ti then g else g\<lparr>ga_records_dropped := ga_records_dropped g + 1\<rparr>)"

text \<open>The claimed arm, once an intervention action is due.\<close>

definition gate_target ::
  "tick \<Rightarrow> provenance_tag \<Rightarrow> blend_schedule option \<Rightarrow> owned_action \<Rightarrow> flt list option \<Rightarrow> gate_state \<Rightarrow>
   gate_output \<times> gate_record \<times> gate_state" where
  "gate_target ti prov blend target obs g =
     (let p = (case blend of None \<Rightarrow> Fin 1 | Some b \<Rightarrow> progress b (mono (ti_stamp ti))) in
      if flt_less p (Fin 1)
      then (case blend_step (ga_last_action g) target p (bs_interp (the blend)) of
              Some blended \<Rightarrow>
                (let (r, g) = push_record ti GD_Blend prov (Some blended) obs (g\<lparr>ga_last_action := Some blended\<rparr>)
                 in (GO_Blend blended p prov, r, g))
            | None \<Rightarrow> (let (r, g) = push_record ti GD_Hold prov None obs g in (GO_Hold, r, g)))
      else (let (r, g) = push_record ti GD_Substitute prov (Some target) obs (g\<lparr>ga_last_action := Some target\<rparr>)
            in (GO_Substitute target prov, r, g)))"

definition gate_claimed ::
  "tick \<Rightarrow> provenance_tag \<Rightarrow> blend_schedule option \<Rightarrow> flt list option \<Rightarrow> gate_state \<Rightarrow> gate_output \<times> gate_record \<times> gate_state" where
  "gate_claimed ti prov blend obs g =
     (let (due, jitter) = intake_pop_due (mono (ti_stamp ti)) (ti_arrivals ti) (gs_jitter (ga_shared g));
          g = g\<lparr>ga_shared := (ga_shared g)\<lparr>gs_jitter := jitter\<rparr>\<rparr>
      in case due of
           None \<Rightarrow> (let (r, g) = push_record ti GD_Hold prov None obs g in (GO_Hold, r, g))
         | Some target \<Rightarrow> gate_target ti prov blend target obs g)"

definition gate_scoped ::
  "tick \<Rightarrow> flt list \<Rightarrow> flt option \<Rightarrow> flt list option \<Rightarrow> string option \<Rightarrow> gate_state \<Rightarrow> gate_output \<times> gate_record \<times> gate_state" where
  "gate_scoped ti vals gripper obs part g =
     (let g = g\<lparr>ga_shared := (ga_shared g)\<lparr>gs_stats := record_tick (mono (ti_stamp ti)) (gs_stats (ga_shared g))\<rparr>,
                ga_seq := ga_seq g + 1\<rparr>
      in case pl_mode (gs_plan (ga_shared g)) of
           PM_Passthrough \<Rightarrow>
             (let act = \<lparr>oa_values = vals, oa_velocity_feedforward = None, oa_gripper = gripper, oa_part = part\<rparr>;
                  (r, g) = push_record ti GD_Pass policy_provenance (Some act) obs g
              in (GO_Pass policy_provenance, r, g\<lparr>ga_last_action := Some act\<rparr>))
         | PM_Held \<Rightarrow>
             (let (r, g) = push_record ti GD_Hold policy_provenance None obs g in (GO_Hold, r, g))
         | PM_Bypass prov \<Rightarrow>
             (let (r, g) = push_record ti GD_Noop prov None obs g in (GO_Noop prov, r, g))
         | PM_Reset prov \<Rightarrow>
             (let (r, g) = push_record ti GD_ResetActive prov None obs g in (GO_Noop prov, r, g))
         | PM_AgentEpisode prov \<Rightarrow>
             (let (r, g) = push_record ti GD_AgentEpisode prov None obs g in (GO_Noop prov, r, g))
         | PM_Claimed prov blend \<Rightarrow> gate_claimed ti prov blend obs g)"

definition gate :: "tick \<Rightarrow> flt list \<Rightarrow> flt option \<Rightarrow> flt list option \<Rightarrow> gate_state \<Rightarrow> gate_output \<times> gate_record \<times> gate_state" where
  "gate ti vals gripper obs g = gate_scoped ti vals gripper obs None g"

definition store_plan :: "gate_plan \<Rightarrow> gate_state \<Rightarrow> gate_state" where
  "store_plan plan g = g\<lparr>ga_shared := (ga_shared g)\<lparr>gs_plan := plan\<rparr>\<rparr>"

subsection \<open>What leaves the gate\<close>

fun dispatched :: "gate_output \<Rightarrow> owned_action option" where
  "dispatched (GO_Substitute a prov) = Some a"
| "dispatched (GO_Blend a p prov) = Some a"
| "dispatched out = None"

lemma push_record_facts [simp]:
  "gr_action (fst (push_record ti d prov act obs g)) = act"
  "gr_decision (fst (push_record ti d prov act obs g)) = d"
  "gr_provenance (fst (push_record ti d prov act obs g)) = prov"
  "gr_obs (fst (push_record ti d prov act obs g)) = obs"
  "gr_seq (fst (push_record ti d prov act obs g)) = ga_seq g"
  "ga_last_action (snd (push_record ti d prov act obs g)) = ga_last_action g"
  "ga_seq (snd (push_record ti d prov act obs g)) = ga_seq g"
  "ga_shared (snd (push_record ti d prov act obs g)) = ga_shared g"
  "ga_records_dropped (snd (push_record ti d prov act obs g)) =
     ga_records_dropped g + (if ti_ring_has_room ti then 0 else 1)"
  by (simp_all add: push_record_def)

lemma jitter_state_ok:
  "jitter_ok b \<Longrightarrow> jitter_ok (fold ingest arrivals b)"
  by (induction arrivals arbitrary: b) (simp_all add: ingest_ok)

text \<open>What a claimed tick finds due.\<close>

definition due_at :: "tick \<Rightarrow> gate_state \<Rightarrow> owned_action option" where
  "due_at ti g = fst (intake_pop_due (mono (ti_stamp ti)) (ti_arrivals ti) (gs_jitter (ga_shared g)))"

lemma gate_target_cases:
  assumes "gate_target ti prov blend target obs g = (out, r, g')"
  shows "gr_action r = dispatched out \<and> gr_obs r = obs \<and> gr_seq r = ga_seq g \<and> ga_seq g' = ga_seq g \<and>
    gr_provenance r = prov \<and> ga_shared g' = ga_shared g \<and>
    ga_records_dropped g' = ga_records_dropped g + (if ti_ring_has_room ti then 0 else 1) \<and>
    ga_last_action g' = (case dispatched out of Some a \<Rightarrow> Some a | None \<Rightarrow> ga_last_action g) \<and>
    (out = GO_Hold \<or> out = GO_Substitute target prov \<or>
     (\<exists>b a p. blend = Some b \<and> out = GO_Blend a p prov \<and>
        blend_step (ga_last_action g) target p (bs_interp b) = Some a))"
  using assms
  by (auto simp: gate_target_def Let_def prod_eq_iff split: if_splits option.splits)

lemma gate_claimed_cases:
  assumes "gate_claimed ti prov blend obs g = (out, r, g')"
  shows "gr_action r = dispatched out \<and> gr_obs r = obs \<and> gr_seq r = ga_seq g \<and> ga_seq g' = ga_seq g \<and>
    gr_provenance r = prov \<and>
    ga_records_dropped g' = ga_records_dropped g + (if ti_ring_has_room ti then 0 else 1) \<and>
    ga_last_action g' = (case dispatched out of Some a \<Rightarrow> Some a | None \<Rightarrow> ga_last_action g) \<and>
    (out = GO_Hold \<or> (\<exists>target. due_at ti g = Some target \<and>
       (out = GO_Substitute target prov \<or>
        (\<exists>b a p. blend = Some b \<and> out = GO_Blend a p prov \<and>
           blend_step (ga_last_action g) target p (bs_interp b) = Some a))))"
proof -
  obtain due jitter where pop: "intake_pop_due (mono (ti_stamp ti)) (ti_arrivals ti) (gs_jitter (ga_shared g)) = (due, jitter)"
    by fastforce
  show ?thesis
  proof (cases due)
    case None
    then show ?thesis using assms by (auto simp: gate_claimed_def pop prod_eq_iff split: prod.splits)
  next
    case (Some target)
    let ?g = "g\<lparr>ga_shared := (ga_shared g)\<lparr>gs_jitter := jitter\<rparr>\<rparr>"
    from assms Some have "gate_target ti prov blend target obs ?g = (out, r, g')"
      by (simp add: gate_claimed_def pop)
    from gate_target_cases [OF this] Some show ?thesis
      by (simp add: due_at_def pop cong: option.case_cong)
  qed
qed

text \<open>
  C21. The gate dispatches only what its plan allows, and records exactly that. The caller's
  action passes precisely under the passthrough plan; anything else that leaves the gate leaves
  under a claimed plan, is attributed to the claim's provenance, and is the intervention action
  due now or one blended from it with its width and part; under every other plan nothing leaves.
  Every tick yields one record, with the next sequence number, the caller's observation and the
  action that left the gate (which becomes the next blend anchor); a full ring only counts it.
\<close>

theorem gate_dispatches_as_planned:
  assumes "gate_scoped ti vals gripper obs part g = (out, r, g')"
  defines "own \<equiv> \<lparr>oa_values = vals, oa_velocity_feedforward = None, oa_gripper = gripper, oa_part = part\<rparr>"
  shows "(pl_mode (gs_plan (ga_shared g)) = PM_Passthrough \<longleftrightarrow> (\<exists>prov. out = GO_Pass prov)) \<and>
    (\<forall>a. dispatched out = Some a \<longrightarrow> (\<exists>prov blend target. pl_mode (gs_plan (ga_shared g)) = PM_Claimed prov blend \<and>
       due_at ti g = Some target \<and> gr_provenance r = prov \<and>
       oa_part a = oa_part target \<and> length (oa_values a) = length (oa_values target))) \<and>
    gr_action r = (if \<exists>prov. out = GO_Pass prov then Some own else dispatched out) \<and>
    gr_obs r = obs \<and> gr_seq r = ga_seq g + 1 \<and> ga_seq g' = ga_seq g + 1 \<and>
    ga_last_action g' = (case gr_action r of Some a \<Rightarrow> Some a | None \<Rightarrow> ga_last_action g) \<and>
    ga_records_dropped g' = ga_records_dropped g + (if ti_ring_has_room ti then 0 else 1)"
proof (cases "pl_mode (gs_plan (ga_shared g))")
  case (PM_Claimed prov blend)
  let ?g = "g\<lparr>ga_shared := (ga_shared g)\<lparr>gs_stats := record_tick (mono (ti_stamp ti)) (gs_stats (ga_shared g))\<rparr>,
      ga_seq := ga_seq g + 1\<rparr>"
  have "gate_claimed ti prov blend obs ?g = (out, r, g')"
    using assms(1) PM_Claimed by (simp add: gate_scoped_def Let_def)
  note facts = gate_claimed_cases [OF this]
  have "due_at ti ?g = due_at ti g" by (simp add: due_at_def)
  with facts PM_Claimed show ?thesis
    using blend_step_keeps_scope by (auto 0 3)
qed (use assms in \<open>auto simp: gate_scoped_def Let_def prod_eq_iff split: prod.splits\<close>)

definition demo_tick :: "timed_action list \<Rightarrow> tick" where
  "demo_tick arrivals = \<lparr>ti_stamp = \<lparr>mono = 112, epoch = 0\<rparr>, ti_arrivals = arrivals, ti_ring_has_room = True\<rparr>"

definition demo_gate :: gate_state where
  "demo_gate = gate_new (gate_shared_new
     \<lparr>pl_mode = PM_Claimed policy_provenance (Some demo_schedule), pl_since = 100\<rparr> 0 RP_Immediate)"

definition demo_out :: "gate_output \<times> gate_record \<times> gate_state" where
  "demo_out = gate_scoped (demo_tick [demo_timed 1 None]) [] None None None demo_gate"

lemma demo_due: "due_at (demo_tick [demo_timed 1 None]) demo_gate = Some (ta_action (demo_timed 1 None))"
  by (simp add: due_at_def intake_pop_due_def demo_tick_def demo_gate_def gate_new_def gate_shared_new_def
      jitter_new_def channel_default_def ingest_def enqueue_def demo_timed_def pop_due_def due_head_def
      better_head_def i64_wrap_def)

theorem gate_dispatches_as_planned_witness:
  "gr_seq (fst (snd demo_out)) = 1 \<and> (\<forall>prov. fst demo_out \<noteq> GO_Pass prov)"
  using gate_dispatches_as_planned [of "demo_tick [demo_timed 1 None]" "[]" None None None demo_gate
      "fst demo_out" "fst (snd demo_out)" "snd (snd demo_out)"]
  by (simp add: demo_out_def demo_gate_def gate_new_def gate_shared_new_def)

text \<open>
  A hand-off finishes. From the end of the declared cross-fade on, every intervention
  action that comes due under the claim leaves the gate as it arrived, as a substitution: no
  anchor, width or part can hold it back any more.
\<close>

theorem handoff_completes:
  assumes "pl_mode (gs_plan (ga_shared g)) = PM_Claimed prov (Some b)"
    and "in_i64 (bs_blend_ns b)" and "in_i64 (mono (ti_stamp ti) - bs_start b)"
    and "bs_start b + bs_blend_ns b \<le> mono (ti_stamp ti)" and "due_at ti g = Some target"
  shows "fst (gate_scoped ti vals gripper obs part g) = GO_Substitute target prov"
proof -
  have "progress b (mono (ti_stamp ti)) = Fin 1"
    using blend_window_ends [OF assms(2,3,3)] assms(4) by blast
  then have "fst (gate_target ti prov (Some b) target obs h) = GO_Substitute target prov" for h
    by (simp add: gate_target_def Let_def split: prod.split)
  with assms(1,5) show ?thesis
    by (auto simp: gate_scoped_def Let_def gate_claimed_def due_at_def split: prod.splits)
qed

theorem handoff_completes_witness: "fst demo_out = GO_Substitute (ta_action (demo_timed 1 None)) policy_provenance"
  unfolding demo_out_def
  by (rule handoff_completes [OF _ _ _ _ demo_due, of policy_provenance demo_schedule])
    (simp_all add: demo_gate_def gate_new_def gate_shared_new_def demo_schedule_def demo_tick_def in_i64_def
      i64_min_def i64_max_def)

text \<open>
  A dead claim leaves nothing behind. Whatever a reachable jitter buffer held when the
  intake was cleared, everything played out afterwards arrived afterwards.
\<close>

theorem cleared_intake_delivers_only_later_arrivals:
  assumes "b = fold jb_apply before (jitter_new delay replan)"
    and "(c, a, now) \<in> set (delivered (intake_clear ring b) ops)"
  shows "JB_Ingest a \<in> set ops"
proof -
  have "jitter_ok (fold jb_apply before b')" if "jitter_ok b'" for b'
    using that by (induction before arbitrary: b') (simp_all add: apply_ok)
  from cleared_delivers_nothing_old [OF this [OF new_ok], of c a now delay replan ops] assms
  show ?thesis by (simp add: intake_clear_def)
qed

theorem cleared_intake_delivers_only_later_arrivals_witness:
  "delivered (intake_clear [] (fold jb_apply [JB_Ingest (demo_timed 9 None)] (jitter_new 0 RP_Immediate))) demo_ops =
     [(SC_AgentChunk, demo_timed 1 None, 5), (SC_AgentChunk, demo_timed 2 None, 6)] \<and>
   JB_Ingest (demo_timed 1 None) \<in> set demo_ops"
proof -
  have d: "delivered (intake_clear [] (fold jb_apply [JB_Ingest (demo_timed 9 None)] (jitter_new 0 RP_Immediate))) demo_ops =
     [(SC_AgentChunk, demo_timed 1 None, 5), (SC_AgentChunk, demo_timed 2 None, 6)]"
    by code_simp
  then show ?thesis
    using cleared_intake_delivers_only_later_arrivals [OF refl, of SC_AgentChunk "demo_timed 1 None" 5 "[]"
        "[JB_Ingest (demo_timed 9 None)]" 0 RP_Immediate demo_ops] by simp
qed

subsection \<open>The tick reservoir is a drop-oldest window\<close>

text \<open>The reservoir with the number of deltas it has seen; its items in order of age.\<close>

definition store_delta :: "int \<Rightarrow> tick_stats \<times> nat \<Rightarrow> tick_stats \<times> nat" where
  "store_delta d r = ((fst r)\<lparr>tk_count := tk_count (fst r) + 1,
     tk_deltas := (tk_deltas (fst r))[unat (tk_count (fst r)) mod slots := d]\<rparr>, snd r + 1)"

definition reservoir :: "tick_stats \<times> nat \<Rightarrow> int list" where
  "reservoir r = (if snd r < slots then take (snd r) (tk_deltas (fst r))
     else rotate (snd r mod slots) (tk_deltas (fst r)))"

definition reservoir_ok :: "tick_stats \<times> nat \<Rightarrow> bool" where
  "reservoir_ok r \<longleftrightarrow> tk_count (fst r) = of_nat (snd r) \<and> length (tk_deltas (fst r)) = slots"

lemma count_mod: "unat (of_nat n :: u64) mod slots = n mod slots"
  by (simp add: slots_def unat_of_nat mod_mod_cancel)

lemma rotate_update:
  assumes "length xs = n" and "k < n"
  shows "rotate (Suc k mod n) (xs[k := d]) = tl (rotate k xs) @ [d]"
proof (rule nth_equalityI)
  fix i
  assume "i < length (rotate (Suc k mod n) (xs[k := d]))"
  then have i: "i < n" using assms by simp
  have l: "rotate (Suc k mod n) (xs[k := d]) ! i = xs[k := d] ! ((Suc k + i) mod n)"
    using i assms by (simp add: nth_rotate mod_add_left_eq)
  show "rotate (Suc k mod n) (xs[k := d]) ! i = (tl (rotate k xs) @ [d]) ! i"
  proof (cases "Suc i < n")
    case True
    have "(Suc k + i) mod n \<noteq> k"
    proof
      assume "(Suc k + i) mod n = k"
      then have "(Suc k + i) mod n = k mod n" using assms by simp
      then have "n dvd Suc i" by (simp add: mod_eq_dvd_iff_nat)
      with True show False by (auto dest: dvd_imp_le)
    qed
    with True l assms show ?thesis by (auto simp: nth_append nth_tl nth_rotate)
  next
    case False
    with i have "i = n - 1" by simp
    with l assms show ?thesis by (simp add: nth_append)
  qed
qed (use assms in simp)

interpretation ticks: drop_oldest reservoir "\<lambda>_. slots" store_delta reservoir_ok
proof
  fix r :: "tick_stats \<times> nat" and d
  assume ok: "reservoir_ok r"
  then have count: "unat (tk_count (fst r)) mod slots = snd r mod slots"
    and len: "length (tk_deltas (fst r)) = slots" by (simp_all add: reservoir_ok_def count_mod)
  show "0 < slots \<and> length (reservoir r) \<le> slots"
    using len by (simp add: reservoir_def slots_def)
  show "reservoir_ok (store_delta d r)" using ok by (simp add: reservoir_ok_def store_delta_def)
  show "reservoir (store_delta d r) =
      (if length (reservoir r) = slots then tl (reservoir r) else reservoir r) @ [d]"
  proof (cases "snd r < slots")
    case True
    then have upd: "(tk_deltas (fst r))[snd r := d] = take (snd r) (tk_deltas (fst r)) @ d # drop (Suc (snd r)) (tk_deltas (fst r))"
      using len by (simp add: upd_conv_take_nth_drop)
    show ?thesis
    proof (cases "Suc (snd r) < slots")
      case True
      with upd len count show ?thesis by (simp add: reservoir_def store_delta_def)
    next
      case False
      with \<open>snd r < slots\<close> have "Suc (snd r) = slots" by simp
      with upd len count show ?thesis by (simp add: reservoir_def store_delta_def)
    qed
  next
    case False
    then show ?thesis
      using len count rotate_update [OF len, of "snd r mod slots" d]
      by (simp add: reservoir_def store_delta_def mod_Suc_eq slots_def)
  qed
qed simp

fun tick_deltas :: "int \<Rightarrow> int list \<Rightarrow> int list" where
  "tick_deltas prev [] = []"
| "tick_deltas prev (t # ts) = (if prev \<noteq> 0 then [i64_wrap (t - prev)] else []) @ tick_deltas t ts"

lemma record_ticks:
  assumes "tk_deltas s = tk_deltas (fst r)" and "tk_count s = tk_count (fst r)"
  shows "tk_deltas (fold record_tick ts s) = tk_deltas (fst (fold store_delta (tick_deltas (tk_last_tick_ns s) ts) r)) \<and>
    tk_count (fold record_tick ts s) = tk_count (fst (fold store_delta (tick_deltas (tk_last_tick_ns s) ts) r))"
  using assms
proof (induction ts arbitrary: s r)
  case (Cons t ts)
  have last: "tk_last_tick_ns (record_tick t s) = t" by (simp add: record_tick_def Let_def)
  show ?case
  proof (cases "tk_last_tick_ns s = 0")
    case True
    with Cons.prems have "tk_deltas (record_tick t s) = tk_deltas (fst r)" "tk_count (record_tick t s) = tk_count (fst r)"
      by (simp_all add: record_tick_def)
    from Cons.IH [OF this] last True show ?thesis by simp
  next
    case False
    let ?r = "store_delta (i64_wrap (t - tk_last_tick_ns s)) r"
    from False Cons.prems have "tk_deltas (record_tick t s) = tk_deltas (fst ?r)" "tk_count (record_tick t s) = tk_count (fst ?r)"
      by (simp_all add: record_tick_def Let_def store_delta_def)
    from Cons.IH [OF this] last False show ?thesis by simp
  qed
qed simp

lemma snd_store_deltas: "snd (fold store_delta ds r) = snd r + length ds"
  by (induction ds arbitrary: r) (simp_all add: store_delta_def)

lemma mset_reservoir:
  "reservoir_ok r \<Longrightarrow> mset (reservoir r) = mset (take (min (snd r) slots) (tk_deltas (fst r)))"
proof -
  have rot: "mset (rotate n xs) = mset xs" for n and xs :: "int list"
    by (metis append_take_drop_id mset_append rotate_drop_take union_commute)
  assume "reservoir_ok r"
  then show ?thesis by (simp add: reservoir_def reservoir_ok_def rot min_def)
qed

lemma last_sort: "(w :: int list) \<noteq> [] \<Longrightarrow> last (sort w) = Max (set w)"
proof -
  have upper: "x \<in> set v \<Longrightarrow> sorted v \<Longrightarrow> x \<le> last v" for x and v :: "int list"
    by (induction v) auto
  assume "w \<noteq> []"
  then have "last (sort w) \<in> set w" by (metis last_in_set set_empty set_sort)
  then show ?thesis
    using upper [of _ "sort w"] by (intro Max_eqI [symmetric]) auto
qed

definition percentiles :: "int list \<Rightarrow> tick_snapshot" where
  "percentiles w = (let m = length w in
     if m = 0 then \<lparr>sn_p50_ns = 0, sn_p95_ns = 0, sn_max_ns = 0, sn_samples = 0\<rparr>
     else \<lparr>sn_p50_ns = sort w ! (m div 2), sn_p95_ns = sort w ! (m * 95 div 100),
           sn_max_ns = Max (set w), sn_samples = m\<rparr>)"

lemma percentiles_ordered: "sn_p50_ns (percentiles w) \<le> sn_p95_ns (percentiles w) \<and>
  sn_p95_ns (percentiles w) \<le> sn_max_ns (percentiles w)"
proof (cases "w = []")
  case False
  then have "length w * 95 div 100 < length w" by (simp add: div_less_iff_less_mult)
  moreover have "length w div 2 \<le> length w * 95 div 100" by linarith
  ultimately show ?thesis
    using False
    by (auto simp: percentiles_def Let_def sorted_nth_mono intro!: Max_ge) (metis length_sort nth_mem set_sort)
qed (simp add: percentiles_def)

text \<open>
  The tick statistics describe the newest 128 inter-tick deltas, whatever the order in
  which the slots were overwritten: over fewer than 2^64 ticks the snapshot holds the median, the
  95th percentile and the maximum of exactly those deltas, in that order of size.
\<close>

theorem snapshot_describes_the_newest_deltas:
  assumes "length (tick_deltas 0 ts) < 2 ^ 64"
  shows "snapshot (fold record_tick ts tick_stats_new) = percentiles (newest slots (tick_deltas 0 ts)) \<and>
    (let p = percentiles (newest slots (tick_deltas 0 ts)) in
      sn_p50_ns p \<le> sn_p95_ns p \<and> sn_p95_ns p \<le> sn_max_ns p)"
proof -
  let ?ds = "tick_deltas 0 ts"
  let ?r = "fold store_delta ?ds (tick_stats_new, 0)"
  let ?w = "take (min (length ?ds) slots) (tk_deltas (fst ?r))"
  have ok0: "reservoir_ok (tick_stats_new, 0)" by (simp add: reservoir_ok_def tick_stats_new_def)
  have ok: "reservoir_ok ?r" by (rule ticks.invar_pushes [OF ok0])
  have "reservoir ?r = newest slots ?ds"
    using ticks.items_pushes [OF ok0, of ?ds] by (simp add: reservoir_def slots_def)
  with mset_reservoir [OF ok] have "mset (newest slots ?ds) = mset ?w" by (simp add: snd_store_deltas)
  then have sorted: "sort ?w = sort (newest slots ?ds)" "set ?w = set (newest slots ?ds)"
    by (metis sorted_list_of_multiset_mset, metis set_mset_mset)
  have len: "length (newest slots ?ds) = min (length ?ds) slots" by (simp add: length_newest min.commute)
  have stats: "tk_deltas (fold record_tick ts tick_stats_new) = tk_deltas (fst ?r)"
    "unat (tk_count (fold record_tick ts tick_stats_new)) = length ?ds"
    using record_ticks [of tick_stats_new "(tick_stats_new, 0)" ts] ok assms
    by (simp_all add: tick_stats_new_def [of] reservoir_ok_def snd_store_deltas unat_of_nat)
  have "snapshot (fold record_tick ts tick_stats_new) = percentiles (newest slots ?ds)"
  proof (cases "?ds = []")
    case True
    then show ?thesis using stats(2) by (simp add: snapshot_def percentiles_def newest_def)
  next
    case False
    then have "length (newest slots ?ds) \<noteq> 0" using len by (simp add: slots_def)
    moreover from this have "last (sort (newest slots ?ds)) = Max (set (newest slots ?ds))"
      by (intro last_sort) auto
    ultimately show ?thesis
      unfolding snapshot_def percentiles_def Let_def stats sorted(1) len by (simp only: if_False simp_thms)
  qed
  then show ?thesis using percentiles_ordered [of "newest slots ?ds"] by (simp add: Let_def)
qed

definition demo_ticks :: "int list" where "demo_ticks = [10, 20, 50]"

theorem snapshot_describes_the_newest_deltas_witness:
  "snapshot (fold record_tick demo_ticks tick_stats_new) = percentiles (newest slots [10, 30])"
  using snapshot_describes_the_newest_deltas [of demo_ticks]
  by (simp add: demo_ticks_def i64_wrap_def)

end
