(* ===== verification/Waddle_Action.thy ===== *)
theory Waddle_Action
  imports Waddle_Space
begin

text \<open>
  Executable actions (\<^verbatim>\<open>waddle-types/src/action.rs\<close>): flattening a wire action into
  a numeric row against the declared space, the inverse, and the validation of a whole chunk.
  The row a flattening appends to is returned; on an error the code discards it.
\<close>

subsection \<open>Wire actions\<close>

datatype vec3 = Vec3 flt flt flt

datatype quat = Quat flt flt flt flt

record pb_twist =
  tw_linear :: "vec3 option"
  tw_angular :: "vec3 option"

record pb_pose =
  po_position :: "vec3 option"
  po_rotation :: "quat option"
  po_frame_id :: string

record pb_gripper_command =
  gc_position :: flt
  gc_effort :: "flt option"

datatype pb_target =
    T_JointPosition "flt list"
  | T_JointVelocity "flt list"
  | T_EeDelta pb_twist
  | T_EeAbsolute pb_pose
  | T_BaseTwist pb_twist
  | T_Composite "(string \<times> pb_action option) list"
  | T_Opaque string
  | T_Noop int
and pb_action =
    PbAction (pa_target: "pb_target option") (pa_gripper: "pb_gripper_command option")
      (pa_t_offset_ns: int) (pa_part: string) (pa_joint_velocity_feedforward: "flt list option")

record action_step =
  as_offset_ns :: int
  as_values :: "flt list"
  as_velocity_feedforward :: "flt list option"
  as_gripper_cmd :: "flt option"
  as_part :: "string option"

definition is_gripper_only :: "action_step \<Rightarrow> bool" where
  "is_gripper_only s \<longleftrightarrow> as_values s = [] \<and> as_gripper_cmd s \<noteq> None"

datatype part_policy = PP_Honor | PP_Ignore

datatype velocity_feedforward_policy = VF_Honor | VF_Ignore

fun flt_finite :: "flt \<Rightarrow> bool" where
  "flt_finite (Fin x) = True"
| "flt_finite y = False"

subsection \<open>Flattening\<close>

fun spec_supports_velocity :: "space_spec \<Rightarrow> bool" and supports_velocity_feedforward :: "action_space \<Rightarrow> bool"
  and parts_support_velocity :: "(string \<times> action_space) list \<Rightarrow> bool" where
  "spec_supports_velocity (SS_JointPosition js) = True"
| "spec_supports_velocity (SS_Composite parts) = parts_support_velocity parts"
| "spec_supports_velocity spec = False"
| "supports_velocity_feedforward (ActionSpace spec r c g) = spec_supports_velocity spec"
| "parts_support_velocity [] = True"
| "parts_support_velocity ((n, space) # parts) =
     (supports_velocity_feedforward space \<and> parts_support_velocity parts)"

definition addressed_part :: "pb_action \<Rightarrow> part_policy \<Rightarrow> string option" where
  "addressed_part a policy = (case policy of PP_Ignore \<Rightarrow> None
     | PP_Honor \<Rightarrow> if pa_part a = [] then None else Some (pa_part a))"

definition declared_part :: "action_space \<Rightarrow> string \<Rightarrow> types_error + action_space" where
  "declared_part space name = (case as_spec space of
     SS_Composite parts \<Rightarrow> ok_or (UnknownPart name) (map_of parts name)
   | _ \<Rightarrow> Inl (UnknownPart name))"

definition flatten_twist :: "pb_twist \<Rightarrow> types_error + flt list" where
  "flatten_twist t =
     rbind (ok_or (MissingField ''Twist.linear'') (tw_linear t)) (\<lambda>lin.
     rbind (ok_or (MissingField ''Twist.angular'') (tw_angular t)) (\<lambda>ang.
     (case (lin, ang) of (Vec3 a b c, Vec3 d e f) \<Rightarrow> Inr [a, b, c, d, e, f])))"

definition flatten_pose :: "string \<Rightarrow> pb_pose \<Rightarrow> types_error + flt list" where
  "flatten_pose frame p =
     (if po_frame_id p \<noteq> frame
      then Inl (InvalidValue ''Pose.frame_id'' ''does not match the declared EE frame'')
      else rbind (ok_or (MissingField ''Pose.position'') (po_position p)) (\<lambda>pos.
           rbind (ok_or (MissingField ''Pose.rotation'') (po_rotation p)) (\<lambda>rot.
           (case (pos, rot) of (Vec3 a b c, Quat w x y z) \<Rightarrow> Inr [a, b, c, w, x, y, z]))))"

definition flatten_joints :: "joint_descriptor list \<Rightarrow> flt list \<Rightarrow> types_error + flt list" where
  "flatten_joints js vs =
     (if length vs \<noteq> length js then Inl (DimensionMismatch (length js) (length vs)) else Inr vs)"

text \<open>The arms that match no leaf of the declared space.\<close>

fun flatten_mismatch :: "pb_target \<Rightarrow> types_error + flt list" where
  "flatten_mismatch (T_Opaque b) = Inl OpaqueNotExecutable"
| "flatten_mismatch (T_Noop n) = Inl NoopNotExecutable"
| "flatten_mismatch t =
     Inl (InvalidValue ''Action.target'' ''target arm does not match the declared action space'')"

fun flatten_spec :: "space_spec \<Rightarrow> pb_target \<Rightarrow> types_error + flt list"
  and flatten_target :: "action_space \<Rightarrow> pb_action \<Rightarrow> types_error + flt list"
  and flatten_parts :: "(string \<times> action_space) list \<Rightarrow> (string \<times> pb_action option) list \<Rightarrow>
    types_error + flt list" where
  "flatten_target (ActionSpace spec r c g) a = (case pa_target a of
     None \<Rightarrow> Inl (MissingField ''Action.target'')
   | Some target \<Rightarrow> flatten_spec spec target)"
| "flatten_spec (SS_JointPosition js) target = (case target of
     T_JointPosition vs \<Rightarrow> flatten_joints js vs | _ \<Rightarrow> flatten_mismatch target)"
| "flatten_spec (SS_JointVelocity js) target = (case target of
     T_JointVelocity vs \<Rightarrow> flatten_joints js vs | _ \<Rightarrow> flatten_mismatch target)"
| "flatten_spec (SS_EePoseDelta f r d l x) target = (case target of
     T_EeDelta t \<Rightarrow> flatten_twist t | _ \<Rightarrow> flatten_mismatch target)"
| "flatten_spec (SS_BaseTwist f l x) target = (case target of
     T_BaseTwist t \<Rightarrow> flatten_twist t | _ \<Rightarrow> flatten_mismatch target)"
| "flatten_spec (SS_EePoseAbs f r) target = (case target of
     T_EeAbsolute p \<Rightarrow> flatten_pose f p | _ \<Rightarrow> flatten_mismatch target)"
| "flatten_spec (SS_Composite parts) target = (case target of
     T_Composite cs \<Rightarrow>
       (case find (\<lambda>pa. fst pa \<notin> fst ` set parts) cs of
          Some pa \<Rightarrow> Inl (UnknownPart (fst pa))
        | None \<Rightarrow> flatten_parts parts cs)
   | _ \<Rightarrow> flatten_mismatch target)"
| "flatten_spec (SS_Opaque h d) target = flatten_mismatch target"
| "flatten_parts [] cs = Inr []"
| "flatten_parts ((name, space) # parts) cs =
     (case map_of cs name of
        None \<Rightarrow> Inl (MissingPart name)
      | Some None \<Rightarrow> Inl (MissingField ''PartAction.action'')
      | Some (Some inner) \<Rightarrow>
          rbind (flatten_target space inner) (\<lambda>vs. rbind (flatten_parts parts cs) (\<lambda>ws. Inr (vs @ ws))))"

fun is_noop :: "pb_target option \<Rightarrow> bool" where
  "is_noop (Some (T_Noop n)) = True"
| "is_noop t = False"

fun is_composite_target :: "pb_target option \<Rightarrow> bool" where
  "is_composite_target (Some (T_Composite cs)) = True"
| "is_composite_target t = False"

definition jvff_field :: string where "jvff_field = ''Action.joint_velocity_feedforward''"

definition check_velocity :: "action_space \<Rightarrow> nat \<Rightarrow> flt list \<Rightarrow> types_error + flt list" where
  "check_velocity space expected vs =
     (if \<not> supports_velocity_feedforward space
      then Inl (InvalidValue jvff_field ''feedforward requires a joint-position target'')
      else if length vs \<noteq> expected then Inl (DimensionMismatch expected (length vs))
      else if \<not> list_all flt_finite vs
      then Inl (InvalidValue jvff_field ''feedforward values must be finite'')
      else Inr vs)"

definition flatten_noop ::
  "pb_action \<Rightarrow> velocity_feedforward_policy \<Rightarrow> string option \<Rightarrow> types_error + action_step" where
  "flatten_noop a vpolicy part =
     (if vpolicy = VF_Honor \<and> pa_joint_velocity_feedforward a \<noteq> None
      then Inl (InvalidValue jvff_field ''a noop/gripper-only action has no joint-position trajectory'')
      else (case map_option gc_position (pa_gripper a) of
              Some g \<Rightarrow> Inr \<lparr>as_offset_ns = pa_t_offset_ns a, as_values = [], as_velocity_feedforward = None,
                             as_gripper_cmd = Some g, as_part = part\<rparr>
            | None \<Rightarrow> Inl NoopNotExecutable))"

definition flatten_velocity ::
  "velocity_feedforward_policy \<Rightarrow> flt list option \<Rightarrow> action_space \<Rightarrow> nat \<Rightarrow> types_error + flt list option" where
  "flatten_velocity vpolicy ff space expected = (case (vpolicy, ff) of
     (VF_Honor, Some vs) \<Rightarrow> rbind (check_velocity space expected vs) (\<lambda>vs. Inr (Some vs))
   | _ \<Rightarrow> Inr None)"

definition flatten_action_vff ::
  "pb_action \<Rightarrow> action_space \<Rightarrow> part_policy \<Rightarrow> velocity_feedforward_policy \<Rightarrow> types_error + action_step" where
  "flatten_action_vff a space policy vpolicy =
     (let part = addressed_part a policy in
      rbind (case part of Some name \<Rightarrow> declared_part space name | None \<Rightarrow> Inr space) (\<lambda>space.
      rbind (ok_or OpaqueNotExecutable (dims space)) (\<lambda>expected.
      if is_noop (pa_target a) then flatten_noop a vpolicy part
      else if part \<noteq> None \<and> is_composite_target (pa_target a)
      then Inl (InvalidValue ''Action.target''
             ''a part-scoped action may not carry a CompositeAction (nesting is depth 1)'')
      else rbind (flatten_target space a) (\<lambda>vals.
        if length vals \<noteq> expected then Inl (DimensionMismatch expected (length vals))
        else rbind (flatten_velocity vpolicy (pa_joint_velocity_feedforward a) space expected) (\<lambda>ff.
          Inr \<lparr>as_offset_ns = pa_t_offset_ns a, as_values = vals, as_velocity_feedforward = ff,
               as_gripper_cmd = map_option gc_position (pa_gripper a), as_part = part\<rparr>)))))"

definition flatten_action :: "pb_action \<Rightarrow> action_space \<Rightarrow> part_policy \<Rightarrow> types_error + action_step" where
  "flatten_action a space policy = flatten_action_vff a space policy VF_Ignore"

subsection \<open>Unflattening\<close>

definition take_values :: "nat \<Rightarrow> flt list \<Rightarrow> types_error + flt list \<times> flt list" where
  "take_values n cursor =
     (if length cursor < n then Inl (DimensionMismatch n (length cursor))
      else Inr (take n cursor, drop n cursor))"

definition twist_of :: "flt list \<Rightarrow> pb_twist" where
  "twist_of v = \<lparr>tw_linear = Some (Vec3 (v ! 0) (v ! 1) (v ! 2)),
                 tw_angular = Some (Vec3 (v ! 3) (v ! 4) (v ! 5))\<rparr>"

definition pose_of :: "string \<Rightarrow> flt list \<Rightarrow> pb_pose" where
  "pose_of frame v = \<lparr>po_position = Some (Vec3 (v ! 0) (v ! 1) (v ! 2)),
     po_rotation = Some (Quat (v ! 3) (v ! 4) (v ! 5) (v ! 6)), po_frame_id = frame\<rparr>"

fun unflatten_spec :: "flt list \<Rightarrow> space_spec \<Rightarrow> types_error + pb_target \<times> flt list"
  and unflatten_target :: "flt list \<Rightarrow> action_space \<Rightarrow> types_error + pb_action \<times> flt list"
  and unflatten_parts :: "flt list \<Rightarrow> (string \<times> action_space) list \<Rightarrow>
    types_error + (string \<times> pb_action option) list \<times> flt list" where
  "unflatten_target cursor (ActionSpace spec r c g) =
     rbind (unflatten_spec cursor spec) (\<lambda>(t, rest). Inr (PbAction (Some t) None 0 [] None, rest))"
| "unflatten_spec cursor (SS_JointPosition js) =
     rbind (take_values (length js) cursor) (\<lambda>(v, rest). Inr (T_JointPosition v, rest))"
| "unflatten_spec cursor (SS_JointVelocity js) =
     rbind (take_values (length js) cursor) (\<lambda>(v, rest). Inr (T_JointVelocity v, rest))"
| "unflatten_spec cursor (SS_EePoseDelta f r d l a) =
     rbind (take_values 6 cursor) (\<lambda>(v, rest). Inr (T_EeDelta (twist_of v), rest))"
| "unflatten_spec cursor (SS_BaseTwist f l a) =
     rbind (take_values 6 cursor) (\<lambda>(v, rest). Inr (T_BaseTwist (twist_of v), rest))"
| "unflatten_spec cursor (SS_EePoseAbs f r) =
     rbind (take_values 7 cursor) (\<lambda>(v, rest). Inr (T_EeAbsolute (pose_of f v), rest))"
| "unflatten_spec cursor (SS_Composite parts) =
     rbind (unflatten_parts cursor parts) (\<lambda>(ps, rest). Inr (T_Composite ps, rest))"
| "unflatten_spec cursor (SS_Opaque h d) = Inl OpaqueNotExecutable"
| "unflatten_parts cursor [] = Inr ([], cursor)"
| "unflatten_parts cursor ((name, space) # parts) =
     rbind (unflatten_target cursor space) (\<lambda>(a, rest).
     rbind (unflatten_parts rest parts) (\<lambda>(ps, rest'). Inr ((name, Some a) # ps, rest')))"

definition unflatten_action_vff ::
  "flt list \<Rightarrow> flt list option \<Rightarrow> flt option \<Rightarrow> string option \<Rightarrow> action_space \<Rightarrow> types_error + pb_action" where
  "unflatten_action_vff vals ff gripper part space =
     (let part = (if part = Some [] then None else part);
          tag = (case part of None \<Rightarrow> [] | Some name \<Rightarrow> name);
          grip = map_option (\<lambda>p. \<lparr>gc_position = p, gc_effort = None\<rparr>) gripper in
      rbind (case part of Some name \<Rightarrow> declared_part space name | None \<Rightarrow> Inr space) (\<lambda>space.
      rbind (ok_or OpaqueNotExecutable (dims space)) (\<lambda>expected.
      if vals = [] \<and> gripper \<noteq> None
      then (if ff \<noteq> None
            then Inl (InvalidValue jvff_field ''a gripper-only action has no joint-position trajectory'')
            else Inr (PbAction (Some (T_Noop 0)) grip 0 tag None))
      else if length vals \<noteq> expected then Inl (DimensionMismatch expected (length vals))
      else rbind (case ff of None \<Rightarrow> Inr None
                  | Some vs \<Rightarrow> rbind (check_velocity space expected vs) (\<lambda>vs. Inr (Some vs))) (\<lambda>ff.
           rbind (unflatten_target vals space) (\<lambda>(a, rest).
           Inr (PbAction (pa_target a) grip (pa_t_offset_ns a) tag ff))))))"

definition unflatten_action ::
  "flt list \<Rightarrow> flt option \<Rightarrow> string option \<Rightarrow> action_space \<Rightarrow> types_error + pb_action" where
  "unflatten_action vals gripper part space = unflatten_action_vff vals None gripper part space"

subsection \<open>Chunks\<close>

record pb_action_chunk =
  pk_actions :: "pb_action list"
  pk_horizon_ns :: int
  pk_t_emitted_ns :: int
  pk_t_obs_ns :: int
  pk_seq :: u64
  pk_source_id :: string
  pk_provenance :: "pb_provenance_tag option"

record action_chunk =
  ch_steps :: "action_step list"
  ch_dims :: nat
  ch_horizon_ns :: int
  ch_t_emitted_ns :: int
  ch_t_obs_ns :: int
  ch_seq :: u64
  ch_source :: source_id
  ch_provenance :: provenance_tag

record flattened_chunk =
  fl_chunk :: action_chunk
  fl_inert :: "nat list"

fun flatten_steps ::
  "(pb_action \<Rightarrow> types_error + action_step) \<Rightarrow> nat \<Rightarrow> pb_action list \<Rightarrow>
   types_error + action_step list \<times> nat list" where
  "flatten_steps f i [] = Inr ([], [])"
| "flatten_steps f i (a # as) = (case f a of
     Inr s \<Rightarrow> rbind (flatten_steps f (i + 1) as) (\<lambda>(ss, inert). Inr (s # ss, inert))
   | Inl NoopNotExecutable \<Rightarrow> rbind (flatten_steps f (i + 1) as) (\<lambda>(ss, inert). Inr (ss, i # inert))
   | Inl e \<Rightarrow> Inl e)"

definition chunk_from_pb_vff ::
  "pb_action_chunk \<Rightarrow> action_space \<Rightarrow> part_policy \<Rightarrow> velocity_feedforward_policy \<Rightarrow>
   types_error + flattened_chunk" where
  "chunk_from_pb_vff ck space policy vpolicy =
     rbind (ok_or OpaqueNotExecutable (dims space)) (\<lambda>d.
     rbind (case pk_provenance ck of None \<Rightarrow> Inr policy_provenance | Some p \<Rightarrow> provenance_tag_try_from p) (\<lambda>prov.
     rbind (flatten_steps (\<lambda>a. flatten_action_vff a space policy vpolicy) 0 (pk_actions ck)) (\<lambda>(steps, inert).
     Inr \<lparr>fl_chunk = \<lparr>ch_steps = steps, ch_dims = d, ch_horizon_ns = pk_horizon_ns ck,
             ch_t_emitted_ns = pk_t_emitted_ns ck, ch_t_obs_ns = pk_t_obs_ns ck, ch_seq = pk_seq ck,
             ch_source = pk_source_id ck, ch_provenance = prov\<rparr>,
          fl_inert = inert\<rparr>)))"

definition chunk_from_pb :: "pb_action_chunk \<Rightarrow> action_space \<Rightarrow> part_policy \<Rightarrow> types_error + flattened_chunk" where
  "chunk_from_pb ck space policy = chunk_from_pb_vff ck space policy VF_Ignore"

subsection \<open>Flattening undoes unflattening\<close>

fun spec_names :: "space_spec \<Rightarrow> bool" and space_names :: "action_space \<Rightarrow> bool"
  and parts_names :: "(string \<times> action_space) list \<Rightarrow> bool" where
  "spec_names (SS_Composite parts) = parts_names parts"
| "spec_names spec = True"
| "space_names (ActionSpace spec r c g) = spec_names spec"
| "parts_names [] = True"
| "parts_names ((n, s) # parts) = (n \<notin> fst ` set parts \<and> space_names s \<and> parts_names parts)"

lemma leaf_names: "leaf_ok (as_spec s) \<Longrightarrow> space_names s"
  by (cases s rule: action_space.exhaust; cases "as_spec s") auto

lemma parts_names_iff: "parts_names parts \<longleftrightarrow> distinct (map fst parts) \<and> (\<forall>p \<in> set parts. space_names (snd p))"
  by (induction parts) (fastforce simp: image_iff)+

lemma spec_ok_names: "spec_ok spec \<Longrightarrow> spec_names spec"
proof (cases spec)
  case (SS_Composite parts)
  moreover assume "spec_ok spec"
  ultimately have "distinct (map fst parts)" "\<forall>p \<in> set parts. space_names (snd p)"
    using leaf_names by (auto simp: list_all_iff part_ok_def)
  with SS_Composite show ?thesis by (simp only: spec_names.simps parts_names_iff)
qed simp_all

lemma space_ok_names: "space_ok s \<Longrightarrow> space_names s"
  by (cases s rule: action_space.exhaust) (simp add: space_ok_def spec_ok_names)

lemma twist_round_trip: "length v = 6 \<Longrightarrow> flatten_twist (twist_of v) = Inr v"
  by (auto simp: flatten_twist_def twist_of_def numeral_eq_Suc length_Suc_conv)

lemma pose_round_trip: "length v = 7 \<Longrightarrow> flatten_pose f (pose_of f v) = Inr v"
  by (auto simp: flatten_pose_def pose_of_def numeral_eq_Suc length_Suc_conv)

lemma take_values_Inr:
  "take_values n cursor = Inr (v, rest) \<longleftrightarrow> n \<le> length cursor \<and> v = take n cursor \<and> rest = drop n cursor"
  by (auto simp: take_values_def)

definition flattens_to :: "(flt list \<Rightarrow> bool) \<Rightarrow> nat option \<Rightarrow> flt list \<Rightarrow> flt list \<Rightarrow> bool" where
  "flattens_to f d cursor rest \<longleftrightarrow> (\<exists>vs. cursor = vs @ rest \<and> f vs \<and> d = Some (length vs))"

lemma flattens_to_take: "n \<le> length cursor \<Longrightarrow> f (take n cursor) \<Longrightarrow> d = Some n \<Longrightarrow>
  flattens_to f d cursor (drop n cursor)"
  by (auto simp: flattens_to_def intro!: exI [of _ "take n cursor"])

lemma find_all_declared: "map fst ps = map fst parts \<Longrightarrow> find (\<lambda>pa. fst pa \<notin> fst ` set parts) ps = None"
proof -
  assume "map fst ps = map fst parts"
  then have "fst ` set ps = fst ` set parts" by (metis list.set_map)
  then show ?thesis unfolding find_None_iff by blast
qed

lemma flattens_to_nothing: "f [] \<Longrightarrow> flattens_to f (Some 0) cursor cursor"
  by (simp add: flattens_to_def)

lemma unflatten_flatten:
  "unflatten_spec cursor spec = Inr (t, rest) \<Longrightarrow> spec_names spec \<Longrightarrow>
     flattens_to (\<lambda>vs. flatten_spec spec t = Inr vs) (spec_dims spec) cursor rest"
  "unflatten_target cursor s = Inr (a, rest) \<Longrightarrow> space_names s \<Longrightarrow>
     flattens_to (\<lambda>vs. flatten_target s a = Inr vs) (dims s) cursor rest"
  "unflatten_parts cursor parts = Inr (ps, rest) \<Longrightarrow> parts_names parts \<Longrightarrow>
     map fst ps = map fst parts \<and>
     flattens_to (\<lambda>vs. \<forall>cs. (\<forall>p \<in> set ps. map_of cs (fst p) = Some (snd p)) \<longrightarrow> flatten_parts parts cs = Inr vs)
       (parts_dims parts) cursor rest"
proof (induction cursor spec and cursor s and cursor parts arbitrary: t rest and a rest and ps rest
    rule: unflatten_spec_unflatten_target_unflatten_parts.induct)
  case (1 cursor spec r c g)
  then show ?case by (auto simp: rbind_Inr)
next
  case (2 cursor js)
  then show ?case by (auto simp: rbind_Inr take_values_Inr flatten_joints_def intro!: flattens_to_take)
next
  case (3 cursor js)
  then show ?case by (auto simp: rbind_Inr take_values_Inr flatten_joints_def intro!: flattens_to_take)
next
  case (7 cursor parts)
  then obtain ps where ps: "t = T_Composite ps" "unflatten_parts cursor parts = Inr (ps, rest)"
    by (auto simp: rbind_Inr)
  have names: "parts_names parts" using 7(3) by simp
  note IH = 7(1) [OF ps(2) names]
  have "distinct (map fst ps)" using names IH by (simp only: parts_names_iff)
  then have lookup: "\<forall>p \<in> set ps. map_of ps (fst p) = Some (snd p)" by simp
  have none: "find (\<lambda>pa. fst pa \<notin> fst ` set parts) ps = None" using IH by (intro find_all_declared) simp
  from IH obtain vs where "cursor = vs @ rest" "parts_dims parts = Some (length vs)"
      "\<forall>cs. (\<forall>p \<in> set ps. map_of cs (fst p) = Some (snd p)) \<longrightarrow> flatten_parts parts cs = Inr vs"
    unfolding flattens_to_def by blast
  with lookup none show ?case
    unfolding ps(1) flattens_to_def by (intro exI [of _ vs]) simp
next
  case (10 cursor name space parts)
  then obtain a r1 ps' where *: "unflatten_target cursor space = Inr (a, r1)"
      "unflatten_parts r1 parts = Inr (ps', rest)" "ps = (name, Some a) # ps'"
    by (auto simp: rbind_Inr)
  have names: "space_names space" "parts_names parts" using 10(4) by simp_all
  obtain vs where vs: "cursor = vs @ r1" "flatten_target space a = Inr vs" "dims space = Some (length vs)"
    using 10(1) [OF *(1) names(1)] unfolding flattens_to_def by blast
  have IH: "map fst ps' = map fst parts \<and> flattens_to (\<lambda>vs. \<forall>cs. (\<forall>p \<in> set ps'. map_of cs (fst p) = Some (snd p)) \<longrightarrow>
      flatten_parts parts cs = Inr vs) (parts_dims parts) r1 rest"
    by (rule 10(2) [OF *(1) refl *(2) names(2)])
  then obtain ws where ws: "r1 = ws @ rest" "parts_dims parts = Some (length ws)"
      "\<forall>cs. (\<forall>p \<in> set ps'. map_of cs (fst p) = Some (snd p)) \<longrightarrow> flatten_parts parts cs = Inr ws"
    unfolding flattens_to_def by blast
  show ?case
    using IH vs ws unfolding flattens_to_def *(3) by (intro conjI exI [of _ "vs @ ws"]) simp_all
qed (auto simp: rbind_Inr take_values_Inr twist_round_trip pose_round_trip
    intro!: flattens_to_take flattens_to_nothing)

lemma unflatten_target_shape:
  "unflatten_target cursor s = Inr (a, rest) \<Longrightarrow> pa_t_offset_ns a = 0 \<and> \<not> is_noop (pa_target a) \<and>
     (leaf_ok (as_spec s) \<longrightarrow> \<not> is_composite_target (pa_target a))"
  by (cases s rule: action_space.exhaust; cases "as_spec s") (auto simp: rbind_Inr)

lemma declared_part_leaf:
  assumes "space_ok s" and "declared_part s name = Inr q"
  shows "leaf_ok (as_spec q) \<and> name \<noteq> []"
proof -
  from assms(2) obtain parts where "as_spec s = SS_Composite parts" "map_of parts name = Some q"
    by (auto simp: declared_part_def ok_or_def split: space_spec.splits option.splits)
  moreover from this have "(name, q) \<in> set parts" by (simp add: map_of_SomeD)
  ultimately show ?thesis using assms(1) by (auto simp: space_ok_def list_all_iff part_ok_def)
qed

lemma check_velocity_Inr: "check_velocity s n vs = Inr ws \<longleftrightarrow>
  supports_velocity_feedforward s \<and> length vs = n \<and> list_all flt_finite vs \<and> ws = vs"
  by (auto simp: check_velocity_def)

text \<open>
  C19. Unflattening a row and flattening the action it gives returns the row: values, velocity
  feedforward, gripper position and part all survive, for whole-space and part-addressed rows
  and for gripper-only rows, in every space that validates.
\<close>

theorem action_rows_round_trip:
  assumes ok: "space_ok s" and un: "unflatten_action_vff vals ff gripper part s = Inr a"
  shows "flatten_action_vff a s PP_Honor VF_Honor = Inr
    \<lparr>as_offset_ns = 0, as_values = vals, as_velocity_feedforward = ff, as_gripper_cmd = gripper,
     as_part = (if part = Some [] then None else part)\<rparr>"
proof -
  define p where "p = (if part = Some [] then None else part)"
  define grip where "grip = map_option (\<lambda>p. \<lparr>gc_position = p, gc_effort = None\<rparr>) gripper"
  define tag where "tag = (case p of None \<Rightarrow> [] | Some name \<Rightarrow> name)"
  have grip: "map_option gc_position grip = gripper" by (cases gripper) (simp_all add: grip_def)
  have tag: "(if tag = [] then None else Some tag) = p" by (auto simp: tag_def p_def split: option.splits)
  from un obtain q d where q: "(case p of Some name \<Rightarrow> declared_part s name | None \<Rightarrow> Inr s) = Inr q"
      "dims q = Some d" and
    row: "vals = [] \<and> gripper \<noteq> None \<and> ff = None \<and> a = PbAction (Some (T_Noop 0)) grip 0 tag None \<or>
      length vals = d \<and> (\<forall>vs. ff = Some vs \<longrightarrow> check_velocity q d vs = Inr vs) \<and>
      (\<exists>b rest. unflatten_target vals q = Inr (b, rest) \<and> a = PbAction (pa_target b) grip (pa_t_offset_ns b) tag ff)"
    unfolding unflatten_action_vff_def Let_def p_def [symmetric]
    by (auto simp: rbind_Inr ok_or_def check_velocity_Inr tag_def [symmetric] grip_def [symmetric]
        split: if_splits option.splits)
  have part: "addressed_part a PP_Honor = p"
    using row tag by (auto simp: addressed_part_def)
  have "space_names q \<and> (p \<noteq> None \<longrightarrow> leaf_ok (as_spec q))"
    using q(1) ok declared_part_leaf [OF ok] leaf_names space_ok_names by (auto split: option.splits)
  then have names: "space_names q" and leaf: "p \<noteq> None \<longrightarrow> leaf_ok (as_spec q)" by auto
  from row show ?thesis
  proof (elim disjE conjE exE)
    assume "vals = []" "gripper \<noteq> None" "ff = None" "a = PbAction (Some (T_Noop 0)) grip 0 tag None"
    then show ?thesis
      using part q grip by (auto simp: flatten_action_vff_def flatten_noop_def p_def [symmetric])
  next
    fix b rest
    assume vals: "length vals = d" and ff: "\<forall>vs. ff = Some vs \<longrightarrow> check_velocity q d vs = Inr vs"
      and b: "unflatten_target vals q = Inr (b, rest)"
      and a: "a = PbAction (pa_target b) grip (pa_t_offset_ns b) tag ff"
    note shape = unflatten_target_shape [OF b]
    obtain vs where vs: "vals = vs @ rest" "flatten_target q b = Inr vs" "dims q = Some (length vs)"
      using unflatten_flatten(2) [OF b names] unfolding flattens_to_def by blast
    then have "rest = []" using vals q(2) by simp
    have "flatten_target q a = Inr vals"
      using vs \<open>rest = []\<close> a by (cases q rule: action_space.exhaust) simp
    moreover have "flatten_velocity VF_Honor ff q d = Inr ff"
      using ff by (cases ff) (simp_all add: flatten_velocity_def)
    ultimately show ?thesis
      using part q grip shape leaf vals a
      by (auto simp: flatten_action_vff_def p_def [symmetric])
  qed
qed

lemma demo_space_ok: "space_ok demo_space"
  using validated_space_ok [OF demo_pb_space_validates] .

definition demo_row :: "flt list" where "demo_row = [Fin 1, Fin 2]"

definition demo_row_action :: pb_action where
  "demo_row_action = PbAction (Some (T_JointPosition demo_row)) None 0 ''arm'' (Some demo_row)"

lemma demo_row_unflattens:
  "unflatten_action_vff demo_row (Some demo_row) None (Some ''arm'') demo_space = Inr demo_row_action"
  by (simp add: unflatten_action_vff_def demo_space_def demo_row_def demo_row_action_def declared_part_def
      check_velocity_def take_values_def)

theorem action_rows_round_trip_witness:
  "flatten_action_vff demo_row_action demo_space PP_Honor VF_Honor = Inr
    \<lparr>as_offset_ns = 0, as_values = demo_row, as_velocity_feedforward = Some demo_row, as_gripper_cmd = None,
     as_part = Some ''arm''\<rparr>"
  using action_rows_round_trip [OF demo_space_ok demo_row_unflattens] by simp

subsection \<open>Which rows unflatten\<close>

fun spec_concrete :: "space_spec \<Rightarrow> bool" and space_concrete :: "action_space \<Rightarrow> bool"
  and parts_concrete :: "(string \<times> action_space) list \<Rightarrow> bool" where
  "spec_concrete (SS_Opaque h d) = False"
| "spec_concrete (SS_Composite parts) = parts_concrete parts"
| "spec_concrete spec = True"
| "space_concrete (ActionSpace spec r c g) = spec_concrete spec"
| "parts_concrete [] = True"
| "parts_concrete ((n, space) # parts) = (space_concrete space \<and> parts_concrete parts)"

lemma unflatten_total:
  "spec_concrete spec \<Longrightarrow> \<exists>d. spec_dims spec = Some d \<and>
     (d \<le> length cursor \<longrightarrow> (\<exists>t. unflatten_spec cursor spec = Inr (t, drop d cursor)))"
  "space_concrete s \<Longrightarrow> \<exists>d. dims s = Some d \<and>
     (d \<le> length cursor \<longrightarrow> (\<exists>a. unflatten_target cursor s = Inr (a, drop d cursor)))"
  "parts_concrete parts \<Longrightarrow> \<exists>d. parts_dims parts = Some d \<and>
     (d \<le> length cursor \<longrightarrow> (\<exists>ps. unflatten_parts cursor parts = Inr (ps, drop d cursor)))"
proof (induction spec and s and parts arbitrary: cursor and cursor and cursor
    rule: spec_concrete_space_concrete_parts_concrete.induct)
  case (2 parts)
  from "2.IH" [of cursor] "2.prems" show ?case by (auto simp: rbind_Inr)
next
  case (4 spec r c g)
  from "4.IH" [of cursor] "4.prems" show ?case by (auto simp: rbind_Inr)
next
  case (6 n space parts)
  then obtain d e where de: "dims space = Some d" "parts_dims parts = Some e"
    by fastforce
  show ?case
  proof (intro exI [of _ "d + e"] conjI impI)
    assume "d + e \<le> length cursor"
    then have "d \<le> length cursor" "e \<le> length (drop d cursor)" by simp_all
    with 6 de obtain a ps where "unflatten_target cursor space = Inr (a, drop d cursor)"
        "unflatten_parts (drop d cursor) parts = Inr (ps, drop e (drop d cursor))"
      by (metis option.inject parts_concrete.simps(2))
    then show "\<exists>ps. unflatten_parts cursor ((n, space) # parts) = Inr (ps, drop (d + e) cursor)"
      by (simp add: add.commute)
  qed (simp add: de)
qed (auto simp: take_values_def)

lemma concrete_leaf: "leaf_ok (as_spec s) \<Longrightarrow> (\<forall>h d. as_spec s \<noteq> SS_Opaque h d) \<Longrightarrow> space_concrete s"
  by (cases s rule: action_space.exhaust; cases "as_spec s") auto

text \<open>
  In a space without opaque layouts the width decides: a whole-space row without velocity
  unflattens exactly when it has as many values as the space declares, or when it is a
  gripper-only row; otherwise the one error is the mismatch between the two widths.
\<close>

theorem width_decides_unflattening:
  assumes "space_concrete s"
  shows "\<exists>d. dims s = Some d \<and>
    (if (vals = [] \<and> gripper \<noteq> None) \<or> length vals = d
     then \<exists>a. unflatten_action vals gripper None s = Inr a
     else unflatten_action vals gripper None s = Inl (DimensionMismatch d (length vals)))"
proof -
  obtain d where d: "dims s = Some d"
      "d \<le> length vals \<longrightarrow> (\<exists>a. unflatten_target vals s = Inr (a, drop d vals))"
    using unflatten_total(2) [OF assms] by blast
  then show ?thesis
    by (auto simp: unflatten_action_def unflatten_action_vff_def Let_def)
qed

theorem width_decides_unflattening_witness:
  "unflatten_action demo_row None None demo_space = Inl (DimensionMismatch 8 2)"
proof -
  have "space_concrete demo_space" "dims demo_space = Some 8" by (simp_all add: demo_space_def)
  then show ?thesis
    using width_decides_unflattening [of demo_space demo_row None] by (auto simp: demo_row_def)
qed

subsection \<open>Chunks\<close>

lemma flatten_steps_Inr:
  "flatten_steps f i as = Inr (ss, inert) \<Longrightarrow>
     map Inr ss = map f (filter (\<lambda>a. f a \<noteq> Inl NoopNotExecutable) as) \<and>
     inert = map (\<lambda>k. i + k) (filter (\<lambda>k. f (as ! k) = Inl NoopNotExecutable) [0..<length as])"
proof (induction as arbitrary: i ss inert)
  case (Cons a as)
  have upt: "[0..<length (a # as)] = 0 # map Suc [0..<length as]"
    by (simp add: map_Suc_upt upt_conv_Cons del: upt_Suc)
  have shift: "filter (\<lambda>k. f ((a # as) ! k) = Inl NoopNotExecutable) (map Suc [0..<length as]) =
      map Suc (filter (\<lambda>k. f (as ! k) = Inl NoopNotExecutable) [0..<length as])"
    by (simp add: filter_map o_def)
  from Cons.prems Cons.IH show ?case
    unfolding upt filter.simps shift
    by (fastforce simp: rbind_Inr split: sum.splits types_error.splits)
qed simp

lemma flatten_action_width:
  assumes "flatten_action_vff a s policy vpolicy = Inr st"
  shows "\<exists>q d. (case as_part st of Some name \<Rightarrow> declared_part s name | None \<Rightarrow> Inr s) = Inr q \<and>
    dims q = Some d \<and> (is_gripper_only st \<or> length (as_values st) = d) \<and>
    (\<forall>vs. as_velocity_feedforward st = Some vs \<longrightarrow> length vs = d \<and> list_all flt_finite vs)"
  using assms
  by (auto simp: flatten_action_vff_def Let_def rbind_Inr ok_or_def flatten_noop_def is_gripper_only_def
      flatten_velocity_def check_velocity_Inr
      split: option.splits if_splits velocity_feedforward_policy.splits)

text \<open>
  A validated chunk loses nothing but its inert steps: its steps are, in order, the
  flattenings of the wire actions that are not inert, the reported indices are exactly the
  inert ones, and every step either is gripper-only or has the width of the (part of the)
  space it addresses, with finite velocities of the same width.
\<close>

theorem chunks_keep_their_steps:
  assumes "chunk_from_pb_vff ck s policy vpolicy = Inr fl"
  defines "flat \<equiv> \<lambda>a. flatten_action_vff a s policy vpolicy"
  shows "map Inr (ch_steps (fl_chunk fl)) = map flat (filter (\<lambda>a. flat a \<noteq> Inl NoopNotExecutable) (pk_actions ck)) \<and>
    fl_inert fl = filter (\<lambda>k. flat (pk_actions ck ! k) = Inl NoopNotExecutable) [0..<length (pk_actions ck)] \<and>
    (\<forall>st \<in> set (ch_steps (fl_chunk fl)). \<exists>q d.
       (case as_part st of Some name \<Rightarrow> declared_part s name | None \<Rightarrow> Inr s) = Inr q \<and> dims q = Some d \<and>
       (is_gripper_only st \<or> length (as_values st) = d) \<and>
       (\<forall>vs. as_velocity_feedforward st = Some vs \<longrightarrow> length vs = d \<and> list_all flt_finite vs))"
proof -
  from assms(1) have steps: "flatten_steps flat 0 (pk_actions ck) = Inr (ch_steps (fl_chunk fl), fl_inert fl)"
    by (auto simp: chunk_from_pb_vff_def rbind_Inr flat_def)
  note split = flatten_steps_Inr [OF steps]
  have widths: "\<exists>q d. (case as_part st of Some name \<Rightarrow> declared_part s name | None \<Rightarrow> Inr s) = Inr q \<and> dims q = Some d \<and>
       (is_gripper_only st \<or> length (as_values st) = d) \<and>
       (\<forall>vs. as_velocity_feedforward st = Some vs \<longrightarrow> length vs = d \<and> list_all flt_finite vs)"
    if "st \<in> set (ch_steps (fl_chunk fl))" for st
  proof -
    have "Inr st \<in> set (map Inr (ch_steps (fl_chunk fl)))" using that by simp
    also have "\<dots> \<subseteq> range flat" unfolding conjunct1 [OF split] by auto
    finally obtain a where "flat a = Inr st" by (auto simp: image_iff)
    then show ?thesis unfolding flat_def by (rule flatten_action_width)
  qed
  show ?thesis using split widths by simp
qed

definition demo_chunk :: pb_action_chunk where
  "demo_chunk = \<lparr>pk_actions = [PbAction (Some (T_Noop 0)) None 0 [] None, demo_row_action],
     pk_horizon_ns = 1, pk_t_emitted_ns = 0, pk_t_obs_ns = 0, pk_seq = 1, pk_source_id = ''policy'',
     pk_provenance = None\<rparr>"

definition demo_flattened :: flattened_chunk where
  "demo_flattened = \<lparr>fl_chunk = \<lparr>ch_steps = [\<lparr>as_offset_ns = 0, as_values = demo_row,
       as_velocity_feedforward = Some demo_row, as_gripper_cmd = None, as_part = Some ''arm''\<rparr>],
     ch_dims = 8, ch_horizon_ns = 1, ch_t_emitted_ns = 0, ch_t_obs_ns = 0, ch_seq = 1,
     ch_source = ''policy'', ch_provenance = policy_provenance\<rparr>, fl_inert = [0]\<rparr>"

lemma demo_chunk_flattens: "chunk_from_pb_vff demo_chunk demo_space PP_Honor VF_Honor = Inr demo_flattened"
  by (simp add: chunk_from_pb_vff_def demo_chunk_def demo_flattened_def demo_space_def demo_row_action_def
      demo_row_def flatten_action_vff_def flatten_noop_def addressed_part_def declared_part_def
      flatten_joints_def flatten_velocity_def check_velocity_def)

theorem chunks_keep_their_steps_witness:
  "\<exists>q d. declared_part demo_space ''arm'' = Inr q \<and> dims q = Some d \<and> length demo_row = d"
  using chunks_keep_their_steps [OF demo_chunk_flattens]
  by (auto simp: demo_flattened_def is_gripper_only_def demo_row_def)

text \<open>
  A composite action one of whose parts is a noop flattens to the noop error, so a chunk
  drops the whole step, the gripper command and the other parts' values with it, and reports
  it as inert; the chunk documentation reserves that for a bare noop without a gripper command.
\<close>

definition half_noop :: pb_action where
  "half_noop = PbAction (Some (T_Composite
     [(''arm'', Some (PbAction (Some (T_JointPosition demo_row)) None 0 [] None)),
      (''base'', Some (PbAction (Some (T_Noop 0)) None 0 [] None))]))
     (Some \<lparr>gc_position = Fin 1, gc_effort = None\<rparr>) 0 [] None"

lemma composite_with_noop_part_is_inert:
  "chunk_from_pb (demo_chunk\<lparr>pk_actions := [half_noop]\<rparr>) demo_space PP_Honor =
     Inr \<lparr>fl_chunk = (fl_chunk demo_flattened)\<lparr>ch_steps := []\<rparr>, fl_inert = [0]\<rparr>"
  by (simp add: chunk_from_pb_def chunk_from_pb_vff_def demo_chunk_def demo_flattened_def demo_space_def
      half_noop_def demo_row_def flatten_action_vff_def addressed_part_def flatten_joints_def)

end
