(* ===== verification/Waddle_Tripwire.thy ===== *)
theory Waddle_Tripwire
  imports Waddle_Rounding Waddle_Types
begin

text \<open>
  The local watchdogs (\<^verbatim>\<open>waddle-tripwire/src/lib.rs\<close>): the pure tripwire
  evaluation, the edge-triggered evaluator loop and the heartbeat watchdog as one turn per poll,
  and the dual-write detector (\<^verbatim>\<open>waddle-gate/src/dualwrite.rs\<close>). The clock, the
  observation source and the sink are the inputs and outputs of a turn. The detail of a fire is
  the data its message renders, the decimal text of the floats is left out.

  The loops are shown equal to a reference definition: the requests are the rising edges of the
  condition, and the detector's state is the sum, start and length of the divergent run.
\<close>

subsection \<open>Observations and wires\<close>

record obs_snapshot =
  ob_at :: mono_ns
  ob_joint_pos :: "flt list"
  ob_ee_pos :: "(flt \<times> flt \<times> flt) option"
  ob_force_n :: "flt option"

record aabb =
  bx_min :: "flt \<times> flt \<times> flt"
  bx_max :: "flt \<times> flt \<times> flt"

fun axis_inside :: "flt \<Rightarrow> flt \<Rightarrow> flt \<Rightarrow> bool" where
  "axis_inside lo hi p = (flt_le lo p \<and> flt_le p hi)"

definition aabb_contains :: "aabb \<Rightarrow> flt \<times> flt \<times> flt \<Rightarrow> bool" where
  "aabb_contains b p =
     (case (bx_min b, bx_max b, p) of ((l0, l1, l2), (h0, h1, h2), (x, y, z)) \<Rightarrow>
        axis_inside l0 h0 x \<and> axis_inside l1 h1 y \<and> axis_inside l2 h2 z)"

datatype tripwire_kind =
    WorkspaceAabb aabb
  | JointLimitMargin flt "(flt \<times> flt) list"
  | ForceThreshold flt
  | Staleness int

record tripwire =
  tw_name :: string
  tw_kind :: tripwire_kind
  tw_requested_verb :: verb

definition tripwire_holds :: "string \<Rightarrow> tripwire_kind \<Rightarrow> tripwire" where
  "tripwire_holds name kind = \<lparr>tw_name = name, tw_kind = kind, tw_requested_verb = V_Hold\<rparr>"

datatype fire_detail =
    EeOutside "flt \<times> flt \<times> flt"
  | JointNearLimit nat flt
  | ForceOver flt flt
  | ObservationStale int
  | NoHeartbeat int

record tripwire_fire =
  tf_name :: string
  tf_requested_verb :: verb
  tf_detail :: fire_detail
  tf_at :: mono_ns

subsection \<open>Evaluation\<close>

definition near_limit :: "flt \<Rightarrow> flt \<Rightarrow> flt \<times> flt \<Rightarrow> bool" where
  "near_limit margin q lims =
     (flt_less q (fadd binary64 (fst lims) margin) \<or> flt_less (fsub binary64 (snd lims) margin) q)"

fun joint_hit :: "flt \<Rightarrow> nat \<Rightarrow> (flt \<times> flt \<times> flt) list \<Rightarrow> fire_detail option" where
  "joint_hit margin i [] = None"
| "joint_hit margin i ((q, lims) # rest) =
     (if near_limit margin q lims then Some (JointNearLimit i q) else joint_hit margin (Suc i) rest)"

fun wire_detail :: "tripwire_kind \<Rightarrow> obs_snapshot \<Rightarrow> mono_ns \<Rightarrow> fire_detail option" where
  "wire_detail (WorkspaceAabb b) snap now =
     (case ob_ee_pos snap of
        Some p \<Rightarrow> if \<not> aabb_contains b p then Some (EeOutside p) else None
      | None \<Rightarrow> None)"
| "wire_detail (JointLimitMargin margin limits) snap now =
     joint_hit margin 0 (zip (ob_joint_pos snap) limits)"
| "wire_detail (ForceThreshold max_n) snap now =
     (case ob_force_n snap of
        Some f \<Rightarrow> if flt_less max_n f then Some (ForceOver f max_n) else None
      | None \<Rightarrow> None)"
| "wire_detail (Staleness max_age_ns) snap now =
     (let age = i64_wrap (now - ob_at snap) in if max_age_ns < age then Some (ObservationStale age) else None)"

definition wire_fire :: "tripwire \<Rightarrow> obs_snapshot \<Rightarrow> mono_ns \<Rightarrow> tripwire_fire option" where
  "wire_fire w snap now =
     map_option (\<lambda>d. \<lparr>tf_name = tw_name w, tf_requested_verb = tw_requested_verb w, tf_detail = d, tf_at = now\<rparr>)
       (wire_detail (tw_kind w) snap now)"

definition evaluate :: "tripwire list \<Rightarrow> obs_snapshot \<Rightarrow> mono_ns \<Rightarrow> tripwire_fire list" where
  "evaluate wires snap now = List.map_filter (\<lambda>w. wire_fire w snap now) wires"

subsection \<open>The edge-triggered evaluator\<close>

definition wire_edge :: "tripwire_fire list \<Rightarrow> tripwire \<Rightarrow> bool \<Rightarrow> tripwire_fire option \<times> bool" where
  "wire_edge fires w firing =
     (case (find (\<lambda>f. tf_name f = tw_name w) fires, firing) of
        (Some f, False) \<Rightarrow> (Some f, True)
      | (None, True) \<Rightarrow> (None, False)
      | _ \<Rightarrow> (None, firing))"

definition evaluator_turn ::
  "tripwire list \<Rightarrow> obs_snapshot option \<times> mono_ns \<Rightarrow> bool list \<Rightarrow> tripwire_fire list \<times> bool list" where
  "evaluator_turn wires poll firing =
     (case fst poll of
        None \<Rightarrow> ([], firing)
      | Some snap \<Rightarrow>
          (let fires = evaluate wires snap (snd poll);
               edges = map2 (wire_edge fires) wires firing
           in (List.map_filter fst edges, map snd edges)))"

fun evaluator_polls ::
  "tripwire list \<Rightarrow> (obs_snapshot option \<times> mono_ns) list \<Rightarrow> bool list \<Rightarrow> tripwire_fire list" where
  "evaluator_polls wires [] firing = []"
| "evaluator_polls wires (p # ps) firing =
     (let (reqs, firing) = evaluator_turn wires p firing in reqs @ evaluator_polls wires ps firing)"

definition evaluator_run :: "tripwire list \<Rightarrow> (obs_snapshot option \<times> mono_ns) list \<Rightarrow> tripwire_fire list" where
  "evaluator_run wires polls = evaluator_polls wires polls (replicate (length wires) False)"

subsection \<open>The heartbeat watchdog\<close>

definition heartbeat_stale :: "int \<Rightarrow> mono_ns \<times> int \<Rightarrow> bool" where
  "heartbeat_stale timeout_ns poll =
     (snd poll \<noteq> 0 \<and> timeout_ns < i64_wrap (fst poll - snd poll))"

definition heartbeat_fire :: "mono_ns \<times> int \<Rightarrow> tripwire_fire" where
  "heartbeat_fire poll =
     \<lparr>tf_name = ''control-plane-heartbeat'', tf_requested_verb = V_Hold,
      tf_detail = NoHeartbeat (i64_wrap (fst poll - snd poll)), tf_at = fst poll\<rparr>"

definition watchdog_turn :: "int \<Rightarrow> mono_ns \<times> int \<Rightarrow> bool \<Rightarrow> tripwire_fire list \<times> bool" where
  "watchdog_turn timeout_ns poll fired =
     (let stale = heartbeat_stale timeout_ns poll in
      if stale \<and> \<not> fired then ([heartbeat_fire poll], True)
      else if \<not> stale then ([], False)
      else ([], fired))"

fun watchdog_polls :: "int \<Rightarrow> (mono_ns \<times> int) list \<Rightarrow> bool \<Rightarrow> tripwire_fire list" where
  "watchdog_polls timeout_ns [] fired = []"
| "watchdog_polls timeout_ns (p # ps) fired =
     (let (reqs, fired) = watchdog_turn timeout_ns p fired in reqs @ watchdog_polls timeout_ns ps fired)"

subsection \<open>The dual-write detector\<close>

record divergence_detector =
  dv_threshold :: flt
  dv_window_ns :: int
  dv_run_start :: "mono_ns option"
  dv_run_sum :: flt
  dv_run_samples :: u32
  dv_fired :: bool

record dual_write_verdict =
  dw_divergence_metric :: flt
  dw_window_ns :: int

record divergence_sample =
  ds_commanded :: "flt list"
  ds_observed :: "flt list"
  ds_at :: mono_ns

definition detector_new :: "flt \<Rightarrow> int \<Rightarrow> divergence_detector" where
  "detector_new threshold window_ns =
     \<lparr>dv_threshold = threshold, dv_window_ns = max window_ns 1, dv_run_start = None,
      dv_run_sum = Fin 0, dv_run_samples = 0, dv_fired = False\<rparr>"

definition l2_distance :: "flt list \<Rightarrow> flt list \<Rightarrow> flt" where
  "l2_distance cs qs =
     fsqrt binary64
       (foldl (fadd binary64) (Fin 0)
          (map2 (\<lambda>c q. fmul binary64 (fsub binary64 c q) (fsub binary64 c q)) cs qs))"

definition detector_feed ::
  "divergence_sample \<Rightarrow> divergence_detector \<Rightarrow> dual_write_verdict option \<times> divergence_detector" where
  "detector_feed s d =
     (let n = min (length (ds_commanded s)) (length (ds_observed s));
          l2 = l2_distance (take n (ds_commanded s)) (take n (ds_observed s))
      in if dv_fired d then (None, d)
         else if n = 0 then (None, d)
         else if flt_le l2 (dv_threshold d)
         then (None, d\<lparr>dv_run_start := None, dv_run_sum := Fin 0, dv_run_samples := 0\<rparr>)
         else
           (let start = (case dv_run_start d of None \<Rightarrow> ds_at s | Some t \<Rightarrow> t);
                d = d\<lparr>dv_run_start := Some start, dv_run_sum := fadd binary64 (dv_run_sum d) l2,
                      dv_run_samples := dv_run_samples d + 1\<rparr>;
                held = i64_wrap (ds_at s - start)
            in if dv_window_ns d \<le> held
               then (Some \<lparr>dw_divergence_metric =
                             fdiv binary64 (dv_run_sum d) (f64_of_int (uint (dv_run_samples d))),
                           dw_window_ns = held\<rparr>, d\<lparr>dv_fired := True\<rparr>)
               else (None, d)))"

definition detector_reset :: "divergence_detector \<Rightarrow> divergence_detector" where
  "detector_reset d = d\<lparr>dv_fired := False, dv_run_start := None, dv_run_sum := Fin 0, dv_run_samples := 0\<rparr>"

fun detector_feeds ::
  "divergence_sample list \<Rightarrow> divergence_detector \<Rightarrow> dual_write_verdict list \<times> divergence_detector" where
  "detector_feeds [] d = ([], d)"
| "detector_feeds (s # ss) d =
     (let (v, d) = detector_feed s d; (vs, d) = detector_feeds ss d
      in (case v of None \<Rightarrow> vs | Some x \<Rightarrow> x # vs, d))"

subsection \<open>Rising edges\<close>

text \<open>The reference: the values of the polls at which a condition holds that did not hold at
  the poll before.\<close>

fun rising :: "bool \<Rightarrow> 'a option list \<Rightarrow> 'a list" where
  "rising was [] = []"
| "rising was (x # xs) =
     (case x of None \<Rightarrow> rising False xs | Some a \<Rightarrow> if was then rising True xs else a # rising True xs)"

text \<open>What a wire sees of the polls: those with an observation.\<close>

fun wire_history :: "tripwire \<Rightarrow> (obs_snapshot option \<times> mono_ns) list \<Rightarrow> tripwire_fire option list" where
  "wire_history w [] = []"
| "wire_history w ((None, t) # ps) = wire_history w ps"
| "wire_history w ((Some snap, t) # ps) = wire_fire w snap t # wire_history w ps"

lemma wire_fire_name [simp]: "wire_fire w snap now = Some f \<Longrightarrow> tf_name f = tw_name w"
  by (auto simp: wire_fire_def)

lemma evaluate_Nil [simp]: "evaluate [] snap now = []"
  by (simp add: evaluate_def List.map_filter_simps)

lemma evaluate_Cons [simp]:
  "evaluate (w # ws) snap now =
     (case wire_fire w snap now of None \<Rightarrow> evaluate ws snap now | Some f \<Rightarrow> f # evaluate ws snap now)"
  unfolding evaluate_def List.map_filter_simps ..

lemma evaluate_other_names:
  "n \<notin> tw_name ` set ws \<Longrightarrow> find (\<lambda>f. tf_name f = n) (evaluate ws snap now) = None"
  by (induction ws) (auto split: option.splits)

lemma find_own_fire:
  "distinct (map tw_name ws) \<Longrightarrow> w \<in> set ws \<Longrightarrow>
   find (\<lambda>f. tf_name f = tw_name w) (evaluate ws snap now) = wire_fire w snap now"
  by (induction ws) (auto simp: evaluate_other_names image_iff split: option.splits)

lemma wire_edge_snd: "snd (wire_edge fires w b) = (find (\<lambda>f. tf_name f = tw_name w) fires \<noteq> None)"
  by (auto simp: wire_edge_def split: option.splits bool.splits)

lemma wire_edge_fst:
  "fst (wire_edge fires w b) = (if b then None else find (\<lambda>f. tf_name f = tw_name w) fires)"
  by (auto simp: wire_edge_def split: option.splits bool.splits)

lemma wire_edge_name: "fst (wire_edge fires w b) = Some f \<Longrightarrow> tf_name f = tw_name w"
  by (auto simp: wire_edge_fst find_Some_iff split: if_splits)

lemma edges_of_other_wires:
  "n \<notin> tw_name ` set ws \<Longrightarrow>
   filter (\<lambda>f. tf_name f = n) (List.map_filter fst (map2 (wire_edge fires) ws bs)) = []"
  by (induction ws bs rule: list_induct2')
     (auto simp: List.map_filter_simps dest: wire_edge_name split: option.splits)

lemma edges_of_wire:
  "distinct (map tw_name ws) \<Longrightarrow> length bs = length ws \<Longrightarrow> i < length ws \<Longrightarrow>
   filter (\<lambda>f. tf_name f = tw_name (ws ! i)) (List.map_filter fst (map2 (wire_edge fires) ws bs)) =
     (case fst (wire_edge fires (ws ! i) (bs ! i)) of None \<Rightarrow> [] | Some f \<Rightarrow> [f])"
proof (induction ws bs arbitrary: i rule: list_induct2')
  case (4 w ws b bs)
  show ?case
  proof (cases i)
    case 0
    with 4 show ?thesis
      by (auto simp: List.map_filter_simps edges_of_other_wires dest: wire_edge_name split: option.splits)
  next
    case (Suc j)
    with 4 have ne: "tw_name w \<noteq> tw_name (ws ! j)" by (auto simp: image_iff)
    from 4 Suc have "filter (\<lambda>f. tf_name f = tw_name (ws ! j)) (List.map_filter fst (map2 (wire_edge fires) ws bs)) =
      (case fst (wire_edge fires (ws ! j) (bs ! j)) of None \<Rightarrow> [] | Some f \<Rightarrow> [f])" by auto
    with ne Suc show ?thesis
      by (auto simp: List.map_filter_simps dest: wire_edge_name split: option.splits)
  qed
qed auto

lemma evaluator_turn_flags:
  "length firing = length wires \<Longrightarrow> length (snd (evaluator_turn wires p firing)) = length wires"
  by (auto simp: evaluator_turn_def Let_def split: option.splits)

lemma evaluator_polls_rising:
  assumes "distinct (map tw_name wires)" "i < length wires" "length firing = length wires"
  shows "filter (\<lambda>f. tf_name f = tw_name (wires ! i)) (evaluator_polls wires polls firing) =
    rising (firing ! i) (wire_history (wires ! i) polls)"
  using assms(3)
proof (induction polls arbitrary: firing)
  case (Cons p ps)
  obtain snap t where p: "p = (snap, t)" by (cases p)
  show ?case
  proof (cases snap)
    case None
    with Cons p show ?thesis by (simp add: evaluator_turn_def)
  next
    case (Some sn)
    have own: "find (\<lambda>f. tf_name f = tw_name (wires ! i)) (evaluate wires sn t) = wire_fire (wires ! i) sn t"
      using assms(1,2) by (intro find_own_fire) auto
    from Cons assms show ?thesis
      by (auto simp: p Some evaluator_turn_def Let_def edges_of_wire wire_edge_fst wire_edge_snd own
          split: option.splits)
  qed
qed simp

text \<open>Tripwires with distinct names request on rising edges only: over any history of polls,
  the requests that carry the name of a wire are exactly the fires of that wire at the polls with
  an observation where its condition holds and did not hold at the poll before. A persistent
  condition requests once, and other wires never suppress or add a request.\<close>

theorem tripwire_requests_once_per_edge:
  assumes "distinct (map tw_name wires)" "w \<in> set wires"
  shows "filter (\<lambda>f. tf_name f = tw_name w) (evaluator_run wires polls) = rising False (wire_history w polls)"
proof -
  from assms(2) obtain i where "i < length wires" "w = wires ! i" by (auto simp: in_set_conv_nth)
  with assms(1) show ?thesis by (simp add: evaluator_run_def evaluator_polls_rising)
qed

definition force_snap :: "flt \<Rightarrow> obs_snapshot" where
  "force_snap f = \<lparr>ob_at = 0, ob_joint_pos = [], ob_ee_pos = None, ob_force_n = Some f\<rparr>"

theorem tripwire_requests_once_per_edge_witness:
  "let wires = [tripwire_holds ''f'' (ForceThreshold (Fin 10)), tripwire_holds ''s'' (Staleness 5)];
       polls = [(Some (force_snap (Fin 11)), 1), (Some (force_snap (Fin 12)), 2), (None, 3),
                (Some (force_snap (Fin 9)), 4), (Some (force_snap (Fin 12)), 9)]
   in filter (\<lambda>f. tf_name f = ''f'') (evaluator_run wires polls) =
      [\<lparr>tf_name = ''f'', tf_requested_verb = V_Hold, tf_detail = ForceOver (Fin 11) (Fin 10), tf_at = 1\<rparr>,
       \<lparr>tf_name = ''f'', tf_requested_verb = V_Hold, tf_detail = ForceOver (Fin 12) (Fin 10), tf_at = 9\<rparr>]"
  using tripwire_requests_once_per_edge
    [of "[tripwire_holds ''f'' (ForceThreshold (Fin 10)), tripwire_holds ''s'' (Staleness 5)]"
        "tripwire_holds ''f'' (ForceThreshold (Fin 10))"
        "[(Some (force_snap (Fin 11)), 1), (Some (force_snap (Fin 12)), 2), (None, 3),
          (Some (force_snap (Fin 9)), 4), (Some (force_snap (Fin 12)), 9)]"]
  by (simp add: tripwire_holds_def force_snap_def wire_fire_def)

text \<open>With a shared name the loop takes the first fire of the name: the second wire requests
  what the first one found, although its own condition does not hold.\<close>

theorem shared_name_requests_for_the_other_wire:
  "evaluator_run [tripwire_holds ''w'' (ForceThreshold (Fin 10)), tripwire_holds ''w'' (ForceThreshold (Fin 20))]
     [(Some (force_snap (Fin 11)), 1)] =
   replicate 2 \<lparr>tf_name = ''w'', tf_requested_verb = V_Hold, tf_detail = ForceOver (Fin 11) (Fin 10), tf_at = 1\<rparr>"
  by (simp add: evaluator_run_def evaluator_turn_def evaluate_def wire_edge_def tripwire_holds_def
      force_snap_def wire_fire_def List.map_filter_simps numeral_2_eq_2)

text \<open>A joint reading that is not a number is never near a limit, a position that is not a
  number is always outside the box.\<close>

theorem nan_joint_never_fires:
  "wire_detail (JointLimitMargin m limits) (snap\<lparr>ob_joint_pos := replicate n NaN\<rparr>) now = None"
proof -
  have "joint_hit m i (zip (replicate n NaN) limits) = None" for i
  proof (induction n arbitrary: i limits)
    case (Suc n)
    have "\<not> near_limit m NaN l" for l
      by (cases "fsub binary64 (snd l) m") (simp_all add: near_limit_def)
    with Suc show ?case by (cases limits) auto
  qed simp
  then show ?thesis by simp
qed

lemma nan_position_is_outside: "\<not> aabb_contains b (NaN, y, z)"
  by (auto simp: aabb_contains_def split: prod.splits)

theorem heartbeat_fires_once_per_outage:
  "watchdog_polls timeout_ns polls fired =
     rising fired (map (\<lambda>p. if heartbeat_stale timeout_ns p then Some (heartbeat_fire p) else None) polls)"
  by (induction polls arbitrary: fired) (auto simp: watchdog_turn_def Let_def)

subsection \<open>The divergent run\<close>

definition sample_width :: "divergence_sample \<Rightarrow> nat" where
  "sample_width s = min (length (ds_commanded s)) (length (ds_observed s))"

definition sample_l2 :: "divergence_sample \<Rightarrow> flt" where
  "sample_l2 s = l2_distance (take (sample_width s) (ds_commanded s)) (take (sample_width s) (ds_observed s))"

definition diverges :: "flt \<Rightarrow> divergence_sample \<Rightarrow> bool" where
  "diverges thr s = (\<not> flt_le (sample_l2 s) thr)"

text \<open>The samples since the last one within the threshold; empty samples do not count.\<close>

definition diverging_run :: "flt \<Rightarrow> divergence_sample list \<Rightarrow> divergence_sample list" where
  "diverging_run thr ss = rev (takeWhile (diverges thr) (rev (filter (\<lambda>s. sample_width s \<noteq> 0) ss)))"

lemma diverging_run_Nil [simp]: "diverging_run thr [] = []"
  by (simp add: diverging_run_def)

lemma diverging_run_snoc:
  "diverging_run thr (ss @ [s]) =
     (if sample_width s = 0 then diverging_run thr ss
      else if diverges thr s then diverging_run thr ss @ [s] else [])"
  by (simp add: diverging_run_def)

definition run_state :: "flt \<Rightarrow> int \<Rightarrow> divergence_sample list \<Rightarrow> divergence_detector" where
  "run_state thr w run =
     \<lparr>dv_threshold = thr, dv_window_ns = max w 1,
      dv_run_start = (if run = [] then None else Some (ds_at (hd run))),
      dv_run_sum = foldl (fadd binary64) (Fin 0) (map sample_l2 run),
      dv_run_samples = of_nat (length run), dv_fired = False\<rparr>"

definition run_verdict :: "int \<Rightarrow> divergence_sample list \<Rightarrow> dual_write_verdict option" where
  "run_verdict w run =
     (if run \<noteq> [] \<and> max w 1 \<le> i64_wrap (ds_at (last run) - ds_at (hd run))
      then Some \<lparr>dw_divergence_metric = fdiv binary64 (foldl (fadd binary64) (Fin 0) (map sample_l2 run))
                   (f64_of_int (uint (of_nat (length run) :: u32))),
                 dw_window_ns = i64_wrap (ds_at (last run) - ds_at (hd run))\<rparr>
      else None)"

lemma feed_run_state:
  assumes "sample_width s \<noteq> 0" "diverges thr s"
  shows "detector_feed s (run_state thr w run) =
    (run_verdict w (run @ [s]),
     (run_state thr w (run @ [s]))\<lparr>dv_fired := run_verdict w (run @ [s]) \<noteq> None\<rparr>)"
  using assms
  by (cases run) (simp_all add: detector_feed_def run_state_def run_verdict_def Let_def diverges_def
      sample_l2_def [symmetric] sample_width_def [symmetric])

lemma run_state_not_fired [simp]: "run_state thr w run\<lparr>dv_fired := False\<rparr> = run_state thr w run"
  by (simp add: run_state_def)

lemma feed_within_threshold:
  "sample_width s \<noteq> 0 \<Longrightarrow> \<not> diverges thr s \<Longrightarrow> detector_feed s (run_state thr w run) = (None, run_state thr w [])"
  by (simp add: detector_feed_def run_state_def Let_def diverges_def
      sample_l2_def [symmetric] sample_width_def [symmetric])

lemma feed_empty: "sample_width s = 0 \<Longrightarrow> detector_feed s d = (None, d)"
  by (simp add: detector_feed_def sample_width_def Let_def)

lemma feed_fired: "dv_fired d \<Longrightarrow> detector_feed s d = (None, d)"
  by (simp add: detector_feed_def Let_def)

lemma feeds_fired: "dv_fired d \<Longrightarrow> detector_feeds ss d = ([], d)"
  by (induction ss) (auto simp: feed_fired)

lemma detector_feeds_append:
  "detector_feeds (xs @ ys) d =
     (fst (detector_feeds xs d) @ fst (detector_feeds ys (snd (detector_feeds xs d))),
      snd (detector_feeds ys (snd (detector_feeds xs d))))"
  by (induction xs arbitrary: d) (auto simp: Let_def case_prod_unfold split: option.splits)

lemma run_verdict_Nil [simp]: "run_verdict w [] = None"
  by (simp add: run_verdict_def)

lemma feeds_run_state:
  "fst (detector_feeds ss (detector_new thr w)) = [] \<Longrightarrow>
   snd (detector_feeds ss (detector_new thr w)) = run_state thr w (diverging_run thr ss)"
proof (induction ss rule: rev_induct)
  case Nil
  then show ?case by (simp add: detector_new_def run_state_def)
next
  case (snoc s ss)
  let ?d = "snd (detector_feeds ss (detector_new thr w))"
  from snoc.prems have none: "fst (detector_feeds ss (detector_new thr w)) = []" "fst (detector_feed s ?d) = None"
    by (auto simp: detector_feeds_append Let_def case_prod_unfold split: option.splits)
  have state: "snd (detector_feeds (ss @ [s]) (detector_new thr w)) = snd (detector_feed s ?d)"
    by (simp add: detector_feeds_append Let_def case_prod_unfold)
  from snoc.IH [OF none(1)] none(2) show ?case
    unfolding state by (cases "sample_width s = 0"; cases "diverges thr s")
      (simp_all add: diverging_run_snoc feed_empty feed_within_threshold feed_run_state)
qed

lemma feed_fires: "fst (detector_feed s d) \<noteq> None \<Longrightarrow> dv_fired (snd (detector_feed s d))"
  by (auto simp: detector_feed_def Let_def split: if_splits)

lemma feeds_at_most_one: "length (fst (detector_feeds ss d)) \<le> 1"
proof (induction ss arbitrary: d)
  case (Cons s ss)
  show ?case
  proof (cases "fst (detector_feed s d)")
    case None
    with Cons show ?thesis by (simp add: Let_def case_prod_unfold)
  next
    case (Some v)
    with feed_fires [of s d] have "detector_feeds ss (snd (detector_feed s d)) = ([], snd (detector_feed s d))"
      by (intro feeds_fired) simp
    with Some show ?thesis by (simp add: Let_def case_prod_unfold)
  qed
qed simp

text \<open>The dual-write detector reports sustained divergence and nothing else: after a
  history without a verdict, a sample yields one exactly when it diverges and the samples since
  the last one within the threshold, itself included, span at least the window; the metric is the
  mean of their distances and the window their span. Until a reset there is at most one verdict,
  and a reset starts over.\<close>

theorem dual_write_verdict_is_sustained:
  assumes "fst (detector_feeds ss (detector_new thr w)) = []"
  shows "fst (detector_feed s (snd (detector_feeds ss (detector_new thr w)))) =
      (if sample_width s \<noteq> 0 \<and> diverges thr s then run_verdict w (diverging_run thr (ss @ [s])) else None) \<and>
    length (fst (detector_feeds ss' (detector_new thr w))) \<le> 1 \<and>
    detector_reset (snd (detector_feeds ss (detector_new thr w))) = detector_new thr w"
proof (intro conjI)
  show "fst (detector_feed s (snd (detector_feeds ss (detector_new thr w)))) =
      (if sample_width s \<noteq> 0 \<and> diverges thr s then run_verdict w (diverging_run thr (ss @ [s])) else None)"
    unfolding feeds_run_state [OF assms]
    by (cases "sample_width s = 0"; cases "diverges thr s")
      (simp_all add: diverging_run_snoc feed_empty feed_within_threshold feed_run_state)
  show "length (fst (detector_feeds ss' (detector_new thr w))) \<le> 1" by (rule feeds_at_most_one)
  show "detector_reset (snd (detector_feeds ss (detector_new thr w))) = detector_new thr w"
    unfolding feeds_run_state [OF assms] by (simp add: detector_reset_def run_state_def detector_new_def)
qed

definition runaway_at :: "mono_ns \<Rightarrow> divergence_sample" where
  "runaway_at t = \<lparr>ds_commanded = [PInf, Fin 0], ds_observed = [Fin 2], ds_at = t\<rparr>"

lemma runaway_l2 [simp]: "sample_width (runaway_at t) = 1" "sample_l2 (runaway_at t) = PInf"
  "ds_at (runaway_at t) = t"
  by (simp_all add: sample_width_def sample_l2_def l2_distance_def runaway_at_def fsub_def)

lemma runaway_history_is_quiet: "fst (detector_feeds [runaway_at 0] (detector_new (Fin 1) 5)) = []"
  using feed_run_state [of "runaway_at 0" "Fin 1" 5 "[]"]
  by (simp add: detector_new_def run_state_def diverges_def run_verdict_def i64_wrap_def Let_def case_prod_unfold)

theorem dual_write_verdict_is_sustained_witness:
  "fst (detector_feed (runaway_at 10) (snd (detector_feeds [runaway_at 0] (detector_new (Fin 1) 5)))) \<noteq> None"
  using dual_write_verdict_is_sustained [OF runaway_history_is_quiet, of "runaway_at 10" "[]"]
  by (simp add: diverges_def diverging_run_def run_verdict_def i64_wrap_def)

end
