(* ===== verification/Waddle_Recording.thy ===== *)
theory Waddle_Recording
  imports Waddle_Gate Waddle_Action Waddle_Tripwire "HOL-Library.Char_ord" "HOL-Library.List_Lexorder"
begin

text \<open>
  What the reducer of \<^verbatim>\<open>waddle-runtime/src/reducer.rs\<close> learns and records
  between steps of the session machine: the latest proprioceptive state per declared part, its
  periodic uplink, and the rows of the episode recording (gate ticks, dispatches of the bypass
  pump, proprioceptive reports). The recording file is the list of rows written to it, \<open>None\<close>
  while no file is open; queues drained at a wake are arguments. Part names are ordered as Rust
  orders strings.

  The lemmas: parts never mix, each part answers the uplink cadence for itself and a named part
  leaves only where it was negotiated, and every gate tick leaves exactly one action row.
\<close>

subsection \<open>Latest proprioceptive state\<close>

definition observation_uplink_period_ns :: int where
  "observation_uplink_period_ns = 100000000"

definition sole_part :: string where "sole_part = []"

record proprio_extras =
  px_joint_vel :: "flt list"
  px_ee_pose :: "pb_pose option"
  px_gripper :: "flt option"

record part_proprio =
  qp_joint_pos :: "flt list"
  qp_extras :: proprio_extras
  qp_last_uplink_ns :: "int option"

record proprio_report =
  rp_part :: string
  rp_joint_pos :: "flt list option"
  rp_joint_vel :: "flt list option"
  rp_ee_pose :: "pb_pose option"
  rp_gripper :: "flt option"

record stamped_proprio_report =
  sr_report :: proprio_report
  sr_stamp :: stamp

record proprio_sample =
  ps_joint_pos :: "flt list"
  ps_joint_vel :: "flt list"
  ps_ee_pose :: "pb_pose option"
  ps_gripper :: "flt option"
  ps_part :: string

definition extras_empty :: proprio_extras where
  "extras_empty = \<lparr>px_joint_vel = [], px_ee_pose = None, px_gripper = None\<rparr>"

definition part_empty :: part_proprio where
  "part_empty = \<lparr>qp_joint_pos = [], qp_extras = extras_empty, qp_last_uplink_ns = None\<rparr>"

definition extras_is_empty :: "proprio_extras \<Rightarrow> bool" where
  "extras_is_empty x \<longleftrightarrow> px_joint_vel x = [] \<and> px_ee_pose x = None \<and> px_gripper x = None"

definition part_is_empty :: "part_proprio \<Rightarrow> bool" where
  "part_is_empty s \<longleftrightarrow> qp_joint_pos s = [] \<and> extras_is_empty (qp_extras s)"

definition merge_extras :: "proprio_report \<Rightarrow> proprio_extras \<Rightarrow> proprio_extras" where
  "merge_extras r x =
     (let x = (case rp_joint_vel r of Some v \<Rightarrow> x\<lparr>px_joint_vel := v\<rparr> | None \<Rightarrow> x);
          x = (case rp_ee_pose r of Some p \<Rightarrow> x\<lparr>px_ee_pose := Some p\<rparr> | None \<Rightarrow> x)
      in case rp_gripper r of Some g \<Rightarrow> x\<lparr>px_gripper := Some g\<rparr> | None \<Rightarrow> x)"

type_synonym proprio_map = "(string \<times> part_proprio) list"

text \<open>\<^verbatim>\<open>part_mut\<close>: the part's state, created empty on first mention, updated.\<close>

definition part_mut :: "string \<Rightarrow> (part_proprio \<Rightarrow> part_proprio) \<Rightarrow> proprio_map \<Rightarrow> proprio_map" where
  "part_mut part f m =
     (let m = (if map_of m part = None then bt_insert part part_empty m else m)
      in bt_insert part (f (the (map_of m part))) m)"

definition proprio_sample_for :: "string \<Rightarrow> proprio_map \<Rightarrow> proprio_sample" where
  "proprio_sample_for part m =
     (let state = map_of m part in
      \<lparr>ps_joint_pos = (case state of Some s \<Rightarrow> qp_joint_pos s | None \<Rightarrow> []),
       ps_joint_vel = (case state of Some s \<Rightarrow> px_joint_vel (qp_extras s) | None \<Rightarrow> []),
       ps_ee_pose = Option.bind state (\<lambda>s. px_ee_pose (qp_extras s)),
       ps_gripper = Option.bind state (\<lambda>s. px_gripper (qp_extras s)),
       ps_part = part\<rparr>)"

definition apply_report :: "proprio_report \<Rightarrow> part_proprio \<Rightarrow> part_proprio" where
  "apply_report r s =
     (let s = s\<lparr>qp_extras := merge_extras r (qp_extras s)\<rparr>
      in case rp_joint_pos r of Some q \<Rightarrow> s\<lparr>qp_joint_pos := q\<rparr> | None \<Rightarrow> s)"

subsection \<open>The recording\<close>

datatype mcap_row =
    MR_Event episode_event
  | MR_Observation int proprio_sample
  | MR_Action pb_action_chunk

type_synonym mcap = "mcap_row list option"

definition write_row :: "mcap_row \<Rightarrow> mcap \<Rightarrow> mcap" where
  "write_row row f = map_option (\<lambda>rows. rows @ [row]) f"

fun drain_proprio_reports :: "stamped_proprio_report list \<Rightarrow> proprio_map \<times> mcap \<Rightarrow> proprio_map \<times> mcap" where
  "drain_proprio_reports [] (m, f) = (m, f)"
| "drain_proprio_reports (sr # rest) (m, f) =
     (let m = part_mut (rp_part (sr_report sr)) (apply_report (sr_report sr)) m;
          sample = proprio_sample_for (rp_part (sr_report sr)) m
      in drain_proprio_reports rest (m, write_row (MR_Observation (mono (sr_stamp sr)) sample) f))"

subsection \<open>The observation uplink\<close>

definition uplink_due :: "mono_ns \<Rightarrow> part_proprio \<Rightarrow> bool" where
  "uplink_due now s \<longleftrightarrow> \<not> part_is_empty s \<and>
     (case qp_last_uplink_ns s of
        None \<Rightarrow> True
      | Some t \<Rightarrow> observation_uplink_period_ns \<le> i64_wrap (now - t))"

definition due_parts :: "bool \<Rightarrow> mono_ns \<Rightarrow> proprio_map \<Rightarrow> string list" where
  "due_parts parts_negotiated now m =
     (let due = map fst (filter (\<lambda>(part, s). uplink_due now s) m)
      in if (\<exists>part \<in> set due. part \<noteq> sole_part) \<and> \<not> parts_negotiated
         then filter (\<lambda>part. part = sole_part) due else due)"

fun send_due :: "mono_ns \<Rightarrow> string list \<Rightarrow> proprio_map \<Rightarrow> (int \<times> proprio_sample) list \<times> proprio_map" where
  "send_due now [] m = ([], m)"
| "send_due now (part # rest) m =
     (let m = (case map_of m part of
                 None \<Rightarrow> m
               | Some s \<Rightarrow> bt_insert part (s\<lparr>qp_last_uplink_ns := Some now\<rparr>) m);
          (sent, m') = send_due now rest m
      in ((now, proprio_sample_for part m) # sent, m'))"

definition maybe_uplink_observation ::
  "bool \<Rightarrow> bool \<Rightarrow> mono_ns \<Rightarrow> proprio_map \<Rightarrow> (int \<times> proprio_sample) list \<times> proprio_map" where
  "maybe_uplink_observation has_plane parts_negotiated now m =
     (if \<not> has_plane then ([], m) else send_due now (due_parts parts_negotiated now m) m)"

subsection \<open>Action rows\<close>

datatype noop_reason = NR_BypassActive | NR_HoldActive | NR_ResetActive | NR_AgentEpisode

fun noop_reason_pb :: "noop_reason \<Rightarrow> int" where
  "noop_reason_pb NR_BypassActive = 1"
| "noop_reason_pb NR_HoldActive = 2"
| "noop_reason_pb NR_ResetActive = 3"
| "noop_reason_pb NR_AgentEpisode = 4"

definition noop_action :: "noop_reason \<Rightarrow> pb_action" where
  "noop_action r = PbAction (Some (T_Noop (noop_reason_pb r))) None 0 [] None"

definition decoded_action :: "action_space \<Rightarrow> owned_action \<Rightarrow> pb_action list" where
  "decoded_action space a =
     (case unflatten_action_vff (oa_values a) (oa_velocity_feedforward a) (oa_gripper a) (oa_part a) space of
        Inr act \<Rightarrow> [act]
      | Inl e \<Rightarrow> [])"

fun record_actions :: "action_space \<Rightarrow> gate_decision \<Rightarrow> owned_action option \<Rightarrow> pb_action list option" where
  "record_actions space GD_Noop act = Some [noop_action NR_BypassActive]"
| "record_actions space GD_Hold act = Some [noop_action NR_HoldActive]"
| "record_actions space GD_ResetActive act = Some [noop_action NR_ResetActive]"
| "record_actions space GD_AgentEpisode act = Some [noop_action NR_AgentEpisode]"
| "record_actions space d (Some act) = Some (decoded_action space act)"
| "record_actions space d None = None"

definition gate_source :: string where "gate_source = ''waddle_sdk.gate''"

definition bypass_pump_source :: string where "bypass_pump_source = ''waddle_sdk.bypass-pump''"

definition write_record :: "action_space \<Rightarrow> proprio_map \<Rightarrow> gate_record \<Rightarrow> mcap \<Rightarrow> mcap" where
  "write_record space m r f =
     (let t = mono (gr_stamp r);
          f = (case gr_obs r of
                 None \<Rightarrow> f
               | Some obs \<Rightarrow>
                   write_row (MR_Observation t ((proprio_sample_for sole_part m)\<lparr>ps_joint_pos := obs\<rparr>)) f)
      in case record_actions space (gr_decision r) (gr_action r) of
           None \<Rightarrow> f
         | Some acts \<Rightarrow>
             write_row (MR_Action
               \<lparr>pk_actions = acts, pk_horizon_ns = 0, pk_t_emitted_ns = t,
                pk_t_obs_ns = (if gr_obs r = None then 0 else t), pk_seq = gr_seq r,
                pk_source_id = gate_source,
                pk_provenance = Some (provenance_tag_to_pb (gr_provenance r))\<rparr>) f)"

record dispatched_action =
  da_stamp :: stamp
  da_seq :: u64
  da_provenance :: provenance_tag
  da_action :: owned_action

definition write_dispatched :: "action_space \<Rightarrow> dispatched_action \<Rightarrow> mcap \<Rightarrow> mcap" where
  "write_dispatched space d f =
     write_row (MR_Action
       \<lparr>pk_actions = decoded_action space (da_action d), pk_horizon_ns = 0,
        pk_t_emitted_ns = mono (da_stamp d), pk_t_obs_ns = 0, pk_seq = da_seq d,
        pk_source_id = bypass_pump_source,
        pk_provenance = Some (provenance_tag_to_pb (da_provenance d))\<rparr>) f"

definition drain_dispatched_actions :: "action_space \<Rightarrow> dispatched_action list \<Rightarrow> mcap \<Rightarrow> mcap" where
  "drain_dispatched_actions space ds f = fold (write_dispatched space) ds f"

subsection \<open>Gate records\<close>

text \<open>The latest joint positions the local jog controller reads: a sample replaces what is not
  newer.\<close>

type_synonym latest_joints = "(string \<times> mono_ns \<times> flt list) list"

definition publish_joints :: "string \<Rightarrow> mono_ns \<Rightarrow> flt list \<Rightarrow> latest_joints \<Rightarrow> latest_joints" where
  "publish_joints part t vals m =
     (if (case map_of m part of None \<Rightarrow> True | Some (seen, old) \<Rightarrow> seen \<le> t)
      then bt_insert part (t, vals) m else m)"

definition read_joints :: "string \<Rightarrow> latest_joints \<Rightarrow> flt list option" where
  "read_joints part m = map_option snd (map_of m part)"

definition publish_obs :: "mono_ns \<Rightarrow> flt list \<Rightarrow> obs_snapshot" where
  "publish_obs t obs = \<lparr>ob_at = t, ob_joint_pos = obs, ob_ee_pos = None, ob_force_n = None\<rparr>"

record observed =
  ov_latest :: proprio_map
  ov_joints :: latest_joints
  ov_obs_slot :: "obs_snapshot option"
  ov_mcap :: mcap

definition drain_record :: "action_space \<Rightarrow> gate_record \<Rightarrow> observed \<Rightarrow> observed" where
  "drain_record space r v =
     (let v = (case gr_obs r of
                 None \<Rightarrow> v
               | Some obs \<Rightarrow>
                   v\<lparr>ov_obs_slot := Some (publish_obs (mono (gr_stamp r)) obs),
                     ov_joints := publish_joints sole_part (mono (gr_stamp r)) obs (ov_joints v),
                     ov_latest := part_mut sole_part (\<lambda>s. s\<lparr>qp_joint_pos := obs\<rparr>) (ov_latest v)\<rparr>)
      in v\<lparr>ov_mcap := write_record space (ov_latest v) r (ov_mcap v)\<rparr>)"

definition drain_current_ring :: "action_space \<Rightarrow> gate_record list \<Rightarrow> observed \<Rightarrow> observed" where
  "drain_current_ring space rs v = fold (drain_record space) rs v"

subsection \<open>Parts never mix\<close>

lemma part_mut_ok: "bt_ok m \<Longrightarrow> bt_ok (part_mut part f m)"
  by (simp add: part_mut_def Let_def bt.ok_ins)

lemma part_mut_lookup:
  "bt_ok m \<Longrightarrow> map_of (part_mut part f m) =
     (map_of m)(part \<mapsto> f (case map_of m part of None \<Rightarrow> part_empty | Some s \<Rightarrow> s))"
  by (auto simp: part_mut_def Let_def bt.ok_ins bt.look_ins split: option.splits)

definition own_reports :: "string \<Rightarrow> stamped_proprio_report list \<Rightarrow> proprio_report list" where
  "own_reports part rs = filter (\<lambda>r. rp_part r = part) (map sr_report rs)"

lemma own_reports_simps [simp]:
  "own_reports part [] = []"
  "own_reports part (r # rs) =
     (if rp_part (sr_report r) = part then sr_report r # own_reports part rs else own_reports part rs)"
  by (simp_all add: own_reports_def)

lemma drain_proprio_ok: "bt_ok m \<Longrightarrow> bt_ok (fst (drain_proprio_reports rs (m, f)))"
  by (induction rs arbitrary: m f) (simp_all add: Let_def part_mut_ok)

lemma drain_proprio_lookup:
  "bt_ok m \<Longrightarrow> map_of (fst (drain_proprio_reports rs (m, f))) part =
     (if own_reports part rs = [] then map_of m part
      else Some (fold apply_report (own_reports part rs)
             (case map_of m part of None \<Rightarrow> part_empty | Some s \<Rightarrow> s)))"
proof (induction rs arbitrary: m f)
  case (Cons r rs)
  from Cons.IH [OF part_mut_ok [OF Cons.prems]] show ?case
    by (simp add: Let_def part_mut_lookup [OF Cons.prems])
qed simp

lemma write_row_Some [simp]: "write_row r (Some rows) = Some (rows @ [r])" "write_row r None = None"
  by (simp_all add: write_row_def)

fun row_part :: "mcap_row \<Rightarrow> string option" where
  "row_part (MR_Observation t s) = Some (ps_part s)"
| "row_part r = None"

lemma drain_proprio_rows:
  "\<exists>new. snd (drain_proprio_reports rs (m, Some rows)) = Some (rows @ new) \<and>
     map row_part new = map (\<lambda>sr. Some (rp_part (sr_report sr))) rs"
proof (induction rs arbitrary: m rows)
  case (Cons r rs)
  let ?m = "part_mut (rp_part (sr_report r)) (apply_report (sr_report r)) m"
  let ?row = "MR_Observation (mono (sr_stamp r)) (proprio_sample_for (rp_part (sr_report r)) ?m)"
  obtain new where "snd (drain_proprio_reports rs (?m, Some (rows @ [?row]))) = Some ((rows @ [?row]) @ new)"
    "map row_part new = map (\<lambda>sr. Some (rp_part (sr_report sr))) rs" using Cons by blast
  then show ?case by (intro exI [of _ "?row # new"]) (simp add: Let_def proprio_sample_for_def)
qed simp

text \<open>Parts never mix: after draining any sequence of reports the state of a part is what its
  own reports, in order, made of its earlier state, and a part nobody reported about is untouched;
  every report leaves one observation row labelled with its own part.\<close>

theorem parts_never_mix:
  assumes "bt_ok m"
  shows "map_of (fst (drain_proprio_reports rs (m, Some rows))) part =
      (if own_reports part rs = [] then map_of m part
       else Some (fold apply_report (own_reports part rs)
              (case map_of m part of None \<Rightarrow> part_empty | Some s \<Rightarrow> s))) \<and>
    (\<exists>new. snd (drain_proprio_reports rs (m, Some rows)) = Some (rows @ new) \<and>
       map row_part new = map (\<lambda>sr. Some (rp_part (sr_report sr))) rs)"
  using drain_proprio_lookup [OF assms] drain_proprio_rows by simp

definition demo_report :: "string \<Rightarrow> flt \<Rightarrow> stamped_proprio_report" where
  "demo_report part g =
     \<lparr>sr_report = \<lparr>rp_part = part, rp_joint_pos = None, rp_joint_vel = None, rp_ee_pose = None, rp_gripper = Some g\<rparr>,
      sr_stamp = \<lparr>mono = 7, epoch = 7\<rparr>\<rparr>"

theorem parts_never_mix_witness:
  "map_of (fst (drain_proprio_reports [demo_report ''l'' (Fin 1), demo_report ''r'' (Fin 2)] ([], Some []))) ''l'' =
     Some (part_empty\<lparr>qp_extras := extras_empty\<lparr>px_gripper := Some (Fin 1)\<rparr>\<rparr>)"
proof -
  have "bt_ok ([] :: proprio_map)" by (simp add: bt_ok_def)
  from parts_never_mix [OF this, of "[demo_report ''l'' (Fin 1), demo_report ''r'' (Fin 2)]" "[]" "''l''"] show ?thesis
    by (simp add: demo_report_def apply_report_def merge_extras_def part_empty_def)
qed

subsection \<open>The uplink\<close>

definition last_uplink :: "string \<Rightarrow> proprio_map \<Rightarrow> int option" where
  "last_uplink part m = Option.bind (map_of m part) qp_last_uplink_ns"

lemma sample_ignores_uplink:
  "bt_ok m \<Longrightarrow> map_of m part = Some s \<Longrightarrow>
   proprio_sample_for p (bt_insert part (s\<lparr>qp_last_uplink_ns := t\<rparr>) m) = proprio_sample_for p m"
  by (simp add: proprio_sample_for_def bt.look_ins)

lemma send_due_facts:
  assumes "bt_ok m"
  shows "fst (send_due now ps m) = map (\<lambda>p. (now, proprio_sample_for p m)) ps \<and>
    bt_ok (snd (send_due now ps m)) \<and>
    (\<forall>p. last_uplink p (snd (send_due now ps m)) =
       (if p \<in> set ps \<and> map_of m p \<noteq> None then Some now else last_uplink p m))"
  using assms
proof (induction ps arbitrary: m)
  case (Cons part ps)
  show ?case
  proof (cases "map_of m part")
    case None
    with Cons show ?thesis by (auto simp: Let_def case_prod_unfold)
  next
    case (Some s)
    let ?m = "bt_insert part (s\<lparr>qp_last_uplink_ns := Some now\<rparr>) m"
    have ok: "bt_ok ?m" using Cons.prems by (rule bt.ok_ins)
    have look: "map_of ?m = (map_of m)(part \<mapsto> s\<lparr>qp_last_uplink_ns := Some now\<rparr>)"
      using Cons.prems by (rule bt.look_ins)
    note IH = Cons.IH [OF ok]
    have "\<And>p. proprio_sample_for p ?m = proprio_sample_for p m"
      using sample_ignores_uplink [OF Cons.prems Some] by blast
    moreover have "\<And>p. last_uplink p ?m = (if p = part then Some now else last_uplink p m)"
      by (simp add: last_uplink_def look)
    ultimately show ?thesis using IH Some
      by (auto simp: Let_def case_prod_unfold look)
  qed
qed simp

lemma proprio_sample_part [simp]: "ps_part (proprio_sample_for p m) = p"
  by (simp add: proprio_sample_for_def Let_def)

lemma due_parts_subset: "p \<in> set (due_parts n now m) \<Longrightarrow> \<exists>s. (p, s) \<in> set m \<and> uplink_due now s"
  by (auto simp: due_parts_def Let_def split: if_splits)

lemma due_parts_negotiated: "p \<in> set (due_parts n now m) \<Longrightarrow> p = sole_part \<or> n"
proof -
  have "x \<in> set (if (\<exists>part \<in> set due. part \<noteq> sole_part) \<and> \<not> n then filter (\<lambda>part. part = sole_part) due else due)
    \<Longrightarrow> x = sole_part \<or> n" for x due by (auto split: if_splits)
  then show "p \<in> set (due_parts n now m) \<Longrightarrow> p = sole_part \<or> n"
    unfolding due_parts_def Let_def by blast
qed

lemma bt_ok_lookup: "bt_ok m \<Longrightarrow> (k, v) \<in> set m \<Longrightarrow> map_of m k = Some v"
  by (auto simp: bt_ok_def strict_sorted_iff simp del: map_map intro: map_of_is_SomeI)

lemma due_parts_facts:
  assumes "p \<in> set (due_parts n now m)" "bt_ok m"
  shows "map_of m p \<noteq> None \<and>
    (case last_uplink p m of None \<Rightarrow> True | Some t \<Rightarrow> observation_uplink_period_ns \<le> i64_wrap (now - t))"
proof -
  from due_parts_subset [OF assms(1)] obtain s where s: "(p, s) \<in> set m" "uplink_due now s" by blast
  from bt_ok_lookup [OF assms(2) s(1)] s(2) show ?thesis
    by (auto simp: last_uplink_def uplink_due_def split: option.splits)
qed

text \<open>Wakes of the reducer: reports and observations learned, and the uplink asked.\<close>

datatype obs_wake =
    OW_Reports "stamped_proprio_report list"
  | OW_Obs "flt list"
  | OW_Uplink bool mono_ns

fun uplink_run :: "obs_wake list \<Rightarrow> proprio_map \<Rightarrow> (int \<times> proprio_sample) list" where
  "uplink_run [] m = []"
| "uplink_run (OW_Reports rs # ws) m = uplink_run ws (fst (drain_proprio_reports rs (m, None)))"
| "uplink_run (OW_Obs obs # ws) m = uplink_run ws (part_mut sole_part (\<lambda>s. s\<lparr>qp_joint_pos := obs\<rparr>) m)"
| "uplink_run (OW_Uplink n now # ws) m =
     (let (sent, m) = maybe_uplink_observation True n now m in sent @ uplink_run ws m)"

fun wake_times :: "obs_wake list \<Rightarrow> int list" where
  "wake_times [] = []"
| "wake_times (OW_Uplink n now # ws) = now # wake_times ws"
| "wake_times (_ # ws) = wake_times ws"

definition sends_of :: "string \<Rightarrow> (int \<times> proprio_sample) list \<Rightarrow> int list" where
  "sends_of p sent = map fst (filter (\<lambda>(t, s). ps_part s = p) sent)"

definition spaced :: "int option \<Rightarrow> int list \<Rightarrow> bool" where
  "spaced before ts \<longleftrightarrow>
     sorted_wrt (\<lambda>a b. observation_uplink_period_ns \<le> b - a) ((case before of None \<Rightarrow> [] | Some t \<Rightarrow> [t]) @ ts)"

lemma part_mut_last_uplink:
  "bt_ok m \<Longrightarrow> (\<And>s. qp_last_uplink_ns (f s) = qp_last_uplink_ns s) \<Longrightarrow>
   last_uplink p (part_mut part f m) = last_uplink p m"
  by (auto simp: last_uplink_def part_mut_lookup part_empty_def split: option.splits)

lemma apply_report_last_uplink: "qp_last_uplink_ns (apply_report r s) = qp_last_uplink_ns s"
  by (simp add: apply_report_def Let_def split: option.splits)

lemma drain_last_uplink: "bt_ok m \<Longrightarrow> last_uplink p (fst (drain_proprio_reports rs (m, f))) = last_uplink p m"
  by (induction rs arbitrary: m f) (simp_all add: Let_def part_mut_ok part_mut_last_uplink apply_report_last_uplink)

lemma sends_of_append [simp]: "sends_of p (xs @ ys) = sends_of p xs @ sends_of p ys"
  by (simp add: sends_of_def)

lemma sends_of_due:
  "sends_of p (map (\<lambda>q. (now, proprio_sample_for q m)) ps) = replicate (length (filter (\<lambda>q. q = p) ps)) now"
  by (induction ps) (auto simp: sends_of_def)

lemma distinct_due_parts: "bt_ok m \<Longrightarrow> distinct (due_parts n now m)"
  by (auto simp: due_parts_def Let_def bt_ok_def strict_sorted_iff distinct_map_filter simp del: map_map
      intro!: distinct_filter)

lemma filter_eq_distinct: "distinct xs \<Longrightarrow> filter (\<lambda>q. q = p) xs = (if p \<in> set xs then [p] else [])"
  by (induction xs) auto

lemma i64_diff: "0 \<le> a \<Longrightarrow> in_i64 b \<Longrightarrow> 0 \<le> b \<Longrightarrow> in_i64 a \<Longrightarrow> i64_wrap (b - a) = b - a"
  by (intro i64_wrap_id) (auto simp: in_i64_def i64_min_def i64_max_def)

lemma uplink_run_spaced:
  assumes "bt_ok m" "sorted (wake_times ws)" "\<forall>t \<in> set (wake_times ws). 0 \<le> t \<and> in_i64 t"
    and "case last_uplink p m of None \<Rightarrow> True | Some t \<Rightarrow> 0 \<le> t \<and> in_i64 t"
  shows "spaced (last_uplink p m) (sends_of p (uplink_run ws m))"
  using assms
proof (induction ws m rule: uplink_run.induct)
  case (1 m)
  then show ?case by (auto simp: spaced_def sends_of_def split: option.split)
next
  case (2 rs ws m)
  then show ?case by (simp add: drain_last_uplink drain_proprio_ok)
next
  case (3 obs ws m)
  then show ?case by (simp add: part_mut_last_uplink part_mut_ok)
next
  case (4 n now ws m)
  let ?ps = "due_parts n now m" and ?m = "snd (maybe_uplink_observation True n now m)"
  have sd: "maybe_uplink_observation True n now m = send_due now ?ps m" by (simp add: maybe_uplink_observation_def)
  note facts = send_due_facts [OF 4(2), of now ?ps]
  have ok: "bt_ok ?m" using facts by (simp add: sd)
  have run: "sends_of p (uplink_run (OW_Uplink n now # ws) m) =
      (if p \<in> set ?ps then [now] else []) @ sends_of p (uplink_run ws ?m)"
    using facts filter_eq_distinct [OF distinct_due_parts [OF 4(2)]]
    by (simp add: sd Let_def case_prod_unfold sends_of_due)
  have IH: "spaced (last_uplink p ?m) (sends_of p (uplink_run ws ?m))"
    if "case last_uplink p ?m of None \<Rightarrow> True | Some t \<Rightarrow> 0 \<le> t \<and> in_i64 t"
    using 4(1) [OF refl prod.collapse ok] 4(3,4) that by (simp add: prod_eq_iff)
  show ?case
  proof (cases "p \<in> set ?ps")
    case False
    with facts have "last_uplink p ?m = last_uplink p m" by (simp add: sd)
    with IH 4(5) run False show ?thesis by simp
  next
    case True
    from due_parts_facts [OF True 4(2)] have look: "map_of m p \<noteq> None"
      and gap: "case last_uplink p m of None \<Rightarrow> True | Some t \<Rightarrow> observation_uplink_period_ns \<le> i64_wrap (now - t)"
      by auto
    with facts True have lst: "last_uplink p ?m = Some now" by (simp add: sd)
    have now: "0 \<le> now" "in_i64 now" using 4(4) by auto
    have rest: "spaced (Some now) (sends_of p (uplink_run ws ?m))" using IH lst now by simp
    show ?thesis
    proof (cases "last_uplink p m")
      case None
      with rest True run show ?thesis by (simp add: spaced_def)
    next
      case (Some t)
      with gap 4(5) now have "observation_uplink_period_ns \<le> now - t" by (simp add: i64_diff)
      with rest True run Some show ?thesis
        by (auto simp: spaced_def observation_uplink_period_ns_def)
    qed
  qed
qed

text \<open>Every part answers the uplink cadence for itself: over any interleaving of reports,
  observations and uplink turns at non-decreasing session times, two samples of one part are at
  least the uplink period apart; and an uplink turn sends, for exactly the parts due, the state
  of that part labelled with it, a named part only where parts were negotiated.\<close>

theorem uplink_cadence_is_per_part:
  assumes "bt_ok m" "sorted (wake_times ws)" "\<forall>t \<in> set (wake_times ws). 0 \<le> t \<and> in_i64 t"
    and "\<forall>p s. map_of m p = Some s \<longrightarrow> qp_last_uplink_ns s = None"
  shows "sorted_wrt (\<lambda>a b. observation_uplink_period_ns \<le> b - a) (sends_of p (uplink_run ws m)) \<and>
    fst (maybe_uplink_observation True n now m) =
      map (\<lambda>q. (now, proprio_sample_for q m)) (due_parts n now m) \<and>
    (\<forall>q \<in> set (due_parts n now m). q = sole_part \<or> n)"
proof -
  have none: "last_uplink p m = None"
    using assms(4) by (cases "map_of m p") (auto simp: last_uplink_def)
  have "spaced (last_uplink p m) (sends_of p (uplink_run ws m))"
    by (rule uplink_run_spaced [OF assms(1,2,3)]) (simp add: none)
  then show ?thesis
    using send_due_facts [OF assms(1)] due_parts_negotiated
    by (auto simp: none spaced_def maybe_uplink_observation_def)
qed

definition demo_wakes :: "obs_wake list" where
  "demo_wakes = [OW_Reports [demo_report ''l'' (Fin 1)], OW_Uplink True 5, OW_Obs [Fin 2], OW_Uplink True 9, OW_Uplink True 100000005]"

theorem uplink_cadence_is_per_part_witness:
  "sends_of ''l'' (uplink_run demo_wakes []) = [5, 100000005] \<and>
   sorted_wrt (\<lambda>a b. observation_uplink_period_ns \<le> b - a) (sends_of ''l'' (uplink_run demo_wakes []))"
proof
  show "sends_of ''l'' (uplink_run demo_wakes []) = [5, 100000005]" by code_simp
  show "sorted_wrt (\<lambda>a b. observation_uplink_period_ns \<le> b - a) (sends_of ''l'' (uplink_run demo_wakes []))"
    using uplink_cadence_is_per_part [of "[]" demo_wakes "''l''" True 0]
    by (simp add: demo_wakes_def bt_ok_def in_i64_def i64_min_def i64_max_def)
qed

subsection \<open>The per-tick trace\<close>

text \<open>What the trace says a tick did.\<close>

fun trace_of :: "action_space \<Rightarrow> plan_mode \<Rightarrow> owned_action option \<Rightarrow> pb_action list" where
  "trace_of space m (Some a) = decoded_action space a"
| "trace_of space (PM_Bypass p) None = [noop_action NR_BypassActive]"
| "trace_of space (PM_Reset p) None = [noop_action NR_ResetActive]"
| "trace_of space (PM_AgentEpisode p) None = [noop_action NR_AgentEpisode]"
| "trace_of space m None = [noop_action NR_HoldActive]"

lemma gate_target_record:
  "gate_target ti prov blend target obs g = (out, r, g') \<Longrightarrow>
   gr_stamp r = ti_stamp ti \<and> gr_obs r = obs \<and> gr_provenance r = prov \<and> gr_seq r = ga_seq g \<and>
   gr_action r = dispatched out \<and> (gr_decision r = GD_Hold \<longleftrightarrow> gr_action r = None) \<and>
   gr_decision r \<in> {GD_Hold, GD_Substitute, GD_Blend}"
  by (auto simp: gate_target_def push_record_def Let_def split: if_splits option.splits)

lemma gate_claimed_record:
  assumes "gate_claimed ti prov blend obs g = (out, r, g')"
  shows "gr_stamp r = ti_stamp ti \<and> gr_obs r = obs \<and> gr_provenance r = prov \<and> gr_seq r = ga_seq g \<and>
   gr_action r = dispatched out \<and> (gr_decision r = GD_Hold \<longleftrightarrow> gr_action r = None) \<and>
   gr_decision r \<in> {GD_Hold, GD_Substitute, GD_Blend}"
proof -
  obtain due jitter where pop: "intake_pop_due (mono (ti_stamp ti)) (ti_arrivals ti) (gs_jitter (ga_shared g)) = (due, jitter)"
    by fastforce
  show ?thesis
  proof (cases due)
    case None
    then show ?thesis using assms by (auto simp: gate_claimed_def pop push_record_def Let_def)
  next
    case (Some target)
    with assms have "gate_target ti prov blend target obs (g\<lparr>ga_shared := (ga_shared g)\<lparr>gs_jitter := jitter\<rparr>\<rparr>) = (out, r, g')"
      by (simp add: gate_claimed_def pop)
    from gate_target_record [OF this] show ?thesis by auto
  qed
qed

definition tick_row ::
  "action_space \<Rightarrow> gate_state \<Rightarrow> tick \<Rightarrow> flt list option \<Rightarrow> provenance_tag \<Rightarrow> owned_action option \<Rightarrow> mcap_row" where
  "tick_row space g ti obs prov left =
     MR_Action \<lparr>pk_actions = trace_of space (pl_mode (gs_plan (ga_shared g))) left, pk_horizon_ns = 0,
       pk_t_emitted_ns = mono (ti_stamp ti), pk_t_obs_ns = (if obs = None then 0 else mono (ti_stamp ti)),
       pk_seq = ga_seq g + 1, pk_source_id = gate_source, pk_provenance = Some (provenance_tag_to_pb prov)\<rparr>"

lemma record_actions_trace:
  "(d = GD_Hold \<longleftrightarrow> act = None) \<Longrightarrow> d \<in> {GD_Hold, GD_Substitute, GD_Blend} \<Longrightarrow>
   record_actions space d act = Some (trace_of space (PM_Claimed prov blend) act)"
  by (cases act) auto

text \<open>The action trace is complete: every gate tick leaves exactly one action row, after the row
  of the observation the caller passed, if any; it carries the tick's time, sequence number and
  provenance, the decoded action that left the gate (or passed through it) when one did, and
  otherwise the marker that says why nothing did.\<close>

theorem every_tick_leaves_one_action_row:
  "let (out, r, g') = gate_scoped ti vals gripper obs part g;
       own = \<lparr>oa_values = vals, oa_velocity_feedforward = None, oa_gripper = gripper, oa_part = part\<rparr>;
       left = (if pl_mode (gs_plan (ga_shared g)) = PM_Passthrough then Some own else dispatched out)
   in gr_action r = left \<and>
      write_record space m r (Some rows) =
        Some (rows @ (case obs of None \<Rightarrow> []
                      | Some q \<Rightarrow> [MR_Observation (mono (ti_stamp ti)) ((proprio_sample_for sole_part m)\<lparr>ps_joint_pos := q\<rparr>)])
              @ [tick_row space g ti obs (gr_provenance r) left])"
proof -
  obtain out r g' where gate: "gate_scoped ti vals gripper obs part g = (out, r, g')" by (metis prod_cases3)
  let ?left = "if pl_mode (gs_plan (ga_shared g)) = PM_Passthrough
      then Some \<lparr>oa_values = vals, oa_velocity_feedforward = None, oa_gripper = gripper, oa_part = part\<rparr>
      else dispatched out"
  have facts: "gr_stamp r = ti_stamp ti \<and> gr_obs r = obs \<and> gr_seq r = ga_seq g + 1 \<and> gr_action r = ?left \<and>
    record_actions space (gr_decision r) (gr_action r) =
      Some (trace_of space (pl_mode (gs_plan (ga_shared g))) (gr_action r))"
  proof (cases "pl_mode (gs_plan (ga_shared g))")
    case (PM_Claimed prov blend)
    with gate have claimed: "gate_claimed ti prov blend obs
        (g\<lparr>ga_shared := (ga_shared g)\<lparr>gs_stats := record_tick (mono (ti_stamp ti)) (gs_stats (ga_shared g))\<rparr>, ga_seq := ga_seq g + 1\<rparr>) =
        (out, r, g')"
      by (simp add: gate_scoped_def Let_def)
    note rec = gate_claimed_record [OF claimed]
    then have "record_actions space (gr_decision r) (gr_action r) = Some (trace_of space (PM_Claimed prov blend) (gr_action r))"
      by (intro record_actions_trace) blast+
    with rec PM_Claimed show ?thesis by simp
  qed (use gate in \<open>auto simp: gate_scoped_def push_record_def Let_def\<close>)
  then have left: "?left = gr_action r" by simp
  from facts show ?thesis
    unfolding gate Let_def prod.case left
    by (cases obs) (simp_all add: write_record_def tick_row_def Let_def)
qed

end
