(* ===== verification/Waddle_Sidecar.thy ===== *)
theory Waddle_Sidecar
  imports Waddle_Event Waddle_Buffers
begin

text \<open>
  The per-episode semantic record (\<^verbatim>\<open>waddle-sidecar/src/builder.rs\<close>): the
  builder that takes the episode's event stream and derives the claim, lease, provenance and
  intervention spans, and the assembly of the finished sidecar; the bounded ring of recent events
  (\<^verbatim>\<open>events.rs\<close>) and the reference checks (\<^verbatim>\<open>reference.rs\<close>),
  with the digest function of the cryptographic library as a parameter.

  The lemmas follow each span table through a whole event stream: the provenance spans tile the
  episode bounds, the claim and lease tables lose nothing, intervention phases tile their span.
\<close>

subsection \<open>Wire records\<close>

record pb_span =
  sp_start :: int
  sp_end :: int

definition span_pb :: "int \<Rightarrow> int \<Rightarrow> pb_span" where
  "span_pb t_start t_end = \<lparr>sp_start = t_start, sp_end = t_end\<rparr>"

record claim_span =
  cs_span :: pb_span
  cs_claim :: pb_claim

record lease_span =
  ls_span :: pb_span
  ls_lease :: pb_lease

record provenance_span =
  vs_span :: pb_span
  vs_tag :: pb_provenance_tag

record phase_span =
  ph_phase :: int
  ph_span :: pb_span

record intervention_span =
  is_span :: pb_span
  is_claim_id :: string
  is_phases :: "phase_span list"

record retake_link =
  rl_parent :: string
  rl_successor :: string

record pb_reset_verification =
  rv_mode :: int
  rv_verified :: bool
  rv_invalidated_async :: bool
  rv_judge_id :: string
  rv_judge_version :: string
  rv_score :: "flt option"
  rv_t_ns :: int

record pb_judgment =
  jd_judge_id :: string
  jd_judge_version :: string
  jd_source :: int
  jd_passed :: "bool option"
  jd_score :: "flt option"
  jd_label :: string
  jd_confidence :: "flt option"
  jd_t_ns :: int
  jd_labeler :: "pb_actor_ref option"
  jd_labeler_was_intervenor :: bool
  jd_extra :: "(string \<times> string) list"

record archive_ref =
  ar_ref_id :: string
  ar_stream_id :: string
  ar_t_start_ns :: int
  ar_t_end_ns :: int
  ar_content_hash :: string
  ar_resolver :: string
  ar_uri_hint :: string
  ar_media_type :: string

record audit_record =
  au_state :: int
  au_random_quota_sample :: bool
  au_audit_labels :: "pb_judgment list"

subsection \<open>Open interventions\<close>

record open_intervention =
  oi_t_start_ns :: int
  oi_claim_id :: string
  oi_phases :: "phase_span list"
  oi_open_phase :: "(int \<times> int) option"

definition close_phase :: "int \<Rightarrow> open_intervention \<Rightarrow> open_intervention" where
  "close_phase t x =
     (case oi_open_phase x of
        None \<Rightarrow> x
      | Some (ph, t_start) \<Rightarrow>
          x\<lparr>oi_phases := oi_phases x @ [\<lparr>ph_phase = ph, ph_span = span_pb t_start t\<rparr>], oi_open_phase := None\<rparr>)"

definition into_span :: "int \<Rightarrow> open_intervention \<Rightarrow> intervention_span" where
  "into_span t x =
     (let x = close_phase t x in
      \<lparr>is_span = span_pb (oi_t_start_ns x) t, is_claim_id = oi_claim_id x, is_phases = oi_phases x\<rparr>)"

subsection \<open>Provenance tags\<close>

definition policy_tag :: pb_provenance_tag where
  "policy_tag = \<lparr>pp_kind = 1, pp_custom_name = [], pp_actor = None, pp_bypass_approval = False\<rparr>"

definition teleop_tag :: pb_provenance_tag where
  "teleop_tag = \<lparr>pp_kind = 2, pp_custom_name = [], pp_actor = None, pp_bypass_approval = False\<rparr>"

definition claim_actor_kind :: "pb_claim \<Rightarrow> actor_kind option" where
  "claim_actor_kind c =
     (case pc_actor c of
        None \<Rightarrow> None
      | Some a \<Rightarrow> (case actor_kind_from_pb (pa_kind a) of Inl e \<Rightarrow> None | Inr k \<Rightarrow> Some k))"

definition claim_tag :: "pb_claim \<Rightarrow> pb_provenance_tag" where
  "claim_tag c =
     (let prov = (case claim_actor_kind c of
                    None \<Rightarrow> Pv_Custom (pc_source_name c)
                  | Some k \<Rightarrow> for_claim k (pc_source_name c));
          tag = provenance_tag_to_pb
                  \<lparr>pt_provenance = prov, pt_actor = None, pt_bypass_approval = pc_self_initiated c\<rparr>
      in tag\<lparr>pp_actor := pc_actor c\<rparr>)"

subsection \<open>The builder\<close>

record sidecar_builder =
  sb_episode_id :: episode_id
  sb_project :: string
  sb_session_id :: session_id
  sb_robot_id :: robot_id
  sb_cell_id :: cell_id
  sb_task :: string
  sb_task_metadata :: "string \<rightharpoonup> string"
  sb_anchor :: clock_anchor
  sb_recording_mode :: int
  sb_bounds_start :: "stamp option"
  sb_bounds_end :: "stamp option"
  sb_outcome :: int
  sb_outcome_detail :: string
  sb_born_claimed :: bool
  sb_retake :: "retake_link option"
  sb_reset_verification :: "pb_reset_verification option"
  sb_reset_unverified :: bool
  sb_post_reset_declared :: bool
  sb_post_reset_failed :: bool
  sb_post_reset_result :: "pb_reset_result option"
  sb_post_reset_start_ns :: "int option"
  sb_post_reset_end_ns :: "int option"
  sb_events :: "episode_event list"
  sb_judgments :: "pb_judgment list"
  sb_refs :: "archive_ref list"
  sb_incident_clips :: "archive_ref list"
  sb_audit :: "audit_record option"
  sb_claims :: "claim_span list"
  sb_open_claims :: "(int \<times> pb_claim) list"
  sb_leases :: "lease_span list"
  sb_open_lease :: "(int \<times> pb_lease) option"
  sb_provenance :: "provenance_span list"
  sb_open_provenance :: "(int \<times> pb_provenance_tag) option"
  sb_interventions :: "intervention_span list"
  sb_open_intervention :: "open_intervention option"

definition sidecar_builder_new ::
  "episode_id \<Rightarrow> string \<Rightarrow> session_id \<Rightarrow> robot_id \<Rightarrow> cell_id \<Rightarrow> string \<Rightarrow> clock_anchor \<Rightarrow> int \<Rightarrow> sidecar_builder" where
  "sidecar_builder_new ep project session robot cell task anchor mode =
     \<lparr>sb_episode_id = ep, sb_project = project, sb_session_id = session, sb_robot_id = robot,
      sb_cell_id = cell, sb_task = task, sb_task_metadata = Map.empty, sb_anchor = anchor,
      sb_recording_mode = mode, sb_bounds_start = None, sb_bounds_end = None, sb_outcome = 0,
      sb_outcome_detail = [], sb_born_claimed = False, sb_retake = None,
      sb_reset_verification = None, sb_reset_unverified = False, sb_post_reset_declared = False,
      sb_post_reset_failed = False, sb_post_reset_result = None, sb_post_reset_start_ns = None,
      sb_post_reset_end_ns = None, sb_events = [], sb_judgments = [], sb_refs = [],
      sb_incident_clips = [], sb_audit = None, sb_claims = [], sb_open_claims = [],
      sb_leases = [], sb_open_lease = None, sb_provenance = [], sb_open_provenance = None,
      sb_interventions = [], sb_open_intervention = None\<rparr>"

text \<open>Collecting into a map keeps the last value of a key.\<close>

definition set_task_metadata :: "(string \<times> string) list \<Rightarrow> sidecar_builder \<Rightarrow> sidecar_builder" where
  "set_task_metadata metadata b = b\<lparr>sb_task_metadata := map_of (rev metadata)\<rparr>"

definition open_bounds :: "stamp \<Rightarrow> sidecar_builder \<Rightarrow> sidecar_builder" where
  "open_bounds s b =
     (let b = b\<lparr>sb_bounds_start := Some s\<rparr> in
      if sb_open_provenance b = None then b\<lparr>sb_open_provenance := Some (mono s, policy_tag)\<rparr> else b)"

text \<open>The span of a table that is still open, closed where it stands.\<close>

definition close_lease :: "int \<Rightarrow> sidecar_builder \<Rightarrow> sidecar_builder" where
  "close_lease t b =
     (case sb_open_lease b of
        None \<Rightarrow> b
      | Some (t_start, l) \<Rightarrow>
          b\<lparr>sb_open_lease := None, sb_leases := sb_leases b @ [\<lparr>ls_span = span_pb t_start t, ls_lease = l\<rparr>]\<rparr>)"

definition close_provenance :: "int \<Rightarrow> sidecar_builder \<Rightarrow> sidecar_builder" where
  "close_provenance t b =
     (case sb_open_provenance b of
        None \<Rightarrow> b
      | Some (t_start, tag) \<Rightarrow>
          b\<lparr>sb_open_provenance := None,
            sb_provenance := sb_provenance b @ [\<lparr>vs_span = span_pb t_start t, vs_tag = tag\<rparr>]\<rparr>)"

definition close_intervention :: "int \<Rightarrow> sidecar_builder \<Rightarrow> sidecar_builder" where
  "close_intervention t b =
     (case sb_open_intervention b of
        None \<Rightarrow> b
      | Some x \<Rightarrow> b\<lparr>sb_open_intervention := None, sb_interventions := sb_interventions b @ [into_span t x]\<rparr>)"

definition close_bounds :: "stamp \<Rightarrow> sidecar_builder \<Rightarrow> sidecar_builder" where
  "close_bounds s b = close_provenance (mono s) (close_lease (mono s) (b\<lparr>sb_bounds_end := Some s\<rparr>))"

subsection \<open>Events\<close>

text \<open>\<^verbatim>\<open>position\<close> and \<^verbatim>\<open>Vec::remove\<close>: the first open claim with
  the id, and the others.\<close>

fun take_claim :: "string \<Rightarrow> (int \<times> pb_claim) list \<Rightarrow> ((int \<times> pb_claim) \<times> (int \<times> pb_claim) list) option" where
  "take_claim i [] = None"
| "take_claim i (c # cs) =
     (if pc_claim_id (snd c) = i then Some (c, cs)
      else map_option (\<lambda>(x, rest). (x, c # rest)) (take_claim i cs))"

fun on_claim :: "int \<Rightarrow> claim_event_kind \<Rightarrow> pb_claim \<Rightarrow> sidecar_builder \<Rightarrow> sidecar_builder" where
  "on_claim t CE_Granted c b = b\<lparr>sb_open_claims := sb_open_claims b @ [(t, c)]\<rparr>"
| "on_claim t CE_Released c b =
     (case take_claim (pc_claim_id c) (sb_open_claims b) of
        None \<Rightarrow> b
      | Some ((t_start, cl), rest) \<Rightarrow>
          b\<lparr>sb_open_claims := rest, sb_claims := sb_claims b @ [\<lparr>cs_span = span_pb t_start t, cs_claim = cl\<rparr>]\<rparr>)"
| "on_claim t k c b = b"

fun lease_closes :: "lease_event_kind \<Rightarrow> bool" where
  "lease_closes LK_Denied = False"
| "lease_closes k = True"

fun lease_opens :: "lease_event_kind \<Rightarrow> bool" where
  "lease_opens LK_Acquired = True"
| "lease_opens LK_HandedOff = True"
| "lease_opens k = False"

definition on_lease :: "int \<Rightarrow> lease_event_kind \<Rightarrow> pb_lease option \<Rightarrow> sidecar_builder \<Rightarrow> sidecar_builder" where
  "on_lease t k l b =
     (let b = (if lease_closes k then close_lease t b else b) in
      case l of
        Some x \<Rightarrow> if lease_opens k then b\<lparr>sb_open_lease := Some (t, x)\<rparr> else b
      | None \<Rightarrow> b)"

definition on_intervention :: "int \<Rightarrow> int \<Rightarrow> string \<Rightarrow> sidecar_builder \<Rightarrow> sidecar_builder" where
  "on_intervention t ph cid b =
     (if ph = phase_pb IP_Engage
      then (close_intervention t b)\<lparr>sb_open_intervention :=
              Some \<lparr>oi_t_start_ns = t, oi_claim_id = cid, oi_phases = [], oi_open_phase = Some (ph, t)\<rparr>\<rparr>
      else (case sb_open_intervention b of
              None \<Rightarrow> b
            | Some x \<Rightarrow> b\<lparr>sb_open_intervention := Some ((close_phase t x)\<lparr>oi_open_phase := Some (ph, t)\<rparr>)\<rparr>))"

definition gate_tag :: "int \<Rightarrow> (int \<times> pb_claim) list \<Rightarrow> pb_provenance_tag option" where
  "gate_tag to open_claims =
     (case gate_mode_from_pb to of
        Inr GM_Passthrough \<Rightarrow> Some policy_tag
      | Inr GM_Intervention \<Rightarrow> Some (if open_claims = [] then teleop_tag else claim_tag (snd (last open_claims)))
      | Inr GM_Bypass \<Rightarrow> Some (if open_claims = [] then teleop_tag else claim_tag (snd (last open_claims)))
      | _ \<Rightarrow> None)"

definition on_gate :: "int \<Rightarrow> int \<Rightarrow> sidecar_builder \<Rightarrow> sidecar_builder" where
  "on_gate t to b =
     (case gate_tag to (sb_open_claims b) of
        None \<Rightarrow> b
      | Some tag \<Rightarrow> (close_provenance t b)\<lparr>sb_open_provenance := Some (t, tag)\<rparr>)"

definition on_state :: "int \<Rightarrow> int \<Rightarrow> int \<Rightarrow> sidecar_builder \<Rightarrow> sidecar_builder" where
  "on_state t frm to b =
     (let leaving = frm = episode_state_kind_to_pb SK_Intervention \<and> to \<noteq> episode_state_kind_to_pb SK_Intervention;
          b = (if leaving then close_intervention t b else b);
          b = (if to = episode_state_kind_to_pb SK_PostReset then b\<lparr>sb_post_reset_start_ns := Some t\<rparr> else b)
      in if to = episode_state_kind_to_pb SK_Terminal \<and> sb_post_reset_start_ns b \<noteq> None
         then b\<lparr>sb_post_reset_end_ns := Some t\<rparr> else b)"

fun on_payload :: "int \<Rightarrow> event_payload \<Rightarrow> sidecar_builder \<Rightarrow> sidecar_builder" where
  "on_payload t (EvClaim k c d) b = on_claim t k c b"
| "on_payload t (EvLease k l d) b = on_lease t k l b"
| "on_payload t (EvIntervention ph cid) b = on_intervention t ph cid b"
| "on_payload t (EvGate frm to r) b = on_gate t to b"
| "on_payload t (EvState frm to r out) b = on_state t frm to b"
| "on_payload t (EvPostReset r out) b = b\<lparr>sb_post_reset_result := Some r\<rparr>"
| "on_payload t p b = b"

definition push_event :: "episode_event \<Rightarrow> sidecar_builder \<Rightarrow> sidecar_builder" where
  "push_event e b =
     (let b = on_payload (ev_t_ns e) (ev_payload e) b in b\<lparr>sb_events := sb_events b @ [e]\<rparr>)"

subsection \<open>Explicit facts\<close>

definition set_outcome :: "terminal_outcome \<Rightarrow> string \<Rightarrow> sidecar_builder \<Rightarrow> sidecar_builder" where
  "set_outcome out detail b = b\<lparr>sb_outcome := terminal_outcome_to_pb out, sb_outcome_detail := detail\<rparr>"

definition set_retake :: "episode_id \<Rightarrow> episode_id \<Rightarrow> sidecar_builder \<Rightarrow> sidecar_builder" where
  "set_retake parent successor b = b\<lparr>sb_retake := Some \<lparr>rl_parent = parent, rl_successor = successor\<rparr>\<rparr>"

definition set_born_claimed :: "bool \<Rightarrow> sidecar_builder \<Rightarrow> sidecar_builder" where
  "set_born_claimed x b = b\<lparr>sb_born_claimed := x\<rparr>"

definition set_reset_verification :: "pb_reset_verification \<Rightarrow> sidecar_builder \<Rightarrow> sidecar_builder" where
  "set_reset_verification v b =
     (let b = (if \<not> rv_verified v \<or> rv_invalidated_async v then b\<lparr>sb_reset_unverified := True\<rparr> else b)
      in b\<lparr>sb_reset_verification := Some v\<rparr>)"

definition mark_reset_unverified :: "sidecar_builder \<Rightarrow> sidecar_builder" where
  "mark_reset_unverified b = b\<lparr>sb_reset_unverified := True\<rparr>"

definition set_post_reset_declared :: "bool \<Rightarrow> sidecar_builder \<Rightarrow> sidecar_builder" where
  "set_post_reset_declared x b = b\<lparr>sb_post_reset_declared := x\<rparr>"

definition mark_post_reset_failed :: "sidecar_builder \<Rightarrow> sidecar_builder" where
  "mark_post_reset_failed b = b\<lparr>sb_post_reset_failed := True\<rparr>"

definition add_judgment :: "pb_judgment \<Rightarrow> sidecar_builder \<Rightarrow> sidecar_builder" where
  "add_judgment j b = b\<lparr>sb_judgments := sb_judgments b @ [j]\<rparr>"

definition add_ref :: "archive_ref \<Rightarrow> sidecar_builder \<Rightarrow> sidecar_builder" where
  "add_ref r b = b\<lparr>sb_refs := sb_refs b @ [r]\<rparr>"

definition add_incident_clip :: "archive_ref \<Rightarrow> sidecar_builder \<Rightarrow> sidecar_builder" where
  "add_incident_clip r b = b\<lparr>sb_incident_clips := sb_incident_clips b @ [r]\<rparr>"

definition set_audit :: "audit_record \<Rightarrow> sidecar_builder \<Rightarrow> sidecar_builder" where
  "set_audit a b = b\<lparr>sb_audit := Some a\<rparr>"

subsection \<open>The finished record\<close>

record sidecar =
  sc_sidecar_version :: u32
  sc_episode_id :: string
  sc_project :: string
  sc_session_id :: string
  sc_robot_id :: string
  sc_cell_id :: string
  sc_task :: string
  sc_task_metadata :: "string \<rightharpoonup> string"
  sc_clock_anchor :: clock_anchor
  sc_bounds :: pb_span
  sc_t_start_unix_ns :: int
  sc_t_end_unix_ns :: int
  sc_outcome :: int
  sc_outcome_detail :: string
  sc_born_claimed :: bool
  sc_retake :: "retake_link option"
  sc_metrics_class :: int
  sc_claims :: "claim_span list"
  sc_leases :: "lease_span list"
  sc_provenance :: "provenance_span list"
  sc_interventions :: "intervention_span list"
  sc_events :: "episode_event list"
  sc_judgments :: "pb_judgment list"
  sc_reset_verification :: "pb_reset_verification option"
  sc_reset_unverified :: bool
  sc_recording_mode :: int
  sc_refs :: "archive_ref list"
  sc_incident_clips :: "archive_ref list"
  sc_audit :: "audit_record option"
  sc_robot_description_digest :: string
  sc_post_reset_declared :: bool
  sc_post_reset_failed :: bool
  sc_post_reset_result :: "pb_reset_result option"
  sc_post_reset_bounds :: "pb_span option"

datatype sidecar_error = SE_Invalid string | SE_Unresolvable string string

text \<open>What is still open is emitted as a span without an end.\<close>

definition close_claims :: "sidecar_builder \<Rightarrow> sidecar_builder" where
  "close_claims b =
     b\<lparr>sb_claims := sb_claims b @ map (\<lambda>(t_start, cl). \<lparr>cs_span = span_pb t_start 0, cs_claim = cl\<rparr>) (sb_open_claims b),
       sb_open_claims := []\<rparr>"

definition builder_finish :: "string \<Rightarrow> sidecar_builder \<Rightarrow> sidecar_error + sidecar" where
  "builder_finish digest b =
     (case sb_bounds_start b of
        None \<Rightarrow> Inl (SE_Invalid ''SidecarBuilder::finish called before open_bounds'')
      | Some start \<Rightarrow>
          let b = close_intervention 0 (close_provenance 0 (close_lease 0 (close_claims b))) in
          Inr \<lparr>sc_sidecar_version = 1, sc_episode_id = sb_episode_id b, sc_project = sb_project b,
               sc_session_id = sb_session_id b, sc_robot_id = sb_robot_id b, sc_cell_id = sb_cell_id b,
               sc_task = sb_task b, sc_task_metadata = sb_task_metadata b, sc_clock_anchor = sb_anchor b,
               sc_bounds = span_pb (mono start) (case sb_bounds_end b of None \<Rightarrow> 0 | Some s \<Rightarrow> mono s),
               sc_t_start_unix_ns = epoch start,
               sc_t_end_unix_ns = (case sb_bounds_end b of None \<Rightarrow> 0 | Some s \<Rightarrow> epoch s),
               sc_outcome = sb_outcome b, sc_outcome_detail = sb_outcome_detail b,
               sc_born_claimed = sb_born_claimed b, sc_retake = sb_retake b,
               sc_metrics_class = (if sb_born_claimed b then 2 else 1), sc_claims = sb_claims b,
               sc_leases = sb_leases b, sc_provenance = sb_provenance b,
               sc_interventions = sb_interventions b, sc_events = sb_events b,
               sc_judgments = sb_judgments b, sc_reset_verification = sb_reset_verification b,
               sc_reset_unverified = sb_reset_unverified b, sc_recording_mode = sb_recording_mode b,
               sc_refs = sb_refs b, sc_incident_clips = sb_incident_clips b, sc_audit = sb_audit b,
               sc_robot_description_digest = digest, sc_post_reset_declared = sb_post_reset_declared b,
               sc_post_reset_failed = sb_post_reset_failed b, sc_post_reset_result = sb_post_reset_result b,
               sc_post_reset_bounds =
                 map_option (\<lambda>t. span_pb t (case sb_post_reset_end_ns b of None \<Rightarrow> 0 | Some u \<Rightarrow> u))
                   (sb_post_reset_start_ns b)\<rparr>)"

subsection \<open>The ring of recent events\<close>

record event_ring =
  rg_capacity :: nat
  rg_items :: "episode_event list"

definition event_ring_new :: "nat \<Rightarrow> event_ring" where
  "event_ring_new capacity = \<lparr>rg_capacity = max capacity 1, rg_items = []\<rparr>"

definition ring_push :: "episode_event \<Rightarrow> event_ring \<Rightarrow> event_ring" where
  "ring_push e r =
     r\<lparr>rg_items := (if length (rg_items r) = rg_capacity r then tl (rg_items r) else rg_items r) @ [e]\<rparr>"

definition ring_drain :: "event_ring \<Rightarrow> episode_event list \<times> event_ring" where
  "ring_drain r = (rg_items r, r\<lparr>rg_items := []\<rparr>)"

interpretation event_window: drop_oldest rg_items rg_capacity ring_push
  "\<lambda>r. 0 < rg_capacity r \<and> length (rg_items r) \<le> rg_capacity r"
  by unfold_locales (auto simp: ring_push_def)

theorem event_ring_keeps_the_newest:
  "fst (ring_drain (fold ring_push es (event_ring_new capacity))) = newest (max capacity 1) es"
  using event_window.items_pushes [of "event_ring_new capacity" es]
  by (simp add: ring_drain_def event_ring_new_def)

subsection \<open>References to bulk data\<close>

definition null_persist :: "int \<times> int \<Rightarrow> string \<Rightarrow> archive_ref" where
  "null_persist rg cause =
     \<lparr>ar_ref_id = ''incident-'' @ cause @ ''-'' @ dec_int (fst rg), ar_stream_id = [],
      ar_t_start_ns = fst rg, ar_t_end_ns = snd rg, ar_content_hash = [],
      ar_resolver = ''none'', ar_uri_hint = [], ar_media_type = []\<rparr>"

record stream_ref_builder =
  sr_stream_id :: string
  sr_resolver :: string
  sr_media_type :: string

definition stream_ref_builder_new :: "string \<Rightarrow> string \<Rightarrow> stream_ref_builder" where
  "stream_ref_builder_new stream resolver =
     \<lparr>sr_stream_id = stream, sr_resolver = resolver, sr_media_type = []\<rparr>"

text \<open>The digest of the cryptographic library, as a list of bytes, is a parameter.\<close>

type_synonym 'p digest = "'p \<Rightarrow> nat list"

definition hex_digit :: "nat \<Rightarrow> char" where
  "hex_digit d = (if d < 10 then char_of (48 + d) else char_of (87 + d))"

definition sha256_hex :: "'p digest \<Rightarrow> 'p \<Rightarrow> string" where
  "sha256_hex digest payload =
     concat (map (\<lambda>b. [hex_digit (b div 16 mod 16), hex_digit (b mod 16)]) (digest payload))"

definition build_ref ::
  "'p digest \<Rightarrow> stream_ref_builder \<Rightarrow> string \<Rightarrow> int \<Rightarrow> int \<Rightarrow> 'p \<Rightarrow> string \<Rightarrow> archive_ref" where
  "build_ref digest sb ref_id t_start t_end payload uri_hint =
     \<lparr>ar_ref_id = ref_id, ar_stream_id = sr_stream_id sb, ar_t_start_ns = t_start, ar_t_end_ns = t_end,
      ar_content_hash = ''sha256:'' @ sha256_hex digest payload, ar_resolver = sr_resolver sb,
      ar_uri_hint = uri_hint, ar_media_type = sr_media_type sb\<rparr>"

definition strip_prefix :: "string \<Rightarrow> string \<Rightarrow> string option" where
  "strip_prefix p s = (if take (length p) s = p then Some (drop (length p) s) else None)"

definition ascii_lowercase :: "char \<Rightarrow> char" where
  "ascii_lowercase c =
     (if 65 \<le> (of_char c :: nat) \<and> (of_char c :: nat) \<le> 90 then char_of ((of_char c :: nat) + 32) else c)"

definition verify_ref :: "'p digest \<Rightarrow> archive_ref \<Rightarrow> 'p \<Rightarrow> sidecar_error + unit" where
  "verify_ref digest r payload =
     (let expected = map ascii_lowercase
            (case strip_prefix ''sha256:'' (ar_content_hash r) of Some h \<Rightarrow> h | None \<Rightarrow> ar_content_hash r);
          actual = sha256_hex digest payload
      in if expected = actual then Inr ()
         else Inl (SE_Unresolvable (ar_ref_id r)
                (''content hash mismatch: record pins '' @ expected @ '', bytes are '' @ actual)))"

lemma hex_digit_lower: "d < 16 \<Longrightarrow> ascii_lowercase (hex_digit d) = hex_digit d"
  by (auto simp: ascii_lowercase_def hex_digit_def)

lemma sha256_hex_lower: "map ascii_lowercase (sha256_hex digest payload) = sha256_hex digest payload"
  by (simp add: sha256_hex_def map_concat comp_def hex_digit_lower)

lemma hex_digit_inject: "a < 16 \<Longrightarrow> b < 16 \<Longrightarrow> hex_digit a = hex_digit b \<longleftrightarrow> a = b"
  by (auto simp: hex_digit_def split: if_splits)

lemma sha256_hex_inject:
  assumes "\<forall>b \<in> set (digest p). b < 256" "\<forall>b \<in> set (digest q). b < 256"
  shows "sha256_hex digest p = sha256_hex digest q \<longleftrightarrow> digest p = digest q"
proof -
  have "concat (map (\<lambda>b. [hex_digit (b div 16 mod 16), hex_digit (b mod 16)]) xs) =
        concat (map (\<lambda>b. [hex_digit (b div 16 mod 16), hex_digit (b mod 16)]) ys) \<longleftrightarrow> xs = ys"
    if "\<forall>b \<in> set xs. b < 256" "\<forall>b \<in> set ys. b < (256::nat)" for xs ys
    using that
  proof (induction xs ys rule: list_induct2')
    case (4 x xs y ys)
    have "x = y" if "x div 16 = y div 16" "x mod 16 = y mod 16"
      using that by (metis div_mult_mod_eq)
    with 4 have "x div 16 mod 16 = y div 16 mod 16 \<and> x mod 16 = y mod 16 \<longleftrightarrow> x = y"
      by (auto simp: less_mult_imp_div_less)
    with 4 show ?case by (auto simp: hex_digit_inject)
  qed auto
  with assms show ?thesis by (simp add: sha256_hex_def)
qed

text \<open>A built reference verifies exactly the payloads with the same digest.\<close>

theorem built_ref_verifies:
  assumes "\<forall>p. \<forall>b \<in> set (digest p). b < 256"
  shows "verify_ref digest (build_ref digest sb i t0 t1 payload uri) payload' = Inr () \<longleftrightarrow>
    digest payload' = digest payload"
  using sha256_hex_inject [of digest payload payload'] assms
  by (auto simp: verify_ref_def build_ref_def strip_prefix_def sha256_hex_lower Let_def)

subsection \<open>Recordings as call sequences\<close>

text \<open>What the runtime may do with a builder between opening and closing the bounds.\<close>

datatype builder_call =
    BC_Event episode_event
  | BC_TaskMetadata "(string \<times> string) list"
  | BC_Outcome terminal_outcome string
  | BC_Retake episode_id episode_id
  | BC_BornClaimed bool
  | BC_ResetVerification pb_reset_verification
  | BC_ResetUnverified
  | BC_PostResetDeclared bool
  | BC_PostResetFailed
  | BC_Judgment pb_judgment
  | BC_Ref archive_ref
  | BC_Clip archive_ref
  | BC_Audit audit_record

fun apply_call :: "builder_call \<Rightarrow> sidecar_builder \<Rightarrow> sidecar_builder" where
  "apply_call (BC_Event e) b = push_event e b"
| "apply_call (BC_TaskMetadata md) b = set_task_metadata md b"
| "apply_call (BC_Outcome out d) b = set_outcome out d b"
| "apply_call (BC_Retake p s) b = set_retake p s b"
| "apply_call (BC_BornClaimed x) b = set_born_claimed x b"
| "apply_call (BC_ResetVerification v) b = set_reset_verification v b"
| "apply_call BC_ResetUnverified b = mark_reset_unverified b"
| "apply_call (BC_PostResetDeclared x) b = set_post_reset_declared x b"
| "apply_call BC_PostResetFailed b = mark_post_reset_failed b"
| "apply_call (BC_Judgment j) b = add_judgment j b"
| "apply_call (BC_Ref r) b = add_ref r b"
| "apply_call (BC_Clip r) b = add_incident_clip r b"
| "apply_call (BC_Audit a) b = set_audit a b"

definition recording :: "stamp \<Rightarrow> builder_call list \<Rightarrow> stamp \<Rightarrow> sidecar_builder \<Rightarrow> sidecar_builder" where
  "recording s0 calls s1 b = close_bounds s1 (fold apply_call calls (open_bounds s0 b))"

lemmas setter_defs = set_task_metadata_def set_outcome_def set_retake_def set_born_claimed_def
  set_reset_verification_def mark_reset_unverified_def set_post_reset_declared_def
  mark_post_reset_failed_def add_judgment_def add_ref_def add_incident_clip_def set_audit_def

lemmas close_defs = close_lease_def close_provenance_def close_intervention_def

subsection \<open>Provenance\<close>

fun tiles :: "int \<Rightarrow> pb_span list \<Rightarrow> int \<Rightarrow> bool" where
  "tiles a [] b = (a = b)"
| "tiles a (s # ss) b = (sp_start s = a \<and> tiles (sp_end s) ss b)"

lemma tiles_snoc [simp]: "tiles a (ss @ [s]) b \<longleftrightarrow> tiles a ss (sp_start s) \<and> sp_end s = b"
  by (induction ss arbitrary: a) auto

lemma span_simps [simp]: "sp_start (span_pb a b) = a" "sp_end (span_pb a b) = b"
  by (simp_all add: span_pb_def)

text \<open>The tables each operation leaves alone.\<close>

lemma close_provenance_frame [simp]:
  "sb_bounds_start (close_provenance t b) = sb_bounds_start b"
  "sb_bounds_end (close_provenance t b) = sb_bounds_end b"
  "sb_claims (close_provenance t b) = sb_claims b" "sb_open_claims (close_provenance t b) = sb_open_claims b"
  "sb_leases (close_provenance t b) = sb_leases b" "sb_open_lease (close_provenance t b) = sb_open_lease b"
  "sb_interventions (close_provenance t b) = sb_interventions b"
  "sb_open_intervention (close_provenance t b) = sb_open_intervention b"
  "sb_events (close_provenance t b) = sb_events b"
  "sb_reset_unverified (close_provenance t b) = sb_reset_unverified b"
  "sb_post_reset_failed (close_provenance t b) = sb_post_reset_failed b"
  by (auto simp: close_defs split: option.splits)

lemma close_lease_frame [simp]:
  "sb_bounds_start (close_lease t b) = sb_bounds_start b"
  "sb_bounds_end (close_lease t b) = sb_bounds_end b"
  "sb_claims (close_lease t b) = sb_claims b" "sb_open_claims (close_lease t b) = sb_open_claims b"
  "sb_provenance (close_lease t b) = sb_provenance b" "sb_open_provenance (close_lease t b) = sb_open_provenance b"
  "sb_interventions (close_lease t b) = sb_interventions b"
  "sb_open_intervention (close_lease t b) = sb_open_intervention b"
  "sb_events (close_lease t b) = sb_events b"
  "sb_reset_unverified (close_lease t b) = sb_reset_unverified b"
  "sb_post_reset_failed (close_lease t b) = sb_post_reset_failed b"
  by (auto simp: close_defs split: option.splits)

lemma close_intervention_frame [simp]:
  "sb_bounds_start (close_intervention t b) = sb_bounds_start b"
  "sb_bounds_end (close_intervention t b) = sb_bounds_end b"
  "sb_claims (close_intervention t b) = sb_claims b" "sb_open_claims (close_intervention t b) = sb_open_claims b"
  "sb_provenance (close_intervention t b) = sb_provenance b"
  "sb_open_provenance (close_intervention t b) = sb_open_provenance b"
  "sb_leases (close_intervention t b) = sb_leases b" "sb_open_lease (close_intervention t b) = sb_open_lease b"
  "sb_events (close_intervention t b) = sb_events b"
  "sb_reset_unverified (close_intervention t b) = sb_reset_unverified b"
  "sb_post_reset_failed (close_intervention t b) = sb_post_reset_failed b"
  by (auto simp: close_defs split: option.splits)

lemma on_claim_frame [simp]:
  "sb_open_provenance (on_claim t k c b) = sb_open_provenance b" "sb_provenance (on_claim t k c b) = sb_provenance b"
  "sb_open_lease (on_claim t k c b) = sb_open_lease b" "sb_leases (on_claim t k c b) = sb_leases b"
  "sb_open_intervention (on_claim t k c b) = sb_open_intervention b"
  "sb_interventions (on_claim t k c b) = sb_interventions b"
  "sb_bounds_start (on_claim t k c b) = sb_bounds_start b" "sb_bounds_end (on_claim t k c b) = sb_bounds_end b"
  "sb_reset_unverified (on_claim t k c b) = sb_reset_unverified b"
  "sb_post_reset_failed (on_claim t k c b) = sb_post_reset_failed b"
  by (cases k; auto split: option.splits)+

lemma on_lease_frame [simp]:
  "sb_open_provenance (on_lease t k l b) = sb_open_provenance b" "sb_provenance (on_lease t k l b) = sb_provenance b"
  "sb_open_claims (on_lease t k l b) = sb_open_claims b" "sb_claims (on_lease t k l b) = sb_claims b"
  "sb_open_intervention (on_lease t k l b) = sb_open_intervention b"
  "sb_interventions (on_lease t k l b) = sb_interventions b"
  "sb_bounds_start (on_lease t k l b) = sb_bounds_start b" "sb_bounds_end (on_lease t k l b) = sb_bounds_end b"
  "sb_reset_unverified (on_lease t k l b) = sb_reset_unverified b"
  "sb_post_reset_failed (on_lease t k l b) = sb_post_reset_failed b"
  by (auto simp: on_lease_def Let_def split: option.splits)

lemma on_intervention_frame [simp]:
  "sb_open_provenance (on_intervention t p c b) = sb_open_provenance b"
  "sb_provenance (on_intervention t p c b) = sb_provenance b"
  "sb_open_claims (on_intervention t p c b) = sb_open_claims b" "sb_claims (on_intervention t p c b) = sb_claims b"
  "sb_open_lease (on_intervention t p c b) = sb_open_lease b" "sb_leases (on_intervention t p c b) = sb_leases b"
  "sb_bounds_start (on_intervention t p c b) = sb_bounds_start b"
  "sb_bounds_end (on_intervention t p c b) = sb_bounds_end b"
  "sb_reset_unverified (on_intervention t p c b) = sb_reset_unverified b"
  "sb_post_reset_failed (on_intervention t p c b) = sb_post_reset_failed b"
  by (auto simp: on_intervention_def split: option.splits)

lemma on_gate_frame [simp]:
  "sb_open_claims (on_gate t to b) = sb_open_claims b" "sb_claims (on_gate t to b) = sb_claims b"
  "sb_open_lease (on_gate t to b) = sb_open_lease b" "sb_leases (on_gate t to b) = sb_leases b"
  "sb_open_intervention (on_gate t to b) = sb_open_intervention b"
  "sb_interventions (on_gate t to b) = sb_interventions b"
  "sb_bounds_start (on_gate t to b) = sb_bounds_start b" "sb_bounds_end (on_gate t to b) = sb_bounds_end b"
  "sb_reset_unverified (on_gate t to b) = sb_reset_unverified b"
  "sb_post_reset_failed (on_gate t to b) = sb_post_reset_failed b"
  by (auto simp: on_gate_def split: option.splits)

lemma on_state_frame [simp]:
  "sb_open_claims (on_state t f to b) = sb_open_claims b" "sb_claims (on_state t f to b) = sb_claims b"
  "sb_open_lease (on_state t f to b) = sb_open_lease b" "sb_leases (on_state t f to b) = sb_leases b"
  "sb_open_provenance (on_state t f to b) = sb_open_provenance b"
  "sb_provenance (on_state t f to b) = sb_provenance b"
  "sb_bounds_start (on_state t f to b) = sb_bounds_start b" "sb_bounds_end (on_state t f to b) = sb_bounds_end b"
  "sb_reset_unverified (on_state t f to b) = sb_reset_unverified b"
  "sb_post_reset_failed (on_state t f to b) = sb_post_reset_failed b"
  by (auto simp: on_state_def Let_def)

lemma apply_call_bounds [simp]:
  "sb_bounds_start (apply_call c b) = sb_bounds_start b" "sb_bounds_end (apply_call c b) = sb_bounds_end b"
proof -
  have "sb_bounds_start (on_payload t p b) = sb_bounds_start b \<and> sb_bounds_end (on_payload t p b) = sb_bounds_end b"
    for t p b by (induction t p b rule: on_payload.induct) simp_all
  then show "sb_bounds_start (apply_call c b) = sb_bounds_start b" "sb_bounds_end (apply_call c b) = sb_bounds_end b"
    by (cases c; simp add: push_event_def setter_defs Let_def)+
qed

lemma apply_calls_bounds [simp]:
  "sb_bounds_start (fold apply_call cs b) = sb_bounds_start b" "sb_bounds_end (fold apply_call cs b) = sb_bounds_end b"
  by (induction cs arbitrary: b) simp_all

text \<open>Who drives, read off the recorded events alone: the claims open after an event, the switches
  of the gate to a driver, the spans between consecutive switches, and the driver at an instant.\<close>

definition open_claims_after :: "episode_event \<Rightarrow> (int \<times> pb_claim) list \<Rightarrow> (int \<times> pb_claim) list" where
  "open_claims_after e cs =
     (case ev_payload e of
        EvClaim k c d \<Rightarrow>
          (case k of
             CE_Granted \<Rightarrow> cs @ [(ev_t_ns e, c)]
           | CE_Released \<Rightarrow>
               takeWhile (\<lambda>x. pc_claim_id (snd x) \<noteq> pc_claim_id c) cs @
               tl (dropWhile (\<lambda>x. pc_claim_id (snd x) \<noteq> pc_claim_id c) cs)
           | _ \<Rightarrow> cs)
      | _ \<Rightarrow> cs)"

definition gate_change :: "episode_event \<Rightarrow> (int \<times> pb_claim) list \<Rightarrow> (int \<times> pb_provenance_tag) option" where
  "gate_change e cs =
     (case ev_payload e of EvGate frm to r \<Rightarrow> map_option (\<lambda>tag. (ev_t_ns e, tag)) (gate_tag to cs) | _ \<Rightarrow> None)"

fun gate_changes :: "builder_call list \<Rightarrow> (int \<times> pb_claim) list \<Rightarrow> (int \<times> pb_provenance_tag) list" where
  "gate_changes [] cs = []"
| "gate_changes (BC_Event e # calls) cs =
     (case gate_change e cs of None \<Rightarrow> [] | Some x \<Rightarrow> [x]) @ gate_changes calls (open_claims_after e cs)"
| "gate_changes (_ # calls) cs = gate_changes calls cs"

fun driven :: "int \<Rightarrow> pb_provenance_tag \<Rightarrow> (int \<times> pb_provenance_tag) list \<Rightarrow> int \<Rightarrow> provenance_span list" where
  "driven a tag [] b = [\<lparr>vs_span = span_pb a b, vs_tag = tag\<rparr>]"
| "driven a tag ((t, tag') # cs) b = \<lparr>vs_span = span_pb a t, vs_tag = tag\<rparr> # driven t tag' cs b"

fun driver_at :: "int \<Rightarrow> pb_provenance_tag \<Rightarrow> (int \<times> pb_provenance_tag) list \<Rightarrow> pb_provenance_tag" where
  "driver_at t tag [] = tag"
| "driver_at t tag ((u, tag') # cs) = (if u \<le> t then driver_at t tag' cs else tag)"

definition covers :: "int \<Rightarrow> provenance_span \<Rightarrow> bool" where
  "covers t p \<longleftrightarrow> sp_start (vs_span p) \<le> t \<and> t < sp_end (vs_span p)"

lemma covers_span [simp]: "covers t \<lparr>vs_span = span_pb a b, vs_tag = tag\<rparr> \<longleftrightarrow> a \<le> t \<and> t < b"
  by (simp add: covers_def span_pb_def)

lemma driven_tiles: "tiles a (map vs_span (driven a tag cs b)) b"
  by (induction a tag cs b rule: driven.induct) (simp_all add: span_pb_def)

lemma driven_ordered:
  "sorted (a # map fst cs @ [b]) \<Longrightarrow> list_all (\<lambda>p. sp_start (vs_span p) \<le> sp_end (vs_span p)) (driven a tag cs b)"
  by (induction a tag cs b rule: driven.induct) (simp_all add: span_pb_def)

lemma driven_later: "sorted (a # map fst cs @ [b]) \<Longrightarrow> t < a \<Longrightarrow> filter (covers t) (driven a tag cs b) = []"
  by (induction a tag cs b rule: driven.induct) auto

lemma driven_driver:
  "sorted (a # map fst cs @ [b]) \<Longrightarrow> a \<le> t \<Longrightarrow> t < b \<Longrightarrow>
   map vs_tag (filter (covers t) (driven a tag cs b)) = [driver_at t tag cs]"
proof (induction a tag cs b rule: driven.induct)
  case (2 a tag u tag' cs b)
  show ?case
  proof (cases "u \<le> t")
    case True
    with 2 show ?thesis by simp
  next
    case False
    with 2 driven_later [of u cs b t tag'] show ?thesis by simp
  qed
qed simp

lemma take_claim_first:
  "map_option snd (take_claim i cs) =
     (if \<forall>x\<in>set cs. pc_claim_id (snd x) \<noteq> i then None
      else Some (takeWhile (\<lambda>x. pc_claim_id (snd x) \<noteq> i) cs @ tl (dropWhile (\<lambda>x. pc_claim_id (snd x) \<noteq> i) cs)))"
proof (induction cs)
  case (Cons c cs)
  then show ?case by (cases "take_claim i cs") (auto split: if_splits)
qed simp

lemma push_event_claims: "sb_open_claims (push_event e b) = open_claims_after e (sb_open_claims b)"
proof (cases "ev_payload e")
  case (EvClaim k c d)
  have released: "sb_open_claims (on_claim t CE_Released c b) =
      takeWhile (\<lambda>x. pc_claim_id (snd x) \<noteq> pc_claim_id c) (sb_open_claims b) @
      tl (dropWhile (\<lambda>x. pc_claim_id (snd x) \<noteq> pc_claim_id c) (sb_open_claims b))" for t
  proof (cases "\<forall>x\<in>set (sb_open_claims b). pc_claim_id (snd x) \<noteq> pc_claim_id c")
    case True
    then have all: "takeWhile (\<lambda>x. pc_claim_id (snd x) \<noteq> pc_claim_id c) (sb_open_claims b) = sb_open_claims b"
      "dropWhile (\<lambda>x. pc_claim_id (snd x) \<noteq> pc_claim_id c) (sb_open_claims b) = []"
      by (simp_all add: takeWhile_eq_all_conv)
    have "take_claim (pc_claim_id c) (sb_open_claims b) = None"
      using True take_claim_first [of "pc_claim_id c" "sb_open_claims b"] by simp
    then show ?thesis by (simp only: on_claim.simps option.case all list.sel append_Nil2)
  next
    case False
    with take_claim_first [of "pc_claim_id c" "sb_open_claims b"] show ?thesis
      by (auto split: option.splits if_splits)
  qed
  from EvClaim show ?thesis
    by (cases k) (simp_all add: push_event_def open_claims_after_def released Let_def del: on_claim.simps(2))
qed (simp_all add: push_event_def open_claims_after_def Let_def)

lemma push_event_prov:
  assumes "sb_open_provenance b = Some (a, tag)"
  shows "(sb_open_provenance (push_event e b), sb_provenance (push_event e b)) =
    (case gate_change e (sb_open_claims b) of
       None \<Rightarrow> (Some (a, tag), sb_provenance b)
     | Some (t, tag') \<Rightarrow> (Some (t, tag'), sb_provenance b @ [\<lparr>vs_span = span_pb a t, vs_tag = tag\<rparr>]))"
  using assms
  by (cases "ev_payload e")
    (simp_all add: push_event_def gate_change_def on_gate_def close_provenance_def Let_def split: option.split)

lemma apply_calls_prov:
  "sb_open_provenance b = Some (a, tag) \<Longrightarrow>
   sb_provenance (close_provenance t1 (fold apply_call calls b)) =
     sb_provenance b @ driven a tag (gate_changes calls (sb_open_claims b)) t1 \<and>
   sb_open_provenance (close_provenance t1 (fold apply_call calls b)) = None"
proof (induction calls arbitrary: a tag b)
  case (Cons c calls)
  have frame: "sb_open_provenance (apply_call c b) = sb_open_provenance b \<and>
      sb_provenance (apply_call c b) = sb_provenance b \<and> sb_open_claims (apply_call c b) = sb_open_claims b"
    if "\<And>e. c \<noteq> BC_Event e"
    using that by (cases c) (auto simp: setter_defs Let_def)
  show ?case
  proof (cases c)
    case (BC_Event e)
    show ?thesis
    proof (cases "gate_change e (sb_open_claims b)")
      case None
      with push_event_prov [OF Cons.prems, of e] Cons.IH [of "push_event e b"] BC_Event show ?thesis
        by (simp add: push_event_claims)
    next
      case (Some x)
      obtain t tag' where "x = (t, tag')" by (cases x)
      with Some push_event_prov [OF Cons.prems, of e] Cons.IH [of "push_event e b"] BC_Event show ?thesis
        by (simp add: push_event_claims)
    qed
  qed (use Cons frame in simp_all)
qed (simp add: close_provenance_def)

subsection \<open>Claims and leases\<close>

fun granted_claims :: "builder_call list \<Rightarrow> pb_claim list" where
  "granted_claims [] = []"
| "granted_claims (BC_Event e # cs) =
     (case ev_payload e of EvClaim CE_Granted c d \<Rightarrow> c # granted_claims cs | _ \<Rightarrow> granted_claims cs)"
| "granted_claims (_ # cs) = granted_claims cs"

fun opened_leases :: "builder_call list \<Rightarrow> pb_lease list" where
  "opened_leases [] = []"
| "opened_leases (BC_Event e # cs) =
     (case ev_payload e of
        EvLease k (Some l) d \<Rightarrow> if lease_opens k then l # opened_leases cs else opened_leases cs
      | _ \<Rightarrow> opened_leases cs)"
| "opened_leases (_ # cs) = opened_leases cs"

definition claims_held :: "sidecar_builder \<Rightarrow> pb_claim multiset" where
  "claims_held b = mset (map cs_claim (sb_claims b)) + mset (map snd (sb_open_claims b))"

definition leases_held :: "sidecar_builder \<Rightarrow> pb_lease list" where
  "leases_held b = map ls_lease (sb_leases b) @ (case sb_open_lease b of None \<Rightarrow> [] | Some (t, l) \<Rightarrow> [l])"

lemma take_claim_mset: "take_claim i cs = Some (c, rest) \<Longrightarrow> mset cs = add_mset c (mset rest)"
  by (induction cs arbitrary: c rest) (auto split: if_splits)

lemma on_claim_held: "claims_held (on_claim t k c b) = claims_held b + (if k = CE_Granted then {#c#} else {#})"
  by (cases k) (auto simp: claims_held_def take_claim_mset split: option.splits dest!: take_claim_mset)

lemma close_lease_held [simp]: "leases_held (close_lease t b) = leases_held b"
  by (auto simp: leases_held_def close_lease_def split: option.splits)

lemma close_lease_none [simp]: "sb_open_lease (close_lease t b) = None"
  by (auto simp: close_lease_def split: option.splits)

lemma lease_opens_closes: "lease_opens k \<Longrightarrow> lease_closes k"
  by (cases k) auto

lemma on_lease_held:
  "leases_held (on_lease t k l b) =
     leases_held b @ (case l of Some x \<Rightarrow> if lease_opens k then [x] else [] | None \<Rightarrow> [])"
proof -
  have "leases_held (b'\<lparr>sb_open_lease := Some (t, x)\<rparr>) = leases_held b' @ [x]" if "sb_open_lease b' = None" for b' x
    using that by (simp add: leases_held_def)
  then show ?thesis
    by (auto simp: on_lease_def Let_def lease_opens_closes split: option.splits)
qed

lemma on_payload_held:
  "claims_held (on_payload t p b) =
     claims_held b + (case p of EvClaim CE_Granted c d \<Rightarrow> {#c#} | _ \<Rightarrow> {#})"
  "leases_held (on_payload t p b) =
     leases_held b @ (case p of EvLease k (Some l) d \<Rightarrow> if lease_opens k then [l] else [] | _ \<Rightarrow> [])"
proof -
  show "claims_held (on_payload t p b) =
     claims_held b + (case p of EvClaim CE_Granted c d \<Rightarrow> {#c#} | _ \<Rightarrow> {#})"
  proof (cases p)
    case (EvClaim k c d)
    then show ?thesis by (cases k) (simp_all add: on_claim_held del: on_claim.simps)
  qed (simp_all add: claims_held_def)
  show "leases_held (on_payload t p b) =
     leases_held b @ (case p of EvLease k (Some l) d \<Rightarrow> if lease_opens k then [l] else [] | _ \<Rightarrow> [])"
  proof (cases p)
    case (EvLease k l d)
    then show ?thesis by (simp add: on_lease_held split: option.splits)
  qed (simp_all add: leases_held_def)
qed

lemma push_event_held:
  "claims_held (push_event e b) = claims_held (on_payload (ev_t_ns e) (ev_payload e) b)"
  "leases_held (push_event e b) = leases_held (on_payload (ev_t_ns e) (ev_payload e) b)"
  by (simp_all add: push_event_def Let_def claims_held_def leases_held_def)

lemma apply_calls_held:
  "claims_held (fold apply_call cs b) = claims_held b + mset (granted_claims cs)"
  "leases_held (fold apply_call cs b) = leases_held b @ opened_leases cs"
proof -
  have frame: "claims_held (apply_call c b) = claims_held b \<and> leases_held (apply_call c b) = leases_held b"
    if "\<And>e. c \<noteq> BC_Event e" for c b
    using that by (cases c) (auto simp: setter_defs Let_def claims_held_def leases_held_def)
  show "claims_held (fold apply_call cs b) = claims_held b + mset (granted_claims cs)"
  proof (induction cs arbitrary: b)
    case (Cons c cs)
    show ?case
    proof (cases c)
      case (BC_Event e)
      then show ?thesis
        by (simp add: Cons push_event_held on_payload_held split: event_payload.split claim_event_kind.split)
    qed (use Cons frame [of c b] in simp_all)
  qed simp
  show "leases_held (fold apply_call cs b) = leases_held b @ opened_leases cs"
  proof (induction cs arbitrary: b)
    case (Cons c cs)
    show ?case
    proof (cases c)
      case (BC_Event e)
      then show ?thesis
        by (simp add: Cons push_event_held on_payload_held split: event_payload.split option.split)
    qed (use Cons frame [of c b] in simp_all)
  qed simp
qed

subsection \<open>Interventions\<close>

definition phases_tile :: "intervention_span \<Rightarrow> bool" where
  "phases_tile x \<longleftrightarrow> is_phases x \<noteq> [] \<and> tiles (sp_start (is_span x)) (map ph_span (is_phases x)) (sp_end (is_span x))"

fun open_tiles :: "open_intervention option \<Rightarrow> bool" where
  "open_tiles None = True"
| "open_tiles (Some x) =
     (case oi_open_phase x of None \<Rightarrow> False
      | Some (p, t) \<Rightarrow> tiles (oi_t_start_ns x) (map ph_span (oi_phases x)) t)"

definition interventions_tile :: "sidecar_builder \<Rightarrow> bool" where
  "interventions_tile b \<longleftrightarrow> list_all phases_tile (sb_interventions b) \<and> open_tiles (sb_open_intervention b)"

lemma into_span_tiles: "open_tiles (Some x) \<Longrightarrow> phases_tile (into_span t x)"
  by (auto simp: into_span_def close_phase_def phases_tile_def split: option.splits)

lemma close_intervention_tiles:
  "interventions_tile b \<Longrightarrow> interventions_tile (close_intervention t b)"
  by (auto simp: interventions_tile_def close_intervention_def into_span_tiles simp del: open_tiles.simps(2)
      split: option.splits)

lemma on_intervention_tiles: "interventions_tile b \<Longrightarrow> interventions_tile (on_intervention t p c b)"
proof -
  assume inv: "interventions_tile b"
  from close_intervention_tiles [OF inv, of t] inv show ?thesis
    by (auto simp: on_intervention_def interventions_tile_def close_phase_def split: option.splits)
qed

lemma interventions_tile_cong:
  "sb_interventions b' = sb_interventions b \<Longrightarrow> sb_open_intervention b' = sb_open_intervention b \<Longrightarrow>
   interventions_tile b' = interventions_tile b"
  by (simp add: interventions_tile_def)

lemma on_state_tiles: "interventions_tile b \<Longrightarrow> interventions_tile (on_state t f to b)"
  using close_intervention_tiles [of b t]
  by (auto simp: on_state_def Let_def interventions_tile_def)

lemma on_payload_tiles: "interventions_tile b \<Longrightarrow> interventions_tile (on_payload t p b)"
proof (induction t p b rule: on_payload.induct)
  case (3 t ph cid b)
  then show ?case by (simp add: on_intervention_tiles)
next
  case (5 t frm to r out b)
  then show ?case by (simp add: on_state_tiles)
qed (simp_all add: interventions_tile_def)

lemma apply_calls_tiles: "interventions_tile b \<Longrightarrow> interventions_tile (fold apply_call cs b)"
proof (induction cs arbitrary: b)
  case (Cons c cs)
  have "interventions_tile (apply_call c b)"
  proof (cases c)
    case (BC_Event e)
    from on_payload_tiles [OF Cons.prems, of "ev_t_ns e" "ev_payload e"] show ?thesis
      unfolding BC_Event by (simp add: push_event_def Let_def interventions_tile_def)
  qed (use Cons.prems in \<open>auto simp: setter_defs Let_def interventions_tile_def\<close>)
  with Cons.IH show ?case by simp
qed simp

subsection \<open>The finished record of a recording\<close>

definition finished_tables :: "sidecar_builder \<Rightarrow> sidecar_builder" where
  "finished_tables b = close_intervention 0 (close_provenance 0 (close_lease 0 (close_claims b)))"

lemma builder_finish_tables:
  "sb_bounds_start b = Some s0 \<Longrightarrow> builder_finish digest b = Inr sc \<Longrightarrow>
   sc_claims sc = sb_claims (finished_tables b) \<and> sc_leases sc = sb_leases (finished_tables b) \<and>
   sc_provenance sc = sb_provenance (finished_tables b) \<and>
   sc_interventions sc = sb_interventions (finished_tables b) \<and>
   sc_bounds sc = span_pb (mono s0) (case sb_bounds_end (finished_tables b) of None \<Rightarrow> 0 | Some s \<Rightarrow> mono s)"
  by (auto simp: builder_finish_def finished_tables_def Let_def)

lemma close_claims_frame [simp]:
  "sb_bounds_start (close_claims b) = sb_bounds_start b" "sb_bounds_end (close_claims b) = sb_bounds_end b"
  "sb_leases (close_claims b) = sb_leases b" "sb_open_lease (close_claims b) = sb_open_lease b"
  "sb_provenance (close_claims b) = sb_provenance b" "sb_open_provenance (close_claims b) = sb_open_provenance b"
  "sb_interventions (close_claims b) = sb_interventions b"
  "sb_open_intervention (close_claims b) = sb_open_intervention b"
  by (simp_all add: close_claims_def)

lemma finished_claims: "mset (map cs_claim (sb_claims (finished_tables b))) = claims_held b"
  by (simp add: finished_tables_def close_claims_def claims_held_def comp_def case_prod_unfold)

lemma finished_leases: "map ls_lease (sb_leases (finished_tables b)) = leases_held b"
  by (auto simp: finished_tables_def leases_held_def close_lease_def split: option.splits)

lemma finished_interventions:
  "interventions_tile b \<Longrightarrow> list_all phases_tile (sb_interventions (finished_tables b))"
  by (auto simp: finished_tables_def interventions_tile_def close_intervention_def into_span_tiles
      simp del: open_tiles.simps(2) split: option.splits)

lemma close_provenance_none: "sb_open_provenance b = None \<Longrightarrow> close_provenance t b = b"
  by (simp add: close_provenance_def)

lemma finished_provenance:
  "sb_open_provenance b = None \<Longrightarrow> sb_provenance (finished_tables b) = sb_provenance b"
  by (simp add: finished_tables_def close_provenance_none)

lemma recording_prov:
  assumes "sb_open_provenance b = None" "sb_provenance b = []"
  shows "sb_provenance (recording s0 calls s1 b) =
      driven (mono s0) policy_tag (gate_changes calls (sb_open_claims b)) (mono s1) \<and>
    sb_open_provenance (recording s0 calls s1 b) = None"
proof -
  have "sb_open_provenance (open_bounds s0 b) = Some (mono s0, policy_tag)" "sb_provenance (open_bounds s0 b) = []"
    "sb_open_claims (open_bounds s0 b) = sb_open_claims b"
    using assms by (simp_all add: open_bounds_def Let_def)
  from apply_calls_prov [OF this(1), of "mono s1" calls] this(2,3) show ?thesis
    by (auto simp: recording_def close_bounds_def close_provenance_def close_lease_def split: option.splits)
qed

lemma close_bounds_held:
  "claims_held (close_bounds s b) = claims_held b" "leases_held (close_bounds s b) = leases_held b"
  "interventions_tile (close_bounds s b) = interventions_tile b"
  "sb_bounds_start (close_bounds s b) = sb_bounds_start b" "sb_bounds_end (close_bounds s b) = Some s"
proof -
  show "claims_held (close_bounds s b) = claims_held b"
    by (simp add: close_bounds_def claims_held_def)
  have "leases_held (close_provenance t b') = leases_held b'" for t b'
    by (simp add: leases_held_def)
  moreover have "leases_held (b\<lparr>sb_bounds_end := Some s\<rparr>) = leases_held b" by (simp add: leases_held_def)
  ultimately show "leases_held (close_bounds s b) = leases_held b" by (simp add: close_bounds_def)
  show "interventions_tile (close_bounds s b) = interventions_tile b"
    by (simp add: close_bounds_def interventions_tile_def)
qed (simp_all add: close_bounds_def)

lemma open_bounds_frame [simp]:
  "sb_bounds_start (open_bounds s b) = Some s" "sb_claims (open_bounds s b) = sb_claims b"
  "sb_open_claims (open_bounds s b) = sb_open_claims b" "sb_leases (open_bounds s b) = sb_leases b"
  "sb_open_lease (open_bounds s b) = sb_open_lease b" "sb_interventions (open_bounds s b) = sb_interventions b"
  "sb_open_intervention (open_bounds s b) = sb_open_intervention b"
  by (simp_all add: open_bounds_def Let_def)

text \<open>C27. The sidecar's provenance spans are exactly the driving periods: whatever is recorded
  between opening and closing the bounds, the finished record exists and its spans are the periods
  between consecutive switches of the gate in the recorded events, the first the policy's from the
  start of the bounds, each following one tagged by the switch that starts it (the policy for
  PASSTHROUGH; for INTERVENTION and BYPASS the latest open claim's tag, a teleoperator's without
  one; RESET switches no driver), the last ending with the bounds. When the switches are in time order within the bounds, every span starts no later than
  it ends and every instant of the episode lies in exactly one span, tagged with the driver set by
  the last switch up to that instant.\<close>

theorem provenance_spans_tile_the_bounds:
  "\<exists>sc. builder_finish digest
      (recording s0 calls s1 (sidecar_builder_new ep project session robot cell task anchor mode)) = Inr sc \<and>
    sc_bounds sc = span_pb (mono s0) (mono s1) \<and>
    sc_provenance sc = driven (mono s0) policy_tag (gate_changes calls []) (mono s1) \<and>
    tiles (sp_start (sc_bounds sc)) (map vs_span (sc_provenance sc)) (sp_end (sc_bounds sc)) \<and>
    vs_tag (hd (sc_provenance sc)) = policy_tag \<and>
    (sorted (mono s0 # map fst (gate_changes calls []) @ [mono s1]) \<longrightarrow>
       list_all (\<lambda>p. sp_start (vs_span p) \<le> sp_end (vs_span p)) (sc_provenance sc) \<and>
       (\<forall>t. mono s0 \<le> t \<and> t < mono s1 \<longrightarrow>
          map vs_tag (filter (covers t) (sc_provenance sc)) = [driver_at t policy_tag (gate_changes calls [])]))"
proof -
  let ?new = "sidecar_builder_new ep project session robot cell task anchor mode"
  let ?b = "recording s0 calls s1 ?new"
  let ?cs = "gate_changes calls []"
  have prov: "sb_provenance ?b = driven (mono s0) policy_tag ?cs (mono s1)" "sb_open_provenance ?b = None"
    using recording_prov [of ?new s0 calls s1] by (simp_all add: sidecar_builder_new_def)
  have start: "sb_bounds_start ?b = Some s0" and fin: "sb_bounds_end ?b = Some s1"
    by (simp_all add: recording_def close_bounds_held)
  then obtain sc where sc: "builder_finish digest ?b = Inr sc" by (simp add: builder_finish_def Let_def)
  have "sb_bounds_end (finished_tables ?b) = Some s1"
    using fin by (simp add: finished_tables_def)
  with builder_finish_tables [OF start sc] finished_provenance [OF prov(2)] prov(1)
  have spans: "sc_provenance sc = driven (mono s0) policy_tag ?cs (mono s1)"
    "sc_bounds sc = span_pb (mono s0) (mono s1)" by simp_all
  moreover have "vs_tag (hd (driven (mono s0) policy_tag ?cs (mono s1))) = policy_tag"
    by (cases ?cs) auto
  ultimately show ?thesis
    using sc driven_tiles [of "mono s0" policy_tag ?cs "mono s1"] driven_ordered [of "mono s0" ?cs "mono s1" policy_tag]
      driven_driver [of "mono s0" ?cs "mono s1" _ policy_tag]
    by (intro exI [of _ sc]) (simp add: span_pb_def)
qed

text \<open>The sidecar's span tables lose nothing: the claims of the claim spans are exactly the
  claims granted during the recording, the leases of the lease spans are the leases acquired or
  handed off, in order, and the phases of every intervention tile its span.\<close>

theorem span_tables_lose_nothing:
  assumes "builder_finish digest
      (recording s0 calls s1 (sidecar_builder_new ep project session robot cell task anchor mode)) = Inr sc"
  shows "mset (map cs_claim (sc_claims sc)) = mset (granted_claims calls) \<and>
    map ls_lease (sc_leases sc) = opened_leases calls \<and>
    (\<forall>x \<in> set (sc_interventions sc). is_phases x \<noteq> [] \<and>
       tiles (sp_start (is_span x)) (map ph_span (is_phases x)) (sp_end (is_span x)))"
proof -
  let ?new = "sidecar_builder_new ep project session robot cell task anchor mode"
  let ?b = "recording s0 calls s1 ?new"
  have start: "sb_bounds_start ?b = Some s0" by (simp add: recording_def close_bounds_held)
  note tables = builder_finish_tables [OF start assms]
  have "claims_held ?b = mset (granted_claims calls)" "leases_held ?b = opened_leases calls"
    by (simp_all add: recording_def close_bounds_held apply_calls_held)
      (simp_all add: claims_held_def leases_held_def sidecar_builder_new_def)
  moreover have "interventions_tile ?b"
    unfolding recording_def close_bounds_held
    by (rule apply_calls_tiles) (simp add: interventions_tile_def sidecar_builder_new_def)
  ultimately show ?thesis
    using tables finished_claims [of ?b] finished_leases [of ?b] finished_interventions [of ?b]
    by (simp add: list_all_iff phases_tile_def)
qed

definition demo_builder :: sidecar_builder where
  "demo_builder = sidecar_builder_new ''e1'' ''p'' ''s'' ''r'' ''c'' ''task'' \<lparr>monotonic_ns = 0, unix_ns = 0\<rparr> 1"

definition demo_claim_record :: active_claim where
  "demo_claim_record =
     \<lparr>cl_id = ''c1'', cl_source = ''teleop'', cl_actor = of_kind AK_Agent, cl_self_initiated = False\<rparr>"

definition demo_calls :: "builder_call list" where
  "demo_calls = map BC_Event
     [claim_event 10 ''e1'' CE_Granted demo_claim_record [],
      intervention_event 11 ''e1'' IP_Engage ''c1'',
      gate_mode_change 12 ''e1'' GM_Passthrough GM_Intervention [],
      intervention_event 13 ''e1'' IP_Settle ''c1'']"

lemmas demo_recording = recording_def demo_calls_def demo_builder_def sidecar_builder_new_def
  open_bounds_def push_event_def claim_event_def intervention_event_def gate_mode_change_def
  base_event_def on_intervention_def on_gate_def gate_tag_def close_defs close_bounds_def
  close_phase_def into_span_def builder_finish_def close_claims_def gate_mode_from_pb_def Let_def

theorem provenance_spans_tile_the_bounds_witness:
  "\<exists>sc. builder_finish [] (recording \<lparr>mono = 5, epoch = 5\<rparr> demo_calls \<lparr>mono = 20, epoch = 20\<rparr> demo_builder) = Inr sc \<and>
     map vs_span (sc_provenance sc) = [span_pb 5 12, span_pb 12 20] \<and>
     map vs_tag (filter (covers 15) (sc_provenance sc)) = [provenance_tag_to_pb (claim_provenance_tag demo_claim_record)]"
proof -
  have changes: "gate_changes demo_calls [] = [(12, provenance_tag_to_pb (claim_provenance_tag demo_claim_record))]"
    by code_simp
  show ?thesis
    using provenance_spans_tile_the_bounds [of "[]" "\<lparr>mono = 5, epoch = 5\<rparr>" demo_calls "\<lparr>mono = 20, epoch = 20\<rparr>"
        "''e1''" "''p''" "''s''" "''r''" "''c''" "''task''" "\<lparr>monotonic_ns = 0, unix_ns = 0\<rparr>" 1]
    unfolding changes demo_builder_def by auto
qed

theorem span_tables_lose_nothing_witness:
  "\<exists>sc. builder_finish [] (recording \<lparr>mono = 5, epoch = 5\<rparr> demo_calls \<lparr>mono = 20, epoch = 20\<rparr> demo_builder) = Inr sc \<and>
     length (sc_claims sc) = 1 \<and> length (sc_interventions sc) = 1"
proof -
  obtain sc where sc: "builder_finish [] (recording \<lparr>mono = 5, epoch = 5\<rparr> demo_calls \<lparr>mono = 20, epoch = 20\<rparr> demo_builder) = Inr sc"
    and one: "length (sc_interventions sc) = 1"
    by (simp add: demo_recording)
  from span_tables_lose_nothing [OF sc [unfolded demo_builder_def]]
  have "mset (map cs_claim (sc_claims sc)) = mset (granted_claims demo_calls)" by blast
  then have "length (sc_claims sc) = length (granted_claims demo_calls)"
    by (metis length_map mset_eq_length)
  with sc one show ?thesis by (simp add: demo_calls_def claim_event_def intervention_event_def gate_mode_change_def base_event_def)
qed

text \<open>The spans and the per-action tags name the same driver: while a claim is open on the
  builder's timeline, a switch of the gate to INTERVENTION or BYPASS opens a span whose tag is
  the wire form of the provenance tag the gate plan stamps on every action of that claim.\<close>

theorem claimed_spans_carry_the_gate_tag:
  assumes "sb_open_claims b \<noteq> []" "snd (last (sb_open_claims b)) =
      \<lparr>pc_claim_id = cl_id cl, pc_episode_id = ep, pc_actor = Some (actor_ref_to_pb (cl_actor cl)),
       pc_source_name = cl_source cl, pc_self_initiated = cl_self_initiated cl\<rparr>"
    and "m = GM_Intervention \<or> m = GM_Bypass"
  shows "sb_open_provenance (push_event (gate_mode_change t ep frm m reason) b) =
    Some (t, provenance_tag_to_pb (claim_provenance_tag cl))"
proof -
  have tag: "gate_tag (gate_mode_to_pb m) (sb_open_claims b) = Some (provenance_tag_to_pb (claim_provenance_tag cl))"
    using assms
    by (auto simp: gate_tag_def pb_simps claim_tag_def claim_actor_kind_def actor_ref_to_pb_def
        claim_provenance_tag_def provenance_tag_to_pb_def Let_def split: provenance.split)
  show ?thesis
    by (simp add: push_event_def gate_mode_change_def base_event_def on_gate_def tag Let_def)
qed

theorem claimed_spans_carry_the_gate_tag_witness:
  "sb_open_provenance (push_event (gate_mode_change 12 ''e1'' GM_Passthrough GM_Intervention [])
      (push_event (claim_event 10 ''e1'' CE_Granted demo_claim_record []) demo_builder)) =
    Some (12, provenance_tag_to_pb (claim_provenance_tag demo_claim_record))"
  by (rule claimed_spans_carry_the_gate_tag)
    (simp_all add: push_event_def claim_event_def base_event_def demo_builder_def sidecar_builder_new_def Let_def)

subsection \<open>Permanent marks and errors\<close>

lemma apply_call_marks:
  "sb_reset_unverified b \<Longrightarrow> sb_reset_unverified (apply_call c b)"
  "sb_post_reset_failed b \<Longrightarrow> sb_post_reset_failed (apply_call c b)"
proof -
  have "sb_reset_unverified (on_payload t p b) = sb_reset_unverified b \<and>
    sb_post_reset_failed (on_payload t p b) = sb_post_reset_failed b" for t p b
    by (induction t p b rule: on_payload.induct) simp_all
  then show "sb_reset_unverified b \<Longrightarrow> sb_reset_unverified (apply_call c b)"
    "sb_post_reset_failed b \<Longrightarrow> sb_post_reset_failed (apply_call c b)"
    by (cases c; simp add: push_event_def setter_defs Let_def)+
qed

theorem sidecar_marks_are_permanent:
  "sb_reset_unverified b \<Longrightarrow> sb_reset_unverified (fold apply_call cs b)"
  "sb_post_reset_failed b \<Longrightarrow> sb_post_reset_failed (fold apply_call cs b)"
  by (induction cs arbitrary: b) (simp_all add: apply_call_marks)

theorem finish_needs_bounds:
  "builder_finish digest b = Inl e \<longleftrightarrow>
     sb_bounds_start b = None \<and> e = SE_Invalid ''SidecarBuilder::finish called before open_bounds''"
  by (auto simp: builder_finish_def Let_def split: option.splits)

end
