(* ===== verification/Waddle_Reducer.thy ===== *)
theory Waddle_Reducer
  imports Waddle_Recording Waddle_Sidecar Waddle_Scenario
begin

text \<open>
  The reducer of \<^verbatim>\<open>waddle-runtime/src/reducer.rs\<close> and the directive
  acknowledgements of \<^verbatim>\<open>ack.rs\<close>: the one thread that steps the session
  machine, fires its timers and interprets its effects on the gate, the verb dispatcher, the
  sidecar builder, the episode recording, the status mirror and the plane.

  The environment is a record of oracles indexed by a counter the state carries: the clock, the
  minted lease ids, and whether a file could be created or written. The queues other threads
  fill (gate records, dispatches, reports) and the channel of injected events are fields; what
  the reducer hands out (verb requests, plane messages, files) is appended to lists. A panic of
  the session machine is \<open>None\<close>.
\<close>

subsection \<open>Directive acknowledgements\<close>

record ack_group =
  ag_directive_id :: string
  ag_remaining :: u32
  ag_rejection :: "string option"

record finished_ack =
  fa_directive_id :: string
  fa_accepted :: bool
  fa_reason :: string

definition ack_group_new :: "string \<Rightarrow> u32 \<Rightarrow> ack_group" where
  "ack_group_new directive events = \<lparr>ag_directive_id = directive, ag_remaining = events, ag_rejection = None\<rparr>"

definition ack_record :: "string + unit \<Rightarrow> ack_group \<Rightarrow> finished_ack option \<times> ack_group" where
  "ack_record outcome g =
     (if ag_remaining g = 0 then (None, g)
      else
        (let g = (case outcome of
                    Inl reason \<Rightarrow> if ag_rejection g = None then g\<lparr>ag_rejection := Some reason\<rparr> else g
                  | Inr _ \<Rightarrow> g);
             g = g\<lparr>ag_remaining := ag_remaining g - 1\<rparr>
         in if ag_remaining g = 0
            then (Some \<lparr>fa_directive_id = ag_directive_id g, fa_accepted = ag_rejection g = None,
                        fa_reason = (case ag_rejection g of None \<Rightarrow> [] | Some x \<Rightarrow> x)\<rparr>,
                  g\<lparr>ag_rejection := None\<rparr>)
            else (None, g)))"

text \<open>A group is shared by the events of its directive: an event names it by its slot.\<close>

record injected =
  in_event :: session_event
  in_ack :: "nat option"

definition injected_from :: "session_event \<Rightarrow> injected" where
  "injected_from ev = \<lparr>in_event = ev, in_ack = None\<rparr>"

subsection \<open>State\<close>

datatype reset_spec = RS_Hook | RS_Remote actor_kind string int

definition reset_spec_window :: "reset_spec \<Rightarrow> window_spec option" where
  "reset_spec_window s =
     (case s of
        RS_Hook \<Rightarrow> None
      | RS_Remote act prompt timeout \<Rightarrow> Some \<lparr>ws_expected = act, ws_prompt = prompt, ws_timeout_ns = timeout\<rparr>)"

record reducer_config =
  rc_session :: session_config
  rc_has_plane :: bool
  rc_recording :: bool
  rc_project :: string
  rc_digest :: string
  rc_space :: action_space
  rc_post_reset :: "reset_spec option"
  rc_anchor :: clock_anchor

record world =
  w_clock :: "nat \<Rightarrow> stamp"
  w_mint :: "nat \<Rightarrow> lease_id"
  w_io :: "nat \<Rightarrow> bool"

text \<open>The part of the status mirror the reducer writes or reads.\<close>

record status =
  su_episode_id :: "episode_id option"
  su_episode_state :: "phase option"
  su_gate_mode :: "gate_mode option"
  su_claim_active :: bool
  su_active_claim_id :: "claim_id option"
  su_claim_generation :: u64
  su_provenance :: "provenance_tag option"
  su_outcome :: "terminal_outcome option"
  su_pinned_outcome :: "terminal_outcome option"
  su_post_reset_failed :: bool
  su_agent_invited :: bool
  su_agent_engaged :: bool
  su_agent_invite_aborted :: bool
  su_plane_connected :: bool
  su_parts_negotiated :: bool
  su_shutdown :: bool

datatype plane_msg =
    PL_Event episode_event
  | PL_Ack finished_ack
  | PL_Observation int proprio_sample

record task_context =
  tc_task :: string
  tc_metadata :: "(string \<times> string) list"

record reducer =
  re_fsm :: session_fsm
  re_gate :: gate_shared
  re_armed :: "(timer_id \<times> mono_ns) list"
  re_seen :: observed
  re_claim_window :: "claim_id option"
  re_claim_generation :: u64
  re_sidecar :: "sidecar_builder option"
  re_status :: status
  re_acks :: "ack_group list"
  re_task :: task_context
  re_record_slot :: "gate_record list option"
  re_ring :: "gate_record list"
  re_dispatched :: "dispatched_action list"
  re_reports :: "stamped_proprio_report list"
  re_sent :: "injected list"
  re_verbs :: "verb list"
  re_plane :: "plane_msg list"
  re_sidecars :: "sidecar list"
  re_manifest :: "sidecar list"
  re_files :: "mcap_row list list"
  re_tick :: nat

definition read_clock :: "world \<Rightarrow> reducer \<Rightarrow> stamp \<times> reducer" where
  "read_clock w r = (w_clock w (re_tick r), r\<lparr>re_tick := Suc (re_tick r)\<rparr>)"

definition try_io :: "world \<Rightarrow> reducer \<Rightarrow> bool \<times> reducer" where
  "try_io w r = (w_io w (re_tick r), r\<lparr>re_tick := Suc (re_tick r)\<rparr>)"

definition mint_lease :: "world \<Rightarrow> reducer \<Rightarrow> lease_id \<times> reducer" where
  "mint_lease w r = (w_mint w (re_tick r), r\<lparr>re_tick := Suc (re_tick r)\<rparr>)"

definition plane_send :: "reducer_config \<Rightarrow> plane_msg \<Rightarrow> reducer \<Rightarrow> reducer" where
  "plane_send rc m r = (if rc_has_plane rc then r\<lparr>re_plane := re_plane r @ [m]\<rparr> else r)"

definition self_send :: "session_event \<Rightarrow> reducer \<Rightarrow> reducer" where
  "self_send ev r = r\<lparr>re_sent := re_sent r @ [injected_from ev]\<rparr>"

subsection \<open>Draining\<close>

text \<open>A fresh ring in the slot discards what the old one still holds.\<close>

definition drain_gate_records :: "reducer_config \<Rightarrow> reducer \<Rightarrow> reducer" where
  "drain_gate_records rc r =
     (let r = (case re_record_slot r of
                 Some fresh \<Rightarrow> r\<lparr>re_record_slot := None, re_ring := fresh\<rparr>
               | None \<Rightarrow> r)
      in r\<lparr>re_seen := drain_current_ring (rc_space rc) (re_ring r) (re_seen r), re_ring := []\<rparr>)"

definition drain_dispatches :: "reducer_config \<Rightarrow> reducer \<Rightarrow> reducer" where
  "drain_dispatches rc r =
     r\<lparr>re_seen := (re_seen r)\<lparr>ov_mcap := drain_dispatched_actions (rc_space rc) (re_dispatched r) (ov_mcap (re_seen r))\<rparr>,
       re_dispatched := []\<rparr>"

definition drain_reports :: "reducer \<Rightarrow> reducer" where
  "drain_reports r =
     (let (m, f) = drain_proprio_reports (re_reports r) (ov_latest (re_seen r), ov_mcap (re_seen r))
      in r\<lparr>re_seen := (re_seen r)\<lparr>ov_latest := m, ov_mcap := f\<rparr>, re_reports := []\<rparr>)"

definition drain_all :: "reducer_config \<Rightarrow> reducer \<Rightarrow> reducer" where
  "drain_all rc r = drain_reports (drain_dispatches rc (drain_gate_records rc r))"

definition uplink_turn :: "reducer_config \<Rightarrow> mono_ns \<Rightarrow> reducer \<Rightarrow> reducer" where
  "uplink_turn rc now r =
     (let (sent, m) = maybe_uplink_observation (rc_has_plane rc) (su_parts_negotiated (re_status r)) now
                        (ov_latest (re_seen r))
      in fold (\<lambda>(t, s). plane_send rc (PL_Observation t s)) sent
           (r\<lparr>re_seen := (re_seen r)\<lparr>ov_latest := m\<rparr>\<rparr>))"

subsection \<open>Episode records\<close>

definition set_mcap :: "mcap \<Rightarrow> reducer \<Rightarrow> reducer" where
  "set_mcap f r = r\<lparr>re_seen := (re_seen r)\<lparr>ov_mcap := f\<rparr>\<rparr>"

definition terminal_outcome_of :: "session_fsm \<Rightarrow> terminal_outcome option" where
  "terminal_outcome_of s = (case episode_phase s of Some (Terminal out) \<Rightarrow> Some out | _ \<Rightarrow> None)"

text \<open>The file is written first; listing it in the manifest may fail on its own, which is ignored.\<close>

definition write_sidecar :: "world \<Rightarrow> reducer_config \<Rightarrow> sidecar \<Rightarrow> reducer \<Rightarrow> reducer" where
  "write_sidecar w rc sc r =
     (if \<not> rc_recording rc then r
      else
        (let (wrote, r) = try_io w r in
         if \<not> wrote then r
         else
           (let r = r\<lparr>re_sidecars := re_sidecars r @ [sc]\<rparr>;
                (listed, r) = try_io w r
            in if listed then r\<lparr>re_manifest := re_manifest r @ [sc]\<rparr> else r)))"

definition finalize_episode_if_terminal :: "world \<Rightarrow> reducer_config \<Rightarrow> bool \<Rightarrow> reducer \<Rightarrow> reducer" where
  "finalize_episode_if_terminal w rc force r =
     (let outcome = terminal_outcome_of (re_fsm r) in
      if outcome = None \<and> \<not> force then r
      else
        (let r = drain_all rc r in
         case re_sidecar r of
           None \<Rightarrow> r
         | Some b \<Rightarrow>
             (let r = r\<lparr>re_sidecar := None\<rparr>;
                  b = (case outcome of Some out \<Rightarrow> set_outcome out [] b | None \<Rightarrow> b);
                  (s, r) = read_clock w r;
                  b = close_bounds s b;
                  r = (case builder_finish (rc_digest rc) b of
                         Inr sc \<Rightarrow> write_sidecar w rc sc r
                       | Inl e \<Rightarrow> r)
              in case ov_mcap (re_seen r) of
                   None \<Rightarrow> r
                 | Some rows \<Rightarrow> set_mcap None (r\<lparr>re_files := re_files r @ [rows]\<rparr>))))"

definition open_episode_records ::
  "world \<Rightarrow> reducer_config \<Rightarrow> episode_id \<Rightarrow> bool \<Rightarrow> episode_id option \<Rightarrow> bool \<Rightarrow> reducer \<Rightarrow> reducer" where
  "open_episode_records w rc i born parent post_reset r =
     (let r = finalize_episode_if_terminal w rc True r;
          b = sidecar_builder_new i (rc_project rc) (cfg_session_id (rc_session rc)) (cfg_robot_id (rc_session rc))
                (cfg_cell_id (rc_session rc)) (tc_task (re_task r)) (rc_anchor rc) (if rc_recording rc then 1 else 3);
          b = set_task_metadata (tc_metadata (re_task r)) b;
          (s, r) = read_clock w r;
          b = set_post_reset_declared post_reset (set_born_claimed born (open_bounds s b));
          b = (case parent of Some p \<Rightarrow> set_retake p i b | None \<Rightarrow> b);
          r = r\<lparr>re_sidecar := Some b\<rparr>
      in if \<not> rc_recording rc then set_mcap None r
         else (let (ok, r) = try_io w r in set_mcap (if ok then Some [] else None) r))"

subsection \<open>Effects\<close>

definition claim_provenance :: "session_fsm \<Rightarrow> provenance_tag" where
  "claim_provenance s = (case claim s of None \<Rightarrow> policy_provenance | Some c \<Rightarrow> claim_provenance_tag c)"

definition declared_blend :: "reducer_config \<Rightarrow> mono_ns \<Rightarrow> blend_schedule option" where
  "declared_blend rc now =
     (case handoff (rc_session rc) of
        HP_Immediate ns \<Rightarrow>
          if 0 < ns
          then Some \<lparr>bs_start = now, bs_blend_ns = ns, bs_interp = ck_interp (as_chunking (rc_space rc))\<rparr>
          else None
      | _ \<Rightarrow> None)"

definition plan_mode_for :: "reducer_config \<Rightarrow> session_fsm \<Rightarrow> gate_mode \<Rightarrow> mono_ns \<Rightarrow> plan_mode" where
  "plan_mode_for rc s m now =
     (case m of
        GM_Passthrough \<Rightarrow> if agent_episode_noop s then PM_AgentEpisode (claim_provenance s) else PM_Passthrough
      | GM_Bypass \<Rightarrow> PM_Bypass (claim_provenance s)
      | GM_Intervention \<Rightarrow> PM_Claimed (claim_provenance s) (declared_blend rc now)
      | GM_Reset \<Rightarrow> PM_Reset (claim_provenance s))"

definition plan_for :: "world \<Rightarrow> reducer_config \<Rightarrow> gate_mode \<Rightarrow> reducer \<Rightarrow> gate_plan \<times> reducer" where
  "plan_for w rc m r =
     (let (s, r) = read_clock w r
      in (\<lparr>pl_mode = plan_mode_for rc (re_fsm r) m (mono s), pl_since = mono s\<rparr>, r))"

definition store_shared_plan :: "gate_plan \<Rightarrow> gate_mode \<Rightarrow> reducer \<Rightarrow> reducer" where
  "store_shared_plan plan m r =
     (let g = (re_gate r)\<lparr>gs_plan := plan\<rparr>
      in r\<lparr>re_gate := if m = GM_Passthrough then g\<lparr>gs_jitter := intake_clear [] (gs_jitter g)\<rparr> else g\<rparr>)"

definition arm_timer :: "timer_id \<Rightarrow> mono_ns \<Rightarrow> (timer_id \<times> mono_ns) list \<Rightarrow> (timer_id \<times> mono_ns) list" where
  "arm_timer i d armed = filter (\<lambda>e. fst e \<noteq> i) armed @ [(i, d)]"

definition cancel_timer :: "timer_id \<Rightarrow> (timer_id \<times> mono_ns) list \<Rightarrow> (timer_id \<times> mono_ns) list" where
  "cancel_timer i armed = filter (\<lambda>e. fst e \<noteq> i) armed"

fun apply_effect :: "world \<Rightarrow> reducer_config \<Rightarrow> effect \<Rightarrow> reducer \<Rightarrow> reducer" where
  "apply_effect w rc (SetGateMode m) r = (let (plan, r) = plan_for w rc m r in store_shared_plan plan m r)"
| "apply_effect w rc (RequestVerb v) r = (if v = V_Send then r else r\<lparr>re_verbs := re_verbs r @ [v]\<rparr>)"
| "apply_effect w rc (ArmTimer i d) r = r\<lparr>re_armed := arm_timer i d (re_armed r)\<rparr>"
| "apply_effect w rc (CancelTimer i) r = r\<lparr>re_armed := cancel_timer i (re_armed r)\<rparr>"
| "apply_effect w rc (MintLeaseToken po) r =
     (let (minted, r) = mint_lease w r; (s, r) = read_clock w r in self_send (LeaseTokenMinted minted (mono s)) r)"
| "apply_effect w rc (OpenSuccessor pred succ cl carry mode) r =
     (let (s, r) = read_clock w r
      in self_send (EpisodeOpen succ mode True (Some pred) (rc_post_reset rc \<noteq> None) None
           (Option.bind (rc_post_reset rc) reset_spec_window) None (mono s)) r)"
| "apply_effect w rc ReprimePolicy r = r"
| "apply_effect w rc (SetResetUnverified e) r = r\<lparr>re_sidecar := map_option mark_reset_unverified (re_sidecar r)\<rparr>"
| "apply_effect w rc (SetPostResetFailed e) r = r\<lparr>re_sidecar := map_option mark_post_reset_failed (re_sidecar r)\<rparr>"
| "apply_effect w rc (RunPostReset e) r = r"
| "apply_effect w rc (Emit ev) r =
     (let r = r\<lparr>re_sidecar := map_option (push_event ev) (re_sidecar r)\<rparr>;
          r = set_mcap (write_row (MR_Event ev) (ov_mcap (re_seen r))) r
      in plane_send rc (PL_Event ev) r)"

definition publish_mirror :: "reducer \<Rightarrow> reducer" where
  "publish_mirror r =
     (let s = re_fsm r;
          claim_id = map_option cl_id (claim s);
          r = (if re_claim_window r \<noteq> claim_id
               then r\<lparr>re_claim_window := claim_id, re_claim_generation := re_claim_generation r + 1\<rparr> else r)
      in r\<lparr>re_status := (re_status r)
             \<lparr>su_episode_id := map_option ep_id (episode s), su_episode_state := episode_phase s,
              su_gate_mode := Some (gate_mode s), su_claim_active := claim s \<noteq> None,
              su_active_claim_id := claim_id, su_claim_generation := re_claim_generation r,
              su_provenance := (if claim s \<noteq> None then Some (claim_provenance s) else None),
              su_outcome := terminal_outcome_of s, su_pinned_outcome := Option.bind (episode s) pinned_outcome,
              su_post_reset_failed := (case episode s of None \<Rightarrow> False | Some e \<Rightarrow> post_reset_failed e),
              su_agent_invited := (case episode s of None \<Rightarrow> False | Some e \<Rightarrow> agent_invited e),
              su_agent_engaged := (case episode s of None \<Rightarrow> False | Some e \<Rightarrow> agent_engaged e),
              su_agent_invite_aborted := (case episode s of None \<Rightarrow> False | Some e \<Rightarrow> invite_aborted e),
              su_plane_connected := plane_connected s\<rparr>\<rparr>)"

subsection \<open>One step\<close>

definition record_ack :: "reducer_config \<Rightarrow> nat option \<Rightarrow> string + unit \<Rightarrow> reducer \<Rightarrow> reducer" where
  "record_ack rc slot outcome r =
     (case slot of
        None \<Rightarrow> r
      | Some k \<Rightarrow>
          (let (fin, g) = ack_record outcome (re_acks r ! k);
               r = r\<lparr>re_acks := (re_acks r)[k := g]\<rparr>
           in case fin of None \<Rightarrow> r | Some fa \<Rightarrow> plane_send rc (PL_Ack fa) r))"

definition open_records_for :: "world \<Rightarrow> reducer_config \<Rightarrow> session_event \<Rightarrow> reducer \<Rightarrow> reducer" where
  "open_records_for w rc ev r =
     (case ev of
        EpisodeOpen i ver born parent post_reset pre post invite t \<Rightarrow>
          open_episode_records w rc i born parent post_reset r
      | _ \<Rightarrow> r)"

definition apply_step :: "world \<Rightarrow> reducer_config \<Rightarrow> session_fsm \<Rightarrow> effect list \<Rightarrow> reducer \<Rightarrow> reducer" where
  "apply_step w rc s efs r =
     finalize_episode_if_terminal w rc False
       (publish_mirror (fold (apply_effect w rc) efs (r\<lparr>re_fsm := s\<rparr>)))"

definition step_and_apply :: "world \<Rightarrow> reducer_config \<Rightarrow> injected \<Rightarrow> reducer \<Rightarrow> reducer option" where
  "step_and_apply w rc msg r =
     (let r = open_records_for w rc (in_event msg) r
      in case step (rc_session rc) (re_fsm r) (in_event msg) of
           Panic \<Rightarrow> None
         | Rejected reason \<Rightarrow> Some (record_ack rc (in_ack msg) (Inl reason) r)
         | Step s efs \<Rightarrow> Some (record_ack rc (in_ack msg) (Inr ()) (apply_step w rc s efs r)))"

subsection \<open>The loop\<close>

definition due_timers :: "mono_ns \<Rightarrow> (timer_id \<times> mono_ns) list \<Rightarrow> (timer_id \<times> mono_ns) list" where
  "due_timers now armed = sort_key snd (filter (\<lambda>e. snd e \<le> now) armed)"

fun fire_timers :: "world \<Rightarrow> reducer_config \<Rightarrow> (timer_id \<times> mono_ns) list \<Rightarrow> reducer \<Rightarrow> reducer option" where
  "fire_timers w rc [] r = Some r"
| "fire_timers w rc ((i, d) # rest) r =
     Option.bind (step_and_apply w rc (injected_from (TimerFired i d)) r) (fire_timers w rc rest)"

definition receive_timeout_ns :: "mono_ns \<Rightarrow> (timer_id \<times> mono_ns) list \<Rightarrow> int" where
  "receive_timeout_ns now armed =
     (case map (\<lambda>e. max (i64_wrap (snd e - now)) 0) armed of
        [] \<Rightarrow> 20000000
      | d # ds \<Rightarrow> min (fold min ds d) 20000000)"

text \<open>A wake before it waits on the channel: \<open>None\<close> for a panic, and no waiting time when
  the session shuts down.\<close>

definition wake :: "world \<Rightarrow> reducer_config \<Rightarrow> reducer \<Rightarrow> (reducer \<times> int option) option" where
  "wake w rc r =
     (let r = drain_all rc r in
      if su_shutdown (re_status r)
      then Some (finalize_episode_if_terminal w rc True r, None)
      else
        (let (s, r) = read_clock w r;
             now = mono s;
             r = uplink_turn rc now r;
             due = due_timers now (re_armed r);
             r = r\<lparr>re_armed := filter (\<lambda>e. now < snd e) (re_armed r)\<rparr>
         in map_option (\<lambda>r. (r, Some (receive_timeout_ns now (re_armed r)))) (fire_timers w rc due r)))"

datatype received = RV_Event injected | RV_Timeout | RV_Disconnected

text \<open>A turn of the loop and whether the loop goes on.\<close>

definition reducer_turn :: "world \<Rightarrow> reducer_config \<Rightarrow> received \<Rightarrow> reducer \<Rightarrow> (reducer \<times> bool) option" where
  "reducer_turn w rc rx r =
     (case wake w rc r of
        None \<Rightarrow> None
      | Some (r, None) \<Rightarrow> Some (r, False)
      | Some (r, Some timeout) \<Rightarrow>
          (case rx of
             RV_Event msg \<Rightarrow> map_option (\<lambda>r. (r, True)) (step_and_apply w rc msg r)
           | RV_Timeout \<Rightarrow> Some (r, True)
           | RV_Disconnected \<Rightarrow> Some (r, False)))"

definition status_default :: status where
  "status_default =
     \<lparr>su_episode_id = None, su_episode_state = None, su_gate_mode = None, su_claim_active = False,
      su_active_claim_id = None, su_claim_generation = 0, su_provenance = None, su_outcome = None,
      su_pinned_outcome = None, su_post_reset_failed = False, su_agent_invited = False,
      su_agent_engaged = False, su_agent_invite_aborted = False, su_plane_connected = False,
      su_parts_negotiated = False, su_shutdown = False\<rparr>"

definition reducer_new :: "reducer_config \<Rightarrow> gate_shared \<Rightarrow> reducer" where
  "reducer_new rc g =
     \<lparr>re_fsm = session_new (rc_session rc), re_gate = g, re_armed = [],
      re_seen = \<lparr>ov_latest = [], ov_joints = [], ov_obs_slot = None, ov_mcap = None\<rparr>,
      re_claim_window = None, re_claim_generation = 0, re_sidecar = None, re_status = status_default,
      re_acks = [], re_task = \<lparr>tc_task = [], tc_metadata = []\<rparr>, re_record_slot = None, re_ring = [],
      re_dispatched = [], re_reports = [], re_sent = [], re_verbs = [], re_plane = [],
      re_sidecars = [], re_manifest = [], re_files = [], re_tick = 0\<rparr>"

end
