(* ===== verification/Waddle_Runtime.thy ===== *)
theory Waddle_Runtime
  imports Waddle_Reducer Waddle_Authority
begin

text \<open>
  What the reducer guarantees (\<^verbatim>\<open>waddle-runtime/src/reducer.rs\<close>,
  \<^verbatim>\<open>ack.rs\<close>): the session machine composed with everything it drives. The
  lemmas follow the reducer's state through the effects of a step, a step, a turn of the loop and
  a whole run, in which the other threads fill queues and set flags between turns.
\<close>

subsection \<open>Acknowledgements\<close>

fun ack_run :: "(string + unit) list \<Rightarrow> ack_group \<Rightarrow> finished_ack list" where
  "ack_run [] g = []"
| "ack_run (out # outs) g =
     (let (fin, g) = ack_record out g in (case fin of None \<Rightarrow> ack_run outs g | Some fa \<Rightarrow> fa # ack_run outs g))"

text \<open>The first rejection among outcomes.\<close>

definition first_rejection :: "(string + unit) list \<Rightarrow> string option" where
  "first_rejection outs = find_map (\<lambda>out. case out of Inl r \<Rightarrow> Some r | Inr _ \<Rightarrow> None) outs"

definition ack_of :: "string \<Rightarrow> string option \<Rightarrow> finished_ack" where
  "ack_of directive rej =
     \<lparr>fa_directive_id = directive, fa_accepted = rej = None, fa_reason = (case rej of None \<Rightarrow> [] | Some x \<Rightarrow> x)\<rparr>"

lemma ack_run_finished: "ag_remaining g = 0 \<Longrightarrow> ack_run outs g = []"
  by (induction outs) (simp_all add: ack_record_def)

lemma unat_minus_1: "n \<noteq> (0::u32) \<Longrightarrow> unat (n - 1) = unat n - 1"
  by (rule unat_minus_one)

lemma ack_run_open:
  assumes "ag_remaining g \<noteq> 0"
  shows "ack_run outs g =
    (if unat (ag_remaining g) \<le> length outs
     then [ack_of (ag_directive_id g) (case ag_rejection g of Some r \<Rightarrow> Some r
            | None \<Rightarrow> first_rejection (take (unat (ag_remaining g)) outs))]
     else [])"
  using assms
proof (induction outs arbitrary: g)
  case (Cons out outs)
  let ?rej = "case ag_rejection g of Some r \<Rightarrow> Some r | None \<Rightarrow> first_rejection [out]"
  let ?g = "g\<lparr>ag_rejection := ?rej, ag_remaining := ag_remaining g - 1\<rparr>"
  have pos: "0 < unat (ag_remaining g)" using Cons.prems by (simp add: unat_gt_0)
  have rej: "first_rejection (out # xs) = (case first_rejection [out] of Some r \<Rightarrow> Some r | None \<Rightarrow> first_rejection xs)" for xs
    by (cases out) (simp_all add: first_rejection_def)
  have one: "ack_record out g =
      (if ag_remaining g - 1 = 0 then (Some (ack_of (ag_directive_id g) ?rej), ?g\<lparr>ag_rejection := None\<rparr>) else (None, ?g))"
    using Cons.prems
    by (cases out; cases "ag_rejection g") (simp_all add: ack_record_def Let_def ack_of_def first_rejection_def)
  show ?case
  proof (cases "ag_remaining g - 1 = 0")
    case True
    then have n: "unat (ag_remaining g) = 1" using unat_minus_1 [OF Cons.prems] pos by simp
    then have "take (unat (ag_remaining g)) (out # outs) = [out]" by simp
    moreover have "ack_run (out # outs) g = [ack_of (ag_directive_id g) ?rej]"
      using True by (simp add: one ack_run_finished)
    ultimately show ?thesis using n by (simp only: length_Cons) simp
  next
    case False
    have n: "unat (ag_remaining g) = Suc (unat (ag_remaining g - 1))"
      using unat_minus_1 [OF Cons.prems] pos by simp
    have IH: "ack_run outs ?g = (if unat (ag_remaining g - 1) \<le> length outs
        then [ack_of (ag_directive_id g) (case ?rej of Some r \<Rightarrow> Some r
               | None \<Rightarrow> first_rejection (take (unat (ag_remaining g - 1)) outs))] else [])"
      using Cons.IH [of ?g] False by (simp cong: option.case_cong)
    have "(case ?rej of Some r \<Rightarrow> Some r | None \<Rightarrow> first_rejection (take (unat (ag_remaining g - 1)) outs)) =
        (case ag_rejection g of Some r \<Rightarrow> Some r
         | None \<Rightarrow> first_rejection (take (unat (ag_remaining g)) (out # outs)))"
      by (cases "ag_rejection g") (simp_all add: n rej [of "take (unat (ag_remaining g - 1)) outs"])
    with IH False show ?thesis by (simp add: one n)
  qed
qed (simp add: unat_gt_0)

text \<open>A directive is acknowledged once: along any sequence of outcomes the group of a directive
  that decoded into some events gives exactly one acknowledgement, with the outcome of its last
  event; it is positive exactly when every event was accepted and otherwise carries the reason of
  the first rejection; before the last event, and ever after, nothing is given.\<close>

theorem directive_is_acknowledged_once:
  assumes "n \<noteq> 0"
  shows "ack_run outs (ack_group_new directive n) =
    (if unat n \<le> length outs then [ack_of directive (first_rejection (take (unat n) outs))] else [])"
  using ack_run_open [of "ack_group_new directive n" outs] assms by (simp add: ack_group_new_def)

theorem directive_is_acknowledged_once_witness:
  "ack_run [Inr (), Inl ''claim already active'', Inl ''late''] (ack_group_new ''d1'' 2) =
     [\<lparr>fa_directive_id = ''d1'', fa_accepted = False, fa_reason = ''claim already active''\<rparr>]"
  using directive_is_acknowledged_once [of 2 "[Inr (), Inl ''claim already active'', Inl ''late'']" "''d1''"]
  by (simp add: ack_of_def first_rejection_def del: ack_run.simps)

subsection \<open>What the pieces leave alone\<close>

lemma io_frame [simp]:
  "re_fsm (snd (read_clock w r)) = re_fsm r" "re_fsm (snd (try_io w r)) = re_fsm r" "re_fsm (snd (mint_lease w r)) = re_fsm r"
  "re_gate (snd (read_clock w r)) = re_gate r" "re_gate (snd (try_io w r)) = re_gate r" "re_gate (snd (mint_lease w r)) = re_gate r"
  "re_armed (snd (read_clock w r)) = re_armed r" "re_armed (snd (try_io w r)) = re_armed r" "re_armed (snd (mint_lease w r)) = re_armed r"
  "re_status (snd (read_clock w r)) = re_status r" "re_status (snd (try_io w r)) = re_status r" "re_status (snd (mint_lease w r)) = re_status r"
  "re_claim_window (snd (read_clock w r)) = re_claim_window r" "re_claim_window (snd (try_io w r)) = re_claim_window r" "re_claim_window (snd (mint_lease w r)) = re_claim_window r"
  "re_claim_generation (snd (read_clock w r)) = re_claim_generation r" "re_claim_generation (snd (try_io w r)) = re_claim_generation r" "re_claim_generation (snd (mint_lease w r)) = re_claim_generation r"
  "re_sidecar (snd (read_clock w r)) = re_sidecar r" "re_sidecar (snd (try_io w r)) = re_sidecar r" "re_sidecar (snd (mint_lease w r)) = re_sidecar r"
  "re_seen (snd (read_clock w r)) = re_seen r" "re_seen (snd (try_io w r)) = re_seen r" "re_seen (snd (mint_lease w r)) = re_seen r"
  "re_plane (snd (read_clock w r)) = re_plane r" "re_plane (snd (try_io w r)) = re_plane r" "re_plane (snd (mint_lease w r)) = re_plane r"
  "re_verbs (snd (read_clock w r)) = re_verbs r" "re_verbs (snd (try_io w r)) = re_verbs r" "re_verbs (snd (mint_lease w r)) = re_verbs r"
  "re_sent (snd (read_clock w r)) = re_sent r" "re_sent (snd (try_io w r)) = re_sent r" "re_sent (snd (mint_lease w r)) = re_sent r"
  "re_sidecars (snd (read_clock w r)) = re_sidecars r"
  by (simp_all add: read_clock_def try_io_def mint_lease_def)

text \<open>The part of the state that only steps of the session machine move.\<close>

definition core :: "reducer \<Rightarrow> session_fsm \<times> gate_shared \<times> (timer_id \<times> mono_ns) list \<times> claim_id option \<times> u64 \<times> status" where
  "core r = (re_fsm r, re_gate r, re_armed r, re_claim_window r, re_claim_generation r, re_status r)"

lemma core_io [simp]:
  "core (snd (read_clock w r)) = core r" "core (snd (try_io w r)) = core r" "core (snd (mint_lease w r)) = core r"
  by (simp_all add: core_def)

lemma core_plane_send [simp]: "core (plane_send rc m r) = core r"
  by (simp add: plane_send_def core_def)

lemma core_drain_all [simp]: "core (drain_all rc r) = core r"
  by (simp add: drain_all_def drain_reports_def drain_dispatches_def drain_gate_records_def core_def Let_def
      case_prod_unfold split: option.split)

lemma core_set_mcap [simp]: "core (set_mcap f r) = core r"
  by (simp add: set_mcap_def core_def)

lemma core_finalize [simp]: "core (finalize_episode_if_terminal w rc force r) = core r"
proof -
  have ws: "core (write_sidecar w rc sc r) = core r" for sc r
    by (simp add: write_sidecar_def case_prod_unfold Let_def core_def)
  have upd: "core (r\<lparr>re_sidecar := x\<rparr>) = core r" "core (r\<lparr>re_files := y\<rparr>) = core r" for r x y
    by (simp_all add: core_def)
  have d: "core (drain_all rc r) = core r" by simp
  show ?thesis
    unfolding finalize_episode_if_terminal_def Let_def case_prod_unfold
    by (simp add: ws upd split: option.split sum.split)
qed

lemma core_open_records [simp]: "core (open_records_for w rc ev r) = core r"
proof -
  have upd: "core (r\<lparr>re_sidecar := x\<rparr>) = core r" for r x by (simp add: core_def)
  have "core (open_episode_records w rc i born parent pr r) = core r" for i born parent pr
    by (simp add: open_episode_records_def Let_def case_prod_unfold upd)
  then show ?thesis by (simp add: open_records_for_def split: session_event.split)
qed

lemma core_uplink [simp]: "core (uplink_turn rc now r) = core r"
proof -
  have f: "core (fold (\<lambda>(t, s). plane_send rc (PL_Observation t s)) xs r) = core r" for xs r
    by (induction xs arbitrary: r) (simp_all add: case_prod_unfold)
  show ?thesis by (simp add: uplink_turn_def case_prod_unfold Let_def f [unfolded case_prod_unfold]) (simp add: core_def)
qed

lemma core_record_ack [simp]: "core (record_ack rc slot out r) = core r"
proof -
  have "core (r\<lparr>re_acks := x\<rparr>) = core r" for r x by (simp add: core_def)
  then show ?thesis by (simp add: record_ack_def Let_def case_prod_unfold split: option.split)
qed

subsection \<open>Effects\<close>

lemma apply_effect_fsm [simp]: "re_fsm (apply_effect w rc ef r) = re_fsm r"
  by (cases ef) (auto simp: Let_def case_prod_unfold plan_for_def store_shared_plan_def self_send_def plane_send_def set_mcap_def)

lemma apply_effects_fsm [simp]: "re_fsm (fold (apply_effect w rc) efs r) = re_fsm r"
  by (induction efs arbitrary: r) simp_all

text \<open>The plan a gate mode calls for, up to whose provenance it carries and since when.\<close>

fun plan_shows :: "session_fsm \<Rightarrow> gate_mode \<Rightarrow> plan_mode \<Rightarrow> bool" where
  "plan_shows s GM_Passthrough (PM_AgentEpisode p) = agent_episode_noop s"
| "plan_shows s GM_Passthrough PM_Passthrough = (\<not> agent_episode_noop s)"
| "plan_shows s GM_Bypass (PM_Bypass p) = True"
| "plan_shows s GM_Intervention (PM_Claimed p b) = True"
| "plan_shows s GM_Reset (PM_Reset p) = True"
| "plan_shows s m p = False"

definition plan_fits :: "session_fsm \<Rightarrow> gate_shared \<Rightarrow> bool" where
  "plan_fits s g \<longleftrightarrow> plan_shows s (gate_mode s) (pl_mode (gs_plan g))"

lemma plan_mode_for_shows: "plan_shows s m (plan_mode_for rc s m now)"
  by (cases m) (simp_all add: plan_mode_for_def)

lemma apply_effect_plan:
  "case set_gate_effect ef of
     Some m \<Rightarrow> plan_shows (re_fsm r) m (pl_mode (gs_plan (re_gate (apply_effect w rc ef r))))
   | None \<Rightarrow> re_gate (apply_effect w rc ef r) = re_gate r"
  by (cases ef) (simp_all add: Let_def case_prod_unfold plan_for_def store_shared_plan_def plan_mode_for_shows
      self_send_def plane_send_def set_mcap_def)

lemma apply_effects_plan:
  "case last_gate_mode efs of
     Some m \<Rightarrow> plan_shows (re_fsm r) m (pl_mode (gs_plan (re_gate (fold (apply_effect w rc) efs r))))
   | None \<Rightarrow> re_gate (fold (apply_effect w rc) efs r) = re_gate r"
proof (induction efs arbitrary: r)
  case Nil
  then show ?case by (simp add: last_gate_mode_def)
next
  case (Cons ef efs)
  have l: "last_gate_mode (ef # efs) = (case last_gate_mode efs of Some m \<Rightarrow> Some m | None \<Rightarrow> set_gate_effect ef)"
    by (simp add: last_gate_mode_def find_map_append split: option.split)
  from Cons [of "apply_effect w rc ef r"] apply_effect_plan [where ef=ef and r=r and w=w and rc=rc] show ?case
    by (auto simp: l split: option.splits)
qed

text \<open>The timers: at most one deadline per timer, and the effects replayed on the list.\<close>

fun timer_effect :: "effect \<Rightarrow> (timer_id \<times> mono_ns) list \<Rightarrow> (timer_id \<times> mono_ns) list" where
  "timer_effect (ArmTimer i d) a = arm_timer i d a"
| "timer_effect (CancelTimer i) a = cancel_timer i a"
| "timer_effect ef a = a"

lemma apply_effect_armed: "re_armed (apply_effect w rc ef r) = timer_effect ef (re_armed r)"
  by (cases ef) (auto simp: Let_def case_prod_unfold plan_for_def store_shared_plan_def self_send_def plane_send_def set_mcap_def)

lemma apply_effects_armed: "re_armed (fold (apply_effect w rc) efs r) = fold timer_effect efs (re_armed r)"
  by (induction efs arbitrary: r) (simp_all add: apply_effect_armed)

definition timers_ok :: "(timer_id \<times> mono_ns) list \<Rightarrow> bool" where
  "timers_ok a \<longleftrightarrow> distinct (map fst a)"

lemma timer_effect_ok: "timers_ok a \<Longrightarrow> timers_ok (timer_effect ef a)"
  by (cases ef) (auto simp: timers_ok_def arm_timer_def cancel_timer_def distinct_map_filter)

lemma timer_effects_ok: "timers_ok a \<Longrightarrow> timers_ok (fold timer_effect efs a)"
  by (induction efs arbitrary: a) (simp_all add: timer_effect_ok)

text \<open>The mirror.\<close>

definition mirrored :: "reducer \<Rightarrow> bool" where
  "mirrored r \<longleftrightarrow>
     (let s = re_fsm r; u = re_status r in
      su_episode_id u = map_option ep_id (episode s) \<and> su_episode_state u = episode_phase s \<and>
      su_gate_mode u = Some (gate_mode s) \<and> su_claim_active u = (claim s \<noteq> None) \<and>
      su_active_claim_id u = map_option cl_id (claim s) \<and>
      su_provenance u = map_option claim_provenance_tag (claim s) \<and>
      su_outcome u = terminal_outcome_of s \<and> su_plane_connected u = plane_connected s \<and>
      re_claim_window r = map_option cl_id (claim s) \<and> su_claim_generation u = re_claim_generation r)"

lemma publish_mirror_core [simp]:
  "re_fsm (publish_mirror r) = re_fsm r" "re_gate (publish_mirror r) = re_gate r"
  "re_armed (publish_mirror r) = re_armed r" "re_sidecar (publish_mirror r) = re_sidecar r"
  "re_seen (publish_mirror r) = re_seen r" "re_plane (publish_mirror r) = re_plane r"
  "re_verbs (publish_mirror r) = re_verbs r" "re_sent (publish_mirror r) = re_sent r"
  by (simp_all add: publish_mirror_def Let_def)

lemma publish_mirror_mirrored: "mirrored (publish_mirror r)"
  by (simp add: mirrored_def publish_mirror_def Let_def claim_provenance_def split: option.split)

lemma publish_mirror_generation:
  "re_claim_generation (publish_mirror r) =
     (if re_claim_window r = map_option cl_id (claim (re_fsm r)) then re_claim_generation r else re_claim_generation r + 1)"
  by (simp add: publish_mirror_def Let_def)

lemma mirrored_core: "core r' = core r \<Longrightarrow> mirrored r' = mirrored r"
  by (simp add: core_def mirrored_def)

subsection \<open>Steps and runs\<close>

definition reducer_ok :: "reducer \<Rightarrow> bool" where
  "reducer_ok r \<longleftrightarrow> plan_fits (re_fsm r) (re_gate r) \<and> timers_ok (re_armed r) \<and>
     re_claim_window r = map_option cl_id (claim (re_fsm r)) \<and>
     su_claim_generation (re_status r) = re_claim_generation r"

lemma reducer_ok_core: "core r' = core r \<Longrightarrow> reducer_ok r' = reducer_ok r"
  by (simp add: core_def reducer_ok_def)

lemma plan_shows_noop:
  "agent_episode_noop s' = agent_episode_noop s \<Longrightarrow> plan_shows s' m p = plan_shows s m p"
  by (cases "(s, m, p)" rule: plan_shows.cases) simp_all

lemma apply_step_ok:
  assumes "reducer_ok r" "step cfg (re_fsm r) ev = Step s' efs"
  shows "reducer_ok (apply_step w rc s' efs r)"
proof -
  let ?r = "fold (apply_effect w rc) efs (r\<lparr>re_fsm := s'\<rparr>)"
  have core: "core (apply_step w rc s' efs r) = core (publish_mirror ?r)" by (simp add: apply_step_def)
  note gate = gate_plan_is_reprojected [OF assms(2)]
  have "plan_fits s' (re_gate ?r)"
  proof (cases "last_gate_mode efs")
    case (Some m)
    with gate have "gate_mode s' = m" by (simp add: gate_after_def)
    with apply_effects_plan [where efs=efs and r="r\<lparr>re_fsm := s'\<rparr>" and w=w and rc=rc] Some show ?thesis by (simp add: plan_fits_def)
  next
    case None
    with gate have "gate_plan_inputs s' = gate_plan_inputs (re_fsm r)" by auto
    then have "gate_mode s' = gate_mode (re_fsm r)" "agent_episode_noop s' = agent_episode_noop (re_fsm r)"
      by (simp_all add: gate_plan_inputs_def)
    with assms(1) plan_shows_noop [of s' "re_fsm r"] apply_effects_plan [where efs=efs and r="r\<lparr>re_fsm := s'\<rparr>" and w=w and rc=rc] None
    show ?thesis by (simp add: plan_fits_def reducer_ok_def)
  qed
  moreover have "timers_ok (re_armed ?r)"
    using assms(1) timer_effects_ok by (simp add: apply_effects_armed reducer_ok_def)
  moreover have "re_claim_window (publish_mirror ?r) = map_option cl_id (claim (re_fsm (publish_mirror ?r)))"
    "su_claim_generation (re_status (publish_mirror ?r)) = re_claim_generation (publish_mirror ?r)"
    using publish_mirror_mirrored [of ?r] by (simp_all add: mirrored_def Let_def)
  ultimately have "reducer_ok (publish_mirror ?r)" by (simp add: reducer_ok_def)
  with reducer_ok_core [OF core] show ?thesis by simp
qed

lemma step_and_apply_cases:
  assumes "step_and_apply w rc msg r = Some r'"
  shows "(\<exists>reason. step (rc_session rc) (re_fsm r) (in_event msg) = Rejected reason \<and> core r' = core r) \<or>
    (\<exists>s efs r0. step (rc_session rc) (re_fsm r) (in_event msg) = Step s efs \<and> core r0 = core r \<and>
       core r' = core (apply_step w rc s efs r0))"
proof -
  let ?r0 = "open_records_for w rc (in_event msg) r"
  have core: "core ?r0 = core r" by simp
  then have fsm: "re_fsm ?r0 = re_fsm r" by (simp add: core_def)
  show ?thesis
  proof (cases "step (rc_session rc) (re_fsm r) (in_event msg)")
    case Panic
    with assms fsm show ?thesis by (simp add: step_and_apply_def)
  next
    case (Rejected reason)
    with assms fsm have "r' = record_ack rc (in_ack msg) (Inl reason) ?r0" by (simp add: step_and_apply_def)
    with Rejected core show ?thesis by simp
  next
    case (Step s efs)
    with assms fsm have "r' = record_ack rc (in_ack msg) (Inr ()) (apply_step w rc s efs ?r0)"
      by (simp add: step_and_apply_def)
    with Step core show ?thesis by (metis core_record_ack)
  qed
qed

lemma step_and_apply_ok:
  assumes "step_and_apply w rc msg r = Some r'" "reducer_ok r"
  shows "reducer_ok r'"
  using step_and_apply_cases [OF assms(1)]
proof (elim disjE exE conjE)
  fix s efs r0
  assume st: "step (rc_session rc) (re_fsm r) (in_event msg) = Step s efs" "core r0 = core r"
    "core r' = core (apply_step w rc s efs r0)"
  from st(2) have "reducer_ok r0" "re_fsm r0 = re_fsm r"
    using assms(2) reducer_ok_core [OF st(2)] by (simp_all add: core_def)
  with apply_step_ok [of r0 "rc_session rc" "in_event msg" s efs w rc] st reducer_ok_core [OF st(3)]
  show "reducer_ok r'" by simp
qed (use assms(2) reducer_ok_core in blast)

text \<open>The mirror shows the session, except before the first accepted event.\<close>

definition published :: "reducer_config \<Rightarrow> reducer \<Rightarrow> bool" where
  "published rc r \<longleftrightarrow> mirrored r \<or> re_fsm r = session_new (rc_session rc)"

lemma published_core: "core r' = core r \<Longrightarrow> published rc r' = published rc r"
  using mirrored_core [of r' r] by (simp add: published_def core_def)

lemma step_and_apply_published:
  assumes "step_and_apply w rc msg r = Some r'" "published rc r"
  shows "published rc r'"
  using step_and_apply_cases [OF assms(1)]
proof (elim disjE exE conjE)
  fix s efs r0
  assume "core r' = core (apply_step w rc s efs r0)"
  then have "core r' = core (publish_mirror (fold (apply_effect w rc) efs (r0\<lparr>re_fsm := s\<rparr>)))"
    by (simp add: apply_step_def)
  with mirrored_core publish_mirror_mirrored show "published rc r'" unfolding published_def by blast
qed (use assms(2) published_core in blast)

text \<open>The claim generation counts the changes of the active claim's identity.\<close>

lemma apply_effect_claim [simp]:
  "re_claim_window (apply_effect w rc ef r) = re_claim_window r"
  "re_claim_generation (apply_effect w rc ef r) = re_claim_generation r"
  by (cases ef; auto simp: Let_def case_prod_unfold plan_for_def store_shared_plan_def self_send_def plane_send_def set_mcap_def)+

lemma apply_effects_claim [simp]:
  "re_claim_window (fold (apply_effect w rc) efs r) = re_claim_window r"
  "re_claim_generation (fold (apply_effect w rc) efs r) = re_claim_generation r"
  by (induction efs arbitrary: r) simp_all

lemma claim_generation_counts:
  assumes "step_and_apply w rc msg r = Some r'" "reducer_ok r"
  shows "re_claim_generation r' = re_claim_generation r +
    (if map_option cl_id (claim (re_fsm r')) = map_option cl_id (claim (re_fsm r)) then 0 else 1)"
  using step_and_apply_cases [OF assms(1)]
proof (elim disjE exE conjE)
  fix s efs r0
  assume c: "core r0 = core r" "core r' = core (apply_step w rc s efs r0)"
  then have "core r' = core (publish_mirror (fold (apply_effect w rc) efs (r0\<lparr>re_fsm := s\<rparr>)))"
    by (simp add: apply_step_def)
  moreover have "re_claim_window r0 = map_option cl_id (claim (re_fsm r))" "re_claim_generation r0 = re_claim_generation r"
    using c(1) assms(2) by (simp_all add: core_def reducer_ok_def)
  ultimately show ?thesis by (auto simp: core_def publish_mirror_generation)
qed (simp add: core_def)

text \<open>What other threads do between turns: they fill queues, the gate's threads consume the
  stream ring and count ticks, and flags of the mirror the reducer only reads change.\<close>

definition from_outside :: "reducer \<Rightarrow> reducer \<Rightarrow> bool" where
  "from_outside r r' \<longleftrightarrow>
     re_fsm r' = re_fsm r \<and> re_armed r' = re_armed r \<and> gs_plan (re_gate r') = gs_plan (re_gate r) \<and>
     re_claim_window r' = re_claim_window r \<and> re_claim_generation r' = re_claim_generation r \<and>
     (\<exists>parts down. re_status r' = (re_status r)\<lparr>su_parts_negotiated := parts, su_shutdown := down\<rparr>) \<and>
     re_sidecar r' = re_sidecar r \<and> ov_mcap (re_seen r') = ov_mcap (re_seen r)"

inductive running :: "world \<Rightarrow> reducer_config \<Rightarrow> reducer \<Rightarrow> bool" for w rc where
  start: "pl_mode (gs_plan g) = PM_Passthrough \<Longrightarrow> running w rc (reducer_new rc g)"
| turn: "running w rc r \<Longrightarrow> reducer_turn w rc rx r = Some (r', go) \<Longrightarrow> running w rc r'"
| outside: "running w rc r \<Longrightarrow> from_outside r r' \<Longrightarrow> running w rc r'"

lemma fire_timers_keeps:
  assumes "fire_timers w rc due r = Some r'" "reducer_ok r" "published rc r"
  shows "reducer_ok r' \<and> published rc r'"
  using assms
proof (induction due arbitrary: r)
  case (Cons t due)
  obtain i d where "t = (i, d)" by (cases t)
  with Cons.prems(1) obtain r1 where
    "step_and_apply w rc (injected_from (TimerFired i d)) r = Some r1" "fire_timers w rc due r1 = Some r'" by auto
  with Cons step_and_apply_ok step_and_apply_published show ?case by blast
qed simp

lemma reducer_turn_keeps:
  assumes "reducer_turn w rc rx r = Some (r', go)" "reducer_ok r" "published rc r"
  shows "reducer_ok r' \<and> published rc r'"
proof -
  obtain r1 waits where wk: "wake w rc r = Some (r1, waits)"
    using assms(1) by (cases "wake w rc r") (auto simp: reducer_turn_def)
  have keep1: "reducer_ok r1 \<and> published rc r1"
  proof (cases "su_shutdown (re_status (drain_all rc r))")
    case True
    with wk have "core r1 = core r" by (auto simp: wake_def Let_def)
    with assms(2,3) reducer_ok_core published_core show ?thesis by blast
  next
    case False
    let ?r0 = "uplink_turn rc (mono (fst (read_clock w (drain_all rc r)))) (snd (read_clock w (drain_all rc r)))"
    let ?now = "mono (fst (read_clock w (drain_all rc r)))"
    from False wk have ft: "fire_timers w rc (due_timers ?now (re_armed ?r0))
        (?r0\<lparr>re_armed := filter (\<lambda>e. ?now < snd e) (re_armed ?r0)\<rparr>) = Some r1"
      by (auto simp: wake_def Let_def case_prod_unfold)
    have "core ?r0 = core r" by simp
    then have "reducer_ok ?r0" "published rc ?r0" using assms(2,3) reducer_ok_core published_core by blast+
    then have "reducer_ok (?r0\<lparr>re_armed := filter (\<lambda>e. ?now < snd e) (re_armed ?r0)\<rparr>)"
      "published rc (?r0\<lparr>re_armed := filter (\<lambda>e. ?now < snd e) (re_armed ?r0)\<rparr>)"
      by (simp_all add: reducer_ok_def timers_ok_def distinct_map_filter published_def mirrored_def)
    with fire_timers_keeps [OF ft] show ?thesis by blast
  qed
  show ?thesis
  proof (cases waits)
    case None
    with assms(1) wk keep1 show ?thesis by (simp add: reducer_turn_def)
  next
    case (Some ns)
    show ?thesis
    proof (cases rx)
      case (RV_Event msg)
      with assms(1) wk Some have "step_and_apply w rc msg r1 = Some r'" by (auto simp: reducer_turn_def)
      with keep1 step_and_apply_ok step_and_apply_published show ?thesis by blast
    qed (use assms(1) wk keep1 Some in \<open>auto simp: reducer_turn_def\<close>)
  qed
qed

lemma running_ok:
  assumes "running w rc r"
  shows "reducer_ok r \<and> published rc r"
  using assms
proof (induction rule: running.induct)
  case (start g)
  then show ?case
    by (simp add: reducer_ok_def published_def plan_fits_def reducer_new_def session_new_def timers_ok_def
        agent_episode_noop_def status_default_def)
next
  case (turn r rx r' go)
  with reducer_turn_keeps show ?case by blast
next
  case (outside r r')
  then show ?case
    by (auto simp: from_outside_def reducer_ok_def plan_fits_def published_def mirrored_def Let_def)
qed

text \<open>C22. The gate runs the plan of the session's state: in every state a running reducer is in between
  turns, whatever the other threads do, the plan the gate threads read is the one the session
  machine's gate mode (and the agent-episode hold) calls for; the mirror shows the session once an
  event was accepted; every timer has at most one deadline.\<close>

theorem gate_runs_the_session_plan:
  assumes "running w rc r"
  shows "plan_shows (re_fsm r) (gate_mode (re_fsm r)) (pl_mode (gs_plan (re_gate r))) \<and>
    (mirrored r \<or> re_fsm r = session_new (rc_session rc)) \<and> distinct (map fst (re_armed r))"
  using running_ok [OF assms] by (simp add: reducer_ok_def published_def plan_fits_def timers_ok_def)

definition demo_world :: world where
  "demo_world = \<lparr>w_clock = \<lambda>n. \<lparr>mono = int n, epoch = int n\<rparr>, w_mint = \<lambda>n. ''L'' @ dec n, w_io = \<lambda>n. True\<rparr>"

definition demo_rc :: reducer_config where
  "demo_rc = \<lparr>rc_session = demo_config, rc_has_plane = True, rc_recording = True, rc_project = ''p'',
     rc_digest = ''d'', rc_space = ActionSpace (SS_JointPosition []) (Fin 10) chunking_default None,
     rc_post_reset = None, rc_anchor = \<lparr>monotonic_ns = 0, unix_ns = 0\<rparr>\<rparr>"

definition demo_reducer :: reducer where
  "demo_reducer = reducer_new demo_rc (gate_shared_new (plan_passthrough 0) 0 RP_Immediate)"

text \<open>Handling events one by one, as the loop does when nothing else happens.\<close>

fun handle_all :: "world \<Rightarrow> reducer_config \<Rightarrow> session_event list \<Rightarrow> reducer \<Rightarrow> reducer option" where
  "handle_all w rc [] r = Some r"
| "handle_all w rc (ev # evs) r = Option.bind (step_and_apply w rc (injected_from ev) r) (handle_all w rc evs)"

theorem gate_runs_the_session_plan_witness:
  "plan_shows (re_fsm demo_reducer) (gate_mode (re_fsm demo_reducer)) (pl_mode (gs_plan (re_gate demo_reducer)))"
proof -
  have "running demo_world demo_rc demo_reducer"
    unfolding demo_reducer_def by (rule running.start) (simp add: gate_shared_new_def plan_passthrough_def)
  from gate_runs_the_session_plan [OF this] show ?thesis by blast
qed

text \<open>Claim windows are counted: the generation a running reducer publishes moves by one exactly
  when an event changes which claim is active (one beginning, one ending, or one replacing
  another), and never otherwise.\<close>

theorem claim_windows_are_counted:
  assumes "running w rc r" "step_and_apply w rc msg r = Some r'"
  shows "re_claim_generation r' = re_claim_generation r +
      (if map_option cl_id (claim (re_fsm r')) = map_option cl_id (claim (re_fsm r)) then 0 else 1) \<and>
    su_claim_generation (re_status r') = re_claim_generation r'"
  using claim_generation_counts [OF assms(2)] running_ok [OF assms(1)] step_and_apply_ok [OF assms(2)]
  by (simp add: reducer_ok_def)

theorem claim_windows_are_counted_witness:
  "\<exists>r'. step_and_apply demo_world demo_rc (injected_from (Start 3)) demo_reducer = Some r' \<and>
     su_claim_generation (re_status r') = re_claim_generation r'"
proof -
  have "running demo_world demo_rc demo_reducer"
    unfolding demo_reducer_def by (rule running.start) (simp add: gate_shared_new_def plan_passthrough_def)
  moreover have "\<exists>r'. step_and_apply demo_world demo_rc (injected_from (Start 3)) demo_reducer = Some r'"
  proof -
    have "step demo_config (session_new demo_config) (Start 3) = Rejected ''start outside READY''"
      by code_simp
    then show ?thesis
      by (simp add: step_and_apply_def open_records_for_def injected_from_def demo_reducer_def reducer_new_def
          demo_rc_def open_records_for_def Let_def)
  qed
  ultimately show ?thesis using claim_windows_are_counted by blast
qed

subsection \<open>Every effect is carried out once\<close>

fun emitted :: "effect list \<Rightarrow> episode_event list" where
  "emitted [] = []"
| "emitted (Emit ev # efs) = ev # emitted efs"
| "emitted (_ # efs) = emitted efs"

fun requested :: "effect list \<Rightarrow> verb list" where
  "requested [] = []"
| "requested (RequestVerb v # efs) = (if v = V_Send then requested efs else v # requested efs)"
| "requested (_ # efs) = requested efs"

fun told_to_self :: "effect list \<Rightarrow> nat" where
  "told_to_self [] = 0"
| "told_to_self (MintLeaseToken po # efs) = Suc (told_to_self efs)"
| "told_to_self (OpenSuccessor p s c b m # efs) = Suc (told_to_self efs)"
| "told_to_self (_ # efs) = told_to_self efs"

lemma on_state_events [simp]: "sb_events (on_state t fr tt b) = sb_events b"
  by (simp add: on_state_def Let_def split: option.splits)

lemma on_claim_events [simp]: "sb_events (on_claim t k c b) = sb_events b"
  by (cases k) (simp_all split: option.splits prod.splits)

lemma on_payload_events [simp]: "sb_events (on_payload t p b) = sb_events b"
  by (cases p) (simp_all add: on_lease_def on_intervention_def on_gate_def Let_def split: option.splits)

lemma apply_effect_outputs:
  "re_plane (apply_effect w rc ef r) = re_plane r @ (if rc_has_plane rc then map PL_Event (emitted [ef]) else []) \<and>
   re_verbs (apply_effect w rc ef r) = re_verbs r @ requested [ef] \<and>
   length (re_sent (apply_effect w rc ef r)) = length (re_sent r) + told_to_self [ef] \<and>
   map_option sb_events (re_sidecar (apply_effect w rc ef r)) =
     map_option (\<lambda>b. sb_events b @ emitted [ef]) (re_sidecar r) \<and>
   ov_mcap (re_seen (apply_effect w rc ef r)) = map_option (\<lambda>rows. rows @ map MR_Event (emitted [ef])) (ov_mcap (re_seen r))"
  by (cases ef) (auto simp: Let_def case_prod_unfold plan_for_def store_shared_plan_def self_send_def
      plane_send_def set_mcap_def option.map_comp comp_def push_event_def write_row_def
      mark_reset_unverified_def mark_post_reset_failed_def option.map_ident)

lemma effect_lists_append:
  "emitted (ef # efs) = emitted [ef] @ emitted efs" "requested (ef # efs) = requested [ef] @ requested efs"
  "told_to_self (ef # efs) = told_to_self [ef] + told_to_self efs"
  by (cases ef; simp)+

lemma apply_effects_outputs:
  "re_plane (fold (apply_effect w rc) efs r) =
     re_plane r @ (if rc_has_plane rc then map PL_Event (emitted efs) else []) \<and>
   re_verbs (fold (apply_effect w rc) efs r) = re_verbs r @ requested efs \<and>
   length (re_sent (fold (apply_effect w rc) efs r)) = length (re_sent r) + told_to_self efs \<and>
   map_option sb_events (re_sidecar (fold (apply_effect w rc) efs r)) =
     map_option (\<lambda>b. sb_events b @ emitted efs) (re_sidecar r) \<and>
   ov_mcap (re_seen (fold (apply_effect w rc) efs r)) =
     map_option (\<lambda>rows. rows @ map MR_Event (emitted efs)) (ov_mcap (re_seen r))"
proof (induction efs arbitrary: r)
  case Nil
  show ?case by (simp add: option.map_ident)
next
  case (Cons ef efs)
  let ?r = "apply_effect w rc ef r"
  note one = apply_effect_outputs [where w=w and rc=rc and ef=ef and r=r] and rest = Cons [of ?r]
  have events: "map_option (\<lambda>b. sb_events b @ emitted efs) (re_sidecar ?r) =
      map_option (\<lambda>b. sb_events b @ emitted (ef # efs)) (re_sidecar r)"
  proof -
    have "map_option (\<lambda>b. sb_events b @ emitted efs) (re_sidecar ?r) =
        map_option (\<lambda>es. es @ emitted efs) (map_option sb_events (re_sidecar ?r))"
      by (simp add: option.map_comp comp_def)
    also have "\<dots> = map_option (\<lambda>es. es @ emitted efs) (map_option (\<lambda>b. sb_events b @ emitted [ef]) (re_sidecar r))"
      using one by simp
    also have "\<dots> = map_option (\<lambda>b. sb_events b @ emitted (ef # efs)) (re_sidecar r)"
      unfolding effect_lists_append(1) [of ef efs] by (simp add: option.map_comp comp_def)
    finally show ?thesis .
  qed
  have rows: "map_option (\<lambda>rows. rows @ map MR_Event (emitted efs)) (ov_mcap (re_seen ?r)) =
      map_option (\<lambda>rows. rows @ map MR_Event (emitted (ef # efs))) (ov_mcap (re_seen r))"
    unfolding effect_lists_append(1) [of ef efs] using one by (simp add: option.map_comp comp_def)
  show ?case
    using one rest events rows effect_lists_append [of ef efs] by simp
qed

end
