(* ===== verification/Waddle_Loop.thy ===== *)
theory Waddle_Loop
  imports Waddle_Runtime
begin

text \<open>
  What a step of the reducer puts out and what it records (\<^verbatim>\<open>waddle-runtime/src/reducer.rs\<close>):
  effects leave in order and once, timers fire when due, and an episode that ends leaves exactly
  one sidecar with its outcome and all its events.
\<close>

subsection \<open>Outputs\<close>

text \<open>The queues a step appends to.\<close>

definition outputs :: "reducer \<Rightarrow> plane_msg list \<times> verb list \<times> injected list \<times> ack_group list" where
  "outputs r = (re_plane r, re_verbs r, re_sent r, re_acks r)"

lemma outputs_io [simp]:
  "outputs (snd (read_clock w r)) = outputs r" "outputs (snd (try_io w r)) = outputs r"
  "outputs (snd (mint_lease w r)) = outputs r" "outputs (set_mcap f r) = outputs r"
  "outputs (publish_mirror r) = outputs r"
  "outputs (r\<lparr>re_sidecar := x\<rparr>) = outputs r" "outputs (r\<lparr>re_files := y\<rparr>) = outputs r"
  by (simp_all add: outputs_def read_clock_def try_io_def mint_lease_def set_mcap_def publish_mirror_def Let_def)

lemma outputs_drain_all [simp]: "outputs (drain_all rc r) = outputs r"
  by (simp add: drain_all_def drain_reports_def drain_dispatches_def drain_gate_records_def outputs_def Let_def
      case_prod_unfold split: option.split)

lemma outputs_write_sidecar [simp]: "outputs (write_sidecar w rc sc r) = outputs r"
  by (simp add: write_sidecar_def case_prod_unfold Let_def) (simp add: outputs_def try_io_def)

lemma outputs_finalize [simp]: "outputs (finalize_episode_if_terminal w rc force r) = outputs r"
proof -
  have d: "outputs (drain_all rc r) = outputs r" by simp
  show ?thesis
    unfolding finalize_episode_if_terminal_def Let_def case_prod_unfold
    by (simp split: option.split sum.split)
qed

lemma outputs_open_records [simp]: "outputs (open_records_for w rc ev r) = outputs r"
proof -
  have "outputs (open_episode_records w rc i born parent pr r) = outputs r" for i born parent pr
    by (simp add: open_episode_records_def Let_def case_prod_unfold)
  then show ?thesis by (simp add: open_records_for_def split: session_event.split)
qed

lemma outputs_eqD:
  assumes "outputs r' = outputs r"
  shows "re_plane r' = re_plane r" "re_verbs r' = re_verbs r" "re_sent r' = re_sent r" "re_acks r' = re_acks r"
  using assms by (simp_all add: outputs_def)

lemma apply_effect_acks [simp]: "re_acks (apply_effect w rc ef r) = re_acks r"
  by (cases ef) (auto simp: Let_def case_prod_unfold plan_for_def store_shared_plan_def self_send_def
      plane_send_def set_mcap_def read_clock_def mint_lease_def)

lemma apply_effects_acks [simp]: "re_acks (fold (apply_effect w rc) efs r) = re_acks r"
  by (induction efs arbitrary: r) simp_all

text \<open>What recording an outcome on its acknowledgement puts on the wire.\<close>

definition ack_messages :: "reducer_config \<Rightarrow> nat option \<Rightarrow> string + unit \<Rightarrow> ack_group list \<Rightarrow> plane_msg list" where
  "ack_messages rc slot out groups =
     (case slot of
        Some k \<Rightarrow> (case fst (ack_record out (groups ! k)) of
                     Some fa \<Rightarrow> if rc_has_plane rc then [PL_Ack fa] else []
                   | None \<Rightarrow> [])
      | None \<Rightarrow> [])"

lemma record_ack_outputs:
  "re_plane (record_ack rc slot out r) = re_plane r @ ack_messages rc slot out (re_acks r)"
  "re_verbs (record_ack rc slot out r) = re_verbs r" "re_sent (record_ack rc slot out r) = re_sent r"
  by (auto simp: record_ack_def ack_messages_def plane_send_def Let_def case_prod_unfold split: option.splits)

lemma record_ack_armed: "re_armed (record_ack rc slot out r) = re_armed r"
  using core_record_ack [of rc slot out r] by (simp add: core_def del: core_record_ack)

text \<open>C23. Effects leave once, in order: an accepted event sends the control plane exactly the emitted
  episode events, in the machine's order and before the acknowledgement of the directive it came
  from, queues exactly the requested verbs (\<open>SEND\<close> is never dispatched), and replays the timer
  effects on the armed timers; a rejected event sends nothing but its acknowledgement and moves
  neither the machine, its timers, nor the verb queue.\<close>

theorem effects_leave_once_in_order:
  assumes "step_and_apply w rc msg r = Some r'"
  shows "case step (rc_session rc) (re_fsm r) (in_event msg) of
      Step s efs \<Rightarrow>
        re_fsm r' = s \<and> re_armed r' = fold timer_effect efs (re_armed r) \<and>
        re_plane r' = re_plane r @ (if rc_has_plane rc then map PL_Event (emitted efs) else []) @
          ack_messages rc (in_ack msg) (Inr ()) (re_acks r) \<and>
        re_verbs r' = re_verbs r @ requested efs \<and>
        length (re_sent r') = length (re_sent r) + told_to_self efs
    | Rejected reason \<Rightarrow>
        re_fsm r' = re_fsm r \<and> re_armed r' = re_armed r \<and> re_verbs r' = re_verbs r \<and> re_sent r' = re_sent r \<and>
        re_plane r' = re_plane r @ ack_messages rc (in_ack msg) (Inl reason) (re_acks r)
    | Panic \<Rightarrow> False"
proof -
  let ?r0 = "open_records_for w rc (in_event msg) r"
  have core0: "core ?r0 = core r" by simp
  then have fsm: "re_fsm ?r0 = re_fsm r" and armed: "re_armed ?r0 = re_armed r" by (simp_all add: core_def)
  have out0: "outputs ?r0 = outputs r" by simp
  note out0 = outputs_eqD [OF out0]
  show ?thesis
  proof (cases "step (rc_session rc) (re_fsm r) (in_event msg)")
    case Panic
    with assms fsm show ?thesis by (simp add: step_and_apply_def)
  next
    case (Rejected reason)
    with assms fsm have r': "r' = record_ack rc (in_ack msg) (Inl reason) ?r0" by (simp add: step_and_apply_def)
    then have "core r' = core r" by simp
    with Rejected r' out0 show ?thesis by (simp add: record_ack_outputs core_def)
  next
    case (Step s efs)
    let ?r1 = "fold (apply_effect w rc) efs (?r0\<lparr>re_fsm := s\<rparr>)"
    have "outputs (apply_step w rc s efs ?r0) = outputs ?r1" by (simp add: apply_step_def)
    note out1 = outputs_eqD [OF this]
    have "core (apply_step w rc s efs ?r0) = core (publish_mirror ?r1)" by (simp add: apply_step_def)
    then have st: "re_fsm (apply_step w rc s efs ?r0) = s"
      "re_armed (apply_step w rc s efs ?r0) = fold timer_effect efs (re_armed r)"
      by (simp_all add: core_def apply_effects_armed armed)
    from Step assms fsm have r': "r' = record_ack rc (in_ack msg) (Inr ()) (apply_step w rc s efs ?r0)"
      by (simp add: step_and_apply_def)
    then have "core r' = core (apply_step w rc s efs ?r0)" by simp
    with st have fin: "re_fsm r' = s" "re_armed r' = fold timer_effect efs (re_armed r)" by (simp_all add: core_def)
    note one = apply_effects_outputs [where w=w and rc=rc and efs=efs and r="?r0\<lparr>re_fsm := s\<rparr>"]
    have "re_plane ?r1 = re_plane r @ (if rc_has_plane rc then map PL_Event (emitted efs) else [])"
      "re_verbs ?r1 = re_verbs r @ requested efs" "length (re_sent ?r1) = length (re_sent r) + told_to_self efs"
      using one out0 by simp_all
    with Step fin show ?thesis by (simp add: r' record_ack_outputs out1 out0)
  qed
qed

text \<open>A reducer whose session runs an episode, and the builder of its record.\<close>

definition demo_builder_open :: sidecar_builder where
  "demo_builder_open = open_bounds \<lparr>mono = 5, epoch = 50\<rparr>
     (sidecar_builder_new ''e1'' ''p'' ''s'' ''r'' ''c'' [] \<lparr>monotonic_ns = 0, unix_ns = 0\<rparr> 1)"

definition demo_at :: "session_event list \<Rightarrow> reducer" where
  "demo_at evs = demo_reducer\<lparr>re_fsm := play evs, re_sidecar := Some demo_builder_open\<rparr>"

lemma demo_steps:
  "accepted (step demo_config (play (to_settle False)) (Estop 9))"
  "requested (step_effects (step demo_config (play (to_settle False)) (Estop 9))) = [V_Estop]"
  "terminal_outcome_of (after demo_config (play (to_settle False)) (Estop 9)) = Some Abort"
  by code_simp+

lemma step_and_apply_defined:
  "step (rc_session rc) (re_fsm r) (in_event msg) \<noteq> Panic \<Longrightarrow> \<exists>r'. step_and_apply w rc msg r = Some r'"
proof -
  have "core (open_records_for w rc (in_event msg) r) = core r" by simp
  then have "re_fsm (open_records_for w rc (in_event msg) r) = re_fsm r" by (simp add: core_def)
  then show "step (rc_session rc) (re_fsm r) (in_event msg) \<noteq> Panic \<Longrightarrow> ?thesis"
    by (cases "step (rc_session rc) (re_fsm r) (in_event msg)") (simp_all add: step_and_apply_def)
qed

lemma demo_estop:
  obtains r' where "step_and_apply demo_world demo_rc (injected_from (Estop 9)) (demo_at (to_settle False)) = Some r'"
    "step (rc_session demo_rc) (re_fsm (demo_at (to_settle False))) (in_event (injected_from (Estop 9))) =
       Step (after demo_config (play (to_settle False)) (Estop 9)) (step_effects (step demo_config (play (to_settle False)) (Estop 9)))"
proof -
  have "step (rc_session demo_rc) (re_fsm (demo_at (to_settle False))) (in_event (injected_from (Estop 9))) =
      Step (after demo_config (play (to_settle False)) (Estop 9)) (step_effects (step demo_config (play (to_settle False)) (Estop 9)))"
    using accepted_step [OF demo_steps(1)] by (simp add: demo_at_def demo_rc_def injected_from_def)
  with step_and_apply_defined that show ?thesis by (metis step_result.distinct(3))
qed

theorem effects_leave_once_in_order_witness:
  "\<exists>r'. step_and_apply demo_world demo_rc (injected_from (Estop 9)) (demo_at (to_settle False)) = Some r' \<and>
     re_verbs r' = [V_Estop]"
proof -
  obtain r' where r': "step_and_apply demo_world demo_rc (injected_from (Estop 9)) (demo_at (to_settle False)) = Some r'"
    "step (rc_session demo_rc) (re_fsm (demo_at (to_settle False))) (in_event (injected_from (Estop 9))) =
       Step (after demo_config (play (to_settle False)) (Estop 9)) (step_effects (step demo_config (play (to_settle False)) (Estop 9)))"
    using demo_estop by blast
  have "re_verbs (demo_at (to_settle False)) = []" by (simp add: demo_at_def demo_reducer_def reducer_new_def)
  with effects_leave_once_in_order [OF r'(1)] r' demo_steps(2) show ?thesis by simp
qed

subsection \<open>The record of an episode\<close>

text \<open>What identifies the open builder and fixes whether it can be finished.\<close>

definition builder_id :: "sidecar_builder \<Rightarrow> episode_id \<times> stamp option" where
  "builder_id b = (sb_episode_id b, sb_bounds_start b)"

lemma close_id [simp]:
  "builder_id (close_lease t b) = builder_id b" "builder_id (close_provenance t b) = builder_id b"
  "builder_id (close_intervention t b) = builder_id b" "builder_id (close_bounds s b) = builder_id b"
  by (auto simp: builder_id_def close_bounds_def close_defs split: option.splits)

lemma set_outcome_id [simp]: "builder_id (set_outcome out d b) = builder_id b"
  by (simp add: builder_id_def set_outcome_def)

lemma on_payload_id [simp]: "builder_id (on_payload t p b) = builder_id b"
proof -
  have upd: "builder_id (b\<lparr>sb_claims := x\<rparr>) = builder_id b" "builder_id (b\<lparr>sb_open_claims := y\<rparr>) = builder_id b"
    "builder_id (b\<lparr>sb_open_lease := z\<rparr>) = builder_id b" "builder_id (b\<lparr>sb_open_provenance := u\<rparr>) = builder_id b"
    "builder_id (b\<lparr>sb_open_intervention := v\<rparr>) = builder_id b" "builder_id (b\<lparr>sb_post_reset_start_ns := s\<rparr>) = builder_id b"
    "builder_id (b\<lparr>sb_post_reset_end_ns := s\<rparr>) = builder_id b" "builder_id (b\<lparr>sb_post_reset_result := q\<rparr>) = builder_id b"
    for b x y z u v s q
    by (simp_all add: builder_id_def)
  have cl: "builder_id (on_claim t k c b) = builder_id b" for k c
    by (cases k) (simp_all add: upd split: option.splits prod.splits)
  show ?thesis
    by (cases p) (simp_all add: cl upd on_lease_def on_intervention_def on_gate_def on_state_def Let_def split: option.splits)
qed

lemma builder_effect_id:
  "map_option builder_id (re_sidecar (apply_effect w rc ef r)) = map_option builder_id (re_sidecar r)"
proof -
  have "builder_id (push_event e b) = builder_id b" for e b
    by (simp add: push_event_def Let_def) (simp add: builder_id_def [of "b\<lparr>sb_events := x\<rparr>" for x b]
        builder_id_def [of "on_payload t p b" for t p b, symmetric])
  moreover have "builder_id (mark_reset_unverified b) = builder_id b" "builder_id (mark_post_reset_failed b) = builder_id b" for b
    by (simp_all add: builder_id_def mark_reset_unverified_def mark_post_reset_failed_def)
  ultimately show ?thesis
    by (cases ef) (simp_all add: Let_def case_prod_unfold plan_for_def store_shared_plan_def self_send_def
        plane_send_def set_mcap_def option.map_comp comp_def)
qed

lemma builder_effects_id:
  "map_option builder_id (re_sidecar (fold (apply_effect w rc) efs r)) = map_option builder_id (re_sidecar r)"
  by (induction efs arbitrary: r) (simp_all add: builder_effect_id)

lemma apply_effect_written [simp]:
  "re_sidecars (apply_effect w rc ef r) = re_sidecars r" "re_manifest (apply_effect w rc ef r) = re_manifest r"
  "re_files (apply_effect w rc ef r) = re_files r"
  by (cases ef; auto simp: Let_def case_prod_unfold plan_for_def store_shared_plan_def self_send_def
      plane_send_def set_mcap_def read_clock_def mint_lease_def)+

lemma apply_effects_written [simp]:
  "re_sidecars (fold (apply_effect w rc) efs r) = re_sidecars r"
  "re_manifest (fold (apply_effect w rc) efs r) = re_manifest r"
  "re_files (fold (apply_effect w rc) efs r) = re_files r"
  by (induction efs arbitrary: r) simp_all

lemma drain_all_records [simp]:
  "re_sidecar (drain_all rc r) = re_sidecar r" "re_sidecars (drain_all rc r) = re_sidecars r"
  "re_manifest (drain_all rc r) = re_manifest r" "re_files (drain_all rc r) = re_files r"
  "re_fsm (drain_all rc r) = re_fsm r"
  by (simp_all add: drain_all_def drain_reports_def drain_dispatches_def drain_gate_records_def Let_def
      case_prod_unfold split: option.split)

lemma publish_mirror_written [simp]:
  "re_sidecars (publish_mirror r) = re_sidecars r" "re_manifest (publish_mirror r) = re_manifest r"
  "re_files (publish_mirror r) = re_files r"
  by (simp_all add: publish_mirror_def Let_def)

lemma record_ack_written [simp]:
  "re_sidecars (record_ack rc slot out r) = re_sidecars r" "re_manifest (record_ack rc slot out r) = re_manifest r"
  "re_sidecar (record_ack rc slot out r) = re_sidecar r" "re_seen (record_ack rc slot out r) = re_seen r"
  by (auto simp: record_ack_def plane_send_def Let_def case_prod_unfold split: option.splits)

lemma builder_finish_record:
  assumes "sb_bounds_start b \<noteq> None"
  obtains sc where "builder_finish digest b = Inr sc" "sc_episode_id sc = sb_episode_id b"
    "sc_outcome sc = sb_outcome b" "sc_events sc = sb_events b"
proof -
  have fr: "sb_episode_id (finished_tables b) = sb_episode_id b" "sb_outcome (finished_tables b) = sb_outcome b"
    "sb_events (finished_tables b) = sb_events b"
    by (auto simp: finished_tables_def close_claims_def close_defs split: option.splits)
  with assms that show ?thesis
    by (auto simp: builder_finish_def Let_def finished_tables_def)
qed

lemma finalize_writes:
  assumes "re_sidecar r = Some b" "sb_bounds_start b \<noteq> None" "rc_recording rc" "\<And>n. w_io w n"
    and "terminal_outcome_of (re_fsm r) \<noteq> None \<or> force"
  obtains sc where
    "re_sidecar (finalize_episode_if_terminal w rc force r) = None"
    "ov_mcap (re_seen (finalize_episode_if_terminal w rc force r)) = None"
    "re_sidecars (finalize_episode_if_terminal w rc force r) = re_sidecars r @ [sc]"
    "re_manifest (finalize_episode_if_terminal w rc force r) = re_manifest r @ [sc]"
    "sc_episode_id sc = sb_episode_id b" "sc_events sc = sb_events b"
    "sc_outcome sc = (case terminal_outcome_of (re_fsm r) of Some out \<Rightarrow> terminal_outcome_to_pb out | None \<Rightarrow> sb_outcome b)"
proof -
  let ?out = "terminal_outcome_of (re_fsm r)"
  let ?r1 = "(drain_all rc r)\<lparr>re_sidecar := None\<rparr>"
  let ?b = "close_bounds (fst (read_clock w ?r1)) (case ?out of Some out \<Rightarrow> set_outcome out [] b | None \<Rightarrow> b)"
  have "builder_id ?b = builder_id b" by (simp split: option.split)
  then have idb: "sb_episode_id ?b = sb_episode_id b" "sb_bounds_start ?b \<noteq> None"
    using assms(2) by (simp_all add: builder_id_def)
  have evb: "sb_events ?b = sb_events b"
    "sb_outcome ?b = (case ?out of Some out \<Rightarrow> terminal_outcome_to_pb out | None \<Rightarrow> sb_outcome b)"
    by (auto simp: close_bounds_def close_defs set_outcome_def split: option.split)
  from builder_finish_record [OF idb(2), of "rc_digest rc"] obtain sc where sc:
    "builder_finish (rc_digest rc) ?b = Inr sc" "sc_episode_id sc = sb_episode_id ?b"
    "sc_outcome sc = sb_outcome ?b" "sc_events sc = sb_events ?b" by blast
  let ?r2 = "snd (try_io w (snd (try_io w (snd (read_clock w ?r1)))))"
  let ?r3 = "?r2\<lparr>re_sidecars := re_sidecars r @ [sc], re_manifest := re_manifest r @ [sc]\<rparr>"
  have ws: "write_sidecar w rc sc (snd (read_clock w ?r1)) = ?r3"
    using assms(3,4) by (simp add: write_sidecar_def try_io_def read_clock_def)
  have some: "re_sidecar (drain_all rc r) = Some b" and go: "\<not> (?out = None \<and> \<not> force)"
    using assms(1,5) by auto
  have "finalize_episode_if_terminal w rc force r =
      (case ov_mcap (re_seen ?r3) of None \<Rightarrow> ?r3 | Some rows \<Rightarrow> set_mcap None (?r3\<lparr>re_files := re_files ?r3 @ [rows]\<rparr>))"
    unfolding finalize_episode_if_terminal_def Let_def case_prod_unfold some option.case(2) sc(1) sum.case(2) ws
    by (simp only: go if_False)
  with sc idb evb show ?thesis
    by (intro that [of sc]) (auto simp: set_mcap_def try_io_def read_clock_def split: option.splits)
qed

lemma finalize_skips:
  "terminal_outcome_of (re_fsm r) = None \<Longrightarrow> finalize_episode_if_terminal w rc False r = r"
  by (simp add: finalize_episode_if_terminal_def)

lemma accepted_effects_builder:
  assumes "re_sidecar r = Some b"
  obtains b' where "re_sidecar (fold (apply_effect w rc) efs (r\<lparr>re_fsm := s\<rparr>)) = Some b'"
    "sb_events b' = sb_events b @ emitted efs" "builder_id b' = builder_id b"
  using apply_effects_outputs [where w=w and rc=rc and efs=efs and r="r\<lparr>re_fsm := s\<rparr>"]
    builder_effects_id [where w=w and rc=rc and efs=efs and r="r\<lparr>re_fsm := s\<rparr>"] assms that
  by auto

text \<open>C24. An episode that ends leaves one sidecar: when an accepted event (not an open) leaves the
  episode terminal while its record is open, exactly one sidecar is written and listed in the
  manifest, with the episode's id, the terminal outcome, and every event recorded before followed by
  the events of this step; the record and the log are closed. As long as the episode is not
  terminal, nothing is written and the events are only appended.\<close>

theorem ended_episode_leaves_one_sidecar:
  assumes "step_and_apply w rc msg r = Some r'" "step (rc_session rc) (re_fsm r) (in_event msg) = Step s efs"
    and "\<not> opens (in_event msg)" "re_sidecar r = Some b" "sb_bounds_start b \<noteq> None"
    and "rc_recording rc" "\<And>n. w_io w n"
  shows "case terminal_outcome_of s of
      Some out \<Rightarrow>
        re_sidecar r' = None \<and> ov_mcap (re_seen r') = None \<and>
        (\<exists>sc. re_sidecars r' = re_sidecars r @ [sc] \<and> re_manifest r' = re_manifest r @ [sc] \<and>
           sc_episode_id sc = sb_episode_id b \<and> sc_outcome sc = terminal_outcome_to_pb out \<and>
           sc_events sc = sb_events b @ emitted efs)
    | None \<Rightarrow>
        re_sidecars r' = re_sidecars r \<and>
        (\<exists>b'. re_sidecar r' = Some b' \<and> sb_episode_id b' = sb_episode_id b \<and> sb_events b' = sb_events b @ emitted efs)"
proof -
  have "open_records_for w rc (in_event msg) r = r"
    using assms(3) by (cases "in_event msg") (simp_all add: open_records_for_def)
  with assms(1,2) have r': "r' = record_ack rc (in_ack msg) (Inr ()) (apply_step w rc s efs r)"
    by (simp add: step_and_apply_def)
  let ?r1 = "publish_mirror (fold (apply_effect w rc) efs (r\<lparr>re_fsm := s\<rparr>))"
  obtain b' where b': "re_sidecar ?r1 = Some b'" "sb_events b' = sb_events b @ emitted efs" "builder_id b' = builder_id b"
    using accepted_effects_builder [OF assms(4), of w rc efs s] by auto
  then have id': "sb_episode_id b' = sb_episode_id b" "sb_bounds_start b' \<noteq> None"
    using assms(5) by (simp_all add: builder_id_def)
  show ?thesis
  proof (cases "terminal_outcome_of s")
    case None
    then have "apply_step w rc s efs r = ?r1" by (simp add: apply_step_def finalize_skips)
    with r' b' id' None show ?thesis by simp
  next
    case (Some out)
    then have t: "terminal_outcome_of (re_fsm ?r1) = Some out" by simp
    then have "terminal_outcome_of (re_fsm ?r1) \<noteq> None \<or> False" by simp
    from finalize_writes [OF b'(1) id'(2) assms(6,7) this] obtain sc where sc:
      "re_sidecar (finalize_episode_if_terminal w rc False ?r1) = None"
      "ov_mcap (re_seen (finalize_episode_if_terminal w rc False ?r1)) = None"
      "re_sidecars (finalize_episode_if_terminal w rc False ?r1) = re_sidecars ?r1 @ [sc]"
      "re_manifest (finalize_episode_if_terminal w rc False ?r1) = re_manifest ?r1 @ [sc]"
      "sc_episode_id sc = sb_episode_id b'" "sc_events sc = sb_events b'"
      "sc_outcome sc = (case terminal_outcome_of (re_fsm ?r1) of
         Some out \<Rightarrow> terminal_outcome_to_pb out | None \<Rightarrow> sb_outcome b')" by blast
    have "r' = record_ack rc (in_ack msg) (Inr ()) (finalize_episode_if_terminal w rc False ?r1)"
      using r' by (simp only: apply_step_def)
    with sc t Some b'(2) id'(1) show ?thesis by simp
  qed
qed

theorem ended_episode_leaves_one_sidecar_witness:
  "\<exists>r' sc. step_and_apply demo_world demo_rc (injected_from (Estop 9)) (demo_at (to_settle False)) = Some r' \<and>
     re_sidecar r' = None \<and> re_sidecars r' = [sc] \<and> sc_episode_id sc = ''e1'' \<and> sc_outcome sc = terminal_outcome_to_pb Abort"
proof -
  obtain r' where r': "step_and_apply demo_world demo_rc (injected_from (Estop 9)) (demo_at (to_settle False)) = Some r'"
    "step (rc_session demo_rc) (re_fsm (demo_at (to_settle False))) (in_event (injected_from (Estop 9))) =
       Step (after demo_config (play (to_settle False)) (Estop 9)) (step_effects (step demo_config (play (to_settle False)) (Estop 9)))"
    using demo_estop by blast
  have d: "re_sidecars (demo_at (to_settle False)) = []" "re_sidecar (demo_at (to_settle False)) = Some demo_builder_open"
    "sb_bounds_start demo_builder_open \<noteq> None" "sb_episode_id demo_builder_open = ''e1''" "rc_recording demo_rc"
    "\<And>n. w_io demo_world n" "\<not> opens (in_event (injected_from (Estop 9)))"
    by (simp_all add: demo_at_def demo_reducer_def reducer_new_def demo_builder_open_def open_bounds_def Let_def
        sidecar_builder_new_def demo_rc_def demo_world_def injected_from_def)
  from ended_episode_leaves_one_sidecar [OF r' d(7) d(2) d(3) d(5) d(6)] r'(1) d(1,4) demo_steps(3) show ?thesis by auto
qed

subsection \<open>Timers\<close>

lemma fold_min_le: "fold min ds d \<le> (d::int)" "e \<in> set ds \<Longrightarrow> fold min ds d \<le> e"
proof (induction ds arbitrary: d)
  case (Cons x ds)
  { case 1 from Cons(1) [of "min x d"] show ?case by simp }
  { case 2 with Cons(1) [of "min x d"] Cons(2) [of "min x d"] show ?case by auto }
qed simp_all

lemma fold_min_ge: "z \<le> (d::int) \<Longrightarrow> \<forall>e\<in>set ds. z \<le> e \<Longrightarrow> z \<le> fold min ds d"
  by (induction ds arbitrary: d) simp_all

lemma receive_timeout_bounds:
  "0 \<le> receive_timeout_ns now armed" "receive_timeout_ns now armed \<le> 20000000"
  "e \<in> set armed \<Longrightarrow> receive_timeout_ns now armed \<le> max (i64_wrap (snd e - now)) 0"
proof -
  let ?f = "\<lambda>e. max (i64_wrap (snd e - now)) (0::int)"
  show "0 \<le> receive_timeout_ns now armed"
    by (cases armed) (auto simp: receive_timeout_ns_def intro!: fold_min_ge)
  show "receive_timeout_ns now armed \<le> 20000000"
    by (cases armed) (simp_all add: receive_timeout_ns_def)
  assume e: "e \<in> set armed"
  then obtain d ds where a: "map ?f armed = d # ds" by (cases armed) simp_all
  from e have "?f e \<in> set (map ?f armed)" by simp
  with a have "?f e \<in> set (d # ds)" by simp
  then have "fold min ds d \<le> ?f e" using fold_min_le(1) [of ds d] fold_min_le(2) [of "?f e" ds d] by auto
  with a show "receive_timeout_ns now armed \<le> ?f e" by (simp add: receive_timeout_ns_def)
qed

text \<open>What a batch of due timers does to the session machine, with all the effects of the
  expiries it accepts; and the timers some effects arm or cancel.\<close>

fun expire :: "session_config \<Rightarrow> (timer_id \<times> mono_ns) list \<Rightarrow> session_fsm \<Rightarrow> (session_fsm \<times> effect list) option" where
  "expire cfg [] s = Some (s, [])"
| "expire cfg ((i, d) # due) s =
     (case step cfg s (TimerFired i d) of
        Panic \<Rightarrow> None
      | Rejected reason \<Rightarrow> expire cfg due s
      | Step s' efs \<Rightarrow> map_option (\<lambda>(s, efs'). (s, efs @ efs')) (expire cfg due s'))"

fun moved_timer :: "effect \<Rightarrow> timer_id option" where
  "moved_timer (ArmTimer i d) = Some i"
| "moved_timer (CancelTimer i) = Some i"
| "moved_timer ef = None"

lemma timer_effect_keeps: "e \<in> set a \<Longrightarrow> moved_timer ef \<noteq> Some (fst e) \<Longrightarrow> e \<in> set (timer_effect ef a)"
  by (cases ef) (auto simp: arm_timer_def cancel_timer_def)

lemma timer_effects_keep:
  "e \<in> set a \<Longrightarrow> Some (fst e) \<notin> moved_timer ` set efs \<Longrightarrow> e \<in> set (fold timer_effect efs a)"
  by (induction efs arbitrary: a) (auto simp: timer_effect_keeps [OF _ not_sym])

lemma step_and_apply_core:
  "map_option (\<lambda>r. (re_fsm r, re_armed r)) (step_and_apply w rc msg r) =
     (case step (rc_session rc) (re_fsm r) (in_event msg) of
        Panic \<Rightarrow> None
      | Rejected reason \<Rightarrow> Some (re_fsm r, re_armed r)
      | Step s efs \<Rightarrow> Some (s, fold timer_effect efs (re_armed r)))"
proof -
  have "core (open_records_for w rc (in_event msg) r) = core r" by simp
  then have o: "re_fsm (open_records_for w rc (in_event msg) r) = re_fsm r"
    "re_armed (open_records_for w rc (in_event msg) r) = re_armed r" by (simp_all add: core_def)
  have "core (record_ack rc slot out r) = core r" for slot out r by simp
  then have a: "re_fsm (record_ack rc slot out r) = re_fsm r" "re_armed (record_ack rc slot out r) = re_armed r"
    for slot out r by (simp_all add: core_def)
  have "core (apply_step w rc s efs r) = core (publish_mirror (fold (apply_effect w rc) efs (r\<lparr>re_fsm := s\<rparr>)))"
    for s efs r by (simp add: apply_step_def)
  then have f: "re_fsm (apply_step w rc s efs r) = s" "re_armed (apply_step w rc s efs r) = fold timer_effect efs (re_armed r)"
    for s efs r by (simp_all add: core_def apply_effects_armed)
  show ?thesis by (simp add: step_and_apply_def o a f split: step_result.split)
qed

lemma fire_timers_core:
  "map_option (\<lambda>r. (re_fsm r, re_armed r)) (fire_timers w rc due r) =
     map_option (\<lambda>(s, efs). (s, fold timer_effect efs (re_armed r))) (expire (rc_session rc) due (re_fsm r))"
proof (induction due arbitrary: r)
  case (Cons t due)
  obtain i d where t: "t = (i, d)" by (cases t)
  have s: "in_event (injected_from (TimerFired i d)) = TimerFired i d" by (simp add: injected_from_def)
  note one = step_and_apply_core [where w=w and rc=rc and msg="injected_from (TimerFired i d)" and r=r, unfolded s]
  show ?case
  proof (cases "step_and_apply w rc (injected_from (TimerFired i d)) r")
    case None
    with one show ?thesis by (auto simp: t split: step_result.splits)
  next
    case (Some r1)
    with one Cons [of r1] show ?thesis
      by (auto simp: t option.map_comp comp_def case_prod_unfold split: step_result.splits)
  qed
qed simp

lemma due_timers_order:
  "sorted (map snd (due_timers now a))"
  "filter (\<lambda>e. snd e = d) (due_timers now a) = (if d \<le> now then filter (\<lambda>e. snd e = d) a else [])"
proof -
  show "sorted (map snd (due_timers now a))" by (simp add: due_timers_def)
  have "filter (\<lambda>e. snd e = d) (due_timers now a) = filter (\<lambda>e. snd e = d) (filter (\<lambda>e. snd e \<le> now) a)"
    unfolding due_timers_def by (rule sort_key_stable)
  then show "filter (\<lambda>e. snd e = d) (due_timers now a) = (if d \<le> now then filter (\<lambda>e. snd e = d) a else [])"
    by (auto simp: filter_empty_conv intro!: filter_cong)
qed

text \<open>C25. A wake reads the clock once and fires the timers that are due at that reading: in the
  order of their deadlines, timers with equal deadlines in the order they were armed, the machine
  gets exactly one expiry per armed timer whose deadline has passed and none for another. The
  timers armed afterwards are those that were not due, as the effects of these expiries then arm
  and cancel them; in particular a timer that is not due and that no such effect names stays
  armed with its deadline. The wait that follows is at most 20 ms, never negative, and never
  sleeps past a deadline.\<close>

theorem wake_fires_what_is_due:
  assumes "wake w rc r = Some (r', Some wait)" "now = mono (w_clock w (re_tick r))" "due = due_timers now (re_armed r)"
  shows "sorted (map snd due) \<and>
    (\<forall>d. filter (\<lambda>e. snd e = d) due = (if d \<le> now then filter (\<lambda>e. snd e = d) (re_armed r) else [])) \<and>
    (\<exists>efs. expire (rc_session rc) due (re_fsm r) = Some (re_fsm r', efs) \<and>
       re_armed r' = fold timer_effect efs (filter (\<lambda>e. now < snd e) (re_armed r)) \<and>
       (\<forall>e\<in>set (re_armed r). now < snd e \<and> Some (fst e) \<notin> moved_timer ` set efs \<longrightarrow> e \<in> set (re_armed r'))) \<and>
    0 \<le> wait \<and> wait \<le> 20000000 \<and> (\<forall>e\<in>set (re_armed r'). wait \<le> max (i64_wrap (snd e - now)) 0)"
proof -
  let ?c = "read_clock w (drain_all rc r)"
  let ?r0 = "uplink_turn rc now (snd ?c)"
  have now: "mono (fst ?c) = now"
    by (simp add: assms(2) read_clock_def drain_all_def drain_reports_def drain_dispatches_def
        drain_gate_records_def Let_def case_prod_unfold split: option.split)
  have "core ?r0 = core r" by simp
  then have keep: "re_fsm ?r0 = re_fsm r" "re_armed ?r0 = re_armed r" by (simp_all add: core_def)
  let ?later = "filter (\<lambda>e. now < snd e) (re_armed r)"
  let ?r1 = "?r0\<lparr>re_armed := ?later\<rparr>"
  from assms(1) have fired: "fire_timers w rc due ?r1 = Some r'" "wait = receive_timeout_ns now (re_armed r')"
    by (auto simp: wake_def Let_def case_prod_unfold keep now assms(3) split: if_splits)
  obtain efs where efs: "expire (rc_session rc) due (re_fsm r) = Some (re_fsm r', efs)"
    "re_armed r' = fold timer_effect efs ?later"
    using fire_timers_core [where w=w and rc=rc and due=due and r="?r1"] fired(1) keep(1)
    by (cases "expire (rc_session rc) due (re_fsm r)") auto
  moreover have "e \<in> set (re_armed r')"
    if "e \<in> set (re_armed r)" "now < snd e" "Some (fst e) \<notin> moved_timer ` set efs" for e
    unfolding efs(2) by (rule timer_effects_keep) (use that in simp_all)
  ultimately show ?thesis
    using due_timers_order [where now = now and a = "re_armed r"] fired(2) receive_timeout_bounds
    unfolding assms(3) by blast
qed

definition demo_armed :: reducer where
  "demo_armed = demo_reducer\<lparr>re_armed := [(EngageTimeout, 900), (HeartbeatStale, 0)]\<rparr>"

lemma demo_expiry: "expire demo_config [(HeartbeatStale, 0)] (session_new demo_config) = Some (session_new demo_config, [])"
  by code_simp

theorem wake_fires_what_is_due_witness:
  "\<exists>r' wait. wake demo_world demo_rc demo_armed = Some (r', Some wait) \<and> re_armed r' = [(EngageTimeout, 900)] \<and>
     0 \<le> wait \<and> wait \<le> 20000000"
proof -
  have core: "core (drain_all demo_rc demo_armed) = core demo_armed"
    "core (uplink_turn demo_rc n (snd (read_clock demo_world (drain_all demo_rc demo_armed)))) = core demo_armed" for n
    by (simp_all only: core_uplink core_io core_drain_all)
  have d: "re_armed demo_armed = [(EngageTimeout, 900), (HeartbeatStale, 0)]" "\<not> su_shutdown (re_status demo_armed)"
    "re_fsm demo_armed = session_new demo_config" "rc_session demo_rc = demo_config" "re_tick demo_armed = 0"
    by (simp_all add: demo_armed_def demo_reducer_def reducer_new_def status_default_def demo_rc_def)
  have now: "mono (w_clock demo_world (re_tick demo_armed)) = 0"
    by (simp add: d demo_world_def)
  have due: "due_timers 0 (re_armed demo_armed) = [(HeartbeatStale, 0)]"
    by (simp add: d due_timers_def)
  let ?r0 = "uplink_turn demo_rc 0 (snd (read_clock demo_world (drain_all demo_rc demo_armed)))"
  have clk: "mono (fst (read_clock demo_world (drain_all demo_rc demo_armed))) = 0"
    by (simp add: read_clock_def drain_all_def drain_reports_def drain_dispatches_def
        drain_gate_records_def Let_def case_prod_unfold d(5) demo_world_def split: option.split)
  have keep: "re_fsm ?r0 = session_new demo_config" "re_armed ?r0 = re_armed demo_armed"
    "su_shutdown (re_status (drain_all demo_rc demo_armed)) = su_shutdown (re_status demo_armed)"
    using core d(3) by (simp_all add: core_def)
  obtain r' where "fire_timers demo_world demo_rc [(HeartbeatStale, 0)]
      (?r0\<lparr>re_armed := filter (\<lambda>e. 0 < snd e) (re_armed ?r0)\<rparr>) = Some r'"
    using fire_timers_core [of demo_world demo_rc "[(HeartbeatStale, 0)]"
        "?r0\<lparr>re_armed := filter (\<lambda>e. 0 < snd e) (re_armed ?r0)\<rparr>"] demo_expiry keep(1) d(4)
    by (auto simp del: expire.simps fire_timers.simps)
  then obtain wait where w: "wake demo_world demo_rc demo_armed = Some (r', Some wait)"
    using keep d(2) due
    by (simp add: wake_def Let_def case_prod_unfold clk del: expire.simps fire_timers.simps)
  from wake_fires_what_is_due [OF w refl refl] show ?thesis
    unfolding now due d(3,4) demo_expiry using w by (auto simp: d(1))
qed

subsection \<open>An open that is refused\<close>

text \<open>The records of an episode are opened before the machine answers: a refused open closes the
  record of the episode that is running, without an outcome, and starts one under the refused id.\<close>

lemma refused_open_replaces_the_record:
  assumes "step (rc_session rc) (re_fsm r) (EpisodeOpen i ver born par pr pre post invite t) = Rejected reason"
    and "step_and_apply w rc (injected_from (EpisodeOpen i ver born par pr pre post invite t)) r = Some r'"
    and "re_sidecar r = Some b" "sb_bounds_start b \<noteq> None" "terminal_outcome_of (re_fsm r) = None"
    and "rc_recording rc" "\<And>n. w_io w n"
  shows "(\<exists>b'. re_sidecar r' = Some b' \<and> sb_episode_id b' = i \<and> sb_events b' = []) \<and>
    (\<exists>sc. re_sidecars r' = re_sidecars r @ [sc] \<and> sc_episode_id sc = sb_episode_id b \<and>
       sc_events sc = sb_events b \<and> sc_outcome sc = sb_outcome b)"
proof -
  let ?r1 = "finalize_episode_if_terminal w rc True r"
  have "terminal_outcome_of (re_fsm r) \<noteq> None \<or> True" by simp
  from finalize_writes [OF assms(3,4,6,7) this] obtain sc where sc:
    "re_sidecars ?r1 = re_sidecars r @ [sc]" "sc_episode_id sc = sb_episode_id b" "sc_events sc = sb_events b"
    "sc_outcome sc = (case terminal_outcome_of (re_fsm r) of Some out \<Rightarrow> terminal_outcome_to_pb out | None \<Rightarrow> sb_outcome b)"
    by blast
  have opened: "re_sidecars (open_episode_records w rc i born par pr r) = re_sidecars ?r1"
    "\<exists>b'. re_sidecar (open_episode_records w rc i born par pr r) = Some b' \<and> sb_episode_id b' = i \<and> sb_events b' = []"
    by (auto simp: open_episode_records_def Let_def case_prod_unfold set_mcap_def try_io_def read_clock_def
        set_post_reset_declared_def set_born_claimed_def open_bounds_def set_task_metadata_def set_retake_def
        sidecar_builder_new_def split: option.split)
  have "core (open_episode_records w rc i born par pr r) = core r"
    using core_open_records [where w=w and rc=rc and ev="EpisodeOpen i ver born par pr pre post invite t" and r=r]
    by (simp add: open_records_for_def)
  then have "re_fsm (open_episode_records w rc i born par pr r) = re_fsm r" by (simp add: core_def)
  with assms(1,2) have "r' = record_ack rc None (Inl reason) (open_episode_records w rc i born par pr r)"
    by (simp add: step_and_apply_def open_records_for_def injected_from_def)
  with opened sc assms(5) show ?thesis by simp
qed

end
