(* ===== verification/Waddle_Inbox.thy ===== *)
theory Waddle_Inbox
  imports Waddle_Types Waddle_Buffers
begin

text \<open>
  The bounded inboxes for connection-scoped replies (\<^verbatim>\<open>waddle-runtime/src/chat.rs\<close>,
  \<^verbatim>\<open>plane_events.rs\<close>): requests outstanding, acceptance of events by identity,
  sequence and size, the trimmed tails a local client polls, and the timed wait they share with
  the status mirror (\<^verbatim>\<open>mirror.rs\<close>). Condition variables are left out: a turn of
  the wait says whether to return, and otherwise for how long to sleep. Texts are byte strings;
  the code truncates a detail by characters, which for ASCII is the same.
\<close>

subsection \<open>Bounded tails\<close>

text \<open>\<^verbatim>\<open>while len > cap { pop_front }\<close>.\<close>

definition trim :: "nat \<Rightarrow> 'a list \<Rightarrow> 'a list" where
  "trim cap xs = drop (length xs - cap) xs"

lemma trim_newest: "trim cap xs = newest cap xs"
  by (simp add: trim_def newest_def)

lemma newest_newest: "newest n (newest n xs @ ys) = newest n (xs @ ys)"
  by (cases "length xs \<le> n") (auto simp: newest_def add.commute)

definition u64_saturating_add :: "u64 \<Rightarrow> u64 \<Rightarrow> u64" where
  "u64_saturating_add a b = (if unat a + unat b < 2 ^ 64 then a + b else - 1)"

subsection \<open>Timed waits\<close>

text \<open>The deadline of a wait, and one turn: the result, or how many nanoseconds to sleep. The
  remaining time is a signed difference cast to \<open>u64\<close>.\<close>

definition wait_deadline :: "mono_ns \<Rightarrow> nat \<Rightarrow> int" where
  "wait_deadline now timeout_ns = i64_sat (now + (if int timeout_ns \<le> i64_max then int timeout_ns else i64_max))"

definition wait_turn :: "int \<Rightarrow> nat \<Rightarrow> mono_ns \<Rightarrow> 'a list \<Rightarrow> 'a list + nat" where
  "wait_turn deadline timeout_ns now found =
     (if found \<noteq> [] \<or> timeout_ns = 0 then Inl found
      else let remaining = i64_sat (deadline - now) in
           if remaining = 0 then Inl [] else Inr (nat (remaining mod 2 ^ 64)))"

theorem wait_within_deadline_sleeps_until_it:
  "in_i64 deadline \<Longrightarrow> in_i64 now \<Longrightarrow> 0 \<le> now \<Longrightarrow> now < deadline \<Longrightarrow> 0 < timeout \<Longrightarrow>
   wait_turn deadline timeout now [] = Inr (nat (deadline - now))"
  by (auto simp: wait_turn_def Let_def i64_sat_def in_i64_def i64_min_def i64_max_def)

text \<open>A wait whose deadline has already passed does not return: it sleeps for the centuries a
  negative remainder reads as.\<close>

theorem overdue_wait_sleeps_for_centuries:
  assumes "0 \<le> deadline" "deadline < now" "in_i64 now" "0 < timeout"
  shows "\<exists>ns. wait_turn deadline timeout now [] = (Inr ns :: 'a list + nat) \<and> 9223372036854775807 < ns"
proof -
  have r: "i64_sat (deadline - now) = deadline - now" "deadline - now < 0" "- (2 ^ 63) \<le> deadline - now"
    using assms by (auto simp: i64_sat_def in_i64_def i64_min_def i64_max_def)
  have "(deadline - now) mod 2 ^ 64 = (deadline - now + 2 ^ 64) mod 2 ^ 64" by simp
  also have "\<dots> = deadline - now + 2 ^ 64" using r(2,3) by (intro mod_pos_pos_trivial) auto
  finally have m: "(deadline - now) mod 2 ^ 64 = deadline - now + 2 ^ 64" .
  have "deadline - now \<noteq> 0" using r(2) by simp
  then have "wait_turn deadline timeout now [] = (Inr (nat (deadline - now + 2 ^ 64)) :: 'a list + nat)"
    using r(1) assms(4) m by (simp add: wait_turn_def)
  moreover have "9223372036854775807 < nat (deadline - now + 2 ^ 64)"
    using r(3) by (simp add: zless_nat_conj)
  ultimately show ?thesis by blast
qed

subsection \<open>Chat\<close>

definition chat_event_text_max :: nat where "chat_event_text_max = 16384"
definition chat_event_detail_max :: nat where "chat_event_detail_max = 1024"
definition chat_event_capacity :: nat where "chat_event_capacity = 128"

record chat_event =
  ce_request_id :: string
  ce_sequence :: u64
  ce_kind :: int
  ce_text :: string
  ce_detail :: string

record chat_pending =
  cp_request_id :: string
  cp_last_sequence :: u64

record chat_inbox =
  ci_pending :: "chat_pending option"
  ci_events :: "chat_event list"

text \<open>Wire kinds: 1 accepted, 2 text, 3 done, 4 unavailable, 5 error.\<close>

definition chat_kind_known :: "int \<Rightarrow> bool" where
  "chat_kind_known k \<longleftrightarrow> 0 \<le> k \<and> k \<le> 5"

definition chat_terminal :: "int \<Rightarrow> bool" where
  "chat_terminal k \<longleftrightarrow> 3 \<le> k \<and> k \<le> 5"

definition chat_new :: chat_inbox where
  "chat_new = \<lparr>ci_pending = None, ci_events = []\<rparr>"

definition chat_begin :: "string \<Rightarrow> chat_inbox \<Rightarrow> (string + unit) \<times> chat_inbox" where
  "chat_begin i s =
     (if ci_pending s \<noteq> None then (Inl ''a chat turn is already outstanding for this session'', s)
      else (Inr (), s\<lparr>ci_pending := Some \<lparr>cp_request_id = i, cp_last_sequence = 0\<rparr>\<rparr>))"

definition chat_accepts :: "chat_pending \<Rightarrow> chat_event \<Rightarrow> bool" where
  "chat_accepts p e \<longleftrightarrow>
     \<not> (ce_request_id e \<noteq> cp_request_id p \<or> ce_sequence e \<le> cp_last_sequence p \<or>
        chat_event_text_max < length (ce_text e) \<or> chat_event_detail_max < length (ce_detail e) \<or>
        \<not> chat_kind_known (ce_kind e) \<or> ce_kind e = 0)"

definition chat_push :: "chat_event \<Rightarrow> chat_inbox \<Rightarrow> chat_inbox" where
  "chat_push e s =
     (case ci_pending s of
        None \<Rightarrow> s
      | Some p \<Rightarrow>
          if \<not> chat_accepts p e then s
          else \<lparr>ci_pending = (if chat_terminal (ce_kind e) then None else Some (p\<lparr>cp_last_sequence := ce_sequence e\<rparr>)),
                ci_events = trim chat_event_capacity (ci_events s @ [e])\<rparr>)"

definition chat_unavailable :: "string \<Rightarrow> chat_inbox \<Rightarrow> chat_inbox" where
  "chat_unavailable detail s =
     (case ci_pending s of
        None \<Rightarrow> s
      | Some p \<Rightarrow>
          \<lparr>ci_pending = None,
           ci_events = trim chat_event_capacity (ci_events s @
             [\<lparr>ce_request_id = cp_request_id p, ce_sequence = u64_saturating_add (cp_last_sequence p) 1,
               ce_kind = 4, ce_text = [], ce_detail = take chat_event_detail_max detail\<rparr>])\<rparr>)"

definition chat_found :: "string \<Rightarrow> u64 \<Rightarrow> chat_inbox \<Rightarrow> chat_event list" where
  "chat_found i after_sequence s =
     filter (\<lambda>e. ce_request_id e = i \<and> after_sequence < ce_sequence e) (ci_events s)"

text \<open>The events a turn takes: in order, up to and including the first terminal one.\<close>

fun chat_taken :: "chat_event list \<Rightarrow> chat_pending \<Rightarrow> chat_event list" where
  "chat_taken [] p = []"
| "chat_taken (e # es) p =
     (if \<not> chat_accepts p e then chat_taken es p
      else if chat_terminal (ce_kind e) then [e]
      else e # chat_taken es (p\<lparr>cp_last_sequence := ce_sequence e\<rparr>))"

lemma chat_pushes_idle: "ci_pending s = None \<Longrightarrow> fold chat_push es s = s"
  by (induction es) (simp_all add: chat_push_def)

lemma chat_pushes_events:
  "ci_pending s = Some p \<Longrightarrow> newest chat_event_capacity (ci_events s) = ci_events s \<Longrightarrow>
   ci_events (fold chat_push es s) = newest chat_event_capacity (ci_events s @ chat_taken es p)"
proof (induction es arbitrary: s p)
  case (Cons e es)
  show ?case
  proof (cases "chat_accepts p e \<and> \<not> chat_terminal (ce_kind e)")
    case True
    let ?s = "chat_push e s"
    have s: "ci_pending ?s = Some (p\<lparr>cp_last_sequence := ce_sequence e\<rparr>)"
      "ci_events ?s = newest chat_event_capacity (ci_events s @ [e])"
      using True Cons.prems by (simp_all add: chat_push_def trim_newest)
    have "newest chat_event_capacity (ci_events ?s) = ci_events ?s"
      unfolding s(2) using newest_newest [of chat_event_capacity "ci_events s @ [e]" "[]"] by simp
    from Cons.IH [OF s(1) this] True show ?thesis
      unfolding s(2) by (simp add: newest_newest)
  next
    case False
    show ?thesis
    proof (cases "chat_accepts p e")
      case True
      let ?s = "chat_push e s"
      from True False Cons.prems have "ci_pending ?s = None" "ci_events ?s = newest chat_event_capacity (ci_events s @ [e])"
        by (simp_all add: chat_push_def trim_newest)
      with True False chat_pushes_idle [of ?s es] show ?thesis by simp
    next
      case rejected: False
      then have "chat_push e s = s" using Cons.prems by (simp add: chat_push_def)
      with rejected Cons show ?thesis by simp
    qed
  qed
qed simp

lemma chat_taken_facts:
  "sorted_wrt (<) (map ce_sequence (chat_taken es p)) \<and>
   (\<forall>e \<in> set (chat_taken es p). cp_last_sequence p < ce_sequence e \<and> ce_request_id e = cp_request_id p \<and>
      length (ce_text e) \<le> chat_event_text_max \<and> length (ce_detail e) \<le> chat_event_detail_max) \<and>
   (\<forall>e \<in> set (butlast (chat_taken es p)). \<not> chat_terminal (ce_kind e))"
proof (induction es p rule: chat_taken.induct)
  case (2 e es p)
  show ?case
  proof (cases "chat_accepts p e \<and> \<not> chat_terminal (ce_kind e)")
    case True
    let ?p = "p\<lparr>cp_last_sequence := ce_sequence e\<rparr>"
    from True have acc: "cp_last_sequence p < ce_sequence e" "ce_request_id e = cp_request_id p"
      "length (ce_text e) \<le> chat_event_text_max" "length (ce_detail e) \<le> chat_event_detail_max"
      by (simp_all add: chat_accepts_def not_le not_less)
    from True have "chat_taken (e # es) p = e # chat_taken es ?p" by simp
    moreover have "sorted_wrt (<) (map ce_sequence (chat_taken es ?p))"
      "\<forall>x \<in> set (chat_taken es ?p). ce_sequence e < ce_sequence x \<and> ce_request_id x = cp_request_id p \<and>
         length (ce_text x) \<le> chat_event_text_max \<and> length (ce_detail x) \<le> chat_event_detail_max"
      "\<forall>x \<in> set (butlast (chat_taken es ?p)). \<not> chat_terminal (ce_kind x)"
      using 2(2) True by simp_all
    ultimately show ?thesis using acc True by (simp add: less_trans [OF acc(1)])
  next
    case False
    show ?thesis
    proof (cases "chat_accepts p e")
      case True
      with False have "chat_taken (e # es) p = [e]" by simp
      with True show ?thesis by (simp add: chat_accepts_def not_le not_less)
    next
      case rejected: False
      with 2(1) show ?thesis by simp
    qed
  qed
qed simp

text \<open>A chat turn is delivered in order and once: after beginning a turn on an idle inbox,
  whatever the peer sends, the inbox holds the newest 128 of its earlier events and the events
  the turn takes; these belong to the request, have strictly increasing sequence numbers and
  bounded texts, and a terminal one is the last. Polling after a sequence number never returns an
  event at or below it.\<close>

theorem chat_turn_is_ordered:
  fixes es :: "chat_event list" and i :: string
  assumes "ci_pending s = None" "length (ci_events s) \<le> chat_event_capacity"
  defines "taken \<equiv> chat_taken es \<lparr>cp_request_id = i, cp_last_sequence = 0\<rparr>"
  shows "ci_events (fold chat_push es (snd (chat_begin i s))) = newest chat_event_capacity (ci_events s @ taken) \<and>
    sorted_wrt (<) (map ce_sequence taken) \<and>
    (\<forall>e \<in> set taken. ce_request_id e = i \<and> length (ce_text e) \<le> chat_event_text_max \<and>
       length (ce_detail e) \<le> chat_event_detail_max) \<and>
    (\<forall>e \<in> set (butlast taken). \<not> chat_terminal (ce_kind e)) \<and>
    (\<forall>e \<in> set (chat_found i n (fold chat_push es (snd (chat_begin i s)))). n < ce_sequence e)"
proof -
  let ?p = "\<lparr>cp_request_id = i, cp_last_sequence = 0\<rparr>"
  let ?s = "snd (chat_begin i s)"
  have "ci_pending ?s = Some ?p" "ci_events ?s = ci_events s"
    using assms(1) by (simp_all add: chat_begin_def)
  with chat_pushes_events [of ?s ?p es] newest_all [OF assms(2)] chat_taken_facts [of es ?p] show ?thesis
    by (auto simp: taken_def chat_found_def)
qed

definition chat_line :: "u64 \<Rightarrow> int \<Rightarrow> chat_event" where
  "chat_line n k = \<lparr>ce_request_id = ''r'', ce_sequence = n, ce_kind = k, ce_text = [], ce_detail = []\<rparr>"

definition chat_script :: "chat_event list" where
  "chat_script = [chat_line 1 1, chat_line 3 2, chat_line 2 2, chat_line 4 3, chat_line 5 2]"

lemma chat_script_taken:
  "chat_taken chat_script \<lparr>cp_request_id = ''r'', cp_last_sequence = 0\<rparr> = [chat_line 1 1, chat_line 3 2, chat_line 4 3]"
  by (simp add: chat_script_def chat_line_def chat_accepts_def chat_terminal_def chat_kind_known_def
      chat_event_text_max_def chat_event_detail_max_def word_le_nat_alt)

theorem chat_turn_is_ordered_witness:
  "ci_events (fold chat_push chat_script (snd (chat_begin ''r'' chat_new))) = [chat_line 1 1, chat_line 3 2, chat_line 4 3]"
proof -
  have "ci_pending chat_new = None" "length (ci_events chat_new) \<le> chat_event_capacity"
    by (simp_all add: chat_new_def)
  from chat_turn_is_ordered [OF this, of chat_script "''r''" 0]
  have "ci_events (fold chat_push chat_script (snd (chat_begin ''r'' chat_new))) =
      newest chat_event_capacity (ci_events chat_new @ chat_taken chat_script \<lparr>cp_request_id = ''r'', cp_last_sequence = 0\<rparr>)"
    by blast
  then show ?thesis
    unfolding chat_script_taken by (simp add: chat_new_def newest_def chat_event_capacity_def)
qed

subsection \<open>Task sessions, calibrations and artifacts\<close>

definition event_capacity :: nat where "event_capacity = 256"
definition event_text_max_bytes :: nat where "event_text_max_bytes = 16384"
definition event_detail_max_bytes :: nat where "event_detail_max_bytes = 1024"

record pending_task =
  pt_task_session_id :: string
  pt_name :: string
  pt_last_sequence :: u64

record task_session_event =
  te_request_id :: string
  te_task_session_id :: string
  te_name :: string
  te_sequence :: u64
  te_kind :: int
  te_text :: string
  te_detail :: string
  te_role :: string
  te_history_cursor :: u64

record calibration_update =
  cu_calibration_id :: string
  cu_kind :: int
  cu_camera :: string
  cu_frame_seq :: u64
  cu_catalog_name :: string
  cu_source_project :: string
  cu_detail :: string
  cu_sequence :: u64

record calibration_measurement_request =
  cq_calibration_id :: string
  cq_sample_id :: string
  cq_camera :: string
  cq_frame_seq :: u64
  cq_x :: u32
  cq_y :: u32

record workspace_artifact_ready =
  wa_request_id :: string
  wa_artifact_id :: string
  wa_sha256 :: string
  wa_size_bytes :: u64
  wa_download_ref :: string
  wa_expires_unix_ns :: int
  wa_detail :: string

text \<open>The hash maps are association lists with one entry per key; their order stands for the
  map's own iteration order.\<close>

record plane_events =
  pv_pending_tasks :: "(string \<times> pending_task) list"
  pv_task_events :: "task_session_event list"
  pv_last_calibration_sequence :: "(string \<times> u64) list"
  pv_calibration_updates :: "calibration_update list"
  pv_calibration_request_cursor :: u64
  pv_calibration_requests :: "(u64 \<times> calibration_measurement_request) list"
  pv_artifact_ready :: "workspace_artifact_ready list"

definition plane_events_new :: plane_events where
  "plane_events_new =
     \<lparr>pv_pending_tasks = [], pv_task_events = [], pv_last_calibration_sequence = [],
      pv_calibration_updates = [], pv_calibration_request_cursor = 0, pv_calibration_requests = [],
      pv_artifact_ready = []\<rparr>"

definition begin_task :: "string \<Rightarrow> string \<Rightarrow> string \<Rightarrow> plane_events \<Rightarrow> (string + unit) \<times> plane_events" where
  "begin_task i session name s =
     (if map_of (pv_pending_tasks s) i \<noteq> None then (Inl ''this task request_id is already outstanding'', s)
      else (Inr (), s\<lparr>pv_pending_tasks := pv_pending_tasks s @
              [(i, \<lparr>pt_task_session_id = session, pt_name = name, pt_last_sequence = 0\<rparr>)]\<rparr>))"

text \<open>Wire kinds: 1 accepted, 2 text, 3 done, 4 interrupted, 5 unavailable, 6 error, 7 history complete.\<close>

definition task_kind_known :: "int \<Rightarrow> bool" where
  "task_kind_known k \<longleftrightarrow> 0 \<le> k \<and> k \<le> 7"

definition task_terminal :: "int \<Rightarrow> bool" where
  "task_terminal k \<longleftrightarrow> 3 \<le> k \<and> k \<le> 7"

definition task_rejects :: "pending_task \<Rightarrow> task_session_event \<Rightarrow> bool" where
  "task_rejects p e \<longleftrightarrow>
     128 < length (te_request_id e) \<or> te_task_session_id e = [] \<or> 200 < length (te_task_session_id e) \<or>
     200 < length (te_name e) \<or>
     (pt_task_session_id p \<noteq> [] \<and> te_task_session_id e \<noteq> pt_task_session_id p) \<or>
     (pt_name p \<noteq> [] \<and> te_name e \<noteq> pt_name p) \<or>
     te_sequence e \<le> pt_last_sequence p \<or> event_text_max_bytes < length (te_text e) \<or>
     event_detail_max_bytes < length (te_detail e) \<or> te_kind e = 0 \<or>
     (te_kind e = 2 \<and> (te_text e = [] \<or> \<not> (te_role e = ''user'' \<or> te_role e = ''assistant''))) \<or>
     (te_kind e \<noteq> 2 \<and> (te_text e \<noteq> [] \<or> te_role e \<noteq> [])) \<or>
     (te_kind e = 7 \<and> te_detail e \<noteq> ''history page complete'') \<or>
     (te_kind e \<noteq> 7 \<and> te_history_cursor e \<noteq> 0)"

definition alist_remove :: "'k \<Rightarrow> ('k \<times> 'v) list \<Rightarrow> ('k \<times> 'v) list" where
  "alist_remove k m = filter (\<lambda>e. fst e \<noteq> k) m"

definition push_task :: "task_session_event \<Rightarrow> plane_events \<Rightarrow> plane_events" where
  "push_task e s =
     (if \<not> task_kind_known (te_kind e) then s
      else case map_of (pv_pending_tasks s) (te_request_id e) of
             None \<Rightarrow> s
           | Some p \<Rightarrow>
               if task_rejects p e then s
               else s\<lparr>pv_pending_tasks :=
                        (if task_terminal (te_kind e) then alist_remove (te_request_id e) (pv_pending_tasks s)
                         else map (\<lambda>(k, q). (k, if k = te_request_id e then q\<lparr>pt_last_sequence := te_sequence e\<rparr> else q))
                                (pv_pending_tasks s)),
                      pv_task_events := trim event_capacity (pv_task_events s @ [e])\<rparr>)"

definition push_calibration :: "calibration_update \<Rightarrow> plane_events \<Rightarrow> plane_events" where
  "push_calibration u s =
     (if cu_calibration_id u = [] \<or> event_detail_max_bytes < length (cu_detail u) \<or> cu_sequence u = 0 \<or>
         \<not> (0 \<le> cu_kind u \<and> cu_kind u \<le> 4) \<or> cu_kind u = 0
      then s
      else
        (let seen = (case map_of (pv_last_calibration_sequence s) (cu_calibration_id u) of None \<Rightarrow> 0 | Some n \<Rightarrow> n);
             others = alist_remove (cu_calibration_id u) (pv_last_calibration_sequence s)
         in if cu_sequence u \<le> seen
            then s\<lparr>pv_last_calibration_sequence := (cu_calibration_id u, seen) # others\<rparr>
            else s\<lparr>pv_last_calibration_sequence := (cu_calibration_id u, cu_sequence u) # others,
                   pv_calibration_updates := trim event_capacity (pv_calibration_updates s @ [u])\<rparr>))"

definition push_calibration_request :: "calibration_measurement_request \<Rightarrow> plane_events \<Rightarrow> plane_events" where
  "push_calibration_request q s =
     (if cq_calibration_id q = [] \<or> 128 < length (cq_calibration_id q) \<or> cq_sample_id q = [] \<or>
         128 < length (cq_sample_id q) \<or> cq_camera q = [] \<or> 128 < length (cq_camera q)
      then s
      else (let cursor = u64_saturating_add (pv_calibration_request_cursor s) 1 in
            s\<lparr>pv_calibration_request_cursor := cursor,
              pv_calibration_requests := trim event_capacity (pv_calibration_requests s @ [(cursor, q)])\<rparr>))"

definition push_artifact :: "workspace_artifact_ready \<Rightarrow> plane_events \<Rightarrow> plane_events" where
  "push_artifact a s =
     (if wa_request_id a = [] \<or> event_detail_max_bytes < length (wa_detail a) \<or> 128 < length (wa_sha256 a) \<or>
         1024 < length (wa_download_ref a)
      then s else s\<lparr>pv_artifact_ready := trim event_capacity (pv_artifact_ready s @ [a])\<rparr>)"

definition unavailable_event :: "string \<Rightarrow> string \<times> pending_task \<Rightarrow> task_session_event" where
  "unavailable_event detail e =
     \<lparr>te_request_id = fst e, te_task_session_id = pt_task_session_id (snd e), te_name = pt_name (snd e),
      te_sequence = u64_saturating_add (pt_last_sequence (snd e)) 1, te_kind = 5, te_text = [],
      te_detail = take event_detail_max_bytes detail, te_role = [], te_history_cursor = 0\<rparr>"

definition plane_unavailable :: "string \<Rightarrow> plane_events \<Rightarrow> plane_events" where
  "plane_unavailable detail s =
     s\<lparr>pv_pending_tasks := [],
       pv_task_events := trim event_capacity (pv_task_events s @ map (unavailable_event detail) (pv_pending_tasks s)),
       pv_calibration_requests := []\<rparr>"

definition found_tasks :: "string \<Rightarrow> u64 \<Rightarrow> plane_events \<Rightarrow> task_session_event list" where
  "found_tasks i n s = filter (\<lambda>e. te_request_id e = i \<and> n < te_sequence e) (pv_task_events s)"

definition found_calibrations :: "string \<Rightarrow> u64 \<Rightarrow> plane_events \<Rightarrow> calibration_update list" where
  "found_calibrations i n s = filter (\<lambda>u. cu_calibration_id u = i \<and> n < cu_sequence u) (pv_calibration_updates s)"

definition found_calibration_requests ::
  "u64 \<Rightarrow> plane_events \<Rightarrow> (u64 \<times> calibration_measurement_request) list" where
  "found_calibration_requests n s = filter (\<lambda>(c, q). n < c) (pv_calibration_requests s)"

definition found_artifact :: "string \<Rightarrow> plane_events \<Rightarrow> workspace_artifact_ready list" where
  "found_artifact i s = filter (\<lambda>a. wa_request_id a = i) (pv_artifact_ready s)"

subsection \<open>What the tails hold\<close>

text \<open>Everything the inbox may be asked to do.\<close>

datatype inbox_op =
    IO_BeginTask string string string
  | IO_Task task_session_event
  | IO_Calibration calibration_update
  | IO_CalibrationRequest calibration_measurement_request
  | IO_Artifact workspace_artifact_ready
  | IO_Unavailable string

fun inbox_act :: "inbox_op \<Rightarrow> plane_events \<Rightarrow> plane_events" where
  "inbox_act (IO_BeginTask i session name) s = snd (begin_task i session name s)"
| "inbox_act (IO_Task e) s = push_task e s"
| "inbox_act (IO_Calibration u) s = push_calibration u s"
| "inbox_act (IO_CalibrationRequest q) s = push_calibration_request q s"
| "inbox_act (IO_Artifact a) s = push_artifact a s"
| "inbox_act (IO_Unavailable d) s = plane_unavailable d s"

definition inbox_bounded :: "plane_events \<Rightarrow> bool" where
  "inbox_bounded s \<longleftrightarrow> length (pv_task_events s) \<le> event_capacity \<and>
     length (pv_calibration_updates s) \<le> event_capacity \<and>
     length (pv_calibration_requests s) \<le> event_capacity \<and> length (pv_artifact_ready s) \<le> event_capacity"

definition pending_keys_ok :: "plane_events \<Rightarrow> bool" where
  "pending_keys_ok s \<longleftrightarrow> distinct (map fst (pv_pending_tasks s))"

lemma unavailable_event_fields [simp]:
  "te_kind (unavailable_event detail e) = 5" "te_request_id (unavailable_event detail e) = fst e"
  by (simp_all add: unavailable_event_def)

lemma length_trim: "length (trim cap xs) \<le> cap"
  by (simp add: trim_def)

theorem inbox_stays_bounded: "inbox_bounded (fold inbox_act ops plane_events_new)"
proof -
  have "inbox_bounded (inbox_act op s)" if "inbox_bounded s" for op s
    using that
    by (cases op) (auto simp: inbox_bounded_def begin_task_def push_task_def push_calibration_def
        push_calibration_request_def push_artifact_def plane_unavailable_def length_trim Let_def split: option.split)
  then have "inbox_bounded (fold inbox_act ops s)" if "inbox_bounded s" for s
    using that by (induction ops arbitrary: s) simp_all
  then show ?thesis by (simp add: inbox_bounded_def plane_events_new_def)
qed

lemma map_fst_update: "map fst (map (\<lambda>(k, q). (k, f k q)) m) = map fst m"
  by (induction m) auto

lemma pending_keys_act: "pending_keys_ok s \<Longrightarrow> pending_keys_ok (inbox_act op s)"
proof -
  assume "pending_keys_ok s"
  moreover have "distinct (map fst m) \<Longrightarrow> distinct (map fst (alist_remove k m))" for k :: string and m :: "(string \<times> pending_task) list"
    by (auto simp: alist_remove_def distinct_map_filter)
  ultimately show ?thesis
    by (cases op) (auto simp: pending_keys_ok_def begin_task_def push_task_def push_calibration_def
        push_calibration_request_def push_artifact_def plane_unavailable_def map_fst_update map_of_eq_None_iff
        Let_def simp del: map_map split: option.split)
qed

text \<open>Losing the connection answers every outstanding task once, after everything it was told, and
  forgets the connection's measurement requests; the ids may be used again.\<close>

theorem unavailable_answers_every_task:
  assumes "s = fold inbox_act ops plane_events_new" "length (pv_pending_tasks s) \<le> event_capacity"
    and "map_of (pv_pending_tasks s) i = Some p"
  shows "filter (\<lambda>e. te_kind e = 5 \<and> te_request_id e = i)
      (newest (length (pv_pending_tasks s)) (pv_task_events (plane_unavailable detail s))) = [unavailable_event detail (i, p)] \<and>
    map_of (pv_pending_tasks (plane_unavailable detail s)) i = None \<and>
    found_calibration_requests n (plane_unavailable detail s) = []"
proof -
  have "pending_keys_ok (fold inbox_act ops s0)" if "pending_keys_ok s0" for s0
    using that by (induction ops arbitrary: s0) (simp_all add: pending_keys_act)
  then have keys: "distinct (map fst (pv_pending_tasks s))"
    using assms(1) by (simp add: pending_keys_ok_def plane_events_new_def)
  have one: "filter (\<lambda>e. te_kind e = 5 \<and> te_request_id e = i) (map (unavailable_event detail) m) = [unavailable_event detail (i, p)]"
    if "distinct (map fst m)" "map_of m i = Some p" for m
    using that
  proof (induction m)
    case (Cons x m)
    show ?case
    proof (cases "fst x = i")
      case True
      with Cons.prems have "x = (i, p)" "i \<notin> fst ` set m" by (cases x; auto)+
      moreover have "filter (\<lambda>e. te_kind e = 5 \<and> te_request_id e = i) (map (unavailable_event detail) m) = []"
        using \<open>i \<notin> fst ` set m\<close> by (force simp: filter_empty_conv)
      ultimately show ?thesis by simp
    next
      case False
      with Cons show ?thesis by (cases x) simp
    qed
  qed simp
  have tail: "newest (length ys) (trim event_capacity (xs @ ys)) = ys" if "length ys \<le> event_capacity" for xs ys :: "task_session_event list"
    using that by (auto simp: newest_def trim_def)
  have "newest (length (pv_pending_tasks s)) (pv_task_events (plane_unavailable detail s)) =
      map (unavailable_event detail) (pv_pending_tasks s)"
    using tail [of "map (unavailable_event detail) (pv_pending_tasks s)" "pv_task_events s"] assms(2)
    by (simp add: plane_unavailable_def)
  with one [OF keys assms(3)] show ?thesis
    by (simp add: plane_unavailable_def found_calibration_requests_def)
qed

end
