(* ===== verification/Waddle_Jog.thy ===== *)
theory Waddle_Jog
  imports Waddle_Recording
begin

text \<open>
  The local site operator's jog (\<^verbatim>\<open>waddle-runtime/src/jog.rs\<close>): the absolute
  action derived from an axis, a direction and an increment, with every refusal, and the deadman
  that owns the claim's deadline. The condition variable of the deadman thread is left out: a
  poll of the thread is one step.
\<close>

subsection \<open>Requests and refusals\<close>

datatype jog_axis = JA_Joint nat | JA_Linear nat | JA_Angular nat

record jog_request =
  jr_part :: "string option"
  jr_axis :: jog_axis
  jr_direction :: int
  jr_step :: flt

datatype jog_refusal =
    JR_NoRunningEpisode
  | JR_AgentInvitedEpisode
  | JR_ConflictingClaim
  | JR_TakeoverUnavailable
  | JR_EngageRefused
  | JR_PartRequired
  | JR_UnknownPart string
  | JR_UnsupportedSpace string
  | JR_MissingProprio string
  | JR_ProprioDimension nat nat
  | JR_InvalidProprio
  | JR_InvalidRequest string
  | JR_DeadmanInactive
  | JR_ShuttingDown

fun refusal_code :: "jog_refusal \<Rightarrow> string" where
  "refusal_code JR_NoRunningEpisode = ''no_running_episode''"
| "refusal_code JR_AgentInvitedEpisode = ''agent_invited_episode''"
| "refusal_code JR_ConflictingClaim = ''conflicting_claim''"
| "refusal_code JR_TakeoverUnavailable = ''takeover_unavailable''"
| "refusal_code JR_EngageRefused = ''engage_refused''"
| "refusal_code JR_PartRequired = ''part_required''"
| "refusal_code (JR_UnknownPart p) = ''unknown_part''"
| "refusal_code (JR_UnsupportedSpace s) = ''unsupported_space''"
| "refusal_code (JR_MissingProprio p) = ''missing_proprio''"
| "refusal_code (JR_ProprioDimension got want) = ''proprio_dimension''"
| "refusal_code JR_InvalidProprio = ''invalid_proprio''"
| "refusal_code (JR_InvalidRequest r) = ''invalid_request''"
| "refusal_code JR_DeadmanInactive = ''deadman_inactive''"
| "refusal_code JR_ShuttingDown = ''shutting_down''"

fun flt_finite :: "flt \<Rightarrow> bool" where
  "flt_finite (Fin x) = True"
| "flt_finite x = False"

definition addressed_space :: "action_space \<Rightarrow> string option \<Rightarrow> jog_refusal + action_space \<times> string option" where
  "addressed_space whole part =
     (case (as_spec whole, if part = Some [] then None else part) of
        (SS_Composite parts, Some name) \<Rightarrow>
          (case map_of parts name of Some space \<Rightarrow> Inr (space, Some name) | None \<Rightarrow> Inl (JR_UnknownPart name))
      | (SS_Composite parts, None) \<Rightarrow> Inl JR_PartRequired
      | (spec, Some name) \<Rightarrow> Inl (JR_UnknownPart name)
      | (spec, None) \<Rightarrow> Inr (whole, None))"

definition signed_step :: "jog_request \<Rightarrow> flt" where
  "signed_step req = fmul binary64 (f64_of_int (jr_direction req)) (jr_step req)"

definition joint_target :: "jog_request \<Rightarrow> nat \<Rightarrow> nat \<Rightarrow> string \<Rightarrow> latest_joints \<Rightarrow> jog_refusal + flt list" where
  "joint_target req i n key latest =
     (if n \<le> i then Inl (JR_InvalidRequest ''joint index is out of range'')
      else case read_joints key latest of
             None \<Rightarrow> Inl (JR_MissingProprio key)
           | Some vals \<Rightarrow>
               if length vals \<noteq> n then Inl (JR_ProprioDimension (length vals) n)
               else if \<exists>v \<in> set vals. \<not> flt_finite v then Inl JR_InvalidProprio
               else Inr (vals[i := fadd binary64 (vals ! i) (signed_step req)]))"

text \<open>The arms of the match on the axis and the declared space, in order; the composite arm is
  unreachable, a leaf has been addressed.\<close>

definition jog_values :: "jog_request \<Rightarrow> space_spec \<Rightarrow> string option \<Rightarrow> latest_joints \<Rightarrow> (jog_refusal + flt list) option" where
  "jog_values req spec part latest =
     (case (jr_axis req, spec) of
        (JA_Joint i, SS_JointPosition js) \<Rightarrow>
          Some (joint_target req i (length js) (case part of None \<Rightarrow> [] | Some name \<Rightarrow> name) latest)
      | (JA_Linear a, SS_EePoseDelta f r d l g) \<Rightarrow>
          Some (if a < 3 then Inr ((replicate 6 (Fin 0))[a := signed_step req])
                else Inl (JR_InvalidRequest ''Cartesian axis is out of range''))
      | (JA_Angular a, SS_EePoseDelta f r d l g) \<Rightarrow>
          Some (if a < 3 then Inr ((replicate 6 (Fin 0))[3 + a := signed_step req])
                else Inl (JR_InvalidRequest ''Cartesian axis is out of range''))
      | (_, SS_JointPosition js) \<Rightarrow> Some (Inl (JR_UnsupportedSpace ''joint_position for this jog axis''))
      | (_, SS_JointVelocity js) \<Rightarrow> Some (Inl (JR_UnsupportedSpace ''joint_velocity''))
      | (_, SS_EePoseDelta f r d l g) \<Rightarrow> Some (Inl (JR_UnsupportedSpace ''ee_pose_delta for this jog axis''))
      | (_, SS_EePoseAbs f r) \<Rightarrow> Some (Inl (JR_UnsupportedSpace ''ee_pose_absolute''))
      | (_, SS_BaseTwist f l g) \<Rightarrow> Some (Inl (JR_UnsupportedSpace ''base_twist''))
      | (_, SS_Composite parts) \<Rightarrow> None
      | (_, SS_Opaque h d) \<Rightarrow> Some (Inl (JR_UnsupportedSpace ''opaque'')))"

text \<open>\<open>None\<close> is the panic of the unreachable arm.\<close>

definition build_jog_action :: "jog_request \<Rightarrow> action_space \<Rightarrow> latest_joints \<Rightarrow> (jog_refusal + pb_action) option" where
  "build_jog_action req whole latest =
     (if jr_direction req \<noteq> - 1 \<and> jr_direction req \<noteq> 1
      then Some (Inl (JR_InvalidRequest ''direction must be -1 or +1''))
      else if \<not> flt_finite (jr_step req) \<or> flt_le (jr_step req) (Fin 0)
      then Some (Inl (JR_InvalidRequest ''step must be finite and positive''))
      else case addressed_space whole (jr_part req) of
             Inl e \<Rightarrow> Some (Inl e)
           | Inr (space, part) \<Rightarrow>
               map_option (\<lambda>res. rbind res (\<lambda>vals.
                   case unflatten_action vals None part whole of Inr a \<Rightarrow> Inr a | Inl e \<Rightarrow> Inl JR_EngageRefused))
                 (jog_values req (as_spec space) part latest))"

subsection \<open>The deadman\<close>

definition deadman_timeout_ns :: int where "deadman_timeout_ns = 1000000000"

record deadman_state =
  dm_claim_id :: "string option"
  dm_deadline :: mono_ns
  dm_shutdown :: bool

definition deadman_new :: deadman_state where
  "deadman_new = \<lparr>dm_claim_id = None, dm_deadline = 0, dm_shutdown = False\<rparr>"

definition deadman_arm :: "string \<Rightarrow> mono_ns \<Rightarrow> deadman_state \<Rightarrow> deadman_state" where
  "deadman_arm c now d = d\<lparr>dm_claim_id := Some c, dm_deadline := saturating_add now deadman_timeout_ns\<rparr>"

definition deadman_heartbeat :: "mono_ns \<Rightarrow> deadman_state \<Rightarrow> (jog_refusal + unit) \<times> deadman_state" where
  "deadman_heartbeat now d =
     (if dm_claim_id d = None then (Inl JR_DeadmanInactive, d)
      else (Inr (), d\<lparr>dm_deadline := saturating_add now deadman_timeout_ns\<rparr>))"

definition deadman_expire :: "mono_ns \<Rightarrow> deadman_state \<Rightarrow> string option \<times> deadman_state" where
  "deadman_expire now d = (if now < dm_deadline d then (None, d) else (dm_claim_id d, d\<lparr>dm_claim_id := None\<rparr>))"

definition deadman_disarm :: "deadman_state \<Rightarrow> string option \<times> deadman_state" where
  "deadman_disarm d = (dm_claim_id d, d\<lparr>dm_claim_id := None\<rparr>)"

definition deadman_close :: "deadman_state \<Rightarrow> deadman_state" where
  "deadman_close d = d\<lparr>dm_shutdown := True\<rparr>"

text \<open>One poll of the deadman's thread: the claim to release, if any.\<close>

definition deadman_poll :: "mono_ns \<Rightarrow> deadman_state \<Rightarrow> string option \<times> deadman_state" where
  "deadman_poll now d = (if dm_shutdown d then deadman_disarm d else deadman_expire now d)"

datatype deadman_op =
    DM_Arm string mono_ns
  | DM_Heartbeat mono_ns
  | DM_Disarm
  | DM_Close
  | DM_Poll mono_ns

fun deadman_act :: "deadman_op \<Rightarrow> deadman_state \<Rightarrow> string option \<times> deadman_state" where
  "deadman_act (DM_Arm c now) d = (None, deadman_arm c now d)"
| "deadman_act (DM_Heartbeat now) d = (None, snd (deadman_heartbeat now d))"
| "deadman_act DM_Disarm d = (None, snd (deadman_disarm d))"
| "deadman_act DM_Close d = (None, deadman_close d)"
| "deadman_act (DM_Poll now) d = deadman_poll now d"

fun deadman_run :: "deadman_op list \<Rightarrow> deadman_state \<Rightarrow> string list \<times> deadman_state" where
  "deadman_run [] d = ([], d)"
| "deadman_run (op # ops) d =
     (let (rel, d) = deadman_act op d; (rels, d) = deadman_run ops d
      in (case rel of None \<Rightarrow> rels | Some c \<Rightarrow> c # rels, d))"

subsection \<open>What a jog commands\<close>

lemma addressed_leaf:
  "addressed_space whole part = Inr (space, p) \<Longrightarrow>
   p = (if part = Some [] then None else part) \<and>
   (case p of None \<Rightarrow> space = whole \<and> (\<forall>parts. as_spec whole \<noteq> SS_Composite parts)
    | Some name \<Rightarrow> declared_part whole name = Inr space)"
  by (auto simp: addressed_space_def declared_part_def ok_or_def split: space_spec.splits option.splits if_splits)

definition jogged :: "jog_request \<Rightarrow> space_spec \<Rightarrow> flt list \<Rightarrow> flt list option \<Rightarrow> bool" where
  "jogged req spec vals observed \<longleftrightarrow>
     (case jr_axis req of
        JA_Joint i \<Rightarrow> (\<exists>js q. spec = SS_JointPosition js \<and> observed = Some q \<and> i < length js \<and> length q = length js \<and>
           list_all flt_finite q \<and> vals = q[i := fadd binary64 (q ! i) (signed_step req)])
      | JA_Linear a \<Rightarrow> (\<exists>f r d l g. spec = SS_EePoseDelta f r d l g) \<and> a < 3 \<and>
           vals = (replicate 6 (Fin 0))[a := signed_step req]
      | JA_Angular a \<Rightarrow> (\<exists>f r d l g. spec = SS_EePoseDelta f r d l g) \<and> a < 3 \<and>
           vals = (replicate 6 (Fin 0))[3 + a := signed_step req])"

lemma jog_values_jogged:
  "jog_values req spec part latest = Some (Inr vals) \<Longrightarrow>
   jogged req spec vals (read_joints (case part of None \<Rightarrow> [] | Some name \<Rightarrow> name) latest)"
  by (auto simp: jog_values_def joint_target_def jogged_def list_all_iff
      split: jog_axis.splits space_spec.splits if_splits option.splits)

text \<open>A jog moves what it names and nothing else: an accepted request yields the action of
  the addressed part whose row is the part's freshest complete, finite joint reading with the
  one joint moved by the signed increment (or the zero motion with the one Cartesian component
  set); the direction is a sign and the increment finite and positive.\<close>

theorem jog_moves_one_axis:
  assumes "build_jog_action req whole latest = Some (Inr a)"
  shows "\<exists>space part vals. addressed_space whole (jr_part req) = Inr (space, part) \<and>
    jogged req (as_spec space) vals (read_joints (case part of None \<Rightarrow> [] | Some name \<Rightarrow> name) latest) \<and>
    unflatten_action vals None part whole = Inr a \<and>
    (jr_direction req = 1 \<or> jr_direction req = - 1) \<and> flt_finite (jr_step req) \<and> flt_less (Fin 0) (jr_step req)"
proof -
  from assms have dir: "jr_direction req = 1 \<or> jr_direction req = - 1"
    and step: "flt_finite (jr_step req)" "\<not> flt_le (jr_step req) (Fin 0)"
    by (auto simp: build_jog_action_def split: if_splits)
  from assms dir step obtain space part where ad: "addressed_space whole (jr_part req) = Inr (space, part)"
    and res: "map_option (\<lambda>res. rbind res (\<lambda>vals.
        case unflatten_action vals None part whole of Inr a \<Rightarrow> Inr a | Inl e \<Rightarrow> Inl JR_EngageRefused))
        (jog_values req (as_spec space) part latest) = Some (Inr a)"
    by (auto simp: build_jog_action_def split: sum.splits if_splits)
  from res obtain z where z: "jog_values req (as_spec space) part latest = Some z"
    "rbind z (\<lambda>vals. case unflatten_action vals None part whole of Inr a \<Rightarrow> Inr a | Inl e \<Rightarrow> Inl JR_EngageRefused) = Inr a"
    by blast
  then obtain vals where "z = Inr vals" by (cases z) (simp_all add: rbind_def)
  with z have vals: "jog_values req (as_spec space) part latest = Some (Inr vals)"
    "unflatten_action vals None part whole = Inr a"
    by (cases "unflatten_action vals None part whole"; simp add: rbind_def)+
  have "flt_less (Fin 0) (jr_step req)"
    using step by (cases "jr_step req") auto
  with ad vals jog_values_jogged [OF vals(1)] dir step(1) show ?thesis by blast
qed

text \<open>Every addressed leaf has an arm: the unreachable one is never reached in a validated space.\<close>

theorem jog_never_panics:
  assumes "space_ok whole"
  shows "build_jog_action req whole latest \<noteq> None"
proof -
  have leaf: "as_spec space \<noteq> SS_Composite parts"
    if "addressed_space whole (jr_part req) = Inr (space, part)" for space part parts
  proof (cases part)
    case None
    with addressed_leaf [OF that] show ?thesis by auto
  next
    case (Some name)
    with addressed_leaf [OF that] obtain ps where ps: "as_spec whole = SS_Composite ps" "map_of ps name = Some space"
      by (auto simp: declared_part_def ok_or_def split: space_spec.splits option.splits)
    then have "(name, space) \<in> set ps" by (simp add: map_of_SomeD)
    with assms ps(1) have "leaf_ok (as_spec space)"
      by (auto simp: space_ok_def part_ok_def list_all_iff)
    then show ?thesis by (cases "as_spec space") auto
  qed
  have "jog_values req (as_spec space) part latest \<noteq> None"
    if "addressed_space whole (jr_part req) = Inr (space, part)" for space part
    using leaf [OF that]
    by (cases "jr_axis req"; cases "as_spec space") (auto simp: jog_values_def)
  then show ?thesis by (auto simp: build_jog_action_def split: sum.splits)
qed

definition demo_jog :: jog_request where
  "demo_jog = \<lparr>jr_part = None, jr_axis = JA_Linear 1, jr_direction = - 1, jr_step = Fin 2\<rparr>"

definition delta_space :: action_space where
  "delta_space = ActionSpace (SS_EePoseDelta ''base'' RE_RotVec DF_Base None None) (Fin 50) chunking_default None"

lemma demo_jog_builds:
  "\<exists>a. build_jog_action demo_jog delta_space [] = Some (Inr a)"
  by (simp add: build_jog_action_def demo_jog_def delta_space_def addressed_space_def jog_values_def
      rbind_def unflatten_action_def unflatten_action_vff_def ok_or_def take_values_def numeral_eq_Suc)

theorem jog_moves_one_axis_witness:
  "\<exists>space part vals. addressed_space delta_space None = Inr (space, part) \<and>
     jogged demo_jog (as_spec space) vals (read_joints (case part of None \<Rightarrow> [] | Some name \<Rightarrow> name) [])"
proof -
  from demo_jog_builds obtain a where "build_jog_action demo_jog delta_space [] = Some (Inr a)" ..
  from jog_moves_one_axis [OF this] show ?thesis by (auto simp: demo_jog_def)
qed

subsection \<open>The deadman's deadline\<close>

text \<open>The last time the claim was armed or kept alive.\<close>

fun kept_alive :: "deadman_op list \<Rightarrow> deadman_state \<Rightarrow> mono_ns \<Rightarrow> mono_ns" where
  "kept_alive [] d t = t"
| "kept_alive (op # ops) d t =
     kept_alive ops (snd (deadman_act op d))
       (case op of
          DM_Arm c now \<Rightarrow> now
        | DM_Heartbeat now \<Rightarrow> if dm_claim_id d = None then t else now
        | _ \<Rightarrow> t)"

lemma deadline_follows:
  "dm_deadline d = saturating_add t deadman_timeout_ns \<Longrightarrow>
   dm_deadline (snd (deadman_run ops d)) = saturating_add (kept_alive ops d t) deadman_timeout_ns"
proof (induction ops arbitrary: d t)
  case (Cons op ops)
  have "dm_deadline (snd (deadman_act op d)) =
      saturating_add (case op of DM_Arm c now \<Rightarrow> now
        | DM_Heartbeat now \<Rightarrow> if dm_claim_id d = None then t else now | _ \<Rightarrow> t) deadman_timeout_ns"
    using Cons.prems
    by (cases op) (auto simp: deadman_arm_def deadman_heartbeat_def deadman_disarm_def deadman_close_def
        deadman_poll_def deadman_expire_def)
  from Cons.IH [OF this] show ?case by (simp add: Let_def case_prod_unfold)
qed simp

text \<open>The deadman releases a claim exactly when it is due: after arming and any later calls, a
  poll releases the armed claim if and only if one is still armed and the session closed or a full
  second has passed since it was last armed or kept alive; a released claim is released once.\<close>

theorem deadman_releases_when_due:
  assumes "0 \<le> kept_alive ops (deadman_arm c t0 d) t0" "kept_alive ops (deadman_arm c t0 d) t0 < 2 ^ 62"
  defines "e \<equiv> snd (deadman_run ops (deadman_arm c t0 d))"
  shows "fst (deadman_poll now e) =
      (if dm_shutdown e \<or> kept_alive ops (deadman_arm c t0 d) t0 + deadman_timeout_ns \<le> now then dm_claim_id e else None) \<and>
    (fst (deadman_poll now e) \<noteq> None \<longrightarrow> dm_claim_id (snd (deadman_poll now e)) = None)"
proof -
  have "dm_deadline (deadman_arm c t0 d) = saturating_add t0 deadman_timeout_ns" by (simp add: deadman_arm_def)
  from deadline_follows [OF this, of ops]
  have "dm_deadline e = saturating_add (kept_alive ops (deadman_arm c t0 d) t0) deadman_timeout_ns" by (simp add: e_def)
  also have "\<dots> = kept_alive ops (deadman_arm c t0 d) t0 + deadman_timeout_ns"
    using assms(1,2) unfolding saturating_add_def
    by (intro i64_sat_id) (auto simp: in_i64_def i64_min_def i64_max_def deadman_timeout_ns_def)
  finally show ?thesis
    by (auto simp: deadman_poll_def deadman_disarm_def deadman_expire_def)
qed

theorem deadman_releases_when_due_witness:
  "fst (deadman_poll 1000000007 (snd (deadman_run [DM_Heartbeat 7, DM_Poll 8] (deadman_arm ''c'' 0 deadman_new)))) = Some ''c''"
  using deadman_releases_when_due [of "[DM_Heartbeat 7, DM_Poll 8]" "''c''" 0 deadman_new 1000000007]
  by (simp add: deadman_arm_def deadman_new_def deadman_heartbeat_def deadman_poll_def deadman_expire_def
      deadman_timeout_ns_def saturating_add_def i64_sat_def i64_min_def i64_max_def)

end
