(* ===== verification/Waddle_Latch.thy ===== *)
theory Waddle_Latch
  imports Waddle_Prelude
begin

text \<open>
  Answering at most once per key: the shape of the once-per-claim-window fault latch and of the
  reset pump's marks of what it has serviced (\<^verbatim>\<open>waddle-runtime/src/pumps.rs\<close>). The
  interface says what one question does to the remembered key; a run of questions answers yes
  exactly where the key changes, hence at the first question of each key when equal keys stand
  together.
\<close>

text \<open>Equal keys stand together: a key that was met before is the one just met.\<close>

definition together :: "'k list \<Rightarrow> bool" where
  "together ks \<longleftrightarrow> (\<forall>xs k ys. ks = xs @ k # ys \<longrightarrow> k \<in> set xs \<longrightarrow> last xs = k)"

lemma togetherD: "together (xs @ k # ys) \<Longrightarrow> k \<in> set xs \<Longrightarrow> last xs = k"
  by (simp add: together_def)

lemma sorted_together: "sorted (ks :: 'k::linorder list) \<Longrightarrow> together ks"
  unfolding together_def
proof (intro allI impI)
  fix xs k ys
  assume s: "sorted ks" "ks = xs @ k # ys" "k \<in> set xs"
  then obtain zs where zs: "xs = zs @ [last xs]" by (metis append_butlast_last_id empty_iff empty_set)
  have "last xs \<in> set xs" using s(3) by (cases xs) simp_all
  with s have "last xs \<le> k" by (simp add: sorted_append)
  moreover have "k \<le> last xs"
  proof -
    have "k \<in> set (zs @ [last xs])" "sorted (zs @ [last xs])" using s(1-3) zs by (simp_all add: sorted_append)
    then show ?thesis by (auto simp: sorted_append)
  qed
  ultimately show "last xs = k" by simp
qed

lemma together_appendD: "together (xs @ ys) \<Longrightarrow> together xs"
  unfolding together_def by simp

locale once_per_key =
  fixes ask :: "'k \<Rightarrow> 's \<Rightarrow> bool \<times> 's" and remembered :: "'s \<Rightarrow> 'k option"
  assumes ask_same: "remembered s = Some k \<Longrightarrow> \<not> fst (ask k s) \<and> remembered (snd (ask k s)) = Some k"
    and ask_other: "remembered s \<noteq> Some k \<Longrightarrow> fst (ask k s) \<and> remembered (snd (ask k s)) = Some k"
begin

lemma ask_answer: "fst (ask k s) \<longleftrightarrow> remembered s \<noteq> Some k"
  using ask_same [of s k] ask_other [of s k] by auto

lemma ask_remembers: "remembered (snd (ask k s)) = Some k"
  using ask_same [of s k] ask_other [of s k] by (cases "remembered s = Some k") auto

text \<open>After the questions \<open>ks\<close>, put to a state that remembers nothing, the next question is
  granted exactly when its key is new.\<close>

lemma asked_remembers:
  "remembered s = None \<Longrightarrow>
   remembered (fold (\<lambda>k s. snd (ask k s)) ks s) = (if ks = [] then None else Some (last ks))"
  by (induction ks rule: rev_induct) (simp_all add: ask_remembers)

lemma granted_iff_new:
  assumes "remembered s = None" "together (ks @ [k])"
  shows "fst (ask k (fold (\<lambda>k s. snd (ask k s)) ks s)) \<longleftrightarrow> k \<notin> set ks"
proof -
  have "k \<in> set ks \<longleftrightarrow> ks \<noteq> [] \<and> last ks = k"
    using togetherD [OF assms(2)] by (auto intro: last_in_set)
  then show ?thesis by (auto simp: ask_answer asked_remembers [OF assms(1)])
qed

text \<open>A run in which some keys are only seen and some are asked about: what is granted, per element.\<close>

fun grants :: "('k \<times> bool) list \<Rightarrow> 's \<Rightarrow> 'k list list" where
  "grants [] s = []"
| "grants ((k, asking) # xs) s =
     (if asking then (if fst (ask k s) then [k] else []) # grants xs (snd (ask k s)) else [] # grants xs s)"

lemma grants_new:
  assumes "together (past @ map fst xs)"
    and "\<forall>k \<in> granted. k \<in> set past \<and> (last past = k \<longrightarrow> remembered s = Some k)"
  shows "distinct (concat (grants xs s)) \<and> set (concat (grants xs s)) \<inter> granted = {}"
  using assms
proof (induction xs arbitrary: s past granted)
  case (Cons x xs)
  obtain k asking where x: "x = (k, asking)" by (cases x)
  have tog: "together ((past @ [k]) @ map fst xs)" using Cons.prems(1) by (simp add: x)
  have met: "remembered s = Some k" if "k \<in> granted"
    using bspec [OF Cons.prems(2) that] togetherD [of past k "map fst xs"] Cons.prems(1) by (simp add: x)
  let ?granted = "if asking \<and> fst (ask k s) then insert k granted else granted"
  let ?s = "if asking then snd (ask k s) else s"
  have "\<forall>j \<in> ?granted. j \<in> set (past @ [k]) \<and> (last (past @ [k]) = j \<longrightarrow> remembered ?s = Some j)"
    using Cons.prems(2) met ask_remembers [of k s] by (auto split: if_splits)
  note IH = Cons.IH [OF tog this]
  show ?case
    using IH met ask_answer [of k s] by (auto simp: x split: if_splits)
qed simp

lemma grants_once:
  "together (map fst xs) \<Longrightarrow> distinct (concat (grants xs s))"
  using grants_new [of "[]" xs "{}" s] by simp

end

text \<open>What is done on some of the grants is done once, too.\<close>

lemma distinct_some_of:
  "list_all2 (\<lambda>a g. a = [] \<or> a = g) as gs \<Longrightarrow> distinct (concat gs) \<Longrightarrow>
   distinct (concat as) \<and> set (concat as) \<subseteq> set (concat gs)"
  by (induction rule: list_all2_induct) auto

end
