(* ===== verification/Waddle_Intake.thy ===== *)
theory Waddle_Intake
  imports Waddle_Action Waddle_Gate Waddle_Event Waddle_Latch
begin

text \<open>
  The intakes of the intervention stream (\<^verbatim>\<open>waddle-runtime/src/pumps.rs\<close>): agent chunks
  validated against the declared space and stamped with the session's own sequence numbers, teleop
  packets flattened and admitted only under a claim, and the latch that reports a refusal at most
  once per claim window. The stream ring is a list with a capacity; a push into a full ring is lost.
\<close>

subsection \<open>What an error says\<close>

text \<open>Rust's \<^verbatim>\<open>{:?}\<close> of a string, on the bytes of its text.\<close>

definition debug_char :: "char \<Rightarrow> string" where
  "debug_char c =
     (if c = CHR 0x22 then [CHR 0x5C, CHR 0x22] else if c = CHR 0x5C then [CHR 0x5C, CHR 0x5C]
      else if c = CHR 0x0A then [CHR 0x5C, CHR 0x6E] else if c = CHR 0x0D then [CHR 0x5C, CHR 0x72]
      else if c = CHR 0x09 then [CHR 0x5C, CHR 0x74] else if c = CHR 0x00 then [CHR 0x5C, CHR 0x30]
      else [c])"

definition debug_str :: "string \<Rightarrow> string" where
  "debug_str s = CHR 0x22 # concat (map debug_char s) @ [CHR 0x22]"

fun types_error_message :: "types_error \<Rightarrow> string" where
  "types_error_message (MissingField f) = ''missing required field: '' @ f"
| "types_error_message (InvalidEnum f v) = ''invalid enum value '' @ dec_int v @ '' for '' @ f"
| "types_error_message EmptyFrame =
     ''frame_id must be non-empty (untagged geometry is rejected, never defaulted)''"
| "types_error_message (MustDeclare f) = f @ '' must be declared, never guessed (is UNSPECIFIED)''"
| "types_error_message (DimensionMismatch expected got) =
     ''dimension mismatch: expected '' @ dec expected @ '', got '' @ dec got"
| "types_error_message (CompositeDepth part) =
     ''Composite nesting depth is pinned to 1 in v0 (part '' @ debug_str part @ '' is itself composite)''"
| "types_error_message (DuplicatePart part) = ''duplicate composite part name '' @ debug_str part"
| "types_error_message (UnknownPart part) = ''action references unknown part '' @ debug_str part"
| "types_error_message (MissingPart part) = ''part '' @ debug_str part @ '' missing from composite action''"
| "types_error_message OpaqueNotExecutable =
     ''opaque action spaces are monitor-only and cannot be flattened for execution''"
| "types_error_message NoopNotExecutable = ''NOOP markers are gate outputs, not executable actions''"
| "types_error_message (InvalidValue f reason) = ''invalid '' @ f @ '': '' @ reason"

subsection \<open>The latch of a claim window\<close>

record window_latch =
  wl_generation :: u64
  wl_raised :: bool

definition latch_new :: window_latch where
  "latch_new = \<lparr>wl_generation = 0, wl_raised = False\<rparr>"

definition latch_raise :: "u64 \<Rightarrow> window_latch \<Rightarrow> bool \<times> window_latch" where
  "latch_raise generation l =
     (let l = (if wl_generation l \<noteq> generation then \<lparr>wl_generation = generation, wl_raised = False\<rparr> else l)
      in (\<not> wl_raised l, l\<lparr>wl_raised := True\<rparr>))"

definition latch_window :: "window_latch \<Rightarrow> u64 option" where
  "latch_window l = (if wl_raised l then Some (wl_generation l) else None)"

interpretation latch: once_per_key latch_raise latch_window
  by unfold_locales (auto simp: latch_raise_def latch_window_def Let_def split: if_splits)

subsection \<open>Agent chunks\<close>

record chunk_intake_faults =
  fi_dims :: window_latch
  fi_not_executable :: window_latch
  fi_inert :: window_latch

record chunk_intake_state =
  ci_next_seq :: u64
  ci_faults :: chunk_intake_faults

definition chunk_intake_new :: chunk_intake_state where
  "chunk_intake_new =
     \<lparr>ci_next_seq = 0, ci_faults = \<lparr>fi_dims = latch_new, fi_not_executable = latch_new, fi_inert = latch_new\<rparr>\<rparr>"

definition agent_chunk_source :: string where "agent_chunk_source = ''agent-chunk''"

definition stream_push :: "nat \<Rightarrow> timed_action \<Rightarrow> timed_action list \<Rightarrow> timed_action list" where
  "stream_push cap a ring = (if length ring < cap then ring @ [a] else ring)"

definition chunk_item :: "chunk_meta \<Rightarrow> mono_ns \<Rightarrow> u64 \<Rightarrow> action_step \<Rightarrow> timed_action" where
  "chunk_item meta t seq st =
     \<lparr>ta_channel = SC_AgentChunk, ta_seq = seq, ta_received = i64_sat (t + as_offset_ns st),
      ta_action = \<lparr>oa_values = as_values st, oa_velocity_feedforward = as_velocity_feedforward st,
                   oa_gripper = as_gripper_cmd st, oa_part = as_part st\<rparr>,
      ta_chunk = Some meta\<rparr>"

fun push_steps ::
  "nat \<Rightarrow> chunk_meta \<Rightarrow> mono_ns \<Rightarrow> action_step list \<Rightarrow> u64 \<times> timed_action list \<Rightarrow> u64 \<times> timed_action list" where
  "push_steps cap meta t [] (seq, ring) = (seq, ring)"
| "push_steps cap meta t (st # sts) (seq, ring) =
     push_steps cap meta t sts (seq + 1, stream_push cap (chunk_item meta t (seq + 1) st) ring)"

definition raise_dims :: "u64 \<Rightarrow> chunk_intake_state \<Rightarrow> bool \<times> chunk_intake_state" where
  "raise_dims g c =
     (let (a, l) = latch_raise g (fi_dims (ci_faults c)) in (a, c\<lparr>ci_faults := (ci_faults c)\<lparr>fi_dims := l\<rparr>\<rparr>))"

definition raise_not_executable :: "u64 \<Rightarrow> chunk_intake_state \<Rightarrow> bool \<times> chunk_intake_state" where
  "raise_not_executable g c =
     (let (a, l) = latch_raise g (fi_not_executable (ci_faults c))
      in (a, c\<lparr>ci_faults := (ci_faults c)\<lparr>fi_not_executable := l\<rparr>\<rparr>))"

definition raise_inert :: "u64 \<Rightarrow> chunk_intake_state \<Rightarrow> bool \<times> chunk_intake_state" where
  "raise_inert g c =
     (let (a, l) = latch_raise g (fi_inert (ci_faults c)) in (a, c\<lparr>ci_faults := (ci_faults c)\<lparr>fi_inert := l\<rparr>\<rparr>))"

definition rejected :: "reject_reason \<Rightarrow> mono_ns \<Rightarrow> session_event" where
  "rejected reason t = InterventionRejected agent_chunk_source reason t"

text \<open>The declared space, the policies of the connection and the ring's capacity stay with the
  session; a call has its arrival time, the claim generation of the mirror snapshot that admitted
  it, and the chunk.\<close>

definition intake_intervention_chunk ::
  "nat \<Rightarrow> action_space \<Rightarrow> part_policy \<Rightarrow> velocity_feedforward_policy \<Rightarrow> mono_ns \<Rightarrow> u64 \<Rightarrow> pb_action_chunk \<Rightarrow>
   chunk_intake_state \<times> timed_action list \<Rightarrow> session_event list \<times> chunk_intake_state \<times> timed_action list" where
  "intake_intervention_chunk cap space parts vff t generation ck s =
     (let (c, ring) = s; n = length (pk_actions ck)
      in case chunk_from_pb_vff ck space parts vff of
           Inr fl \<Rightarrow>
             (let meta = \<lparr>cm_chunk_seq = ch_seq (fl_chunk fl), cm_t_emitted_ns = ch_t_emitted_ns (fl_chunk fl)\<rparr>;
                  (seq, ring) = push_steps cap meta t (ch_steps (fl_chunk fl)) (ci_next_seq c, ring);
                  c = c\<lparr>ci_next_seq := seq\<rparr>
              in if fl_inert fl \<noteq> []
                 then (let (a, c) = raise_inert generation c
                       in (if a then [rejected (RR_InertStepsSkipped (length (fl_inert fl)) n) t] else [], c, ring))
                 else ([], c, ring))
         | Inl (DimensionMismatch expected got) \<Rightarrow>
             (let (a, c) = raise_dims generation c in (if a then [rejected (RR_Dims got expected) t] else [], c, ring))
         | Inl err \<Rightarrow>
             (let (a, c) = raise_not_executable generation c
              in (if a then [rejected (RR_NotExecutable (types_error_message err)) t] else [], c, ring)))"

subsection \<open>Teleop packets\<close>

datatype part_target_kind = PT_Pose pb_pose | PT_Twist pb_twist

record pb_part_target =
  pt_target :: "part_target_kind option"
  pt_gripper :: "flt option"

record teleop_packet =
  tp_seq :: u64
  tp_targets :: "pb_part_target list"

text \<open>The targets in packet order; the first declared gripper rides along.\<close>

fun flatten_targets :: "pb_part_target list \<Rightarrow> flt list \<Rightarrow> flt option \<Rightarrow> (flt list \<times> flt option) option" where
  "flatten_targets [] values gripper = Some (values, gripper)"
| "flatten_targets (target # targets) values gripper =
     (let gripper' = (case gripper of None \<Rightarrow> pt_gripper target | Some g \<Rightarrow> Some g)
      in case pt_target target of
           Some (PT_Pose p) \<Rightarrow>
             (case (po_position p, po_rotation p) of
                (Some (Vec3 x y z), Some (Quat rw rx ry rz)) \<Rightarrow>
                  flatten_targets targets (values @ [x, y, z, rw, rx, ry, rz]) gripper'
              | _ \<Rightarrow> None)
         | Some (PT_Twist v) \<Rightarrow>
             (case (tw_linear v, tw_angular v) of
                (Some (Vec3 x y z), Some (Vec3 a b c)) \<Rightarrow> flatten_targets targets (values @ [x, y, z, a, b, c]) gripper'
              | _ \<Rightarrow> None)
         | None \<Rightarrow> None)"

definition flatten_packet :: "teleop_packet \<Rightarrow> owned_action option" where
  "flatten_packet packet =
     (case flatten_targets (tp_targets packet) [] None of
        None \<Rightarrow> None
      | Some (values, gripper) \<Rightarrow>
          if values = [] then None
          else Some \<lparr>oa_values = values, oa_velocity_feedforward = None, oa_gripper = gripper, oa_part = None\<rparr>)"

definition media_source :: string where "media_source = ''media-intake''"

text \<open>A packet at an arrival time, under a snapshot of the mirror.\<close>

definition media_pose ::
  "nat \<Rightarrow> nat option \<Rightarrow> gripper_kind option \<Rightarrow> bool \<Rightarrow> u64 \<Rightarrow> mono_ns \<Rightarrow> teleop_packet \<Rightarrow>
   window_latch \<times> timed_action list \<Rightarrow> session_event list \<times> window_latch \<times> timed_action list" where
  "media_pose cap expected gripper_spec claim_active generation now packet s =
     (let (l, ring) = s in
      case (if claim_active then flatten_packet packet else None) of
        None \<Rightarrow> ([], l, ring)
      | Some a \<Rightarrow>
          if (case expected of Some want \<Rightarrow> length (oa_values a) = want | None \<Rightarrow> True)
          then
            (let a = a\<lparr>oa_gripper := map_option (\<lambda>g. case gripper_spec of Some spec \<Rightarrow> map_normalized spec g | None \<Rightarrow> g)
                          (oa_gripper a)\<rparr>
             in ([], l, stream_push cap \<lparr>ta_channel = SC_Teleop, ta_seq = tp_seq packet, ta_received = now,
                          ta_action = a, ta_chunk = None\<rparr> ring))
          else
            (let (raised, l) = latch_raise generation l
             in (if raised
                 then [InterventionRejected media_source
                         (RR_Dims (length (oa_values a)) (case expected of Some want \<Rightarrow> want | None \<Rightarrow> 0)) now]
                 else [], l, ring)))"

text \<open>A pass of the intake thread: a pose if one is there, then a clutch transition if one is
  there (\<open>Some None\<close> for bytes that do not decode), and whether it found nothing and sleeps.\<close>

definition media_turn ::
  "nat \<Rightarrow> nat option \<Rightarrow> gripper_kind option \<Rightarrow> bool \<Rightarrow> u64 \<Rightarrow> (mono_ns \<times> teleop_packet) option \<Rightarrow>
   (mono_ns \<times> bool option) option \<Rightarrow> window_latch \<times> timed_action list \<Rightarrow>
   session_event list \<times> bool \<times> window_latch \<times> timed_action list" where
  "media_turn cap expected gripper_spec claim_active generation pose clutch s =
     (let (evs, s) = (case pose of
            Some (now, packet) \<Rightarrow> media_pose cap expected gripper_spec claim_active generation now packet s
          | None \<Rightarrow> ([], s));
          clutched = (case clutch of Some (t, Some engaged) \<Rightarrow> [Clutch engaged t] | _ \<Rightarrow> [])
      in (evs @ clutched, pose = None \<and> clutch = None, s))"

subsection \<open>Refusals are reported once per claim window\<close>

text \<open>The reason a chunk gives to report, and the independent kinds of reason: three of the chunk
  intake and the width of a teleop packet.\<close>

definition chunk_verdict ::
  "action_space \<Rightarrow> part_policy \<Rightarrow> velocity_feedforward_policy \<Rightarrow> pb_action_chunk \<Rightarrow> reject_reason option" where
  "chunk_verdict space parts vff ck =
     (case chunk_from_pb_vff ck space parts vff of
        Inr fl \<Rightarrow> if fl_inert fl = [] then None else Some (RR_InertStepsSkipped (length (fl_inert fl)) (length (pk_actions ck)))
      | Inl (DimensionMismatch expected got) \<Rightarrow> Some (RR_Dims got expected)
      | Inl err \<Rightarrow> Some (RR_NotExecutable (types_error_message err)))"

datatype reason_kind = RK_Dims | RK_NotExecutable | RK_Inert | RK_Packet

fun reason_kind_of :: "reject_reason \<Rightarrow> reason_kind" where
  "reason_kind_of (RR_Dims g e) = RK_Dims"
| "reason_kind_of (RR_NotExecutable m) = RK_NotExecutable"
| "reason_kind_of (RR_InertStepsSkipped k n) = RK_Inert"

fun fault_latch :: "reason_kind \<Rightarrow> chunk_intake_state \<times> window_latch \<Rightarrow> window_latch" where
  "fault_latch RK_Dims (c, l) = fi_dims (ci_faults c)"
| "fault_latch RK_NotExecutable (c, l) = fi_not_executable (ci_faults c)"
| "fault_latch RK_Inert (c, l) = fi_inert (ci_faults c)"
| "fault_latch RK_Packet (c, l) = l"

lemma reason_kind_chunk [simp]: "reason_kind_of r \<noteq> RK_Packet"
  by (cases r) simp_all

text \<open>What reaches the two intakes of a session, which share the stream ring, in any order: chunks
  under the policies of the connection they came on, teleop packets under the claim they met, and
  the consumption of the ring.\<close>

datatype intake_call =
    Chunk_In part_policy velocity_feedforward_policy mono_ns u64 pb_action_chunk
  | Packet_In bool u64 mono_ns teleop_packet
  | Ring_Out nat

type_synonym intakes = "(chunk_intake_state \<times> window_latch) \<times> timed_action list"

fun run_call ::
  "nat \<Rightarrow> action_space \<Rightarrow> nat option \<Rightarrow> gripper_kind option \<Rightarrow> intake_call \<Rightarrow> intakes \<Rightarrow> session_event list \<times> intakes" where
  "run_call cap space expected grip (Chunk_In parts vff t g ck) ((c, l), ring) =
     (let (evs, c, ring) = intake_intervention_chunk cap space parts vff t g ck (c, ring) in (evs, (c, l), ring))"
| "run_call cap space expected grip (Packet_In active g now packet) ((c, l), ring) =
     (let (evs, l, ring) = media_pose cap expected grip active g now packet (l, ring) in (evs, (c, l), ring))"
| "run_call cap space expected grip (Ring_Out n) (s, ring) = ([], s, drop n ring)"

fun intake_calls ::
  "nat \<Rightarrow> action_space \<Rightarrow> nat option \<Rightarrow> gripper_kind option \<Rightarrow> intake_call list \<Rightarrow> intakes \<Rightarrow>
   session_event list \<times> intakes" where
  "intake_calls cap space expected grip [] s = ([], s)"
| "intake_calls cap space expected grip (call # calls) s =
     (let (evs, s) = run_call cap space expected grip call s;
          (evs', s) = intake_calls cap space expected grip calls s
      in (evs @ evs', s))"

lemma intake_reports:
  "fst (intake_intervention_chunk cap space parts vff t g ck (c, ring)) =
     (case chunk_verdict space parts vff ck of
        None \<Rightarrow> []
      | Some r \<Rightarrow> if latch_window (fault_latch (reason_kind_of r) (c, l)) \<noteq> Some g then [rejected r t] else [])"
  by (auto simp: intake_intervention_chunk_def chunk_verdict_def Let_def case_prod_unfold raise_dims_def
      raise_not_executable_def raise_inert_def latch.ask_answer split: sum.split types_error.split)

lemma intake_latches:
  "latch_window (fault_latch k (fst (snd (intake_intervention_chunk cap space parts vff t g ck (c, ring))), l)) =
     (case chunk_verdict space parts vff ck of
        None \<Rightarrow> latch_window (fault_latch k (c, l))
      | Some r \<Rightarrow> if reason_kind_of r = k then Some g else latch_window (fault_latch k (c, l)))"
  by (cases k) (auto simp: intake_intervention_chunk_def chunk_verdict_def Let_def case_prod_unfold raise_dims_def
      raise_not_executable_def raise_inert_def latch.ask_remembers split: sum.split types_error.split)

text \<open>The report a call gives rise to, with its kind, and the window the call was admitted under.\<close>

fun call_verdict :: "action_space \<Rightarrow> nat option \<Rightarrow> intake_call \<Rightarrow> (reason_kind \<times> session_event) option" where
  "call_verdict space expected (Chunk_In parts vff t g ck) =
     map_option (\<lambda>r. (reason_kind_of r, rejected r t)) (chunk_verdict space parts vff ck)"
| "call_verdict space expected (Packet_In active g now packet) =
     (case (if active then flatten_packet packet else None, expected) of
        (Some a, Some want) \<Rightarrow>
          if length (oa_values a) = want then None
          else Some (RK_Packet, InterventionRejected media_source (RR_Dims (length (oa_values a)) want) now)
      | _ \<Rightarrow> None)"
| "call_verdict space expected (Ring_Out n) = None"

fun call_window :: "intake_call \<Rightarrow> u64" where
  "call_window (Chunk_In parts vff t g ck) = g"
| "call_window (Packet_In active g now packet) = g"
| "call_window (Ring_Out n) = 0"

fun is_chunk :: "intake_call \<Rightarrow> bool" where
  "is_chunk (Chunk_In parts vff t g ck) = True" | "is_chunk call = False"

fun is_packet :: "intake_call \<Rightarrow> bool" where
  "is_packet (Packet_In active g now packet) = True" | "is_packet call = False"

text \<open>The windows in which a call of the kind was refused so far, in order.\<close>

definition refused_windows :: "action_space \<Rightarrow> nat option \<Rightarrow> reason_kind \<Rightarrow> intake_call list \<Rightarrow> u64 list" where
  "refused_windows space expected k calls =
     map call_window (filter (\<lambda>call. map_option fst (call_verdict space expected call) = Some k) calls)"

definition latest_window :: "u64 list \<Rightarrow> u64 option" where
  "latest_window gs = (if gs = [] then None else Some (last gs))"

text \<open>What is owed: the first refusal of each kind in each window.\<close>

fun owed_reports ::
  "action_space \<Rightarrow> nat option \<Rightarrow> intake_call list \<Rightarrow> intake_call list \<Rightarrow> session_event list" where
  "owed_reports space expected past [] = []"
| "owed_reports space expected past (call # calls) =
     (case call_verdict space expected call of
        None \<Rightarrow> []
      | Some (k, ev) \<Rightarrow> if call_window call \<in> set (refused_windows space expected k past) then [] else [ev]) @
     owed_reports space expected (past @ [call]) calls"

lemma run_call_reports:
  "fst (run_call cap space expected grip call (s, ring)) =
     (case call_verdict space expected call of
        None \<Rightarrow> []
      | Some (k, ev) \<Rightarrow> if latch_window (fault_latch k s) \<noteq> Some (call_window call) then [ev] else [])"
proof (cases s)
  case (Pair c l)
  show ?thesis
  proof (cases call)
    case (Chunk_In parts vff t g ck)
    show ?thesis
      by (simp add: Chunk_In Pair Let_def case_prod_unfold intake_reports [where l = l] split: option.split)
  next
    case (Packet_In active g now packet)
    then show ?thesis
      by (auto simp: Pair media_pose_def Let_def case_prod_unfold latch.ask_answer split: option.split)
  qed (simp add: Pair)
qed

lemma run_call_latches:
  "latch_window (fault_latch k (fst (snd (run_call cap space expected grip call (s, ring))))) =
     (if map_option fst (call_verdict space expected call) = Some k then Some (call_window call)
      else latch_window (fault_latch k s))"
proof (cases s)
  case (Pair c l)
  show ?thesis
  proof (cases call)
    case (Chunk_In parts vff t g ck)
    show ?thesis
      by (auto simp: Chunk_In Pair Let_def case_prod_unfold intake_latches split: option.split)
  next
    case (Packet_In active g now packet)
    then show ?thesis
      by (cases k) (auto simp: Pair media_pose_def Let_def case_prod_unfold latch.ask_remembers split: option.split)
  qed (simp add: Pair)
qed

text \<open>The windows each intake admits under do not go back.\<close>

definition windows_advance :: "intake_call list \<Rightarrow> bool" where
  "windows_advance calls \<longleftrightarrow>
     sorted (map call_window (filter is_chunk calls)) \<and> sorted (map call_window (filter is_packet calls))"

lemma refused_windows_sorted:
  assumes "windows_advance calls"
  shows "sorted (refused_windows space expected k calls)"
proof -
  let ?P = "\<lambda>call. map_option fst (call_verdict space expected call) = Some k"
  have kind: "?P call \<Longrightarrow> if k = RK_Packet then is_packet call else is_chunk call" for call
    by (cases call) (auto split: option.splits if_splits)
  have "filter ?P calls = filter ?P (filter (if k = RK_Packet then is_packet else is_chunk) calls)"
    using kind by (auto intro!: filter_cong)
  then show ?thesis
    using assms by (auto simp: refused_windows_def windows_advance_def simp del: filter_filter intro!: sorted_filter)
qed

lemma windows_advance_appendD: "windows_advance (xs @ ys) \<Longrightarrow> windows_advance xs"
  by (simp add: windows_advance_def sorted_append)

lemma intake_calls_reports:
  assumes "windows_advance (past @ calls)"
    and "\<forall>k. latch_window (fault_latch k s) = latest_window (refused_windows space expected k past)"
  shows "fst (intake_calls cap space expected grip calls (s, ring)) = owed_reports space expected past calls"
  using assms
proof (induction calls arbitrary: past s ring)
  case (Cons call calls)
  obtain evs s' ring' where one: "run_call cap space expected grip call (s, ring) = (evs, s', ring')"
    by (metis prod.exhaust)
  let ?past = "past @ [call]"
  have windows: "refused_windows space expected k ?past = refused_windows space expected k past @
      (if map_option fst (call_verdict space expected call) = Some k then [call_window call] else [])" for k
    by (simp add: refused_windows_def)
  have latches: "\<forall>k. latch_window (fault_latch k s') = latest_window (refused_windows space expected k ?past)"
    using run_call_latches [of _ cap space expected grip call s ring] Cons.prems(2) one windows
    by (simp add: latest_window_def)
  have new: "latch_window (fault_latch k s) \<noteq> Some (call_window call) \<longleftrightarrow>
      call_window call \<notin> set (refused_windows space expected k past)"
    if "call_verdict space expected call = Some (k, ev)" for k ev
  proof -
    have "windows_advance ?past"
      using Cons.prems(1) windows_advance_appendD [of ?past calls] by simp
    from refused_windows_sorted [OF this, of space expected k] windows [of k] that
    have "together (refused_windows space expected k past @ call_window call # [])"
      using sorted_together by simp
    from togetherD [OF this] have "call_window call \<in> set (refused_windows space expected k past) \<longleftrightarrow>
        refused_windows space expected k past \<noteq> [] \<and> last (refused_windows space expected k past) = call_window call"
      by (metis empty_iff empty_set last_in_set)
    then show ?thesis using Cons.prems(2) by (auto simp: latest_window_def)
  qed
  have "evs = (case call_verdict space expected call of
        None \<Rightarrow> []
      | Some (k, ev) \<Rightarrow> if call_window call \<in> set (refused_windows space expected k past) then [] else [ev])"
    using run_call_reports [of cap space expected grip call s ring] one new by (auto split: option.splits)
  with Cons.IH [of ?past s' ring'] Cons.prems(1) latches one show ?case
    by (simp add: Let_def case_prod_unfold)
qed simp

text \<open>C28. A refusal is reported once per claim window and kind: for any interleaving of agent chunks
  (under whatever policies their connections had), teleop packets and consumption of the ring, as
  long as neither intake is shown a claim generation older than one it has seen, the reports are
  exactly the first refusal of each kind (chunk of the wrong width, chunk not executable, inert
  steps skipped, packet of the wrong width) in each window, in order and with the reason of that
  call: a repeated one is swallowed, a window's first never. The declared space does not change
  in a session.\<close>

theorem refusals_are_reported_once_per_window:
  assumes "windows_advance calls"
  shows "fst (intake_calls cap space expected grip calls ((chunk_intake_new, latch_new), ring)) =
    owed_reports space expected [] calls"
proof (rule intake_calls_reports)
  show "windows_advance ([] @ calls)" using assms by simp
  show "\<forall>k. latch_window (fault_latch k (chunk_intake_new, latch_new)) = latest_window (refused_windows space expected k [])"
  proof
    fix k
    show "latch_window (fault_latch k (chunk_intake_new, latch_new)) = latest_window (refused_windows space expected k [])"
      by (cases k) (simp_all add: chunk_intake_new_def latch_new_def latch_window_def latest_window_def refused_windows_def)
  qed
qed

text \<open>Refused chunks in two windows with a refused packet between: a repeated refusal is reported
  once in each window.\<close>

definition noop_chunk :: "pb_action_chunk" where
  "noop_chunk = demo_chunk\<lparr>pk_actions := [half_noop]\<rparr>"

definition demo_packet :: teleop_packet where
  "demo_packet = \<lparr>tp_seq = 1, tp_targets =
     [\<lparr>pt_target = Some (PT_Twist \<lparr>tw_linear = Some (Vec3 (Fin 0) (Fin 0) (Fin 0)), tw_angular = Some (Vec3 (Fin 0) (Fin 0) (Fin 0))\<rparr>), pt_gripper = None\<rparr>]\<rparr>"

definition demo_intake_calls :: "intake_call list" where
  "demo_intake_calls =
     [Chunk_In PP_Honor VF_Ignore 1 7 noop_chunk, Packet_In True 7 2 demo_packet, Chunk_In PP_Honor VF_Ignore 3 7 noop_chunk,
      Packet_In True 7 4 demo_packet, Chunk_In PP_Honor VF_Ignore 5 8 noop_chunk]"

theorem refusals_are_reported_once_per_window_witness:
  "fst (intake_calls 4 demo_space (Some 9) None demo_intake_calls ((chunk_intake_new, latch_new), [])) =
     [rejected (RR_InertStepsSkipped 1 1) 1, InterventionRejected media_source (RR_Dims 6 9) 2,
      rejected (RR_InertStepsSkipped 1 1) 5]"
proof -
  have "chunk_from_pb_vff noop_chunk demo_space PP_Honor VF_Ignore =
      Inr \<lparr>fl_chunk = (fl_chunk demo_flattened)\<lparr>ch_steps := []\<rparr>, fl_inert = [0]\<rparr>"
    using composite_with_noop_part_is_inert unfolding noop_chunk_def chunk_from_pb_def by blast
  then have "chunk_verdict demo_space PP_Honor VF_Ignore noop_chunk = Some (RR_InertStepsSkipped 1 1)"
    by (simp add: chunk_verdict_def) (simp add: noop_chunk_def)
  moreover have "\<exists>a. flatten_packet demo_packet = Some a \<and> length (oa_values a) = 6"
    by (simp add: flatten_packet_def demo_packet_def)
  ultimately have "owed_reports demo_space (Some 9) [] demo_intake_calls =
      [rejected (RR_InertStepsSkipped 1 1) 1, InterventionRejected media_source (RR_Dims 6 9) 2,
       rejected (RR_InertStepsSkipped 1 1) 5]"
    by (auto simp: refused_windows_def demo_intake_calls_def)
  then show ?thesis
    using refusals_are_reported_once_per_window [of demo_intake_calls 4 demo_space "Some 9" None "[]"]
    by (simp add: windows_advance_def demo_intake_calls_def)
qed

text \<open>When two admissions race, a chunk admitted under an older snapshot re-arms the latch: the same
  window hears the same refusal twice.\<close>

theorem stale_snapshot_repeats_a_refusal:
  "fst (latch_raise 6 latch_new) \<and> fst (latch_raise 5 (snd (latch_raise 6 latch_new))) \<and>
   fst (latch_raise 6 (snd (latch_raise 5 (snd (latch_raise 6 latch_new)))))"
  by (simp add: latch_raise_def latch_new_def Let_def)

subsection \<open>What reaches the ring\<close>

fun chunk_items :: "chunk_meta \<Rightarrow> mono_ns \<Rightarrow> u64 \<Rightarrow> action_step list \<Rightarrow> timed_action list" where
  "chunk_items meta t seq [] = []"
| "chunk_items meta t seq (st # sts) = chunk_item meta t (seq + 1) st # chunk_items meta t (seq + 1) sts"

lemma length_chunk_items [simp]: "length (chunk_items meta t seq sts) = length sts"
  by (induction sts arbitrary: seq) simp_all

lemma chunk_items_nth:
  "i < length sts \<Longrightarrow> chunk_items meta t seq sts ! i = chunk_item meta t (seq + of_nat (Suc i)) (sts ! i)"
proof (induction sts arbitrary: seq i)
  case (Cons st sts)
  then show ?case by (cases i) (simp_all add: algebra_simps)
qed simp

lemma push_steps_items:
  "push_steps cap meta t sts (seq, ring) =
     (seq + of_nat (length sts), ring @ take (cap - length ring) (chunk_items meta t seq sts))"
  by (induction sts arbitrary: seq ring) (simp_all add: stream_push_def algebra_simps take_Cons' Suc_diff_Suc)

text \<open>Accepted steps reach the ring in order under consecutive numbers of the session: an accepted
  chunk appends its steps on the agent channel, each stamped with the next number, its due time
  and the identity of its chunk; what does not fit is the tail of the chunk, and the numbering
  counts it; a refused chunk touches neither the ring nor the numbering.\<close>

theorem chunk_steps_are_numbered:
  assumes "intake_intervention_chunk cap space parts vff t g ck (c, ring) = (evs, c', ring')"
  shows "case chunk_from_pb_vff ck space parts vff of
      Inr fl \<Rightarrow>
        (let sts = ch_steps (fl_chunk fl);
             items = map (\<lambda>i. chunk_item \<lparr>cm_chunk_seq = ch_seq (fl_chunk fl), cm_t_emitted_ns = ch_t_emitted_ns (fl_chunk fl)\<rparr>
                               t (ci_next_seq c + of_nat (Suc i)) (sts ! i)) [0..<length sts]
         in ring' = ring @ take (cap - length ring) items \<and> ci_next_seq c' = ci_next_seq c + of_nat (length sts))
    | Inl e \<Rightarrow> ring' = ring \<and> ci_next_seq c' = ci_next_seq c"
proof (cases "chunk_from_pb_vff ck space parts vff")
  case (Inl e)
  with assms show ?thesis
    by (cases e) (auto simp: intake_intervention_chunk_def Let_def case_prod_unfold raise_dims_def raise_not_executable_def)
next
  case (Inr fl)
  let ?meta = "\<lparr>cm_chunk_seq = ch_seq (fl_chunk fl), cm_t_emitted_ns = ch_t_emitted_ns (fl_chunk fl)\<rparr>"
  have "chunk_items ?meta t (ci_next_seq c) (ch_steps (fl_chunk fl)) =
      map (\<lambda>i. chunk_item ?meta t (ci_next_seq c + of_nat (Suc i)) (ch_steps (fl_chunk fl) ! i)) [0..<length (ch_steps (fl_chunk fl))]"
    by (rule nth_equalityI) (simp_all add: chunk_items_nth del: of_nat_Suc)
  with assms Inr show ?thesis
    by (auto simp: intake_intervention_chunk_def Let_def case_prod_unfold raise_inert_def push_steps_items split: if_splits)
qed

theorem chunk_steps_are_numbered_witness:
  "\<exists>a b. snd (snd (intake_intervention_chunk 4 demo_space PP_Honor VF_Honor 100 7 demo_chunk (chunk_intake_new, []))) = a # b \<and>
     ta_seq a = 1 \<and> ta_channel a = SC_AgentChunk"
proof -
  obtain evs c' ring' where run:
    "intake_intervention_chunk 4 demo_space PP_Honor VF_Honor 100 7 demo_chunk (chunk_intake_new, []) = (evs, c', ring')"
    by (metis prod.exhaust)
  have "ch_steps (fl_chunk demo_flattened) \<noteq> []" by (simp add: demo_flattened_def)
  with chunk_steps_are_numbered [OF run] run show ?thesis
    by (cases "ch_steps (fl_chunk demo_flattened)")
      (auto simp: demo_chunk_flattens Let_def chunk_item_def chunk_intake_new_def upt_rec [of 0] simp del: upt_Suc)
qed

text \<open>Teleop: nothing enters the ring without an active claim, and what enters has the declared
  width and the mapped gripper.\<close>

lemma flatten_targets_width:
  "flatten_targets targets values gripper = Some (vs, g) \<Longrightarrow>
   length vs = length values + sum_list (map (\<lambda>x. case pt_target x of Some (PT_Pose p) \<Rightarrow> 7 | Some (PT_Twist v) \<Rightarrow> 6 | None \<Rightarrow> 0) targets) \<and>
   g = (case gripper of Some y \<Rightarrow> Some y | None \<Rightarrow> find_map pt_gripper targets)"
  by (induction targets "values" gripper rule: flatten_targets.induct)
    (auto simp: Let_def split: option.splits part_target_kind.splits vec3.splits quat.splits)

theorem teleop_enters_under_a_claim:
  "case media_pose cap expected gripper_spec active g now packet (l, ring) of (evs, l', ring') \<Rightarrow>
     ring' = ring \<or>
     (\<exists>a. active \<and> flatten_packet packet = Some a \<and> (\<forall>want. expected = Some want \<longrightarrow> length (oa_values a) = want) \<and>
        length ring < cap \<and> evs = [] \<and>
        ring' = ring @ [\<lparr>ta_channel = SC_Teleop, ta_seq = tp_seq packet, ta_received = now,
                   ta_action = a\<lparr>oa_gripper := map_option (\<lambda>x. case gripper_spec of Some spec \<Rightarrow> map_normalized spec x | None \<Rightarrow> x) (oa_gripper a)\<rparr>,
                   ta_chunk = None\<rparr>])"
  by (auto simp: media_pose_def stream_push_def Let_def case_prod_unfold split: option.splits)

end
