(* ===== verification/Waddle_Verbs.thy ===== *)
theory Waddle_Verbs
  imports Waddle_Action Waddle_Buffers
begin

text \<open>
  The verb dispatch (\<^verbatim>\<open>waddle-runtime/src/verbs.rs\<close>): one thread that calls the
  integrator's verbs one by one, an emergency stop before everything else. The integrator's
  callables are parameters (what the n-th call returns, a panic included); the dispatch loop is
  a machine of micro steps, one per shared-state access, interleaved with the callers.

  The lemmas bound what may still run once an emergency stop is requested, and show that
  ordinary requests run in the order they were made.
\<close>

subsection \<open>Verbs and the registry\<close>

datatype verb_request = VR_Send action_chunk | VR_Hold | VR_Resume | VR_Home | VR_Estop

fun request_verb :: "verb_request \<Rightarrow> verb" where
  "request_verb (VR_Send c) = V_Send"
| "request_verb VR_Hold = V_Hold"
| "request_verb VR_Resume = V_Resume"
| "request_verb VR_Home = V_Home"
| "request_verb VR_Estop = V_Estop"

datatype verb_error = VE_NotRegistered verb | VE_Failed string | VE_Panicked

text \<open>What calling an integrator's callable does.\<close>

datatype call_outcome = CO_Returns | CO_Fails verb_error | CO_Panics

record control_registry =
  cr_send :: "(nat \<Rightarrow> action_chunk \<Rightarrow> call_outcome) option"
  cr_hold :: "(nat \<Rightarrow> call_outcome) option"
  cr_resume :: "(nat \<Rightarrow> call_outcome) option"
  cr_home :: "(nat \<Rightarrow> call_outcome) option"
  cr_estop :: "(nat \<Rightarrow> call_outcome) option"

record verb_outcome =
  vo_verb :: verb
  vo_result :: "verb_error + unit"
  vo_latency_ns :: int
  vo_at :: mono_ns

definition unit_verb :: "(nat \<Rightarrow> call_outcome) option \<Rightarrow> verb \<Rightarrow> nat \<Rightarrow> call_outcome" where
  "unit_verb slot v n = (case slot of None \<Rightarrow> CO_Fails (VE_NotRegistered v) | Some cb \<Rightarrow> cb n)"

fun call_verb :: "control_registry \<Rightarrow> nat \<Rightarrow> verb_request \<Rightarrow> call_outcome" where
  "call_verb reg n (VR_Send c) =
     (case cr_send reg of None \<Rightarrow> CO_Fails (VE_NotRegistered V_Send) | Some cb \<Rightarrow> cb n c)"
| "call_verb reg n VR_Hold = unit_verb (cr_hold reg) V_Hold n"
| "call_verb reg n VR_Resume = unit_verb (cr_resume reg) V_Resume n"
| "call_verb reg n VR_Home = unit_verb (cr_home reg) V_Home n"
| "call_verb reg n VR_Estop = unit_verb (cr_estop reg) V_Estop n"

text \<open>\<^verbatim>\<open>catch_unwind\<close> turns a panic into an error.\<close>

fun caught :: "call_outcome \<Rightarrow> verb_error + unit" where
  "caught CO_Returns = Inr ()"
| "caught (CO_Fails e) = Inl e"
| "caught CO_Panics = Inl VE_Panicked"

subsection \<open>Dispatch latencies\<close>

definition stats_capacity :: nat where "stats_capacity = 256"

definition stats_record :: "int \<Rightarrow> int list \<Rightarrow> int list" where
  "stats_record latency s = (if stats_capacity \<le> length s then tl s else s) @ [latency]"

definition stats_percentiles :: "int list \<Rightarrow> int \<times> int" where
  "stats_percentiles samples =
     (let s = sort samples in
      if s = [] then (0, 0) else (s ! (length s div 2), s ! (length s * 95 div 100)))"

interpretation latency_window: drop_oldest "\<lambda>s. s" "\<lambda>s. stats_capacity" stats_record
  "\<lambda>s. length s \<le> stats_capacity"
  by unfold_locales (auto simp: stats_record_def stats_capacity_def)

theorem latencies_are_the_newest: "fold stats_record ls [] = newest stats_capacity ls"
  using latency_window.items_pushes [of "[]" ls] by simp

lemma percentile_indices: "s \<noteq> [] \<Longrightarrow> length s div 2 < length s \<and> length s * 95 div 100 < length s"
  by (cases "length s") auto

subsection \<open>The dispatch loop\<close>

datatype dispatch_pc = DP_Top | DP_CheckEstop | DP_CheckHold | DP_Receive | DP_Stopped

record verb_dispatch =
  vd_queue :: "verb_request list"
  vd_estop_flag :: bool
  vd_priority_hold_flag :: bool
  vd_shutdown :: bool
  vd_pc :: dispatch_pc
  vd_calls :: "verb_request list"
  vd_outcomes :: "verb_outcome list"
  vd_stats :: "int list"

definition verb_dispatch_spawn :: verb_dispatch where
  "verb_dispatch_spawn =
     \<lparr>vd_queue = [], vd_estop_flag = False, vd_priority_hold_flag = False, vd_shutdown = False,
      vd_pc = DP_Top, vd_calls = [], vd_outcomes = [], vd_stats = []\<rparr>"

definition verb_request_queue :: "verb_request \<Rightarrow> verb_dispatch \<Rightarrow> verb_dispatch" where
  "verb_request_queue req d =
     (if req = VR_Estop then d\<lparr>vd_estop_flag := True\<rparr> else d\<lparr>vd_queue := vd_queue d @ [req]\<rparr>)"

definition request_priority_hold :: "verb_dispatch \<Rightarrow> verb_dispatch" where
  "request_priority_hold d = d\<lparr>vd_priority_hold_flag := True\<rparr>"

definition dispatch_stop :: "verb_dispatch \<Rightarrow> verb_dispatch" where
  "dispatch_stop d = d\<lparr>vd_shutdown := True\<rparr>"

definition execute_verb :: "control_registry \<Rightarrow> mono_ns \<times> mono_ns \<Rightarrow> verb_request \<Rightarrow> verb_dispatch \<Rightarrow> verb_dispatch" where
  "execute_verb reg clk req d =
     (let latency = i64_wrap (snd clk - fst clk);
          res = caught (call_verb reg (length (vd_calls d)) req)
      in d\<lparr>vd_calls := vd_calls d @ [req], vd_stats := stats_record latency (vd_stats d),
           vd_outcomes := vd_outcomes d @
             [\<lparr>vo_verb = request_verb req, vo_result = res, vo_latency_ns = latency, vo_at = snd clk\<rparr>]\<rparr>)"

text \<open>One access of the loop to the shared state; the two clock reads of a call are its inputs.
  An empty queue is the 5 ms timeout.\<close>

definition dispatch_step :: "control_registry \<Rightarrow> mono_ns \<times> mono_ns \<Rightarrow> verb_dispatch \<Rightarrow> verb_dispatch" where
  "dispatch_step reg clk d =
     (case vd_pc d of
        DP_Top \<Rightarrow> d\<lparr>vd_pc := if vd_shutdown d then DP_Stopped else DP_CheckEstop\<rparr>
      | DP_CheckEstop \<Rightarrow>
          if vd_estop_flag d
          then (execute_verb reg clk VR_Estop (d\<lparr>vd_estop_flag := False\<rparr>))\<lparr>vd_pc := DP_Top\<rparr>
          else d\<lparr>vd_pc := DP_CheckHold\<rparr>
      | DP_CheckHold \<Rightarrow>
          if vd_priority_hold_flag d
          then (execute_verb reg clk VR_Hold (d\<lparr>vd_priority_hold_flag := False\<rparr>))\<lparr>vd_pc := DP_Top\<rparr>
          else d\<lparr>vd_pc := DP_Receive\<rparr>
      | DP_Receive \<Rightarrow>
          (case vd_queue d of
             req # rest \<Rightarrow> (execute_verb reg clk req (d\<lparr>vd_queue := rest\<rparr>))\<lparr>vd_pc := DP_Top\<rparr>
           | [] \<Rightarrow> d\<lparr>vd_pc := DP_Top\<rparr>)
      | DP_Stopped \<Rightarrow> d)"

text \<open>Callers and the loop interleave.\<close>

datatype dispatch_action = DA_Request verb_request | DA_PriorityHold | DA_Stop | DA_Loop "mono_ns \<times> mono_ns"

fun dispatch_act :: "control_registry \<Rightarrow> dispatch_action \<Rightarrow> verb_dispatch \<Rightarrow> verb_dispatch" where
  "dispatch_act reg (DA_Request req) d = verb_request_queue req d"
| "dispatch_act reg DA_PriorityHold d = request_priority_hold d"
| "dispatch_act reg DA_Stop d = dispatch_stop d"
| "dispatch_act reg (DA_Loop clk) d = dispatch_step reg clk d"

fun is_loop :: "dispatch_action \<Rightarrow> bool" where
  "is_loop (DA_Loop clk) = True"
| "is_loop a = False"

subsection \<open>Emergency stop first\<close>

text \<open>Loop steps until the stop runs, and calls that may come before it, by the place of the loop.\<close>

fun estop_distance :: "dispatch_pc \<Rightarrow> nat" where
  "estop_distance DP_CheckEstop = 1"
| "estop_distance DP_Top = 2"
| "estop_distance DP_Receive = 3"
| "estop_distance DP_CheckHold = 4"
| "estop_distance DP_Stopped = 0"

fun calls_before :: "dispatch_pc \<Rightarrow> nat" where
  "calls_before DP_Receive = 1"
| "calls_before DP_CheckHold = 1"
| "calls_before pc = 0"

lemma execute_verb_facts [simp]:
  "vd_calls (execute_verb reg clk req d) = vd_calls d @ [req]"
  "vd_queue (execute_verb reg clk req d) = vd_queue d"
  "vd_estop_flag (execute_verb reg clk req d) = vd_estop_flag d"
  "vd_priority_hold_flag (execute_verb reg clk req d) = vd_priority_hold_flag d"
  "vd_shutdown (execute_verb reg clk req d) = vd_shutdown d"
  "vd_pc (execute_verb reg clk req d) = vd_pc d"
  by (simp_all add: execute_verb_def Let_def)

definition queued_ordinary :: "verb_dispatch \<Rightarrow> bool" where
  "queued_ordinary d \<longleftrightarrow> VR_Estop \<notin> set (vd_queue d)"

lemma queued_ordinary_act: "queued_ordinary d \<Longrightarrow> queued_ordinary (dispatch_act reg a d)"
  by (cases a) (auto simp: queued_ordinary_def verb_request_queue_def request_priority_hold_def
      dispatch_stop_def dispatch_step_def split: dispatch_pc.split list.split)

text \<open>One action while the flag is up: the stop runs, or the loop comes closer to it with at
  most the one call its place allows.\<close>

lemma estop_progress:
  assumes "vd_estop_flag d" "queued_ordinary d"
  shows "\<exists>new. vd_calls (dispatch_act reg a d) = vd_calls d @ new \<and>
    (new = [VR_Estop] \<or>
     VR_Estop \<notin> set new \<and> vd_estop_flag (dispatch_act reg a d) \<and>
     length new + calls_before (vd_pc (dispatch_act reg a d)) \<le> calls_before (vd_pc d) \<and>
     (if is_loop a \<and> vd_pc d \<noteq> DP_Stopped \<and> \<not> vd_shutdown d
      then estop_distance (vd_pc (dispatch_act reg a d)) < estop_distance (vd_pc d)
      else is_loop a \<or> vd_pc (dispatch_act reg a d) = vd_pc d))"
  using assms
  by (cases a; cases "vd_pc d"; cases "vd_queue d")
    (auto simp: verb_request_queue_def request_priority_hold_def dispatch_stop_def dispatch_step_def
      queued_ordinary_def)

lemma calls_grow: "\<exists>new. vd_calls (fold (dispatch_act reg) acts d) = vd_calls d @ new"
proof (induction acts arbitrary: d)
  case (Cons a acts)
  have "\<exists>new. vd_calls (dispatch_act reg a d) = vd_calls d @ new"
    by (cases a; cases "vd_pc d"; cases "vd_queue d")
      (auto simp: verb_request_queue_def request_priority_hold_def dispatch_stop_def dispatch_step_def)
  with Cons [of "dispatch_act reg a d"] show ?case by auto
qed simp

lemma estop_run:
  assumes "vd_estop_flag d" "queued_ordinary d"
  shows "\<exists>new. vd_calls (fold (dispatch_act reg) acts d) = vd_calls d @ new \<and>
    length (takeWhile (\<lambda>q. q \<noteq> VR_Estop) new) \<le> calls_before (vd_pc d)"
  using assms
proof (induction acts arbitrary: d)
  case (Cons a acts)
  let ?d = "dispatch_act reg a d"
  from estop_progress [OF Cons.prems, of reg a] obtain n1 where n1: "vd_calls ?d = vd_calls d @ n1"
    "n1 = [VR_Estop] \<or> VR_Estop \<notin> set n1 \<and> vd_estop_flag ?d \<and>
       length n1 + calls_before (vd_pc ?d) \<le> calls_before (vd_pc d)" by blast
  show ?case
  proof (cases "n1 = [VR_Estop]")
    case True
    from calls_grow [of reg acts ?d] n1(1) True show ?thesis by auto
  next
    case False
    with n1 have f: "vd_estop_flag ?d" "VR_Estop \<notin> set n1"
      "length n1 + calls_before (vd_pc ?d) \<le> calls_before (vd_pc d)" by auto
    from Cons.IH [OF f(1) queued_ordinary_act [OF Cons.prems(2)]] obtain n2 where
      "vd_calls (fold (dispatch_act reg) acts ?d) = vd_calls ?d @ n2"
      "length (takeWhile (\<lambda>q. q \<noteq> VR_Estop) n2) \<le> calls_before (vd_pc ?d)" by blast
    moreover have "takeWhile (\<lambda>q. q \<noteq> VR_Estop) (n1 @ n2) = n1 @ takeWhile (\<lambda>q. q \<noteq> VR_Estop) n2"
      using f(2) by (intro takeWhile_append2) auto
    ultimately show ?thesis using n1(1) f(3) by (intro exI [of _ "n1 @ n2"]) auto
  qed
qed simp

lemma no_stop_pc:
  assumes "\<not> vd_shutdown d" "vd_pc d \<noteq> DP_Stopped" "DA_Stop \<noteq> a"
  shows "\<not> vd_shutdown (dispatch_act reg a d) \<and> vd_pc (dispatch_act reg a d) \<noteq> DP_Stopped"
  using assms
  by (cases a; cases "vd_pc d"; cases "vd_queue d")
    (auto simp: verb_request_queue_def request_priority_hold_def dispatch_step_def)

lemma estop_runs:
  assumes "vd_estop_flag d" "queued_ordinary d" "\<not> vd_shutdown d" "vd_pc d \<noteq> DP_Stopped"
    and "DA_Stop \<notin> set acts" "estop_distance (vd_pc d) \<le> length (filter is_loop acts)"
  shows "\<exists>new. vd_calls (fold (dispatch_act reg) acts d) = vd_calls d @ new \<and> VR_Estop \<in> set new"
  using assms
proof (induction acts arbitrary: d)
  case Nil
  then show ?case by (cases "vd_pc d") auto
next
  case (Cons a acts)
  let ?d = "dispatch_act reg a d"
  from estop_progress [OF Cons.prems(1,2), of reg a] obtain n1 where n1: "vd_calls ?d = vd_calls d @ n1"
    "n1 = [VR_Estop] \<or> vd_estop_flag ?d \<and>
     (if is_loop a then estop_distance (vd_pc ?d) < estop_distance (vd_pc d) else vd_pc ?d = vd_pc d)"
    using Cons.prems(3,4) by (auto split: if_splits)
  show ?case
  proof (cases "n1 = [VR_Estop]")
    case True
    from calls_grow [of reg acts ?d] n1(1) True show ?thesis by auto
  next
    case False
    with n1 have f: "vd_estop_flag ?d"
      "if is_loop a then estop_distance (vd_pc ?d) < estop_distance (vd_pc d) else vd_pc ?d = vd_pc d" by auto
    have ns: "\<not> vd_shutdown ?d \<and> vd_pc ?d \<noteq> DP_Stopped"
      using no_stop_pc [OF Cons.prems(3,4)] Cons.prems(5) by auto
    have "estop_distance (vd_pc ?d) \<le> length (filter is_loop acts)"
      using f(2) Cons.prems(6) by (cases "is_loop a") auto
    with Cons.IH [OF f(1) queued_ordinary_act [OF Cons.prems(2)]] ns Cons.prems(5) obtain n2 where
      "vd_calls (fold (dispatch_act reg) acts ?d) = vd_calls ?d @ n2" "VR_Estop \<in> set n2" by auto
    with n1(1) show ?thesis by auto
  qed
qed

text \<open>C26. An emergency stop preempts the queue: from any state the dispatcher reaches, once a stop
  is requested at most one other call (the one the loop was already committed to) runs before
  it, whatever else is requested meanwhile; and unless the dispatcher is stopped it runs within
  four steps of the loop.\<close>

theorem estop_preempts_the_queue:
  assumes "d = fold (dispatch_act reg) before verb_dispatch_spawn" "DA_Stop \<notin> set before"
  defines "after \<equiv> \<lambda>acts. drop (length (vd_calls d)) (vd_calls (fold (dispatch_act reg) acts (verb_request_queue VR_Estop d)))"
  shows "length (takeWhile (\<lambda>q. q \<noteq> VR_Estop) (after acts)) \<le> 1 \<and>
    (DA_Stop \<notin> set acts \<and> 4 \<le> length (filter is_loop acts) \<longrightarrow> VR_Estop \<in> set (after acts))"
proof -
  have inv: "queued_ordinary (fold (dispatch_act reg) bs d0)" if "queued_ordinary d0" for bs d0
    using that by (induction bs arbitrary: d0) (simp_all add: queued_ordinary_act)
  have live: "\<not> vd_shutdown (fold (dispatch_act reg) bs d0) \<and> vd_pc (fold (dispatch_act reg) bs d0) \<noteq> DP_Stopped"
    if "\<not> vd_shutdown d0" "vd_pc d0 \<noteq> DP_Stopped" "DA_Stop \<notin> set bs" for bs d0
    using that by (induction bs arbitrary: d0) (simp_all add: no_stop_pc)
  let ?e = "verb_request_queue VR_Estop d"
  have e: "vd_estop_flag ?e" "queued_ordinary ?e" "vd_calls ?e = vd_calls d"
    "\<not> vd_shutdown ?e" "vd_pc ?e \<noteq> DP_Stopped"
    using inv [of verb_dispatch_spawn before] live [of verb_dispatch_spawn before] assms(1,2)
    by (simp_all add: verb_request_queue_def queued_ordinary_def verb_dispatch_spawn_def)
  have bound: "calls_before pc \<le> 1" "estop_distance pc \<le> 4" for pc by (cases pc; simp)+
  from estop_run [OF e(1,2), of reg acts] e(3) bound(1) [of "vd_pc ?e"]
  have "length (takeWhile (\<lambda>q. q \<noteq> VR_Estop) (after acts)) \<le> 1" by (auto simp: after_def)
  moreover have "VR_Estop \<in> set (after acts)" if "DA_Stop \<notin> set acts" "4 \<le> length (filter is_loop acts)"
    using estop_runs [OF e(1,2,4,5) that(1), of reg] that(2) bound(2) [of "vd_pc ?e"] e(3)
    by (auto simp: after_def)
  ultimately show ?thesis by blast
qed

definition demo_registry :: control_registry where
  "demo_registry = \<lparr>cr_send = None, cr_hold = Some (\<lambda>n. CO_Returns), cr_resume = None, cr_home = Some (\<lambda>n. CO_Panics),
     cr_estop = Some (\<lambda>n. CO_Returns)\<rparr>"

definition demo_before :: "dispatch_action list" where
  "demo_before = [DA_Request VR_Home, DA_Request VR_Hold] @ replicate 3 (DA_Loop (0, 1))"

theorem estop_preempts_the_queue_witness:
  "VR_Estop \<in> set (drop (length (vd_calls (fold (dispatch_act demo_registry) demo_before verb_dispatch_spawn)))
     (vd_calls (fold (dispatch_act demo_registry) (replicate 4 (DA_Loop (2, 3)))
        (verb_request_queue VR_Estop (fold (dispatch_act demo_registry) demo_before verb_dispatch_spawn)))))"
  using estop_preempts_the_queue [OF refl, of demo_before demo_registry "replicate 4 (DA_Loop (2, 3))"]
  by (simp add: demo_before_def)

subsection \<open>Order\<close>

text \<open>The calls made for queued requests: all but the stops and the priority holds, which have
  no place in the queue.\<close>

fun ordinary_requests :: "dispatch_action list \<Rightarrow> verb_request list" where
  "ordinary_requests [] = []"
| "ordinary_requests (DA_Request req # as) = (if req = VR_Estop then ordinary_requests as else req # ordinary_requests as)"
| "ordinary_requests (_ # as) = ordinary_requests as"

definition not_hold_or_estop :: "verb_request \<Rightarrow> bool" where
  "not_hold_or_estop q \<longleftrightarrow> q \<noteq> VR_Estop \<and> q \<noteq> VR_Hold"

theorem ordinary_verbs_run_in_order:
  "filter not_hold_or_estop (vd_calls (fold (dispatch_act reg) acts d) @ vd_queue (fold (dispatch_act reg) acts d)) =
   filter not_hold_or_estop (vd_calls d @ vd_queue d @ ordinary_requests acts)"
proof (induction acts arbitrary: d)
  case (Cons a acts)
  have "filter not_hold_or_estop (vd_calls (dispatch_act reg a d) @ vd_queue (dispatch_act reg a d)) =
      filter not_hold_or_estop (vd_calls d @ vd_queue d @ ordinary_requests [a])"
    by (cases a; cases "vd_pc d"; cases "vd_queue d")
      (auto simp: verb_request_queue_def request_priority_hold_def dispatch_stop_def dispatch_step_def not_hold_or_estop_def)
  moreover have "ordinary_requests (a # acts) = ordinary_requests [a] @ ordinary_requests acts"
    by (cases a) auto
  ultimately show ?case using Cons [of "dispatch_act reg a d"] by simp
qed simp

theorem every_call_is_reported:
  "map vo_verb (vd_outcomes (execute_verb reg clk req d)) = map vo_verb (vd_outcomes d) @ [request_verb req]"
  by (simp add: execute_verb_def Let_def)

end
