(* ===== verification/Waddle_Supervision.thy ===== *)
theory Waddle_Supervision
  imports Waddle_Reducer Waddle_Verbs Waddle_Latch
begin

text \<open>
  The supervising pumps (\<^verbatim>\<open>waddle-runtime/src/pumps.rs\<close>): verb outcomes turned into
  session events, the bypass pump that reports a stalled caller and drives the intervention
  stream to the robot while the caller cannot, and the reset pump that runs the scripted reset
  hooks. A turn of a pump takes the snapshots and clock reads of that turn as inputs and gives
  what it injects, records, requests and calls.
\<close>

subsection \<open>Verb outcomes\<close>

definition outcome_event :: "verb_outcome \<Rightarrow> session_event" where
  "outcome_event out =
     (case vo_result out of
        Inr _ \<Rightarrow> VerbResult (vo_verb out) True None (vo_at out)
      | Inl e \<Rightarrow> VerbResult (vo_verb out) False (Some FK_AdapterError) (vo_at out))"

subsection \<open>The bypass pump\<close>

definition stall_threshold_ns :: int where "stall_threshold_ns = 500000000"

record bypass_state =
  bp_seq :: u64
  bp_jitter :: jitter_buffer

record bypass_output =
  bo_events :: "session_event list"
  bo_recorded :: "dispatched_action list"
  bo_requests :: "verb_request list"

definition bypass_nothing :: bypass_output where
  "bypass_nothing = \<lparr>bo_events = [], bo_recorded = [], bo_requests = []\<rparr>"

definition bypass_chunk :: "nat \<Rightarrow> dispatched_action \<Rightarrow> action_chunk" where
  "bypass_chunk width d =
     (let a = da_action d; now = mono (da_stamp d) in
      \<lparr>ch_steps = [\<lparr>as_offset_ns = 0, as_values = oa_values a, as_velocity_feedforward = oa_velocity_feedforward a,
                    as_gripper_cmd = oa_gripper a, as_part = oa_part a\<rparr>],
       ch_dims = width, ch_horizon_ns = 0, ch_t_emitted_ns = now, ch_t_obs_ns = now, ch_seq = da_seq d,
       ch_source = bypass_pump_source, ch_provenance = da_provenance d\<rparr>)"

text \<open>Recorded before it is requested.\<close>

definition dispatch_due_intervention ::
  "nat \<Rightarrow> stamp \<Rightarrow> provenance_tag option \<Rightarrow> timed_action list \<Rightarrow> bypass_state \<Rightarrow> bypass_output \<times> bypass_state" where
  "dispatch_due_intervention width stamp prov arrivals b =
     (let (due, jitter) = intake_pop_due (mono stamp) arrivals (bp_jitter b); b = b\<lparr>bp_jitter := jitter\<rparr>
      in case due of
           None \<Rightarrow> (bypass_nothing, b)
         | Some a \<Rightarrow>
             (let b = b\<lparr>bp_seq := bp_seq b + 1\<rparr>;
                  d = \<lparr>da_stamp = stamp, da_seq = bp_seq b,
                       da_provenance = (case prov of Some p \<Rightarrow> p | None \<Rightarrow> policy_provenance), da_action = a\<rparr>
              in (\<lparr>bo_events = [], bo_recorded = [d], bo_requests = [VR_Send (bypass_chunk width d)]\<rparr>, b)))"

definition stalled :: "mono_ns \<Rightarrow> mono_ns option \<Rightarrow> bool" where
  "stalled now ticked = (case ticked of None \<Rightarrow> True | Some t \<Rightarrow> stall_threshold_ns < i64_wrap (now - t))"

record bypass_view =
  bv_gate_mode :: "gate_mode option"
  bv_claim_active :: bool
  bv_provenance :: "provenance_tag option"
  bv_stamp :: stamp
  bv_last_tick :: "mono_ns option"
  bv_arrivals :: "timed_action list"

definition bypass_turn :: "nat \<Rightarrow> bypass_view \<Rightarrow> bypass_state \<Rightarrow> bypass_output \<times> bypass_state" where
  "bypass_turn width v b =
     (let now = mono (bv_stamp v);
          dispatch = dispatch_due_intervention width (bv_stamp v) (bv_provenance v) (bv_arrivals v) b
      in case bv_gate_mode v of
           Some GM_Intervention \<Rightarrow>
             if bv_claim_active v \<and> stalled now (bv_last_tick v)
             then (bypass_nothing\<lparr>bo_events := [StallDetected now]\<rparr>, b) else (bypass_nothing, b)
         | Some GM_Bypass \<Rightarrow>
             if \<not> stalled now (bv_last_tick v) then (bypass_nothing\<lparr>bo_events := [TicksResumed now]\<rparr>, b) else dispatch
         | Some GM_Reset \<Rightarrow> if bv_claim_active v then dispatch else (bypass_nothing, b)
         | _ \<Rightarrow> (bypass_nothing, b))"

fun bypass_turns :: "nat \<Rightarrow> bypass_view list \<Rightarrow> bypass_state \<Rightarrow> bypass_output list \<times> bypass_state" where
  "bypass_turns width [] b = ([], b)"
| "bypass_turns width (v # vs) b =
     (let (out, b) = bypass_turn width v b; (outs, b) = bypass_turns width vs b in (out # outs, b))"

subsection \<open>The reset pump\<close>

text \<open>The per-episode specs a start published, with the id they are for.\<close>

record episode_reset_specs =
  er_id :: episode_id
  er_pre :: "reset_spec option"
  er_post :: "reset_spec option"

definition effective_spec ::
  "episode_reset_specs option \<Rightarrow> episode_id \<Rightarrow> reset_spec option \<Rightarrow> (episode_reset_specs \<Rightarrow> reset_spec option) \<Rightarrow>
   reset_spec option" where
  "effective_spec slot i session_default pick =
     (case slot of Some specs \<Rightarrow> if er_id specs = i then pick specs else session_default | None \<Rightarrow> session_default)"

fun is_remote :: "reset_spec option \<Rightarrow> bool" where
  "is_remote (Some (RS_Remote act prompt timeout)) = True"
| "is_remote spec = False"

record reset_view =
  rw_state :: "phase option"
  rw_id :: "episode_id option"
  rw_owner :: "episode_id option"
  rw_state_again :: "phase option"
  rw_id_again :: "episode_id option"
  rw_specs :: "episode_reset_specs option"
  rw_hook :: "bool \<times> bool option"
  rw_now :: mono_ns

record serviced =
  sv_pre :: "episode_id option"
  sv_post :: "episode_id option"

datatype hook_call = HC_Pre episode_id | HC_Post episode_id

record reset_output =
  ro_events :: "session_event list"
  ro_calls :: "hook_call list"

definition reset_nothing :: reset_output where
  "reset_nothing = \<lparr>ro_events = [], ro_calls = []\<rparr>"

definition pre_reset_turn :: "reset_spec option \<Rightarrow> reset_view \<Rightarrow> episode_id \<Rightarrow> serviced \<Rightarrow> reset_output \<times> serviced" where
  "pre_reset_turn session_pre v i s =
     (let pre = effective_spec (rw_specs v) i session_pre er_pre in
      if is_remote pre then (reset_nothing, s\<lparr>sv_pre := Some i\<rparr>)
      else if rw_owner v \<noteq> Some i \<and> rw_id_again v = Some i \<and> rw_state_again v = Some Resetting
      then
        (let (calls, ok, verified) =
               (case pre of Some RS_Hook \<Rightarrow> ([HC_Pre i], rw_hook v) | _ \<Rightarrow> ([], True, Some True))
         in (\<lparr>ro_events = [ResetResult ok verified (rw_now v)], ro_calls = calls\<rparr>, s\<lparr>sv_pre := Some i\<rparr>))
      else (reset_nothing, s))"

definition post_reset_turn :: "reset_spec option \<Rightarrow> reset_view \<Rightarrow> episode_id \<Rightarrow> serviced \<Rightarrow> reset_output \<times> serviced" where
  "post_reset_turn session_post v i s =
     (let s = s\<lparr>sv_post := Some i\<rparr>
      in case effective_spec (rw_specs v) i session_post er_post of
           Some RS_Hook \<Rightarrow>
             (\<lparr>ro_events = [PostResetResult (fst (rw_hook v)) [] (rw_now v)], ro_calls = [HC_Post i]\<rparr>, s)
         | _ \<Rightarrow> (reset_nothing, s))"

definition reset_turn ::
  "reset_spec option \<Rightarrow> reset_spec option \<Rightarrow> reset_view \<Rightarrow> serviced \<Rightarrow> reset_output \<times> serviced" where
  "reset_turn session_pre session_post v s =
     (case (rw_state v, rw_id v) of
        (Some Resetting, Some i) \<Rightarrow>
          if sv_pre s \<noteq> Some i then pre_reset_turn session_pre v i s else (reset_nothing, s)
      | (Some PostReset, Some i) \<Rightarrow>
          if sv_post s \<noteq> Some i then post_reset_turn session_post v i s else (reset_nothing, s)
      | _ \<Rightarrow> (reset_nothing, s))"

fun reset_turns ::
  "reset_spec option \<Rightarrow> reset_spec option \<Rightarrow> reset_view list \<Rightarrow> serviced \<Rightarrow> reset_output list \<times> serviced" where
  "reset_turns session_pre session_post [] s = ([], s)"
| "reset_turns session_pre session_post (v # vs) s =
     (let (out, s) = reset_turn session_pre session_post v s;
          (outs, s) = reset_turns session_pre session_post vs s
      in (out # outs, s))"

subsection \<open>The bypass pump drives only what it should, and records it\<close>

lemma dispatch_due_cases:
  "dispatch_due_intervention width stamp prov arrivals b =
     (case fst (intake_pop_due (mono stamp) arrivals (bp_jitter b)) of
        None \<Rightarrow> (bypass_nothing, b\<lparr>bp_jitter := snd (intake_pop_due (mono stamp) arrivals (bp_jitter b))\<rparr>)
      | Some a \<Rightarrow>
          (let d = \<lparr>da_stamp = stamp, da_seq = bp_seq b + 1,
                    da_provenance = (case prov of Some p \<Rightarrow> p | None \<Rightarrow> policy_provenance), da_action = a\<rparr>
           in (\<lparr>bo_events = [], bo_recorded = [d], bo_requests = [VR_Send (bypass_chunk width d)]\<rparr>,
               b\<lparr>bp_seq := bp_seq b + 1, bp_jitter := snd (intake_pop_due (mono stamp) arrivals (bp_jitter b))\<rparr>)))"
  by (simp add: dispatch_due_intervention_def Let_def case_prod_unfold split: option.split)

text \<open>When the pump may drive the robot.\<close>

definition pump_may_drive :: "bypass_view \<Rightarrow> bool" where
  "pump_may_drive v \<longleftrightarrow> bv_gate_mode v = Some GM_Bypass \<and> stalled (mono (bv_stamp v)) (bv_last_tick v) \<or>
     bv_gate_mode v = Some GM_Reset \<and> bv_claim_active v"

lemma bypass_turn_drives:
  "pump_may_drive v \<Longrightarrow>
   bypass_turn width v b = dispatch_due_intervention width (bv_stamp v) (bv_provenance v) (bv_arrivals v) b"
  by (auto simp: bypass_turn_def pump_may_drive_def Let_def)

lemma bypass_turn_idle:
  "\<not> pump_may_drive v \<Longrightarrow>
   snd (bypass_turn width v b) = b \<and> bo_recorded (fst (bypass_turn width v b)) = [] \<and>
   bo_requests (fst (bypass_turn width v b)) = []"
  by (auto simp: bypass_turn_def pump_may_drive_def bypass_nothing_def Let_def split: option.split gate_mode.split)

lemma bypass_turn_facts:
  assumes "bypass_turn width v b = (out, b')"
  shows "bo_requests out = map (\<lambda>d. VR_Send (bypass_chunk width d)) (bo_recorded out) \<and>
    map da_seq (bo_recorded out) = map (\<lambda>i. bp_seq b + of_nat (Suc i)) [0..<length (bo_recorded out)] \<and>
    bp_seq b' = bp_seq b + of_nat (length (bo_recorded out)) \<and>
    (bo_recorded out \<noteq> [] \<longrightarrow> pump_may_drive v \<and> bo_events out = [] \<and>
       (\<exists>a. bo_recorded out = [\<lparr>da_stamp = bv_stamp v, da_seq = bp_seq b + 1,
            da_provenance = (case bv_provenance v of Some p \<Rightarrow> p | None \<Rightarrow> policy_provenance), da_action = a\<rparr>] \<and>
          fst (intake_pop_due (mono (bv_stamp v)) (bv_arrivals v) (bp_jitter b)) = Some a))"
proof (cases "pump_may_drive v")
  case True
  with assms have "dispatch_due_intervention width (bv_stamp v) (bv_provenance v) (bv_arrivals v) b = (out, b')"
    by (simp add: bypass_turn_drives)
  with True show ?thesis
    by (auto simp: dispatch_due_cases Let_def bypass_nothing_def split: option.splits)
next
  case False
  with bypass_turn_idle [OF False, of width b] assms show ?thesis by simp
qed

lemma bypass_turns_facts:
  "bypass_turns width vs b = (outs, b') \<Longrightarrow>
   concat (map bo_requests outs) = map (\<lambda>d. VR_Send (bypass_chunk width d)) (concat (map bo_recorded outs)) \<and>
   map da_seq (concat (map bo_recorded outs)) = map (\<lambda>i. bp_seq b + of_nat (Suc i)) [0..<length (concat (map bo_recorded outs))] \<and>
   length outs = length vs \<and>
   (\<forall>k < length vs. bo_recorded (outs ! k) \<noteq> [] \<longrightarrow> pump_may_drive (vs ! k) \<and>
      (\<forall>d \<in> set (bo_recorded (outs ! k)). da_stamp d = bv_stamp (vs ! k) \<and>
         da_provenance d = (case bv_provenance (vs ! k) of Some p \<Rightarrow> p | None \<Rightarrow> policy_provenance)))"
proof (induction vs arbitrary: b outs)
  case (Cons v vs)
  obtain out b1 outs' where one: "bypass_turn width v b = (out, b1)" and rest: "bypass_turns width vs b1 = (outs', b')"
    and outs: "outs = out # outs'"
    using Cons.prems by (auto simp: case_prod_unfold Let_def prod_eq_iff)
  note f = bypass_turn_facts [OF one] and IH = Cons.IH [OF rest]
  let ?n = "length (bo_recorded out)" and ?m = "length (concat (map bo_recorded outs'))"
  have "map da_seq (concat (map bo_recorded outs)) =
      map (\<lambda>i. bp_seq b + of_nat (Suc i)) [0..<?n] @ map (\<lambda>i. bp_seq b + of_nat ?n + of_nat (Suc i)) [0..<?m]"
    using f IH by (simp add: outs del: of_nat_Suc)
  also have "\<dots> = map (\<lambda>i. bp_seq b + of_nat (Suc i)) [0..<?n + ?m]"
    by (rule nth_equalityI) (auto simp: nth_append algebra_simps simp flip: of_nat_add)
  finally have seqs: "map da_seq (concat (map bo_recorded outs)) =
      map (\<lambda>i. bp_seq b + of_nat (Suc i)) [0..<length (concat (map bo_recorded outs))]"
    by (simp add: outs)
  have each: "\<forall>k < length (v # vs). bo_recorded (outs ! k) \<noteq> [] \<longrightarrow> pump_may_drive ((v # vs) ! k) \<and>
      (\<forall>d \<in> set (bo_recorded (outs ! k)). da_stamp d = bv_stamp ((v # vs) ! k) \<and>
         da_provenance d = (case bv_provenance ((v # vs) ! k) of Some p \<Rightarrow> p | None \<Rightarrow> policy_provenance))"
  proof (intro allI impI)
    fix k
    assume "k < length (v # vs)" "bo_recorded (outs ! k) \<noteq> []"
    then show "pump_may_drive ((v # vs) ! k) \<and>
      (\<forall>d \<in> set (bo_recorded (outs ! k)). da_stamp d = bv_stamp ((v # vs) ! k) \<and>
         da_provenance d = (case bv_provenance ((v # vs) ! k) of Some p \<Rightarrow> p | None \<Rightarrow> policy_provenance))"
      using f IH by (cases k) (auto simp: outs)
  qed
  show ?case using f IH seqs each by (simp add: outs)
qed simp

text \<open>The bypass pump drives the robot only when the caller cannot, and records all of it: over any run
  the verbs it requests are exactly the sends of the actions it recorded, one step each, in the
  same order and under consecutive numbers of its own stream; it records one only under a BYPASS
  gate with no recent tick or a RESET gate with an active claim, under the provenance and the
  stamp of that turn.\<close>

theorem pump_records_what_it_drives:
  assumes "bypass_turns width vs \<lparr>bp_seq = 0, bp_jitter = jb\<rparr> = (outs, b')"
  defines "recorded \<equiv> concat (map bo_recorded outs)"
  shows "concat (map bo_requests outs) = map (\<lambda>d. VR_Send (bypass_chunk width d)) recorded \<and>
    map da_seq recorded = map (\<lambda>i. of_nat (Suc i)) [0..<length recorded] \<and>
    (\<forall>k < length vs. bo_recorded (outs ! k) \<noteq> [] \<longrightarrow> pump_may_drive (vs ! k) \<and>
      (\<forall>d \<in> set (bo_recorded (outs ! k)). da_stamp d = bv_stamp (vs ! k) \<and>
         da_provenance d = (case bv_provenance (vs ! k) of Some p \<Rightarrow> p | None \<Rightarrow> policy_provenance)))"
  using bypass_turns_facts [OF assms(1)] by (simp add: recorded_def del: of_nat_Suc)

definition demo_bypass :: bypass_state where
  "demo_bypass = \<lparr>bp_seq = 0, bp_jitter = jitter_new 0 RP_Immediate\<rparr>"

definition demo_view :: bypass_view where
  "demo_view = \<lparr>bv_gate_mode = Some GM_Bypass, bv_claim_active = True, bv_provenance = None,
     bv_stamp = \<lparr>mono = 900, epoch = 900\<rparr>, bv_last_tick = None, bv_arrivals = [demo_timed 1 None]\<rparr>"

theorem pump_records_what_it_drives_witness:
  "\<exists>outs b'. bypass_turns 1 [demo_view] demo_bypass = (outs, b') \<and>
     map da_seq (concat (map bo_recorded outs)) = [1] \<and> length (concat (map bo_requests outs)) = 1"
proof -
  obtain outs b' where run: "bypass_turns 1 [demo_view] demo_bypass = (outs, b')" by (metis prod.exhaust)
  have "length (concat (map bo_recorded (fst (bypass_turns 1 [demo_view] demo_bypass)))) = 1" by code_simp
  then have len: "length (concat (map bo_recorded outs)) = 1" by (simp only: run fst_conv)
  note facts = pump_records_what_it_drives [OF run [unfolded demo_bypass_def]]
  from facts len have "map da_seq (concat (map bo_recorded outs)) = [1]" by simp
  moreover from facts len have "length (concat (map bo_requests outs)) = 1"
    by (metis length_map)
  ultimately show ?thesis using run by (intro exI [of _ outs] exI [of _ b'] conjI)
qed

subsection \<open>Reset hooks run once\<close>

definition service :: "episode_id \<Rightarrow> episode_id option \<Rightarrow> bool \<times> episode_id option" where
  "service i done = (done \<noteq> Some i, Some i)"

interpretation serviced: once_per_key service "\<lambda>done. done"
  by unfold_locales (simp_all add: service_def)

text \<open>The episodes the pump sees resetting, and those it answers for.\<close>

definition resetting :: "phase \<Rightarrow> reset_view \<Rightarrow> episode_id option" where
  "resetting ph v = (if rw_state v = Some ph then rw_id v else None)"

definition answered :: "phase \<Rightarrow> reset_view \<Rightarrow> reset_output \<Rightarrow> episode_id list" where
  "answered ph v out = (if ro_events out = [] then [] else case resetting ph v of Some i \<Rightarrow> [i] | None \<Rightarrow> [])"

text \<open>Whether the turn marks the episode it sees.\<close>

definition pre_marks :: "reset_spec option \<Rightarrow> reset_view \<Rightarrow> episode_id \<Rightarrow> bool" where
  "pre_marks session_pre v i \<longleftrightarrow> is_remote (effective_spec (rw_specs v) i session_pre er_pre) \<or>
     rw_owner v \<noteq> Some i \<and> rw_id_again v = Some i \<and> rw_state_again v = Some Resetting"

definition pre_keys :: "reset_spec option \<Rightarrow> reset_view list \<Rightarrow> (episode_id \<times> bool) list" where
  "pre_keys session_pre vs = List.map_filter (\<lambda>v. map_option (\<lambda>i. (i, pre_marks session_pre v i)) (resetting Resetting v)) vs"

definition post_keys :: "reset_view list \<Rightarrow> (episode_id \<times> bool) list" where
  "post_keys vs = List.map_filter (\<lambda>v. map_option (\<lambda>i. (i, True)) (resetting PostReset v)) vs"

lemma reset_turn_pre:
  assumes "reset_turn pre post v s = (out, s')"
  shows "case resetting Resetting v of
      Some i \<Rightarrow> (let asks = pre_marks pre v i in
        sv_pre s' = (if asks then snd (service i (sv_pre s)) else sv_pre s) \<and>
        (answered Resetting v out = [] \<or> asks \<and> fst (service i (sv_pre s)) \<and> answered Resetting v out = [i]))
    | None \<Rightarrow> sv_pre s' = sv_pre s \<and> answered Resetting v out = []"
  using assms
  by (auto simp: reset_turn_def resetting_def answered_def pre_reset_turn_def post_reset_turn_def pre_marks_def
      service_def Let_def reset_nothing_def split: option.splits phase.splits if_splits reset_spec.splits prod.splits)

lemma reset_turn_post:
  assumes "reset_turn pre post v s = (out, s')"
  shows "case resetting PostReset v of
      Some i \<Rightarrow>
        sv_post s' = snd (service i (sv_post s)) \<and>
        (answered PostReset v out = [] \<or> fst (service i (sv_post s)) \<and> answered PostReset v out = [i])
    | None \<Rightarrow> sv_post s' = sv_post s \<and> answered PostReset v out = []"
  using assms
  by (auto simp: reset_turn_def resetting_def answered_def pre_reset_turn_def post_reset_turn_def
      service_def Let_def reset_nothing_def split: option.splits phase.splits if_splits reset_spec.splits prod.splits)

lemma reset_turns_pre:
  "reset_turns pre post vs s = (outs, s') \<Longrightarrow>
   \<exists>as. list_all2 (\<lambda>a g. a = [] \<or> a = g) as (serviced.grants (pre_keys pre vs) (sv_pre s)) \<and>
     concat as = concat (map2 (answered Resetting) vs outs)"
proof (induction vs arbitrary: s outs)
  case (Cons v vs)
  obtain out s1 outs' where one: "reset_turn pre post v s = (out, s1)" and rest: "reset_turns pre post vs s1 = (outs', s')"
    and outs: "outs = out # outs'"
    using Cons.prems by (auto simp: case_prod_unfold Let_def prod_eq_iff)
  from Cons.IH [OF rest] obtain as where
    as: "list_all2 (\<lambda>a g. a = [] \<or> a = g) as (serviced.grants (pre_keys pre vs) (sv_pre s1))"
    "concat as = concat (map2 (answered Resetting) vs outs')" by blast
  show ?case
  proof (cases "resetting Resetting v")
    case None
    with reset_turn_pre [OF one] as show ?thesis by (auto simp: pre_keys_def outs intro!: exI [of _ as])
  next
    case (Some i)
    with reset_turn_pre [OF one] as show ?thesis
      by (intro exI [of _ "answered Resetting v out # as"]) (auto simp: pre_keys_def outs Let_def split: if_splits)
  qed
qed (simp add: pre_keys_def)

lemma reset_turns_post:
  "reset_turns pre post vs s = (outs, s') \<Longrightarrow>
   \<exists>as. list_all2 (\<lambda>a g. a = [] \<or> a = g) as (serviced.grants (post_keys vs) (sv_post s)) \<and>
     concat as = concat (map2 (answered PostReset) vs outs)"
proof (induction vs arbitrary: s outs)
  case (Cons v vs)
  obtain out s1 outs' where one: "reset_turn pre post v s = (out, s1)" and rest: "reset_turns pre post vs s1 = (outs', s')"
    and outs: "outs = out # outs'"
    using Cons.prems by (auto simp: case_prod_unfold Let_def prod_eq_iff)
  from Cons.IH [OF rest] obtain as where
    as: "list_all2 (\<lambda>a g. a = [] \<or> a = g) as (serviced.grants (post_keys vs) (sv_post s1))"
    "concat as = concat (map2 (answered PostReset) vs outs')" by blast
  show ?case
  proof (cases "resetting PostReset v")
    case None
    with reset_turn_post [OF one] as show ?thesis by (auto simp: post_keys_def outs intro!: exI [of _ as])
  next
    case (Some i)
    with reset_turn_post [OF one] as show ?thesis
      by (intro exI [of _ "answered PostReset v out # as"]) (auto simp: post_keys_def outs)
  qed
qed (simp add: post_keys_def)

lemma keys_of_views:
  "map fst (pre_keys pre vs) = List.map_filter (resetting Resetting) vs"
  "map fst (post_keys vs) = List.map_filter (resetting PostReset) vs"
  by (induction vs; simp add: pre_keys_def post_keys_def List.map_filter_simps split: option.split)+

lemma reset_turn_calls:
  assumes "reset_turn pre post v s = (out, s')" "c \<in> set (ro_calls out)"
  shows "ro_calls out = [c] \<and>
    (case c of
       HC_Pre i \<Rightarrow> answered Resetting v out = [i] \<and> rw_owner v \<noteq> Some i \<and> rw_id_again v = Some i \<and> rw_state_again v = Some Resetting
     | HC_Post i \<Rightarrow> answered PostReset v out = [i])"
  using assms
  by (auto simp: reset_turn_def resetting_def answered_def pre_reset_turn_def post_reset_turn_def Let_def reset_nothing_def
      split: option.splits phase.splits if_splits reset_spec.splits prod.splits)

lemma reset_turns_nth:
  "reset_turns pre post vs s = (outs, s') \<Longrightarrow> length outs = length vs \<and>
   (\<forall>k < length vs. \<exists>s1 s2. reset_turn pre post (vs ! k) s1 = (outs ! k, s2))"
proof (induction vs arbitrary: s outs)
  case (Cons v vs)
  obtain out s1 outs' where one: "reset_turn pre post v s = (out, s1)" and rest: "reset_turns pre post vs s1 = (outs', s')"
    and outs: "outs = out # outs'"
    using Cons.prems by (auto simp: case_prod_unfold Let_def prod_eq_iff)
  have "\<exists>s1 s2. reset_turn pre post ((v # vs) ! k) s1 = (outs ! k, s2)" if "k < length (v # vs)" for k
    using that one Cons.IH [OF rest] by (cases k) (auto simp: outs)
  then show ?case using Cons.IH [OF rest] by (simp add: outs)
qed simp

text \<open>The reset pump serves an episode once: when the views of one episode in a reset phase stand
  together (ids are not reused), the pump injects at most one reset result and at most one
  post-reset result per episode, calls at most one hook in a turn and only where it injects the
  hook's result, and calls a pre-reset hook only for an episode that nobody resets inline and
  that a second look still shows resetting.\<close>

theorem reset_hooks_run_once:
  assumes "reset_turns pre post vs \<lparr>sv_pre = None, sv_post = None\<rparr> = (outs, s')"
    and "together (List.map_filter (resetting Resetting) vs)" "together (List.map_filter (resetting PostReset) vs)"
  shows "distinct (concat (map2 (answered Resetting) vs outs)) \<and> distinct (concat (map2 (answered PostReset) vs outs)) \<and>
    (\<forall>k < length vs. \<forall>c \<in> set (ro_calls (outs ! k)). ro_calls (outs ! k) = [c] \<and>
      (case c of
         HC_Pre i \<Rightarrow> answered Resetting (vs ! k) (outs ! k) = [i] \<and> rw_owner (vs ! k) \<noteq> Some i \<and>
           rw_id_again (vs ! k) = Some i \<and> rw_state_again (vs ! k) = Some Resetting
       | HC_Post i \<Rightarrow> answered PostReset (vs ! k) (outs ! k) = [i]))"
proof (intro conjI)
  obtain as where as: "list_all2 (\<lambda>a g. a = [] \<or> a = g) as (serviced.grants (pre_keys pre vs) None)"
    "concat as = concat (map2 (answered Resetting) vs outs)" using reset_turns_pre [OF assms(1)] by auto
  have "distinct (concat (serviced.grants (pre_keys pre vs) None))"
    using assms(2) by (intro serviced.grants_once) (simp add: keys_of_views)
  with distinct_some_of [OF as(1)] as(2) show "distinct (concat (map2 (answered Resetting) vs outs))" by simp
next
  obtain as where as: "list_all2 (\<lambda>a g. a = [] \<or> a = g) as (serviced.grants (post_keys vs) None)"
    "concat as = concat (map2 (answered PostReset) vs outs)" using reset_turns_post [OF assms(1)] by auto
  have "distinct (concat (serviced.grants (post_keys vs) None))"
    using assms(3) by (intro serviced.grants_once) (simp add: keys_of_views)
  with distinct_some_of [OF as(1)] as(2) show "distinct (concat (map2 (answered PostReset) vs outs))" by simp
next
  show "\<forall>k < length vs. \<forall>c \<in> set (ro_calls (outs ! k)). ro_calls (outs ! k) = [c] \<and>
      (case c of
         HC_Pre i \<Rightarrow> answered Resetting (vs ! k) (outs ! k) = [i] \<and> rw_owner (vs ! k) \<noteq> Some i \<and>
           rw_id_again (vs ! k) = Some i \<and> rw_state_again (vs ! k) = Some Resetting
       | HC_Post i \<Rightarrow> answered PostReset (vs ! k) (outs ! k) = [i])"
    using reset_turns_nth [OF assms(1)] reset_turn_calls by blast
qed

definition demo_reset_view :: reset_view where
  "demo_reset_view = \<lparr>rw_state = Some Resetting, rw_id = Some ''e1'', rw_owner = None, rw_state_again = Some Resetting,
     rw_id_again = Some ''e1'', rw_specs = None, rw_hook = (True, Some True), rw_now = 7\<rparr>"

theorem reset_hooks_run_once_witness:
  "\<exists>outs s'. reset_turns (Some RS_Hook) None [demo_reset_view, demo_reset_view] \<lparr>sv_pre = None, sv_post = None\<rparr> = (outs, s') \<and>
     map ro_calls outs = [[HC_Pre ''e1''], []] \<and>
     distinct (concat (map2 (answered Resetting) [demo_reset_view, demo_reset_view] outs))"
proof -
  let ?vs = "[demo_reset_view, demo_reset_view]"
  obtain outs s' where run: "reset_turns (Some RS_Hook) None ?vs \<lparr>sv_pre = None, sv_post = None\<rparr> = (outs, s')"
    by (metis prod.exhaust)
  have calls: "map ro_calls (fst (reset_turns (Some RS_Hook) None ?vs \<lparr>sv_pre = None, sv_post = None\<rparr>)) = [[HC_Pre ''e1''], []]"
    by code_simp
  have keys: "List.map_filter (resetting Resetting) ?vs = [''e1'', ''e1'']" "List.map_filter (resetting PostReset) ?vs = []"
    by code_simp+
  have "together (List.map_filter (resetting Resetting) ?vs)" "together (List.map_filter (resetting PostReset) ?vs)"
    unfolding keys by (auto simp: together_def Cons_eq_append_conv)
  from reset_hooks_run_once [OF run this] calls run show ?thesis by simp
qed

subsection \<open>The intervention stream is consumed once\<close>

text \<open>The caller's gate and the bypass pump poll the same buffer, and the reducer clears it.\<close>

datatype stream_use =
    SU_Tick tick "flt list" "flt option" "flt list option" "string option"
  | SU_Plan gate_plan
  | SU_Pump nat bypass_view
  | SU_Clear

fun use_stream :: "stream_use \<Rightarrow> gate_state \<times> u64 \<Rightarrow> gate_state \<times> u64" where
  "use_stream (SU_Tick ti vals gripper obs part) (g, n) = (snd (snd (gate_scoped ti vals gripper obs part g)), n)"
| "use_stream (SU_Plan plan) (g, n) = (store_plan plan g, n)"
| "use_stream (SU_Pump width v) (g, n) =
     (let b = snd (bypass_turn width v \<lparr>bp_seq = n, bp_jitter = gs_jitter (ga_shared g)\<rparr>)
      in (g\<lparr>ga_shared := (ga_shared g)\<lparr>gs_jitter := bp_jitter b\<rparr>\<rparr>, bp_seq b))"
| "use_stream SU_Clear (g, n) = (g\<lparr>ga_shared := (ga_shared g)\<lparr>gs_jitter := intake_clear [] (gs_jitter (ga_shared g))\<rparr>\<rparr>, n)"

text \<open>The intervention action a use takes from the stream.\<close>

fun taken_by :: "stream_use \<Rightarrow> gate_state \<times> u64 \<Rightarrow> owned_action option" where
  "taken_by (SU_Tick ti vals gripper obs part) (g, n) =
     (case pl_mode (gs_plan (ga_shared g)) of PM_Claimed prov blend \<Rightarrow> due_at ti g | _ \<Rightarrow> None)"
| "taken_by (SU_Pump width v) (g, n) =
     (case bo_recorded (fst (bypass_turn width v \<lparr>bp_seq = n, bp_jitter = gs_jitter (ga_shared g)\<rparr>)) of
        d # ds \<Rightarrow> Some (da_action d) | [] \<Rightarrow> None)"
| "taken_by u s = None"

fun stream_ops :: "stream_use \<Rightarrow> gate_state \<times> u64 \<Rightarrow> jb_op list" where
  "stream_ops (SU_Tick ti vals gripper obs part) (g, n) =
     (case pl_mode (gs_plan (ga_shared g)) of
        PM_Claimed prov blend \<Rightarrow> map JB_Ingest (ti_arrivals ti) @ [JB_Pop (mono (ti_stamp ti))] | _ \<Rightarrow> [])"
| "stream_ops (SU_Pump width v) (g, n) =
     (if pump_may_drive v then map JB_Ingest (bv_arrivals v) @ [JB_Pop (mono (bv_stamp v))] else [])"
| "stream_ops SU_Clear (g, n) = [JB_Clear]"
| "stream_ops (SU_Plan plan) (g, n) = []"

lemma delivered_append: "delivered b (xs @ ys) = delivered b xs @ delivered (fold jb_apply xs b) ys"
  by (induction xs arbitrary: b) simp_all

lemma ingest_ops [simp]:
  "delivered b (map JB_Ingest as) = []" "fold jb_apply (map JB_Ingest as) b = fold ingest as b"
  by (induction as arbitrary: b) simp_all

lemma pop_delivers:
  "map (\<lambda>(c, a, t). ta_action a) (delivered b (map JB_Ingest as @ [JB_Pop now])) = set_option_list (fst (intake_pop_due now as b)) \<and>
   fold jb_apply (map JB_Ingest as @ [JB_Pop now]) b = snd (intake_pop_due now as b)"
  if "set_option_list = (\<lambda>x. case x of Some y \<Rightarrow> [y] | None \<Rightarrow> [])" for set_option_list :: "owned_action option \<Rightarrow> owned_action list"
  by (auto simp: that delivered_append intake_pop_due_def pop_due_def split: option.split)

lemma gate_scoped_jitter:
  "gs_jitter (ga_shared (snd (snd (gate_scoped ti vals gripper obs part g)))) =
     (case pl_mode (gs_plan (ga_shared g)) of
        PM_Claimed prov blend \<Rightarrow> snd (intake_pop_due (mono (ti_stamp ti)) (ti_arrivals ti) (gs_jitter (ga_shared g)))
      | _ \<Rightarrow> gs_jitter (ga_shared g))"
proof (cases "pl_mode (gs_plan (ga_shared g))")
  case (PM_Claimed prov blend)
  have keep: "ga_shared (snd (snd (gate_target ti prov blend target obs h))) = ga_shared h" for target h
    using gate_target_cases [of ti prov blend target obs h] by (metis prod.collapse)
  show ?thesis
    using PM_Claimed by (simp add: gate_scoped_def gate_claimed_def Let_def case_prod_unfold keep split: option.split)
qed (simp_all add: gate_scoped_def Let_def case_prod_unfold)

definition opt_list :: "'a option \<Rightarrow> 'a list" where
  "opt_list x = (case x of Some y \<Rightarrow> [y] | None \<Rightarrow> [])"

lemma stream_ops_act:
  "gs_jitter (ga_shared (fst (use_stream u (g, n)))) = fold jb_apply (stream_ops u (g, n)) (gs_jitter (ga_shared g)) \<and>
   map (\<lambda>(c, a, t). ta_action a) (delivered (gs_jitter (ga_shared g)) (stream_ops u (g, n))) = opt_list (taken_by u (g, n))"
proof (cases u)
  case (SU_Tick ti vals gripper obs part)
  note pop = pop_delivers [of opt_list, OF ext [OF opt_list_def]]
  show ?thesis
    using pop [where now="mono (ti_stamp ti)" and as="ti_arrivals ti" and b="gs_jitter (ga_shared g)"]
    by (simp add: SU_Tick gate_scoped_jitter due_at_def opt_list_def split: plan_mode.split)
next
  case (SU_Pump width v)
  note pop = pop_delivers [of opt_list, OF ext [OF opt_list_def]]
  let ?b = "\<lparr>bp_seq = n, bp_jitter = gs_jitter (ga_shared g)\<rparr>"
  show ?thesis
  proof (cases "pump_may_drive v")
    case True
    then show ?thesis
      using pop [where now="mono (bv_stamp v)" and as="bv_arrivals v" and b="gs_jitter (ga_shared g)"]
      by (auto simp: SU_Pump bypass_turn_drives dispatch_due_cases opt_list_def bypass_nothing_def Let_def split: option.split)
  next
    case False
    with bypass_turn_idle [OF False, of width ?b] show ?thesis by (simp add: SU_Pump opt_list_def)
  qed
qed (simp_all add: store_plan_def intake_clear_def opt_list_def)

fun taken_run :: "stream_use list \<Rightarrow> gate_state \<times> u64 \<Rightarrow> owned_action list" where
  "taken_run [] s = []"
| "taken_run (u # us) s = opt_list (taken_by u s) @ taken_run us (use_stream u s)"

fun run_ops :: "stream_use list \<Rightarrow> gate_state \<times> u64 \<Rightarrow> jb_op list" where
  "run_ops [] s = []"
| "run_ops (u # us) s = stream_ops u s @ run_ops us (use_stream u s)"

lemma taken_run_delivered:
  "taken_run us (g, n) = map (\<lambda>(c, a, t). ta_action a) (delivered (gs_jitter (ga_shared g)) (run_ops us (g, n)))"
proof (induction us arbitrary: g n)
  case (Cons u us)
  obtain g' n' where step: "use_stream u (g, n) = (g', n')" by (metis prod.exhaust)
  have "gs_jitter (ga_shared g') = fold jb_apply (stream_ops u (g, n)) (gs_jitter (ga_shared g))"
    using stream_ops_act [of u g n] step by simp
  then show ?case using stream_ops_act [of u g n] Cons [of g' n'] by (simp add: step delivered_append)
qed simp

text \<open>C29. Nobody drives an intervention action twice: over any interleaving of gate ticks, pump turns,
  plan changes and clears on one session, the intervention actions the gate and the pump take
  from the stream are the deliveries of one run of the shared buffer, so per channel their
  sequence numbers strictly increase, whoever takes them.\<close>

theorem stream_is_consumed_once:
  assumes "gs_jitter (ga_shared g) = jitter_new delay replan"
  shows "\<exists>items. taken_run us (g, n) = map (\<lambda>(c, a, t). ta_action a) items \<and>
    (\<forall>c. sorted_wrt (<) (seqs c items)) \<and>
    (\<forall>(c, a, t) \<in> set items. ta_channel a = c \<and> JB_Ingest a \<in> set (run_ops us (g, n)))"
proof (intro exI [of _ "delivered (gs_jitter (ga_shared g)) (run_ops us (g, n))"] conjI)
  show "\<forall>c. sorted_wrt (<) (seqs c (delivered (gs_jitter (ga_shared g)) (run_ops us (g, n))))"
    using delivered_sorted [OF new_ok] by (simp add: assms)
  show "\<forall>(c, a, t) \<in> set (delivered (gs_jitter (ga_shared g)) (run_ops us (g, n))).
      ta_channel a = c \<and> JB_Ingest a \<in> set (run_ops us (g, n))"
    using delivered_origin [OF new_ok] by (fastforce simp: assms)
qed (rule taken_run_delivered)

definition demo_claimed_gate :: gate_state where
  "demo_claimed_gate = gate_new (gate_shared_new \<lparr>pl_mode = PM_Claimed policy_provenance None, pl_since = 0\<rparr> 0 RP_Immediate)"

text \<open>The pump takes the first action, the gate the second; the late copy of the first is dropped.\<close>

theorem stream_is_consumed_once_witness:
  "\<exists>items. taken_run
      [SU_Pump 1 demo_view, SU_Tick \<lparr>ti_stamp = \<lparr>mono = 950, epoch = 950\<rparr>,
         ti_arrivals = [demo_timed 1 None, demo_timed 2 None], ti_ring_has_room = True\<rparr> [] None None None]
      (demo_claimed_gate, 0) = map (\<lambda>(c, a, t). ta_action a) items \<and>
    length items = 2 \<and> sorted_wrt (<) (seqs SC_AgentChunk items)"
proof -
  let ?us = "[SU_Pump 1 demo_view, SU_Tick \<lparr>ti_stamp = \<lparr>mono = 950, epoch = 950\<rparr>,
         ti_arrivals = [demo_timed 1 None, demo_timed 2 None], ti_ring_has_room = True\<rparr> [] None None None]"
  have "gs_jitter (ga_shared demo_claimed_gate) = jitter_new 0 RP_Immediate"
    by (simp add: demo_claimed_gate_def gate_new_def gate_shared_new_def)
  from stream_is_consumed_once [OF this, of ?us 0] obtain items where items:
    "taken_run ?us (demo_claimed_gate, 0) = map (\<lambda>(c, a, t). ta_action a) items"
    "sorted_wrt (<) (seqs SC_AgentChunk items)" by blast
  have "length (taken_run ?us (demo_claimed_gate, 0)) = 2" by code_simp
  with items have "length items = 2" by simp
  with items show ?thesis by blast
qed

end
