(* ===== verification/Waddle_Hosted.thy ===== *)
theory Waddle_Hosted
  imports Waddle_Types
begin

text \<open>
  Plane-started episodes (\<^verbatim>\<open>waddle-runtime/src/pumps.rs\<close>, the hosted-run pump): the
  bounded idempotency cache, the one active run with its deadline, and the answers that are
  scoped to the connection that asked. What the session says (whether an episode opens, whether
  the active one is done, the clock) is an input of each pass.

  The answers are shown idempotent over any sequence of passes, and the life of a run is followed
  from its admission to the stop that its deadline or its connection demands.
\<close>

subsection \<open>Data\<close>

datatype hosted_run_status_kind = HK_Accepted | HK_Rejected | HK_Busy

fun hosted_kind_pb :: "hosted_run_status_kind \<Rightarrow> int" where
  "hosted_kind_pb HK_Accepted = 1"
| "hosted_kind_pb HK_Rejected = 2"
| "hosted_kind_pb HK_Busy = 3"

record hosted_run_status =
  hs_request_id :: string
  hs_kind :: int
  hs_episode_id :: string
  hs_code :: string
  hs_message :: string

definition hosted_run_status_of ::
  "string \<Rightarrow> hosted_run_status_kind \<Rightarrow> string \<Rightarrow> string \<Rightarrow> string \<Rightarrow> hosted_run_status" where
  "hosted_run_status_of request_id kind episode_id code message =
     \<lparr>hs_request_id = request_id, hs_kind = hosted_kind_pb kind, hs_episode_id = episode_id,
      hs_code = code, hs_message = message\<rparr>"

record hosted_run_request =
  hq_request_id :: string
  hq_task_metadata :: "(string \<times> string) list"
  hq_timeout_ns :: int

datatype hosted_run_command =
    HC_Request u64 hosted_run_request
  | HC_ConnectionLost u64

record hosted_run_result =
  hr_connection_generation :: u64
  hr_status :: hosted_run_status

definition hosted_run_cache_capacity :: nat where "hosted_run_cache_capacity = 1024"

record active_hosted_run =
  ah_connection_generation :: u64
  ah_deadline_ns :: int
  ah_episode :: episode_id

text \<open>What opening an episode may answer; other errors are one case.\<close>

datatype start_error =
    SE_EpisodeActive | SE_InvalidTaskMetadata | SE_MissingVerb | SE_ShuttingDown | SE_ResetFailed | SE_Other

record hosted_pump =
  hp_completed :: "string \<rightharpoonup> hosted_run_status"
  hp_cached :: nat
  hp_active :: "active_hosted_run option"

definition hosted_new :: hosted_pump where
  "hosted_new = \<lparr>hp_completed = Map.empty, hp_cached = 0, hp_active = None\<rparr>"

datatype hosted_action =
    HA_Start "(string \<times> string) list"
  | HA_Hold string
  | HA_Terminate episode_id terminal_outcome string

record hosted_output =
  ho_results :: "hosted_run_result list"
  ho_actions :: "hosted_action list"

definition hosted_nothing :: hosted_output where
  "hosted_nothing = \<lparr>ho_results = [], ho_actions = []\<rparr>"

subsection \<open>Stopping\<close>

definition stop_hosted_run :: "string \<Rightarrow> hosted_pump \<Rightarrow> hosted_action list \<times> hosted_pump" where
  "stop_hosted_run reason p =
     (case hp_active p of
        None \<Rightarrow> ([], p)
      | Some run \<Rightarrow> ([HA_Hold reason, HA_Terminate (ah_episode run) Abort reason], p\<lparr>hp_active := None\<rparr>))"

text \<open>A run whose episode is done is forgotten; one past its deadline is stopped.\<close>

definition reap :: "(episode_id \<Rightarrow> bool) \<Rightarrow> hosted_pump \<Rightarrow> hosted_pump" where
  "reap is_done p =
     (case hp_active p of
        Some run \<Rightarrow> if is_done (ah_episode run) then p\<lparr>hp_active := None\<rparr> else p
      | None \<Rightarrow> p)"

definition expire_run :: "mono_ns \<Rightarrow> hosted_pump \<Rightarrow> hosted_action list \<times> hosted_pump" where
  "expire_run now p =
     (case hp_active p of
        Some run \<Rightarrow> if ah_deadline_ns run \<le> now then stop_hosted_run ''hosted run timeout'' p else ([], p)
      | None \<Rightarrow> ([], p))"

definition connection_lost :: "u64 \<Rightarrow> hosted_pump \<Rightarrow> hosted_action list \<times> hosted_pump" where
  "connection_lost generation p =
     (case hp_active p of
        Some run \<Rightarrow>
          if ah_connection_generation run = generation then stop_hosted_run ''hosted run connection lost'' p else ([], p)
      | None \<Rightarrow> ([], p))"

subsection \<open>A request\<close>

text \<open>The answer to a refused start; a second episode names the one that is running.\<close>

fun start_refused :: "string \<Rightarrow> string \<Rightarrow> start_error \<Rightarrow> hosted_run_status" where
  "start_refused i current SE_EpisodeActive =
     hosted_run_status_of i HK_Busy current ''episode_active'' ''the SDK session already has an active episode''"
| "start_refused i current SE_InvalidTaskMetadata =
     hosted_run_status_of i HK_Rejected [] ''invalid_task_metadata'' ''task_metadata exceeds the protocol bounds''"
| "start_refused i current SE_MissingVerb =
     hosted_run_status_of i HK_Rejected [] ''control_unavailable''
       ''the SDK session has no complete remote actuation path''"
| "start_refused i current SE_ShuttingDown =
     hosted_run_status_of i HK_Rejected [] ''shutting_down'' ''the SDK session is shutting down''"
| "start_refused i current SE_ResetFailed =
     hosted_run_status_of i HK_Rejected [] ''reset_failed'' ''the SDK could not prepare the episode''"
| "start_refused i current SE_Other =
     hosted_run_status_of i HK_Rejected [] ''unavailable'' ''the SDK could not open the episode''"

text \<open>The session's answers to a pass: whether the active episode is done (when the pass begins
  and when the request is handled), the clock, what a start gives and the mirror's episode.\<close>

record session_view =
  sv_shutdown :: bool
  sv_done :: "episode_id \<Rightarrow> bool"
  sv_now :: mono_ns
  sv_done_late :: "episode_id \<Rightarrow> bool"
  sv_received :: mono_ns
  sv_start :: "start_error + episode_id"
  sv_episode_id :: "episode_id option"

definition admit_run :: "session_view \<Rightarrow> u64 \<Rightarrow> hosted_run_request \<Rightarrow> hosted_pump \<Rightarrow> hosted_run_status \<times> hosted_action list \<times> hosted_pump" where
  "admit_run v generation q p =
     (if hq_timeout_ns q \<le> 0
      then (hosted_run_status_of (hq_request_id q) HK_Rejected [] ''invalid_timeout'' ''timeout_ns must be positive'', [], p)
      else
        (case hp_active p of
           Some run \<Rightarrow>
             (hosted_run_status_of (hq_request_id q) HK_Busy (ah_episode run) ''episode_active''
                ''the SDK session already has an active episode'', [], p)
         | None \<Rightarrow>
             (case sv_start v of
                Inr i \<Rightarrow>
                  (hosted_run_status_of (hq_request_id q) HK_Accepted i ''accepted'' ''the SDK opened the episode'',
                   [HA_Start (hq_task_metadata q)],
                   p\<lparr>hp_active := Some \<lparr>ah_connection_generation = generation,
                         ah_deadline_ns = i64_sat (sv_received v + hq_timeout_ns q), ah_episode = i\<rparr>\<rparr>)
              | Inl e \<Rightarrow>
                  (start_refused (hq_request_id q) (case sv_episode_id v of Some i \<Rightarrow> i | None \<Rightarrow> []) e,
                   [HA_Start (hq_task_metadata q)], p))))"

definition handle_hosted_run_request ::
  "session_view \<Rightarrow> u64 \<Rightarrow> hosted_run_request \<Rightarrow> hosted_pump \<Rightarrow> hosted_output \<times> hosted_pump" where
  "handle_hosted_run_request v generation q p =
     (let i = hq_request_id q; answer = (\<lambda>st. [\<lparr>hr_connection_generation = generation, hr_status = st\<rparr>]) in
      if i = [] \<or> 128 < length i then (hosted_nothing, p)
      else
        (case hp_completed p i of
           Some st \<Rightarrow> (hosted_nothing\<lparr>ho_results := answer st\<rparr>, p)
         | None \<Rightarrow>
             if hosted_run_cache_capacity \<le> hp_cached p
             then (hosted_nothing\<lparr>ho_results := answer (hosted_run_status_of i HK_Rejected []
                     ''capacity_exceeded'' ''the hosted-run admission cache is full'')\<rparr>, p)
             else
               (let (st, acts, p) = admit_run v generation q (reap (sv_done_late v) p)
                in (\<lparr>ho_results = answer st, ho_actions = acts\<rparr>,
                    p\<lparr>hp_completed := (hp_completed p)(i \<mapsto> st), hp_cached := hp_cached p + 1\<rparr>))))"

subsection \<open>The loop\<close>

text \<open>A pass: whether it goes on, with the command it received (none on a timeout).\<close>

definition on_command :: "session_view \<Rightarrow> hosted_run_command option \<Rightarrow> hosted_pump \<Rightarrow> hosted_output \<times> hosted_pump" where
  "on_command v cmd p =
     (case cmd of
        Some (HC_Request generation q) \<Rightarrow> handle_hosted_run_request v generation q p
      | Some (HC_ConnectionLost generation) \<Rightarrow>
          (let (acts, p) = connection_lost generation p in (hosted_nothing\<lparr>ho_actions := acts\<rparr>, p))
      | None \<Rightarrow> (hosted_nothing, p))"

definition hosted_pass :: "session_view \<Rightarrow> hosted_run_command option \<Rightarrow> hosted_pump \<Rightarrow> hosted_output \<times> hosted_pump \<times> bool" where
  "hosted_pass v cmd p =
     (if sv_shutdown v then (hosted_nothing, p, False)
      else
        (let (stops, p) = expire_run (sv_now v) (reap (sv_done v) p);
             (out, p) = on_command v cmd p
         in (out\<lparr>ho_actions := stops @ ho_actions out\<rparr>, p, True)))"

fun hosted_run :: "(session_view \<times> hosted_run_command option) list \<Rightarrow> hosted_pump \<Rightarrow> hosted_output list \<times> hosted_pump" where
  "hosted_run [] p = ([], p)"
| "hosted_run ((v, cmd) # rest) p =
     (let (out, p, go) = hosted_pass v cmd p
      in if go then (let (outs, p) = hosted_run rest p in (out # outs, p)) else ([out], p))"

text \<open>The plane pump forwards an answer only to the connection that asked, while it has the feature.\<close>

definition forward_hosted_run_results :: "u64 \<Rightarrow> bool \<Rightarrow> hosted_run_result list \<Rightarrow> hosted_run_status list" where
  "forward_hosted_run_results generation negotiated results =
     map hr_status (filter (\<lambda>r. negotiated \<and> hr_connection_generation r = generation) results)"

subsection \<open>Answers are idempotent\<close>

definition capacity_status :: "string \<Rightarrow> hosted_run_status" where
  "capacity_status i = hosted_run_status_of i HK_Rejected [] ''capacity_exceeded'' ''the hosted-run admission cache is full''"

text \<open>The answer a state gives for an id, once it has given one.\<close>

definition answer_of :: "hosted_pump \<Rightarrow> string \<Rightarrow> hosted_run_status option" where
  "answer_of p i =
     (case hp_completed p i of
        Some st \<Rightarrow> Some st
      | None \<Rightarrow> if hosted_run_cache_capacity \<le> hp_cached p then Some (capacity_status i) else None)"

definition cache_ok :: "hosted_pump \<Rightarrow> bool" where
  "cache_ok p \<longleftrightarrow> (\<forall>i st. hp_completed p i = Some st \<longrightarrow> hs_request_id st = i)"

lemma status_of_id [simp]: "hs_request_id (hosted_run_status_of i k e c m) = i"
  by (simp add: hosted_run_status_of_def)

lemma start_refused_id [simp]: "hs_request_id (start_refused i cur e) = i"
  by (cases e) simp_all

lemma admit_run_keeps:
  "admit_run v g q p = (st, acts, p') \<Longrightarrow>
   hs_request_id st = hq_request_id q \<and> hp_completed p' = hp_completed p \<and> hp_cached p' = hp_cached p \<and>
   (\<forall>a \<in> set acts. a = HA_Start (hq_task_metadata q)) \<and> length acts \<le> 1"
  by (auto simp: admit_run_def split: if_splits option.splits sum.splits)

lemma stop_keeps [simp]:
  "hp_completed (snd (stop_hosted_run r p)) = hp_completed p" "hp_cached (snd (stop_hosted_run r p)) = hp_cached p"
  by (simp_all add: stop_hosted_run_def split: option.split)

lemma reap_keeps [simp]: "hp_completed (reap d p) = hp_completed p" "hp_cached (reap d p) = hp_cached p"
  by (simp_all add: reap_def split: option.split)

lemma expire_keeps [simp]:
  "hp_completed (snd (expire_run now p)) = hp_completed p" "hp_cached (snd (expire_run now p)) = hp_cached p"
  by (simp_all add: expire_run_def split: option.split)

lemma connection_lost_keeps [simp]:
  "hp_completed (snd (connection_lost g p)) = hp_completed p" "hp_cached (snd (connection_lost g p)) = hp_cached p"
  by (simp_all add: connection_lost_def split: option.split)

lemma stops_start_nothing:
  "HA_Start md \<notin> set (fst (stop_hosted_run r p))" "HA_Start md \<notin> set (fst (expire_run now p))"
  "HA_Start md \<notin> set (fst (connection_lost g p))"
  by (simp_all add: stop_hosted_run_def expire_run_def connection_lost_def split: option.split)

lemma handle_request_answers:
  assumes "handle_hosted_run_request v g q p = (out, p')" "cache_ok p"
  shows "cache_ok p' \<and> (\<forall>i st. answer_of p i = Some st \<longrightarrow> answer_of p' i = Some st) \<and>
    (\<forall>r \<in> set (ho_results out). hr_connection_generation r = g \<and> hs_request_id (hr_status r) = hq_request_id q \<and>
       answer_of p' (hq_request_id q) = Some (hr_status r)) \<and>
    (ho_actions out \<noteq> [] \<longrightarrow> answer_of p (hq_request_id q) = None \<and> answer_of p' (hq_request_id q) \<noteq> None \<and>
       ho_actions out = [HA_Start (hq_task_metadata q)])"
proof -
  let ?i = "hq_request_id q"
  let ?p = "reap (sv_done_late v) p"
  obtain st acts p1 where adm: "admit_run v g q ?p = (st, acts, p1)" by (metis prod.exhaust)
  note k = admit_run_keeps [OF adm]
  consider (bad) "?i = [] \<or> 128 < length ?i"
    | (known) st' where "\<not> (?i = [] \<or> 128 < length ?i)" "hp_completed p ?i = Some st'"
    | (full) "\<not> (?i = [] \<or> 128 < length ?i)" "hp_completed p ?i = None" "hosted_run_cache_capacity \<le> hp_cached p"
    | (fresh) "\<not> (?i = [] \<or> 128 < length ?i)" "hp_completed p ?i = None" "\<not> hosted_run_cache_capacity \<le> hp_cached p"
    by fastforce
  then show ?thesis
  proof cases
    case bad
    with assms show ?thesis by (auto simp: handle_hosted_run_request_def hosted_nothing_def)
  next
    case known
    with assms have "hs_request_id st' = ?i" by (simp add: cache_ok_def)
    with known assms show ?thesis
      by (auto simp: handle_hosted_run_request_def hosted_nothing_def answer_of_def)
  next
    case full
    with assms show ?thesis
      by (auto simp: handle_hosted_run_request_def hosted_nothing_def answer_of_def capacity_status_def)
  next
    case fresh
    with assms(1) adm have out: "out = \<lparr>ho_results = [\<lparr>hr_connection_generation = g, hr_status = st\<rparr>], ho_actions = acts\<rparr>"
      "p' = p1\<lparr>hp_completed := (hp_completed p1)(?i \<mapsto> st), hp_cached := hp_cached p1 + 1\<rparr>"
      by (simp_all add: handle_hosted_run_request_def Let_def)
    have ok: "cache_ok p'" using assms(2) k by (auto simp: out cache_ok_def)
    have none: "answer_of p ?i = None" using fresh by (simp add: answer_of_def)
    have "acts = [] \<or> acts = [HA_Start (hq_task_metadata q)]" using k by (cases acts) auto
    moreover have "answer_of p' i = Some st'" if "answer_of p i = Some st'" for i st'
      using that fresh k by (auto simp: out answer_of_def split: option.splits if_splits)
    ultimately show ?thesis using ok none k by (auto simp: out answer_of_def)
  qed
qed

text \<open>The request a pass handles.\<close>

fun command_id :: "hosted_run_command option \<Rightarrow> string option" where
  "command_id (Some (HC_Request g q)) = Some (hq_request_id q)"
| "command_id cmd = None"

lemma same_cache:
  "hp_completed p' = hp_completed p \<Longrightarrow> hp_cached p' = hp_cached p \<Longrightarrow> cache_ok p' = cache_ok p \<and> answer_of p' = answer_of p"
  by (simp add: cache_ok_def answer_of_def fun_eq_iff)

definition starts :: "hosted_run_command option \<Rightarrow> hosted_output \<Rightarrow> string list" where
  "starts cmd out = (if \<exists>md. HA_Start md \<in> set (ho_actions out) then (case command_id cmd of Some i \<Rightarrow> [i] | None \<Rightarrow> []) else [])"

lemma on_command_answers:
  assumes "on_command v cmd p = (out, p')" "cache_ok p"
  shows "cache_ok p' \<and> (\<forall>i st. answer_of p i = Some st \<longrightarrow> answer_of p' i = Some st) \<and>
    (\<forall>r \<in> set (ho_results out). answer_of p' (hs_request_id (hr_status r)) = Some (hr_status r)) \<and>
    (\<forall>i \<in> set (starts cmd out). answer_of p i = None \<and> answer_of p' i \<noteq> None) \<and> length (starts cmd out) \<le> 1"
proof (cases cmd)
  case None
  with assms(1) have "out = hosted_nothing" "p' = p" by (simp_all add: on_command_def)
  with assms(2) show ?thesis by (simp add: hosted_nothing_def starts_def)
next
  case (Some c)
  show ?thesis
  proof (cases c)
    case (HC_Request g q)
    with Some assms have "handle_hosted_run_request v g q p = (out, p')" by (simp add: on_command_def)
    note f = handle_request_answers [OF this assms(2)]
    have "starts cmd out = [] \<or> starts cmd out = [hq_request_id q] \<and> ho_actions out \<noteq> []"
      by (auto simp: starts_def Some HC_Request)
    with f show ?thesis by auto
  next
    case (HC_ConnectionLost g)
    with Some assms have o: "ho_results out = []" "ho_actions out = fst (connection_lost g p)" "p' = snd (connection_lost g p)"
      by (auto simp: on_command_def hosted_nothing_def case_prod_unfold Let_def)
    then have "starts cmd out = []" by (simp add: starts_def stops_start_nothing)
    with same_cache [of p' p] o assms(2) show ?thesis by simp
  qed
qed

lemma hosted_pass_answers:
  assumes "hosted_pass v cmd p = (out, p', go)" "cache_ok p"
  shows "cache_ok p' \<and> (\<forall>i st. answer_of p i = Some st \<longrightarrow> answer_of p' i = Some st) \<and>
    (\<forall>r \<in> set (ho_results out). answer_of p' (hs_request_id (hr_status r)) = Some (hr_status r)) \<and>
    (\<forall>i \<in> set (starts cmd out). answer_of p i = None \<and> answer_of p' i \<noteq> None) \<and> length (starts cmd out) \<le> 1"
proof (cases "sv_shutdown v")
  case True
  with assms(1) have "out = hosted_nothing" "p' = p" by (simp_all add: hosted_pass_def)
  with assms(2) show ?thesis by (simp add: hosted_nothing_def starts_def)
next
  case False
  let ?e = "expire_run (sv_now v) (reap (sv_done v) p)"
  obtain out1 p3 where c: "on_command v cmd (snd ?e) = (out1, p3)" by (metis prod.exhaust)
  from assms(1) False c have out: "out = out1\<lparr>ho_actions := fst ?e @ ho_actions out1\<rparr>" "p' = p3"
    by (simp_all add: hosted_pass_def case_prod_unfold)
  have s: "starts cmd out = starts cmd out1" by (simp add: starts_def out stops_start_nothing)
  have e: "cache_ok (snd ?e) = cache_ok p" "answer_of (snd ?e) = answer_of p"
    using same_cache [of "snd ?e" p] by simp_all
  from on_command_answers [OF c] assms(2) show ?thesis unfolding s e by (simp add: out)
qed

lemma hosted_run_answers:
  "hosted_run passes p = (outs, p') \<Longrightarrow> cache_ok p \<Longrightarrow>
   (\<forall>i st. answer_of p i = Some st \<longrightarrow> answer_of p' i = Some st) \<and>
   (\<forall>out \<in> set outs. \<forall>r \<in> set (ho_results out). answer_of p' (hs_request_id (hr_status r)) = Some (hr_status r)) \<and>
   distinct (concat (map2 starts (map snd passes) outs)) \<and>
   (\<forall>i \<in> set (concat (map2 starts (map snd passes) outs)). answer_of p i = None)"
proof (induction passes arbitrary: p outs)
  case (Cons pass passes)
  obtain v cmd where pass: "pass = (v, cmd)" by (cases pass)
  obtain out p1 go where one: "hosted_pass v cmd p = (out, p1, go)" by (metis prod.exhaust)
  note f = hosted_pass_answers [OF one Cons.prems(2)]
  have short: "starts cmd out = [] \<or> (\<exists>i. starts cmd out = [i])"
    using f by (cases "starts cmd out") auto
  show ?case
  proof (cases go)
    case False
    with Cons.prems(1) one pass have "outs = [out]" "p' = p1" by auto
    with f short show ?thesis by (auto simp: pass)
  next
    case True
    obtain outs' where rest: "hosted_run passes p1 = (outs', p')" and outs: "outs = out # outs'"
      using Cons.prems(1) one pass True by (auto simp: Let_def case_prod_unfold prod_eq_iff)
    from f have "cache_ok p1" by simp
    note IH = Cons.IH [OF rest this]
    let ?rest = "concat (map2 starts (map snd passes) outs')"
    have new: "answer_of p1 i = None" if "i \<in> set ?rest" for i using IH that by blast
    have fresh: "answer_of p i = None" if "i \<in> set ?rest" for i
      using new [OF that] f by (metis not_None_eq)
    have "i \<notin> set ?rest" if "i \<in> set (starts cmd out)" for i
      using new [of i] f that by metis
    then have d: "distinct (starts cmd out @ ?rest)" using IH short by auto
    have a: "\<forall>i \<in> set (starts cmd out @ ?rest). answer_of p i = None" using f fresh by (metis Un_iff set_append)
    have r: "\<forall>o' \<in> set outs. \<forall>r \<in> set (ho_results o'). answer_of p' (hs_request_id (hr_status r)) = Some (hr_status r)"
      unfolding outs using IH f by (metis set_ConsD)
    have m: "\<forall>i st. answer_of p i = Some st \<longrightarrow> answer_of p' i = Some st" using IH f by blast
    show ?thesis using d a r m by (simp add: outs pass)
  qed
qed simp

text \<open>C30. A hosted-run request is answered idempotently: along any run of the pump, whatever the session
  answers and however requests are repeated, all answers sent for one request id are the same,
  on whatever connection, and the session is asked to start an episode at most once per id.\<close>

theorem hosted_answers_are_idempotent:
  assumes "hosted_run passes hosted_new = (outs, p')"
  shows "(\<forall>r \<in> set (concat (map ho_results outs)). \<forall>r' \<in> set (concat (map ho_results outs)).
      hs_request_id (hr_status r) = hs_request_id (hr_status r') \<longrightarrow> hr_status r = hr_status r') \<and>
    distinct (concat (map2 starts (map snd passes) outs))"
proof -
  have "cache_ok hosted_new" by (simp add: cache_ok_def hosted_new_def)
  note f = hosted_run_answers [OF assms this]
  show ?thesis
  proof (intro conjI ballI impI)
    fix r r'
    assume rs: "r \<in> set (concat (map ho_results outs))" "r' \<in> set (concat (map ho_results outs))"
      "hs_request_id (hr_status r) = hs_request_id (hr_status r')"
    from rs(1) obtain x where "x \<in> set outs" "r \<in> set (ho_results x)" by auto
    with f have "answer_of p' (hs_request_id (hr_status r)) = Some (hr_status r)" by blast
    moreover from rs(2) obtain x' where "x' \<in> set outs" "r' \<in> set (ho_results x')" by auto
    with f have "answer_of p' (hs_request_id (hr_status r')) = Some (hr_status r')" by blast
    ultimately show "hr_status r = hr_status r'" using rs(3) by (metis option.inject)
  qed (rule f [THEN conjunct2, THEN conjunct2, THEN conjunct1])
qed

text \<open>Twice the same request: one start, one answer, sent twice.\<close>

definition demo_request :: hosted_run_request where
  "demo_request = \<lparr>hq_request_id = ''r1'', hq_task_metadata = [], hq_timeout_ns = 1000\<rparr>"

definition demo_hosted_view :: "mono_ns \<Rightarrow> session_view" where
  "demo_hosted_view t = \<lparr>sv_shutdown = False, sv_done = (\<lambda>i. False), sv_now = t, sv_done_late = (\<lambda>i. False), sv_received = t,
     sv_start = Inr ''e1'', sv_episode_id = None\<rparr>"

theorem hosted_answers_are_idempotent_witness:
  "\<exists>outs p'. hosted_run [(demo_hosted_view 1, Some (HC_Request 1 demo_request)), (demo_hosted_view 2, Some (HC_Request 2 demo_request))]
      hosted_new = (outs, p') \<and>
    length (concat (map ho_results outs)) = 2 \<and>
    hr_status (concat (map ho_results outs) ! 0) = hr_status (concat (map ho_results outs) ! 1)"
proof -
  let ?passes = "[(demo_hosted_view 1, Some (HC_Request 1 demo_request)), (demo_hosted_view 2, Some (HC_Request 2 demo_request))]"
  obtain outs p' where run: "hosted_run ?passes hosted_new = (outs, p')" by (metis prod.exhaust)
  have "map (\<lambda>r. hs_request_id (hr_status r)) (concat (map ho_results (fst (hosted_run ?passes hosted_new)))) = [''r1'', ''r1'']"
    by code_simp
  then have ids: "map (\<lambda>r. hs_request_id (hr_status r)) (concat (map ho_results outs)) = [''r1'', ''r1'']" by (simp only: run fst_conv)
  then have len: "length (concat (map ho_results outs)) = 2" by (metis length_map length_Cons list.size(3) One_nat_def Suc_1)
  let ?rs = "concat (map ho_results outs)"
  have in_rs: "?rs ! 0 \<in> set ?rs" "?rs ! 1 \<in> set ?rs" using len by (simp_all only: nth_mem) 
  have same: "hs_request_id (hr_status (?rs ! 0)) = hs_request_id (hr_status (?rs ! 1))"
    using arg_cong [OF ids, of "\<lambda>xs. xs ! 0"] arg_cong [OF ids, of "\<lambda>xs. xs ! 1"] len by simp
  from hosted_answers_are_idempotent [OF run] in_rs same have "hr_status (?rs ! 0) = hr_status (?rs ! 1)" by blast
  with run len show ?thesis by blast
qed

subsection \<open>A run fails closed\<close>

text \<open>A pass that leaves a run alone: the episode goes on, its deadline lies ahead, and no connection
  loss is its own.\<close>

fun leaves_alone :: "active_hosted_run \<Rightarrow> session_view \<times> hosted_run_command option \<Rightarrow> bool" where
  "leaves_alone run (v, cmd) \<longleftrightarrow>
     \<not> sv_shutdown v \<and> \<not> sv_done v (ah_episode run) \<and> \<not> sv_done_late v (ah_episode run) \<and>
     sv_now v < ah_deadline_ns run \<and> cmd \<noteq> Some (HC_ConnectionLost (ah_connection_generation run))"

fun stops_run :: "active_hosted_run \<Rightarrow> session_view \<times> hosted_run_command option \<Rightarrow> string \<Rightarrow> bool" where
  "stops_run run (v, cmd) reason \<longleftrightarrow>
     \<not> sv_shutdown v \<and> \<not> sv_done v (ah_episode run) \<and>
     (ah_deadline_ns run \<le> sv_now v \<and> reason = ''hosted run timeout'' \<or>
      sv_now v < ah_deadline_ns run \<and> cmd = Some (HC_ConnectionLost (ah_connection_generation run)) \<and>
      reason = ''hosted run connection lost'')"

lemma left_alone:
  assumes "leaves_alone run (v, cmd)" "hp_active p = Some run" "hosted_pass v cmd p = (out, p', go)"
  shows "go \<and> hp_active p' = Some run \<and> ho_actions out = []"
proof -
  have e: "expire_run (sv_now v) (reap (sv_done v) p) = ([], p)"
    using assms(1,2) by (auto simp: expire_run_def reap_def)
  obtain out1 p1 where c: "on_command v cmd p = (out1, p1)" by (metis prod.exhaust)
  have o: "out = out1" "p' = p1" go
    using assms(1,3) c by (auto simp: hosted_pass_def e case_prod_unfold)
  have "hp_active p1 = Some run \<and> ho_actions out1 = []"
  proof (cases cmd)
    case (Some cm)
    then show ?thesis
      using c assms(1,2)
      by (cases cm) (auto simp: on_command_def connection_lost_def handle_hosted_run_request_def reap_def admit_run_def
          hosted_nothing_def Let_def split: option.splits if_splits)
  qed (use c assms(2) in \<open>auto simp: on_command_def hosted_nothing_def\<close>)
  with o show ?thesis by simp
qed

text \<open>C31. An accepted run fails closed: from the pass that accepts it, as long as passes leave it alone,
  whatever requests and losses of other connections arrive, the run stays the active one and
  nothing is stopped or started; the first pass past its deadline, or with the loss of the
  connection that asked, requests HOLD, then aborts the run's episode, and no run is active
  after the stop.\<close>

theorem hosted_runs_fail_closed:
  assumes "hp_active p = Some run" "list_all (leaves_alone run) passes" "hosted_run passes p = (outs, p1)"
    and "stops_run run (v, cmd) reason" "hosted_pass v cmd p1 = (out, p2, go)"
  shows "concat (map ho_actions outs) = [] \<and> hp_active p1 = Some run \<and>
    take 2 (ho_actions out) = [HA_Hold reason, HA_Terminate (ah_episode run) Abort reason] \<and>
    (\<forall>run'. hp_active p2 = Some run' \<longrightarrow> (\<exists>g q. cmd = Some (HC_Request g q) \<and> ah_connection_generation run' = g))"
proof -
  have alone: "concat (map ho_actions outs) = [] \<and> hp_active p1 = Some run"
    using assms(1-3)
  proof (induction passes arbitrary: p outs)
    case (Cons pass passes)
    obtain w c where pass: "pass = (w, c)" by (cases pass)
    obtain out p' go where one: "hosted_pass w c p = (out, p', go)" by (metis prod.exhaust)
    have f: "go \<and> hp_active p' = Some run \<and> ho_actions out = []"
      using left_alone [OF _ Cons.prems(1) one] Cons.prems(2) pass by simp
    obtain outs' where "hosted_run passes p' = (outs', p1)" "outs = out # outs'"
      using Cons.prems(3) one pass f by (auto simp: Let_def case_prod_unfold prod_eq_iff)
    with Cons.IH [of p' outs'] Cons.prems(2) f show ?case by simp
  qed simp
  have r: "reap (sv_done v) p1 = p1" using assms(4) alone by (auto simp: reap_def)
  let ?e = "expire_run (sv_now v) p1"
  obtain out1 p3 where c: "on_command v cmd (snd ?e) = (out1, p3)" by (metis prod.exhaust)
  have o: "ho_actions out = fst ?e @ ho_actions out1" "p2 = p3"
    using assms(4,5) c by (auto simp: hosted_pass_def r case_prod_unfold)
  consider (late) "ah_deadline_ns run \<le> sv_now v" "reason = ''hosted run timeout''"
    | (lost) "sv_now v < ah_deadline_ns run" "cmd = Some (HC_ConnectionLost (ah_connection_generation run))"
        "reason = ''hosted run connection lost''"
    using assms(4) by auto
  then have "take 2 (ho_actions out) = [HA_Hold reason, HA_Terminate (ah_episode run) Abort reason] \<and>
    (\<forall>run'. hp_active p2 = Some run' \<longrightarrow> (\<exists>g q. cmd = Some (HC_Request g q) \<and> ah_connection_generation run' = g))"
  proof cases
    case late
    then have e: "?e = ([HA_Hold reason, HA_Terminate (ah_episode run) Abort reason], p1\<lparr>hp_active := None\<rparr>)"
      using alone by (simp add: expire_run_def stop_hosted_run_def)
    have "\<exists>g q. cmd = Some (HC_Request g q) \<and> ah_connection_generation run' = g" if "hp_active p3 = Some run'" for run'
    proof (cases cmd)
      case (Some cm)
      then show ?thesis
        using c that e
        by (cases cm) (auto simp: on_command_def connection_lost_def handle_hosted_run_request_def reap_def admit_run_def
            hosted_nothing_def Let_def split: option.splits if_splits sum.splits)
    qed (use c that e in \<open>auto simp: on_command_def\<close>)
    then show ?thesis by (simp add: o e)
  next
    case lost
    then have e: "?e = ([], p1)" using alone by (simp add: expire_run_def)
    with c lost alone have "out1 = hosted_nothing\<lparr>ho_actions := [HA_Hold reason, HA_Terminate (ah_episode run) Abort reason]\<rparr>"
      "hp_active p3 = None"
      by (auto simp: on_command_def connection_lost_def stop_hosted_run_def Let_def)
    then show ?thesis by (simp add: o e)
  qed
  with alone show ?thesis by simp
qed

text \<open>The demonstration run, asked for a second start while it goes on, and then past its deadline.\<close>

definition demo_active :: active_hosted_run where
  "demo_active = \<lparr>ah_connection_generation = 1, ah_deadline_ns = 1001, ah_episode = ''e1''\<rparr>"

theorem hosted_runs_fail_closed_witness:
  "take 2 (ho_actions (fst (hosted_pass (demo_hosted_view 1001) None
      (snd (hosted_run [(demo_hosted_view 2, Some (HC_Request 2 demo_request))] (hosted_new\<lparr>hp_active := Some demo_active\<rparr>)))))) =
    [HA_Hold ''hosted run timeout'', HA_Terminate ''e1'' Abort ''hosted run timeout'']"
proof -
  let ?p = "hosted_new\<lparr>hp_active := Some demo_active\<rparr>"
  let ?passes = "[(demo_hosted_view 2, Some (HC_Request 2 demo_request))]"
  obtain outs p1 where run: "hosted_run ?passes ?p = (outs, p1)" by (metis prod.exhaust)
  obtain out p2 go where late: "hosted_pass (demo_hosted_view 1001) None p1 = (out, p2, go)" by (metis prod.exhaust)
  have alone: "list_all (leaves_alone demo_active) ?passes" by (simp add: demo_hosted_view_def demo_active_def)
  have stops: "stops_run demo_active (demo_hosted_view 1001, None) ''hosted run timeout''"
    by (simp add: demo_hosted_view_def demo_active_def)
  have act: "hp_active ?p = Some demo_active" by simp
  from hosted_runs_fail_closed [OF act alone run stops late] show ?thesis
    by (simp only: run late fst_conv snd_conv) (simp add: demo_active_def)
qed

end
