(* ===== verification/Waddle_Pump.thy ===== *)
theory Waddle_Pump
  imports Waddle_Runtime Waddle_Intake Waddle_Inbox Waddle_Hosted Waddle_Client
begin

text \<open>
  The plane pump (\<^verbatim>\<open>waddle-runtime/src/pumps.rs\<close>, \<^verbatim>\<open>spawn_plane_pump\<close> and
  \<^verbatim>\<open>forward_server_msg\<close>): the thread that turns what the control-plane client surfaces
  into session events, keeps what the current connection accepted on the mirror, paces the
  heartbeats and carries hosted runs to and from their pump. A pass takes what it reads of the
  clock, the mirror and the channels as inputs, and the inboxes it shares with local callers as
  they are when it locks them.

  The lemmas read the pump's state off the history of events it handled: which registration
  stands, and whether the plane counts as reachable.
\<close>

subsection \<open>Wire messages\<close>

record pb_reset_result =
  zr_ok :: bool
  zr_verified :: "bool option"

record claim_directive =
  cd_kind :: int
  cd_claim :: "pb_claim option"
  cd_directive_id :: "string option"

record episode_directive =
  ed_kind :: int
  ed_episode_id :: string
  ed_outcome :: int
  ed_reason :: string
  ed_directive_id :: "string option"

record reset_window_directive =
  wd_kind :: int
  wd_claim :: "pb_claim option"
  wd_result :: "pb_reset_result option"
  wd_directive_id :: "string option"

record agent_task_update =
  au_episode_id :: string
  au_kind :: int
  au_detail :: string
  au_recording_ref :: string
  au_directive_id :: "string option"

datatype gate_server_msg =
    GS_Claim claim_directive
  | GS_InterventionChunk pb_action_chunk
  | GS_Verb
  | GS_GrantChange
  | GS_Episode episode_directive
  | GS_ResetWindow reset_window_directive
  | GS_AgentUpdate agent_task_update
  | GS_ChatEvent chat_event
  | GS_TaskSessionEvent task_session_event
  | GS_CalibrationUpdate calibration_update
  | GS_WorkspaceArtifactReady workspace_artifact_ready
  | GS_HostedRunRequest hosted_run_request
  | GS_CalibrationMeasurementRequest calibration_measurement_request

record grant_status_change =
  sc_verb :: int
  sc_to :: int
  sc_reason :: string

record reset_progress =
  rp_phase :: int
  rp_strategy :: string
  rp_detail :: string
  rp_result :: "pb_reset_result option"

datatype plane_server_msg =
    PS_Gate "gate_server_msg option"
  | PS_HeartbeatAck "grant_status_change list"
  | PS_ResetProgress reset_progress
  | PS_Other

text \<open>What Register answered: the session, the accepted feature flags and a detail.\<close>

record registration =
  rg_session_id :: string
  rg_flags :: "string list"
  rg_detail :: string

datatype pump_event =
    PM_Connected
  | PM_Registered registration
  | PM_RegistrationRejected string string
  | PM_Disconnected
  | PM_BufferOverflowed u64
  | PM_Server plane_server_msg

subsection \<open>The part of the mirror the pump writes\<close>

datatype reset_progress_phase = RP_Unspecified | RP_Planning | RP_Executing | RP_Verifying | RP_Done

definition reset_progress_phase_from_pb :: "int \<Rightarrow> reset_progress_phase" where
  "reset_progress_phase_from_pb v =
     (if v = 1 then RP_Planning else if v = 2 then RP_Executing else if v = 3 then RP_Verifying
      else if v = 4 then RP_Done else RP_Unspecified)"

record reset_progress_status =
  rs_phase :: reset_progress_phase
  rs_strategy :: string
  rs_detail :: string

datatype agent_task_kind = AT_Unspecified | AT_Queued | AT_Denied | AT_Completed

definition agent_task_kind_from_pb :: "int \<Rightarrow> agent_task_kind" where
  "agent_task_kind_from_pb v =
     (if v = 1 then AT_Queued else if v = 2 then AT_Denied else if v = 3 then AT_Completed else AT_Unspecified)"

record agent_task_status =
  as_episode_id :: string
  as_kind :: agent_task_kind
  as_detail :: string
  as_recording_ref :: string

record plane_status =
  zs_registered :: bool
  zs_binding :: bool
  zs_binding_refused :: bool
  zs_detail :: string
  zs_error_code :: "string option"
  zs_stills :: bool
  zs_parts :: bool
  zs_motion_feedforward :: bool
  zs_chat :: bool
  zs_task_sessions :: bool
  zs_calibration :: bool
  zs_workspace_artifacts :: bool
  zs_hosted_runs :: bool
  zs_reset_progress :: "reset_progress_status option"
  zs_agent_task :: "agent_task_status option"

definition plane_status_new :: plane_status where
  "plane_status_new =
     \<lparr>zs_registered = False, zs_binding = False, zs_binding_refused = False, zs_detail = [],
      zs_error_code = None, zs_stills = False, zs_parts = False, zs_motion_feedforward = False,
      zs_chat = False, zs_task_sessions = False, zs_calibration = False,
      zs_workspace_artifacts = False, zs_hosted_runs = False, zs_reset_progress = None,
      zs_agent_task = None\<rparr>"

subsection \<open>State, inputs and outputs\<close>

definition control_heartbeat_interval_ns :: int where "control_heartbeat_interval_ns = 500000000"

record plane_pump =
  pu_was_connected :: bool
  pu_acks :: bool
  pu_hosted :: bool
  pu_generation :: u64
  pu_session :: "string option"
  pu_next_heartbeat :: int
  pu_status :: plane_status

definition plane_pump_new :: plane_pump where
  "plane_pump_new =
     \<lparr>pu_was_connected = True, pu_acks = False, pu_hosted = False, pu_generation = 0,
      pu_session = None, pu_next_heartbeat = 0, pu_status = plane_status_new\<rparr>"

record pump_config =
  pf_binding_required :: bool
  pf_space :: action_space
  pf_ring_cap :: nat

record inboxes =
  bx_chat :: chat_inbox
  bx_events :: plane_events
  bx_intake :: "chunk_intake_state \<times> timed_action list"

record pump_view =
  vw_results :: "hosted_run_result list"
  vw_shutdown :: bool
  vw_heartbeat_at :: mono_ns
  vw_event :: "pump_event option"
  vw_at :: mono_ns
  vw_claim_active :: bool
  vw_claim_generation :: u64
  vw_episode_id :: "episode_id option"
  vw_successor :: episode_id
  vw_boxes :: inboxes

text \<open>The events of one directive share one acknowledgement group.\<close>

record delivery =
  dl_events :: "session_event list"
  dl_ack :: "ack_group option"

datatype plane_out = PO_Ping string mono_ns | PO_Hosted hosted_run_status

record pump_output =
  po_sent :: "plane_out list"
  po_hosted :: "hosted_run_command list"
  po_delivered :: "delivery list"
  po_boxes :: inboxes

definition pump_silent :: "inboxes \<Rightarrow> pump_output" where
  "pump_silent b = \<lparr>po_sent = [], po_hosted = [], po_delivered = [], po_boxes = b\<rparr>"

subsection \<open>Helpers\<close>

definition connector_registration_detail_max_bytes :: nat where
  "connector_registration_detail_max_bytes = 2048"

text \<open>A string is its UTF-8 bytes: a boundary is an end of it or a byte that continues no character.\<close>

definition is_char_boundary :: "string \<Rightarrow> nat \<Rightarrow> bool" where
  "is_char_boundary s i \<longleftrightarrow>
     i = 0 \<or> i = length s \<or>
     i < length s \<and> \<not> (128 \<le> (of_char (s ! i) :: nat) \<and> (of_char (s ! i) :: nat) < 192)"

fun floor_boundary :: "string \<Rightarrow> nat \<Rightarrow> nat" where
  "floor_boundary s 0 = 0"
| "floor_boundary s (Suc n) = (if is_char_boundary s (Suc n) then Suc n else floor_boundary s n)"

definition bounded_registration_detail :: "string \<Rightarrow> string" where
  "bounded_registration_detail s =
     take (floor_boundary s (min (length s) connector_registration_detail_max_bytes)) s"

text \<open>An actor that is missing or of an unknown kind is an anonymous teleoperator.\<close>

definition directive_actor :: "pb_actor_ref option \<Rightarrow> actor_ref" where
  "directive_actor a =
     (case a of
        None \<Rightarrow> of_kind AK_Teleoperator
      | Some p \<Rightarrow> (case actor_ref_try_from p of Inl e \<Rightarrow> of_kind AK_Teleoperator | Inr r \<Rightarrow> r))"

definition ack_group_for :: "bool \<Rightarrow> string option \<Rightarrow> u32 \<Rightarrow> ack_group option" where
  "ack_group_for negotiated directive events =
     (if \<not> negotiated then None else map_option (\<lambda>i. ack_group_new i events) directive)"

definition velocity_feedforward_policy_for :: "bool \<Rightarrow> velocity_feedforward_policy" where
  "velocity_feedforward_policy_for negotiated = (if negotiated then VF_Honor else VF_Ignore)"

definition part_policy_for :: "bool \<Rightarrow> part_policy" where
  "part_policy_for honor = (if honor then PP_Honor else PP_Ignore)"

definition forget_flags :: "plane_pump \<Rightarrow> plane_pump" where
  "forget_flags p =
     p\<lparr>pu_acks := False, pu_hosted := False,
       pu_status := (pu_status p)\<lparr>zs_registered := False, zs_binding := False, zs_stills := False,
         zs_parts := False, zs_motion_feedforward := False, zs_chat := False,
         zs_task_sessions := False, zs_calibration := False, zs_workspace_artifacts := False,
         zs_hosted_runs := False\<rparr>\<rparr>"

definition forget_requests :: "inboxes \<Rightarrow> inboxes" where
  "forget_requests b =
     b\<lparr>bx_chat := chat_unavailable ''chat connection lost; local controls remain available'' (bx_chat b),
       bx_events := plane_unavailable ''control-plane connection lost; local controls remain available'' (bx_events b)\<rparr>"

definition flag_motion_feedforward :: string where "flag_motion_feedforward = ''waddle.v0.motion.feedforward''"


subsection \<open>Messages from the plane\<close>

definition deliver :: "session_event list \<Rightarrow> ack_group option \<Rightarrow> delivery" where
  "deliver evs ack = \<lparr>dl_events = evs, dl_ack = ack\<rparr>"

text \<open>A claim directive: GRANT is two events with one acknowledgement.\<close>

definition forward_claim :: "bool \<Rightarrow> mono_ns \<Rightarrow> episode_id \<Rightarrow> claim_directive \<Rightarrow> delivery list" where
  "forward_claim acks t successor d =
     (case cd_claim d of
        None \<Rightarrow> []
      | Some c \<Rightarrow>
          (let i = pc_claim_id c; actor = directive_actor (pc_actor c); ack = ack_group_for acks (cd_directive_id d) in
           if cd_kind d = 1
           then [deliver [ClaimGranted i (pc_source_name c) actor (pc_self_initiated c) t, Engage i t] (ack 2)]
           else if cd_kind d = 2 then [deliver [Release i t] (ack 1)]
           else if cd_kind d = 3 then [deliver [Retake i (a_kind actor) successor t] (ack 1)]
           else []))"

definition forward_episode :: "bool \<Rightarrow> mono_ns \<Rightarrow> episode_directive \<Rightarrow> delivery list" where
  "forward_episode acks t d =
     (let outcome = (case terminal_outcome_from_pb (ed_outcome d) of Inl e \<Rightarrow> Abort | Inr x \<Rightarrow> x)
      in [deliver [Terminate outcome (ed_reason d) t] (ack_group_for acks (ed_directive_id d) 1)])"

definition forward_reset_window :: "bool \<Rightarrow> mono_ns \<Rightarrow> reset_window_directive \<Rightarrow> delivery list" where
  "forward_reset_window acks t d =
     (case wd_claim d of
        None \<Rightarrow> []
      | Some c \<Rightarrow>
          (let i = pc_claim_id c; ack = ack_group_for acks (wd_directive_id d) in
           if wd_kind d = 1
           then [deliver [ClaimGranted i (pc_source_name c) (directive_actor (pc_actor c)) (pc_self_initiated c) t,
                          ResetWindowEngage i t] (ack 2)]
           else if wd_kind d = 2
           then (case wd_result d of
                   None \<Rightarrow> []
                 | Some r \<Rightarrow> [deliver [ResetWindowComplete i (zr_ok r) (zr_verified r) t] (ack 1)])
           else if wd_kind d = 3 then [deliver [ResetWindowComplete i False None t] (ack 1)]
           else []))"

definition forward_agent_update ::
  "bool \<Rightarrow> mono_ns \<Rightarrow> episode_id option \<Rightarrow> agent_task_update \<Rightarrow> plane_status \<Rightarrow> delivery list \<times> plane_status" where
  "forward_agent_update acks t current u z =
     (let kind = agent_task_kind_from_pb (au_kind u) in
      (if kind = AT_Denied \<and> current = Some (au_episode_id u)
       then [deliver [AgentTaskDenied (au_detail u) t] (ack_group_for acks (au_directive_id u) 1)] else [],
       z\<lparr>zs_agent_task := Some \<lparr>as_episode_id = au_episode_id u, as_kind = kind, as_detail = au_detail u,
            as_recording_ref = au_recording_ref u\<rparr>\<rparr>))"

text \<open>A grant change names a known verb; every status but DEMOTED and REVOKED reads as ACTIVE.\<close>

definition grant_status_of_change :: "int \<Rightarrow> grant_status" where
  "grant_status_of_change v = (if v = 2 then GS_Demoted else if v = 3 then GS_Revoked else GS_Active)"

definition grant_change_of :: "grant_status_change \<Rightarrow> grant_change_directive option" where
  "grant_change_of c =
     (case verb_from_pb (sc_verb c) of
        Inl e \<Rightarrow> None
      | Inr v \<Rightarrow> Some \<lparr>gc_verb = v, gc_to = grant_status_of_change (sc_to c), gc_reason = sc_reason c\<rparr>)"

definition forward_heartbeat_ack :: "mono_ns \<Rightarrow> grant_status_change list \<Rightarrow> delivery list" where
  "forward_heartbeat_ack t cs =
     (let changes = List.map_filter grant_change_of cs
      in if changes = [] then [] else [deliver [HeartbeatAck changes t] None])"

definition forward_reset_progress :: "mono_ns \<Rightarrow> reset_progress \<Rightarrow> plane_status \<Rightarrow> delivery list \<times> plane_status" where
  "forward_reset_progress t g z =
     (let phase = reset_progress_phase_from_pb (rp_phase g) in
      (case rp_result g of
         None \<Rightarrow> []
       | Some r \<Rightarrow> if phase = RP_Done then [deliver [ResetResult (zr_ok r) (zr_verified r) t] None] else [],
       z\<lparr>zs_reset_progress := Some \<lparr>rs_phase = phase, rs_strategy = rp_strategy g, rs_detail = rp_detail g\<rparr>\<rparr>))"

text \<open>An intervention chunk is admitted only under a claim, its \<open>part\<close> and velocity fields
  as this connection negotiated them.\<close>

definition forward_chunk :: "pump_config \<Rightarrow> pump_view \<Rightarrow> plane_status \<Rightarrow> pb_action_chunk \<Rightarrow> delivery list \<times> inboxes" where
  "forward_chunk cfg v z ck =
     (let b = vw_boxes v in
      if \<not> vw_claim_active v then ([], b)
      else
        (let (evs, s) = intake_intervention_chunk (pf_ring_cap cfg) (pf_space cfg) (part_policy_for (zs_parts z))
               (velocity_feedforward_policy_for (zs_motion_feedforward z)) (vw_at v) (vw_claim_generation v) ck (bx_intake b)
         in (map (\<lambda>ev. deliver [ev] None) evs, b\<lparr>bx_intake := s\<rparr>)))"

definition forward_gate_msg ::
  "pump_config \<Rightarrow> pump_view \<Rightarrow> gate_server_msg \<Rightarrow> plane_pump \<Rightarrow> pump_output \<times> plane_pump" where
  "forward_gate_msg cfg v m p =
     (let quiet = pump_silent (vw_boxes v); b = vw_boxes v; z = pu_status p in
      case m of
        GS_Claim d \<Rightarrow> (quiet\<lparr>po_delivered := forward_claim (pu_acks p) (vw_at v) (vw_successor v) d\<rparr>, p)
      | GS_Episode d \<Rightarrow> (quiet\<lparr>po_delivered := forward_episode (pu_acks p) (vw_at v) d\<rparr>, p)
      | GS_ResetWindow d \<Rightarrow> (quiet\<lparr>po_delivered := forward_reset_window (pu_acks p) (vw_at v) d\<rparr>, p)
      | GS_InterventionChunk ck \<Rightarrow>
          (let (ds, b) = forward_chunk cfg v z ck in (quiet\<lparr>po_delivered := ds, po_boxes := b\<rparr>, p))
      | GS_AgentUpdate u \<Rightarrow>
          (let (ds, z) = forward_agent_update (pu_acks p) (vw_at v) (vw_episode_id v) u z
           in (quiet\<lparr>po_delivered := ds\<rparr>, p\<lparr>pu_status := z\<rparr>))
      | GS_ChatEvent e \<Rightarrow> (quiet\<lparr>po_boxes := b\<lparr>bx_chat := chat_push e (bx_chat b)\<rparr>\<rparr>, p)
      | GS_TaskSessionEvent e \<Rightarrow> (quiet\<lparr>po_boxes := b\<lparr>bx_events := push_task e (bx_events b)\<rparr>\<rparr>, p)
      | GS_CalibrationUpdate u \<Rightarrow> (quiet\<lparr>po_boxes := b\<lparr>bx_events := push_calibration u (bx_events b)\<rparr>\<rparr>, p)
      | GS_CalibrationMeasurementRequest q \<Rightarrow>
          (if zs_calibration z
           then (quiet\<lparr>po_boxes := b\<lparr>bx_events := push_calibration_request q (bx_events b)\<rparr>\<rparr>, p) else (quiet, p))
      | GS_WorkspaceArtifactReady a \<Rightarrow> (quiet\<lparr>po_boxes := b\<lparr>bx_events := push_artifact a (bx_events b)\<rparr>\<rparr>, p)
      | GS_HostedRunRequest q \<Rightarrow>
          (if pu_hosted p then (quiet\<lparr>po_hosted := [HC_Request (pu_generation p) q]\<rparr>, p) else (quiet, p))
      | GS_Verb \<Rightarrow> (quiet, p)
      | GS_GrantChange \<Rightarrow> (quiet, p))"

definition forward_server_msg ::
  "pump_config \<Rightarrow> pump_view \<Rightarrow> plane_server_msg \<Rightarrow> plane_pump \<Rightarrow> pump_output \<times> plane_pump" where
  "forward_server_msg cfg v m p =
     (let quiet = pump_silent (vw_boxes v) in
      case m of
        PS_Gate None \<Rightarrow> (quiet, p)
      | PS_Gate (Some g) \<Rightarrow> forward_gate_msg cfg v g p
      | PS_HeartbeatAck cs \<Rightarrow> (quiet\<lparr>po_delivered := forward_heartbeat_ack (vw_at v) cs\<rparr>, p)
      | PS_ResetProgress g \<Rightarrow>
          (let (ds, z) = forward_reset_progress (vw_at v) g (pu_status p)
           in (quiet\<lparr>po_delivered := ds\<rparr>, p\<lparr>pu_status := z\<rparr>))
      | PS_Other \<Rightarrow> (quiet, p))"

subsection \<open>Connections\<close>

definition connector_refused :: "pump_config \<Rightarrow> registration \<Rightarrow> bool" where
  "connector_refused cfg r \<longleftrightarrow> pf_binding_required cfg \<and> flag_connector_binding \<notin> set (rg_flags r)"

text \<open>The plane counts as lost once per loss, whatever reports it first.\<close>

definition lose_plane :: "mono_ns \<Rightarrow> plane_pump \<Rightarrow> delivery list \<times> plane_pump" where
  "lose_plane t p =
     (if pu_was_connected p then ([deliver [PartitionStart t] None], p\<lparr>pu_was_connected := False\<rparr>) else ([], p))"

definition refuse_connector :: "registration \<Rightarrow> plane_pump \<Rightarrow> plane_pump" where
  "refuse_connector r p =
     (let p = forget_flags (p\<lparr>pu_session := None\<rparr>)
      in p\<lparr>pu_status := (pu_status p)\<lparr>zs_binding_refused := True,
             zs_detail := bounded_registration_detail (rg_detail r), zs_error_code := None\<rparr>\<rparr>)"

definition accept_registered :: "mono_ns \<Rightarrow> registration \<Rightarrow> plane_pump \<Rightarrow> plane_pump" where
  "accept_registered t r p =
     (let has = (\<lambda>f. f \<in> set (rg_flags r)) in
      p\<lparr>pu_session := Some (rg_session_id r), pu_next_heartbeat := t, pu_acks := has flag_acks,
        pu_hosted := has flag_hosted_runs,
        pu_status := (pu_status p)\<lparr>zs_registered := True, zs_binding := has flag_connector_binding,
          zs_binding_refused := False, zs_detail := bounded_registration_detail (rg_detail r),
          zs_error_code := None, zs_stills := has flag_stills, zs_parts := has flag_parts,
          zs_motion_feedforward := has flag_motion_feedforward, zs_chat := has flag_chat,
          zs_task_sessions := has flag_task_sessions, zs_calibration := has flag_calibration,
          zs_workspace_artifacts := has flag_workspace_artifacts, zs_hosted_runs := has flag_hosted_runs\<rparr>\<rparr>)"

definition on_registered :: "pump_config \<Rightarrow> pump_view \<Rightarrow> registration \<Rightarrow> plane_pump \<Rightarrow> pump_output \<times> plane_pump" where
  "on_registered cfg v r p =
     (let quiet = pump_silent (vw_boxes v) in
      if connector_refused cfg r
      then (let (ds, p) = lose_plane (vw_at v) (refuse_connector r p)
            in (quiet\<lparr>po_delivered := ds, po_boxes := forget_requests (vw_boxes v)\<rparr>, p))
      else (let p = accept_registered (vw_at v) r p
            in if pu_was_connected p then (quiet, p)
               else (quiet\<lparr>po_delivered := [deliver [PartitionEnd (vw_at v)] None]\<rparr>, p\<lparr>pu_was_connected := True\<rparr>)))"

definition on_plane_event :: "pump_config \<Rightarrow> pump_view \<Rightarrow> pump_event \<Rightarrow> plane_pump \<Rightarrow> pump_output \<times> plane_pump" where
  "on_plane_event cfg v e p =
     (let quiet = pump_silent (vw_boxes v); forgotten = quiet\<lparr>po_boxes := forget_requests (vw_boxes v)\<rparr> in
      case e of
        PM_Connected \<Rightarrow>
          (forgotten\<lparr>po_hosted := (if pu_generation p \<noteq> 0 then [HC_ConnectionLost (pu_generation p)] else [])\<rparr>,
           forget_flags (p\<lparr>pu_generation := u64_saturating_add (pu_generation p) 1, pu_session := None\<rparr>))
      | PM_Registered r \<Rightarrow> on_registered cfg v r p
      | PM_RegistrationRejected code detail \<Rightarrow>
          (let p = forget_flags (p\<lparr>pu_session := None\<rparr>);
               p = p\<lparr>pu_status := (pu_status p)\<lparr>zs_error_code := Some code,
                       zs_detail := bounded_registration_detail detail\<rparr>\<rparr>;
               (ds, p) = lose_plane (vw_at v) p
           in (forgotten\<lparr>po_delivered := ds\<rparr>, p))
      | PM_Disconnected \<Rightarrow>
          (let (ds, p) = lose_plane (vw_at v) (forget_flags (p\<lparr>pu_session := None\<rparr>))
           in (forgotten\<lparr>po_hosted := [HC_ConnectionLost (pu_generation p)], po_delivered := ds\<rparr>, p))
      | PM_BufferOverflowed n \<Rightarrow> (quiet, p)
      | PM_Server m \<Rightarrow> forward_server_msg cfg v m p)"

subsection \<open>The loop\<close>

text \<open>The heartbeat of a pass: at most one, once it is due.\<close>

definition beat :: "mono_ns \<Rightarrow> plane_pump \<Rightarrow> plane_out list \<times> plane_pump" where
  "beat now p =
     (case pu_session p of
        None \<Rightarrow> ([], p)
      | Some i \<Rightarrow>
          if pu_next_heartbeat p \<le> now
          then ([PO_Ping i now], p\<lparr>pu_next_heartbeat := i64_sat (now + control_heartbeat_interval_ns)\<rparr>)
          else ([], p))"

definition pump_pass :: "pump_config \<Rightarrow> pump_view \<Rightarrow> plane_pump \<Rightarrow> pump_output \<times> plane_pump \<times> bool" where
  "pump_pass cfg v p =
     (let answers = map PO_Hosted (forward_hosted_run_results (pu_generation p) (pu_hosted p) (vw_results v));
          quiet = pump_silent (vw_boxes v)
      in if vw_shutdown v then (quiet\<lparr>po_sent := answers\<rparr>, p, False)
         else
           (let (pings, p) = beat (vw_heartbeat_at v) p;
                (out, p) = (case vw_event v of None \<Rightarrow> (quiet, p) | Some e \<Rightarrow> on_plane_event cfg v e p)
            in (out\<lparr>po_sent := answers @ pings\<rparr>, p, True)))"

fun pump_run :: "pump_config \<Rightarrow> pump_view list \<Rightarrow> plane_pump \<Rightarrow> pump_output list \<times> plane_pump" where
  "pump_run cfg [] p = ([], p)"
| "pump_run cfg (v # vs) p =
     (let (out, p, go) = pump_pass cfg v p
      in if go then (let (outs, p) = pump_run cfg vs p in (out # outs, p)) else ([out], p))"


subsection \<open>A small plane\<close>

definition demo_pump_config :: pump_config where
  "demo_pump_config = \<lparr>pf_binding_required = False, pf_space = demo_space, pf_ring_cap = 8\<rparr>"

definition demo_boxes :: inboxes where
  "demo_boxes = \<lparr>bx_chat = chat_new, bx_events = plane_events_new, bx_intake = (chunk_intake_new, [])\<rparr>"

definition demo_pump_view :: "mono_ns \<Rightarrow> pump_event option \<Rightarrow> pump_view" where
  "demo_pump_view t e =
     \<lparr>vw_results = [], vw_shutdown = False, vw_heartbeat_at = t, vw_event = e, vw_at = t, vw_claim_active = False,
      vw_claim_generation = 0, vw_episode_id = None, vw_successor = ''ep-2'', vw_boxes = demo_boxes\<rparr>"

definition demo_registration :: registration where
  "demo_registration = \<lparr>rg_session_id = ''s1'', rg_flags = [flag_acks, flag_hosted_runs, flag_parts], rg_detail = []\<rparr>"

definition demo_grant :: pump_event where
  "demo_grant = PM_Server (PS_Gate (Some (GS_Claim \<lparr>cd_kind = 1, cd_claim = Some \<lparr>pc_claim_id = ''c1'', pc_episode_id = ''e1'',
     pc_actor = None, pc_source_name = ''teleop'', pc_self_initiated = False\<rparr>, cd_directive_id = Some ''d1''\<rparr>)))"

definition demo_hosted_event :: pump_event where
  "demo_hosted_event = PM_Server (PS_Gate (Some (GS_HostedRunRequest \<lparr>hq_request_id = ''r1'', hq_task_metadata = [], hq_timeout_ns = 1000\<rparr>)))"

subsection \<open>The pump read off its history\<close>

text \<open>The events a run handles: those of the passes before the shutdown.\<close>

definition handled :: "pump_view list \<Rightarrow> pump_event list" where
  "handled vs = List.map_filter vw_event (takeWhile (\<lambda>v. \<not> vw_shutdown v) vs)"

text \<open>The registration that stands after an event: a connection accepted it and has not ended.\<close>

fun stands_after :: "pump_config \<Rightarrow> pump_event \<Rightarrow> registration option \<Rightarrow> registration option" where
  "stands_after cfg (PM_Registered r) s = (if connector_refused cfg r then None else Some r)"
| "stands_after cfg PM_Connected s = None"
| "stands_after cfg (PM_RegistrationRejected c d) s = None"
| "stands_after cfg PM_Disconnected s = None"
| "stands_after cfg (PM_BufferOverflowed n) s = s"
| "stands_after cfg (PM_Server m) s = s"

text \<open>Whether the plane counts as reachable: a fresh connection says nothing yet.\<close>

fun reachable_after :: "pump_config \<Rightarrow> pump_event \<Rightarrow> bool \<Rightarrow> bool" where
  "reachable_after cfg (PM_Registered r) b = (\<not> connector_refused cfg r)"
| "reachable_after cfg (PM_RegistrationRejected c d) b = False"
| "reachable_after cfg PM_Disconnected b = False"
| "reachable_after cfg e b = b"

definition accepts :: "registration option \<Rightarrow> string \<Rightarrow> bool" where
  "accepts s f \<longleftrightarrow> (case s of None \<Rightarrow> False | Some r \<Rightarrow> f \<in> set (rg_flags r))"

text \<open>Everything the pump and the mirror say about the connection, by the registration that stands.\<close>

definition shows_registration :: "registration option \<Rightarrow> plane_pump \<Rightarrow> bool" where
  "shows_registration s p \<longleftrightarrow>
     pu_session p = map_option rg_session_id s \<and> zs_registered (pu_status p) = (s \<noteq> None) \<and>
     pu_acks p = accepts s flag_acks \<and> pu_hosted p = accepts s flag_hosted_runs \<and>
     zs_binding (pu_status p) = accepts s flag_connector_binding \<and>
     zs_stills (pu_status p) = accepts s flag_stills \<and> zs_parts (pu_status p) = accepts s flag_parts \<and>
     zs_motion_feedforward (pu_status p) = accepts s flag_motion_feedforward \<and>
     zs_chat (pu_status p) = accepts s flag_chat \<and>
     zs_task_sessions (pu_status p) = accepts s flag_task_sessions \<and>
     zs_calibration (pu_status p) = accepts s flag_calibration \<and>
     zs_workspace_artifacts (pu_status p) = accepts s flag_workspace_artifacts \<and>
     zs_hosted_runs (pu_status p) = accepts s flag_hosted_runs"

lemmas pump_defs = on_registered_def refuse_connector_def accept_registered_def forget_flags_def lose_plane_def Let_def

lemma accepts_simps [simp]: "accepts None f = False" "accepts (Some r) f = (f \<in> set (rg_flags r))"
  by (simp_all add: accepts_def)

text \<open>A message of the plane changes at most the two observational fields of the mirror.\<close>

definition unobserved :: "plane_pump \<Rightarrow> plane_pump" where
  "unobserved p = p\<lparr>pu_status := (pu_status p)\<lparr>zs_agent_task := None, zs_reset_progress := None\<rparr>\<rparr>"

lemma unobserved_reads:
  assumes "unobserved p' = unobserved p"
  shows "shows_registration s p' = shows_registration s p" "pu_was_connected p' = pu_was_connected p"
    "pu_generation p' = pu_generation p" "pu_next_heartbeat p' = pu_next_heartbeat p" "pu_session p' = pu_session p"
    "pu_hosted p' = pu_hosted p" "pu_acks p' = pu_acks p"
proof -
  have "shows_registration s q = shows_registration s (unobserved q)" for q
    by (simp add: shows_registration_def unobserved_def)
  then show "shows_registration s p' = shows_registration s p" by (metis assms)
  have "f q = f (unobserved q)"
    if "f = pu_was_connected \<or> f = pu_hosted \<or> f = pu_acks" for f q using that by (auto simp: unobserved_def)
  then show "pu_was_connected p' = pu_was_connected p" "pu_hosted p' = pu_hosted p" "pu_acks p' = pu_acks p"
    by (metis assms)+
  have "pu_generation q = pu_generation (unobserved q)" "pu_next_heartbeat q = pu_next_heartbeat (unobserved q)"
    "pu_session q = pu_session (unobserved q)" for q by (simp_all add: unobserved_def)
  then show "pu_generation p' = pu_generation p" "pu_next_heartbeat p' = pu_next_heartbeat p" "pu_session p' = pu_session p"
    by (metis assms)+
qed

lemma gate_msg_unobserved: "unobserved (snd (forward_gate_msg cfg v m p)) = unobserved p"
  by (cases m) (simp_all add: forward_gate_msg_def forward_agent_update_def Let_def case_prod_unfold unobserved_def)

lemma server_msg_unobserved: "unobserved (snd (forward_server_msg cfg v m p)) = unobserved p"
proof (cases m)
  case (PS_Gate g)
  then show ?thesis by (cases g) (simp_all add: forward_server_msg_def gate_msg_unobserved)
qed (simp_all add: forward_server_msg_def forward_reset_progress_def Let_def unobserved_def)

lemmas server_msg_keeps = unobserved_reads [OF server_msg_unobserved]

lemma on_plane_event_shows:
  assumes "shows_registration s p"
  shows "shows_registration (stands_after cfg e s) (snd (on_plane_event cfg v e p))"
proof (cases e)
  case (PM_Server m)
  with assms show ?thesis by (simp add: on_plane_event_def server_msg_keeps)
qed (use assms in \<open>auto simp: on_plane_event_def pump_defs shows_registration_def\<close>)

lemma on_plane_event_reachable:
  "pu_was_connected (snd (on_plane_event cfg v e p)) = reachable_after cfg e (pu_was_connected p)"
proof (cases e)
  case (PM_Server m)
  then show ?thesis by (simp add: on_plane_event_def server_msg_keeps)
qed (auto simp: on_plane_event_def pump_defs)

lemma beat_keeps [simp]:
  "shows_registration s (snd (beat now p)) = shows_registration s p"
  "pu_was_connected (snd (beat now p)) = pu_was_connected p" "pu_generation (snd (beat now p)) = pu_generation p"
  "pu_hosted (snd (beat now p)) = pu_hosted p" "pu_acks (snd (beat now p)) = pu_acks p"
  "pu_session (snd (beat now p)) = pu_session p"
  by (auto simp: beat_def shows_registration_def split: option.split)

lemma pass_cases:
  assumes "pump_pass cfg v p = (out, p', go)"
  obtains (down) "vw_shutdown v" "p' = p" "\<not> go" "po_delivered out = []" "po_hosted out = []"
  | (idle) "\<not> vw_shutdown v" "vw_event v = None" "p' = snd (beat (vw_heartbeat_at v) p)" go "po_delivered out = []" "po_hosted out = []"
  | (event) e where "\<not> vw_shutdown v" "vw_event v = Some e"
      "p' = snd (on_plane_event cfg v e (snd (beat (vw_heartbeat_at v) p)))" go
      "po_delivered out = po_delivered (fst (on_plane_event cfg v e (snd (beat (vw_heartbeat_at v) p))))"
      "po_hosted out = po_hosted (fst (on_plane_event cfg v e (snd (beat (vw_heartbeat_at v) p))))"
  using assms
  by (cases "vw_event v") (auto simp: pump_pass_def Let_def case_prod_unfold pump_silent_def split: if_splits)

lemma handled_one:
  "handled [v] = (if vw_shutdown v then [] else case vw_event v of None \<Rightarrow> [] | Some e \<Rightarrow> [e])"
  by (cases "vw_event v") (simp_all add: handled_def map_filter_simps)

lemma pass_history:
  assumes "pump_pass cfg v p = (out, p', go)"
  shows "go = (\<not> vw_shutdown v) \<and>
    (shows_registration s p \<longrightarrow> shows_registration (fold (stands_after cfg) (handled [v]) s) p') \<and>
    pu_was_connected p' = fold (reachable_after cfg) (handled [v]) (pu_was_connected p)"
  using assms
  by (cases rule: pass_cases) (simp_all add: handled_one on_plane_event_shows on_plane_event_reachable)

lemma handled_simps [simp]:
  "handled [] = []" "vw_shutdown v \<Longrightarrow> handled (v # vs) = []"
  by (simp_all add: handled_def map_filter_simps)

lemma handled_go: "\<not> vw_shutdown v \<Longrightarrow> handled (v # vs) = handled [v] @ handled vs"
  by (cases "vw_event v") (simp_all add: handled_def map_filter_simps)

lemma run_cons:
  assumes "pump_run cfg (v # vs) p = (outs, p')"
  obtains (stop) out where "vw_shutdown v" "pump_pass cfg v p = (out, p', False)" "outs = [out]"
  | (go) out p1 outs' where "\<not> vw_shutdown v" "pump_pass cfg v p = (out, p1, True)" "pump_run cfg vs p1 = (outs', p')" "outs = out # outs'"
proof -
  obtain out p1 g where one: "pump_pass cfg v p = (out, p1, g)" by (metis prod.exhaust)
  have g: "g = (\<not> vw_shutdown v)" using pass_history [OF one] by blast
  show ?thesis
  proof (cases g)
    case True
    obtain outs' q where rest: "pump_run cfg vs p1 = (outs', q)" by (metis prod.exhaust)
    with assms one True have "outs = out # outs'" "p' = q" by simp_all
    with go [of out p1 outs'] True g one rest show ?thesis by simp
  next
    case False
    with assms one have "outs = [out]" "p' = p1" by simp_all
    with stop [of out] False g one show ?thesis by simp
  qed
qed

lemma run_history:
  "pump_run cfg vs p = (outs, p') \<Longrightarrow>
   (shows_registration s p \<longrightarrow> shows_registration (fold (stands_after cfg) (handled vs) s) p') \<and>
   pu_was_connected p' = fold (reachable_after cfg) (handled vs) (pu_was_connected p)"
proof (induction vs arbitrary: p outs s)
  case (Cons v vs)
  from Cons.prems show ?case
  proof (cases rule: run_cons)
    case (stop out)
    from pass_history [OF stop(2), of s] stop(1) show ?thesis by simp
  next
    case (go out p1 outs')
    from pass_history [OF go(2), of s] Cons.IH [OF go(3)] show ?thesis
      by (simp add: handled_go [OF go(1), of vs])
  qed
qed simp

text \<open>What the pump and the mirror say about the plane is what the current connection accepted: after
  any run, each negotiated feature, the heartbeat session and the acknowledgement and hosted-run
  switches are those of the registration that stands, and all are off when none does.\<close>

theorem flags_follow_the_connection:
  assumes "pump_run cfg vs plane_pump_new = (outs, p)"
  shows "shows_registration (fold (stands_after cfg) (handled vs) None) p"
proof -
  have "shows_registration None plane_pump_new"
    by (simp add: shows_registration_def plane_pump_new_def plane_status_new_def)
  with run_history [OF assms] show ?thesis by blast
qed

theorem flags_follow_the_connection_witness:
  "\<exists>outs p. pump_run demo_pump_config [demo_pump_view 1 (Some PM_Connected), demo_pump_view 2 (Some (PM_Registered demo_registration))]
      plane_pump_new = (outs, p) \<and> zs_parts (pu_status p) \<and> \<not> zs_stills (pu_status p)"
proof -
  let ?vs = "[demo_pump_view 1 (Some PM_Connected), demo_pump_view 2 (Some (PM_Registered demo_registration))]"
  obtain outs p where run: "pump_run demo_pump_config ?vs plane_pump_new = (outs, p)" by (metis prod.exhaust)
  have "handled ?vs = [PM_Connected, PM_Registered demo_registration]"
    by (simp add: handled_def demo_pump_view_def map_filter_simps)
  with flags_follow_the_connection [OF run] have "shows_registration (Some demo_registration) p"
    by (simp add: connector_refused_def demo_pump_config_def)
  then have "zs_parts (pu_status p) \<and> \<not> zs_stills (pu_status p)"
    by (simp add: shows_registration_def demo_registration_def flag_stills_def flag_acks_def flag_hosted_runs_def flag_parts_def)
  with run show ?thesis by blast
qed


subsection \<open>Partitions\<close>

fun mark_of :: "session_event \<Rightarrow> bool option" where
  "mark_of (PartitionStart t) = Some True"
| "mark_of (PartitionEnd t) = Some False"
| "mark_of ev = None"

definition marks :: "pump_output list \<Rightarrow> bool list" where
  "marks outs = List.map_filter mark_of (concat (map dl_events (concat (map po_delivered outs))))"

text \<open>The reference: a mark at each change of reachability, saying whether the plane is lost.\<close>

fun plane_edges :: "pump_config \<Rightarrow> bool \<Rightarrow> pump_event list \<Rightarrow> bool list" where
  "plane_edges cfg b [] = []"
| "plane_edges cfg b (e # es) =
     (let now = reachable_after cfg e b in (if now = b then [] else [\<not> now]) @ plane_edges cfg now es)"

text \<open>What a delivery promises: no partition event, and a fresh group that counts its events.\<close>

definition relays :: "bool \<Rightarrow> delivery \<Rightarrow> bool" where
  "relays acks d \<longleftrightarrow> list_all (\<lambda>ev. mark_of ev = None) (dl_events d) \<and>
     (\<forall>g. dl_ack d = Some g \<longrightarrow> acks \<and>
        (\<exists>i. g = ack_group_new i (of_nat (length (dl_events d)))) \<and> dl_events d \<noteq> [] \<and> length (dl_events d) \<le> 2)"

lemma relays_deliver:
  "relays acks (deliver [ev] (ack_group_for acks i 1)) = (mark_of ev = None)"
  "relays acks (deliver [ev, ev'] (ack_group_for acks i 2)) = (mark_of ev = None \<and> mark_of ev' = None)"
  "relays acks (deliver [ev] None) = (mark_of ev = None)"
  by (auto simp: relays_def deliver_def ack_group_for_def)

lemma gate_msg_relays: "list_all (relays (pu_acks p)) (po_delivered (fst (forward_gate_msg cfg v m p)))"
proof (cases m)
  case (GS_Claim d)
  then show ?thesis
    by (simp add: forward_gate_msg_def forward_claim_def Let_def relays_deliver split: option.split)
next
  case (GS_InterventionChunk ck)
  then show ?thesis
    by (cases "bx_intake (vw_boxes v)")
       (simp add: forward_gate_msg_def forward_chunk_def Let_def case_prod_unfold pump_silent_def intake_reports [where l = latch_new]
          rejected_def relays_deliver split: option.split)
next
  case (GS_ResetWindow d)
  then show ?thesis
    by (simp add: forward_gate_msg_def forward_reset_window_def Let_def relays_deliver split: option.split)
qed (simp_all add: forward_gate_msg_def forward_episode_def forward_agent_update_def Let_def pump_silent_def
    relays_deliver)

lemma server_msg_relays: "list_all (relays (pu_acks p)) (po_delivered (fst (forward_server_msg cfg v m p)))"
proof (cases m)
  case (PS_Gate g)
  then show ?thesis by (cases g) (simp_all add: forward_server_msg_def gate_msg_relays pump_silent_def)
qed (simp_all add: forward_server_msg_def forward_heartbeat_ack_def forward_reset_progress_def pump_silent_def Let_def
    relays_deliver split: option.split)

lemma relays_no_marks:
  assumes "list_all (relays acks) ds"
  shows "List.map_filter mark_of (concat (map dl_events ds)) = []"
proof -
  have "mark_of ev = None" if "ev \<in> set (concat (map dl_events ds))" for ev
    using assms that by (auto simp: relays_def list_all_iff)
  then show ?thesis by (induction "concat (map dl_events ds)") (simp_all add: map_filter_simps map_filter_def)
qed

lemma marks_cons: "marks [] = []" "marks (out # outs) = marks [out] @ marks outs"
  by (simp_all add: marks_def map_filter_def)

lemma marks_quiet: "po_delivered out = [] \<Longrightarrow> marks [out] = []"
  by (simp add: marks_def map_filter_simps)

lemma on_plane_event_marks:
  "List.map_filter mark_of (concat (map dl_events (po_delivered (fst (on_plane_event cfg v e p))))) =
     plane_edges cfg (pu_was_connected p) [e]"
proof (cases e)
  case (PM_Server m)
  then show ?thesis
    by (simp add: on_plane_event_def relays_no_marks [OF server_msg_relays])
qed (auto simp: on_plane_event_def pump_defs pump_silent_def deliver_def map_filter_simps)

lemma pass_marks:
  assumes "pump_pass cfg v p = (out, p', go)"
  shows "marks [out] = plane_edges cfg (pu_was_connected p) (handled [v])"
  using assms
proof (cases rule: pass_cases)
  case (event e)
  then show ?thesis using on_plane_event_marks [of cfg v e "snd (beat (vw_heartbeat_at v) p)"]
    by (simp add: handled_one marks_def)
qed (simp_all add: handled_one marks_quiet)

lemma plane_edges_append:
  "plane_edges cfg b (es @ es') = plane_edges cfg b es @ plane_edges cfg (fold (reachable_after cfg) es b) es'"
  by (induction es arbitrary: b) (simp_all add: Let_def)

lemma run_marks: "pump_run cfg vs p = (outs, p') \<Longrightarrow> marks outs = plane_edges cfg (pu_was_connected p) (handled vs)"
proof (induction vs arbitrary: p outs)
  case (Cons v vs)
  from Cons.prems show ?case
  proof (cases rule: run_cons)
    case (stop out)
    with pass_marks [OF stop(2)] show ?thesis by simp
  next
    case (go out p1 outs')
    have "pu_was_connected p1 = fold (reachable_after cfg) (handled [v]) (pu_was_connected p)"
      using pass_history [OF go(2)] by blast
    with pass_marks [OF go(2)] Cons.IH [OF go(3)] show ?thesis
      by (simp add: handled_go [OF go(1), of vs] marks_cons(2) [of out outs'] plane_edges_append go(4))
  qed
qed (simp add: marks_def map_filter_simps)

lemma edges_alternate:
  "plane_edges cfg b es = map (\<lambda>k. even k = b) [0..<length (plane_edges cfg b es)] \<and>
   fold (reachable_after cfg) es b = (even (length (plane_edges cfg b es)) = b)"
proof (induction es arbitrary: b)
  case (Cons e es)
  let ?b = "reachable_after cfg e b"
  show ?case
  proof (cases "?b = b")
    case True
    with Cons.IH [of b] show ?thesis by simp
  next
    case False
    let ?xs = "plane_edges cfg ?b es"
    have "map (\<lambda>k. even k = b) [0..<Suc (length ?xs)] = b # map (\<lambda>k. even (Suc k) = b) [0..<length ?xs]"
      by (simp add: upt_conv_Cons map_Suc_upt [symmetric] del: upt_Suc)
    also have "map (\<lambda>k. even (Suc k) = b) [0..<length ?xs] = map (\<lambda>k. even k = ?b) [0..<length ?xs]"
      using False by auto
    finally show ?thesis using Cons.IH [of ?b] False by auto
  qed
qed simp

text \<open>C33. A partition is told once and ended once: the partition events a run injects are exactly the
  changes of the plane's reachability, a loss first and then in turn, where only an accepted
  registration ends one, and a lost, refused or rejected connection starts one.\<close>

theorem partitions_alternate:
  assumes "pump_run cfg vs plane_pump_new = (outs, p)"
  shows "marks outs = plane_edges cfg True (handled vs) \<and>
    marks outs = map even [0..<length (marks outs)] \<and> pu_was_connected p = even (length (marks outs))"
proof -
  have m: "marks outs = plane_edges cfg True (handled vs)"
    using run_marks [OF assms] by (simp add: plane_pump_new_def)
  moreover have "pu_was_connected p = fold (reachable_after cfg) (handled vs) True"
    using run_history [OF assms] by (simp add: plane_pump_new_def)
  ultimately show ?thesis using edges_alternate [of cfg True "handled vs"] by simp
qed

theorem partitions_alternate_witness:
  "marks (fst (pump_run demo_pump_config
      [demo_pump_view 1 (Some PM_Disconnected), demo_pump_view 2 (Some PM_Connected),
       demo_pump_view 3 (Some (PM_Registered demo_registration)), demo_pump_view 4 (Some (PM_RegistrationRejected ''c'' ''d'')),
       demo_pump_view 5 (Some PM_Disconnected)] plane_pump_new)) = [True, False, True]"
proof -
  let ?cfg = "demo_pump_config"
  let ?vs = "[demo_pump_view 1 (Some PM_Disconnected), demo_pump_view 2 (Some PM_Connected),
       demo_pump_view 3 (Some (PM_Registered demo_registration)), demo_pump_view 4 (Some (PM_RegistrationRejected ''c'' ''d'')),
       demo_pump_view 5 (Some PM_Disconnected)]"
  obtain outs p where run: "pump_run ?cfg ?vs plane_pump_new = (outs, p)" by (metis prod.exhaust)
  have "handled ?vs = [PM_Disconnected, PM_Connected, PM_Registered demo_registration, PM_RegistrationRejected ''c'' ''d'', PM_Disconnected]"
    by (simp add: handled_def demo_pump_view_def map_filter_simps)
  with partitions_alternate [OF run] have "marks outs = [True, False, True]" by (simp add: connector_refused_def demo_pump_config_def)
  then show ?thesis by (simp only: run fst_conv)
qed

text \<open>C34. A directive is acknowledged once: whenever the pump delivers the events of a directive with an
  acknowledgement group, the connection had negotiated acknowledgements, and whatever the outcomes
  of the events are, the group gives exactly one acknowledgement, when the last of them lands.\<close>

theorem directives_carry_one_acknowledgement:
  assumes "pump_pass cfg v p = (out, p', go)" "d \<in> set (po_delivered out)" "dl_ack d = Some g"
  shows "pu_acks p \<and> (\<forall>outcomes. ack_run outcomes g =
    (if length (dl_events d) \<le> length outcomes
     then [ack_of (ag_directive_id g) (first_rejection (take (length (dl_events d)) outcomes))] else []))"
proof -
  from assms(1) show ?thesis
  proof (cases rule: pass_cases)
    case (event e)
    let ?p = "snd (beat (vw_heartbeat_at v) p)"
    have "relays (pu_acks p) d"
    proof (cases e)
      case (PM_Server m)
      with event assms(2) server_msg_relays [of ?p cfg v m] show ?thesis
        by (auto simp: on_plane_event_def list_all_iff)
    qed (use event assms(2,3) in \<open>auto simp: on_plane_event_def pump_defs pump_silent_def deliver_def split: if_splits\<close>)
    with assms(3) obtain i where g: "pu_acks p" "g = ack_group_new i (of_nat (length (dl_events d)))"
      "dl_events d \<noteq> []" "length (dl_events d) \<le> 2" by (auto simp: relays_def)
    have "length (dl_events d) \<noteq> 0" using g(3) by simp
    then have "length (dl_events d) = 1 \<or> length (dl_events d) = 2" using g(4) by presburger
    then have n: "ag_remaining g \<noteq> 0" "unat (ag_remaining g) = length (dl_events d)" "ag_rejection g = None"
      using g(2) by (auto simp: ack_group_new_def)
    show ?thesis using g(1) ack_run_open [OF n(1)] by (simp add: n)
  qed (use assms(2) in simp_all)
qed

theorem directives_carry_one_acknowledgement_witness:
  "po_delivered (fst (pump_pass demo_pump_config (demo_pump_view 3 (Some demo_grant)) (plane_pump_new\<lparr>pu_acks := True\<rparr>))) =
     [deliver [ClaimGranted ''c1'' ''teleop'' (of_kind AK_Teleoperator) False 3, Engage ''c1'' 3] (Some (ack_group_new ''d1'' 2))] \<and>
   ack_run [Inr (), Inl ''no''] (ack_group_new ''d1'' 2) = [ack_of ''d1'' (Some ''no'')]"
proof -
  let ?evs = "[ClaimGranted ''c1'' ''teleop'' (of_kind AK_Teleoperator) False 3, Engage ''c1'' 3]"
  let ?d = "deliver ?evs (Some (ack_group_new ''d1'' 2))"
  obtain out p' go where pass: "pump_pass demo_pump_config (demo_pump_view 3 (Some demo_grant)) (plane_pump_new\<lparr>pu_acks := True\<rparr>) = (out, p', go)"
    by (metis prod.exhaust)
  have d: "po_delivered out = [?d]"
    using pass by (auto simp: pump_pass_def demo_pump_view_def demo_grant_def on_plane_event_def forward_server_msg_def
        forward_gate_msg_def forward_claim_def beat_def plane_pump_new_def ack_group_for_def directive_actor_def Let_def)
  then have m: "?d \<in> set (po_delivered out)" by simp
  have ack: "dl_ack ?d = Some (ack_group_new ''d1'' 2)" "dl_events ?d = ?evs" "ag_directive_id (ack_group_new ''d1'' 2) = ''d1''"
    by (simp_all add: deliver_def ack_group_new_def)
  from directives_carry_one_acknowledgement [OF pass m ack(1)]
  have "ack_run [Inr (), Inl ''no''] (ack_group_new ''d1'' 2) = [ack_of ''d1'' (Some ''no'')]"
    by (simp add: ack(2,3) first_rejection_def del: ack_run.simps)
  with d show ?thesis by (simp only: pass fst_conv)
qed

text \<open>An episode directive names an episode and what it directs; neither is read: a directive that
  reaches the session late, or of no known kind, terminates whatever episode is open.\<close>

theorem episode_directive_ends_any_episode:
  "forward_episode acks t (d\<lparr>ed_episode_id := i, ed_kind := k\<rparr>) = forward_episode acks t d"
  by (simp add: forward_episode_def)

text \<open>A grant change whose status is unspecified or unknown reads as a promotion.\<close>

theorem unspecified_grant_status_promotes:
  "verb_from_pb v = Inr w \<Longrightarrow>
   grant_change_of \<lparr>sc_verb = v, sc_to = 0, sc_reason = r\<rparr> = Some \<lparr>gc_verb = w, gc_to = GS_Active, gc_reason = r\<rparr>"
  by (simp add: grant_change_of_def grant_status_of_change_def)

subsection \<open>Heartbeats\<close>

fun ping_of :: "plane_out \<Rightarrow> (string \<times> mono_ns) option" where
  "ping_of (PO_Ping i t) = Some (i, t)"
| "ping_of (PO_Hosted h) = None"

definition pings :: "pump_output list \<Rightarrow> (string \<times> mono_ns) list" where
  "pings outs = List.map_filter ping_of (concat (map po_sent outs))"

lemma pings_cons: "pings [] = []" "pings (out # outs) = pings [out] @ pings outs"
  by (simp_all add: pings_def map_filter_def)

lemma pings_answers [simp]:
  "List.map_filter ping_of (map PO_Hosted hs) = []"
  "List.map_filter ping_of (map PO_Hosted hs @ xs) = List.map_filter ping_of xs"
  by (induction hs) (simp_all add: map_filter_simps)

lemma pass_pings:
  assumes "pump_pass cfg v p = (out, p', go)"
  shows "pings [out] = (if vw_shutdown v then [] else
    case pu_session p of None \<Rightarrow> [] | Some i \<Rightarrow> if pu_next_heartbeat p \<le> vw_heartbeat_at v then [(i, vw_heartbeat_at v)] else [])"
proof (cases "vw_shutdown v")
  case True
  then have "po_sent out = map PO_Hosted (forward_hosted_run_results (pu_generation p) (pu_hosted p) (vw_results v))"
    using assms by (auto simp: pump_pass_def Let_def)
  then show ?thesis using True by (simp add: pings_def)
next
  case False
  then have "po_sent out = map PO_Hosted (forward_hosted_run_results (pu_generation p) (pu_hosted p) (vw_results v)) @
      fst (beat (vw_heartbeat_at v) p)"
    using assms by (auto simp: pump_pass_def Let_def case_prod_unfold)
  then have "pings [out] = List.map_filter ping_of (fst (beat (vw_heartbeat_at v) p))"
    by (simp add: pings_def)
  then show ?thesis using False by (auto simp: beat_def map_filter_simps split: option.split)
qed

text \<open>An event that accepts no registration keeps the heartbeat's session or ends it, and its deadline.\<close>

lemma on_plane_event_heartbeat:
  assumes "stands_after cfg e None = None"
  shows "pu_next_heartbeat (snd (on_plane_event cfg v e p)) = pu_next_heartbeat p \<and>
    (pu_session (snd (on_plane_event cfg v e p)) = pu_session p \<or> pu_session (snd (on_plane_event cfg v e p)) = None)"
proof (cases e)
  case (PM_Server m)
  then show ?thesis by (simp add: on_plane_event_def server_msg_keeps)
next
  case (PM_Registered r)
  with assms have "connector_refused cfg r" by (simp split: if_splits)
  with PM_Registered show ?thesis by (simp add: on_plane_event_def pump_defs)
qed (simp_all add: on_plane_event_def pump_defs)

lemma pass_heartbeat:
  assumes "pump_pass cfg v p = (out, p', go)" "list_all (\<lambda>e. stands_after cfg e None = None) (handled [v])"
  shows "pu_next_heartbeat p' = (case pings [out] of [] \<Rightarrow> pu_next_heartbeat p | (i, t) # ps \<Rightarrow> i64_sat (t + control_heartbeat_interval_ns)) \<and>
    (pu_session p' = pu_session p \<or> pu_session p' = None)"
proof -
  have b: "pu_next_heartbeat (snd (beat (vw_heartbeat_at v) p)) = (if \<not> vw_shutdown v then case pings [out] of [] \<Rightarrow> pu_next_heartbeat p
      | (i, t) # ps \<Rightarrow> i64_sat (t + control_heartbeat_interval_ns) else pu_next_heartbeat (snd (beat (vw_heartbeat_at v) p)))"
    using pass_pings [OF assms(1)] by (simp add: beat_def split: option.split)
  from assms(1) show ?thesis
  proof (cases rule: pass_cases)
    case down
    with pass_pings [OF assms(1)] show ?thesis by simp
  next
    case idle
    with b show ?thesis by simp
  next
    case (event e)
    with assms(2) have "stands_after cfg e None = None" by (simp add: handled_one)
    from on_plane_event_heartbeat [OF this, of v "snd (beat (vw_heartbeat_at v) p)"] b event show ?thesis by simp
  qed
qed

text \<open>C35. Heartbeats are paced: between two accepted registrations every ping carries the session of the one
  that stands, none is sent before the deadline, and each is at least the interval of 500 ms after
  the one before, whatever else the pump does and however often it polls.\<close>

theorem heartbeats_are_paced:
  assumes "pump_run cfg vs p = (outs, p')" "list_all (\<lambda>e. stands_after cfg e None = None) (handled vs)"
  shows "successively (\<lambda>(i, t) (j, u). i64_sat (t + control_heartbeat_interval_ns) \<le> u) (pings outs) \<and>
    (\<forall>(i, t) \<in> set (pings outs). pu_session p = Some i) \<and>
    (\<forall>i t ps. pings outs = (i, t) # ps \<longrightarrow> pu_next_heartbeat p \<le> t)"
  using assms
proof (induction vs arbitrary: p outs)
  case (Cons v vs)
  from Cons.prems(1) show ?case
  proof (cases rule: run_cons)
    case (stop out)
    with pass_pings [OF stop(2)] show ?thesis by simp
  next
    case (go out p1 outs')
    have quiet: "list_all (\<lambda>e. stands_after cfg e None = None) (handled [v])" "list_all (\<lambda>e. stands_after cfg e None = None) (handled vs)"
      using Cons.prems(2) by (simp_all add: handled_go [OF go(1), of vs])
    note IH = Cons.IH [OF go(3) quiet(2)] and one = pass_heartbeat [OF go(2) quiet(1)] and ps = pass_pings [OF go(2)]
    have split: "pings outs = pings [out] @ pings outs'" by (simp add: go(4) pings_cons(2) [of out outs'])
    show ?thesis
    proof (cases "pings [out]")
      case Nil
      have n: "pu_next_heartbeat p1 = pu_next_heartbeat p" using one Nil by simp
      have k: "pu_session p = Some i" if "pu_session p1 = Some i" for i using one that by auto
      have e: "pings outs = pings outs'" using split Nil by simp
      have a: "\<forall>(i, t) \<in> set (pings outs'). pu_session p = Some i" using conjunct1 [OF conjunct2 [OF IH]] k by fastforce
      show ?thesis unfolding e using conjunct1 [OF IH] a conjunct2 [OF conjunct2 [OF IH]] n by simp
    next
      case (Cons x xs)
      then obtain i where x: "x = (i, vw_heartbeat_at v)" "xs = []" "pu_session p = Some i" "pu_next_heartbeat p \<le> vw_heartbeat_at v"
        using ps by (auto split: if_splits option.splits)
      have next1: "pu_next_heartbeat p1 = i64_sat (vw_heartbeat_at v + control_heartbeat_interval_ns)"
        using one Cons x by simp
      have s: "pu_session p1 = Some j \<longrightarrow> j = i" for j using one x(3) by auto
      have pl: "pings outs = (i, vw_heartbeat_at v) # pings outs'" using split Cons x by simp
      have "successively (\<lambda>(i, t) (j, u). i64_sat (t + control_heartbeat_interval_ns) \<le> u) (pings outs)"
        using IH next1 unfolding pl by (cases "pings outs'") (auto simp: successively_Cons)
      moreover have "\<forall>(j, u) \<in> set (pings outs). pu_session p = Some j"
        using conjunct1 [OF conjunct2 [OF IH]] s x(3) unfolding pl by fastforce
      ultimately show ?thesis using x(4) by (fastforce simp: pl)
    qed
  qed
qed (simp add: pings_def map_filter_simps)

theorem heartbeats_are_paced_witness:
  "pings (fst (pump_run demo_pump_config
      (map (\<lambda>t. demo_pump_view t None) [0, 20, 499999999, 500000000]) (plane_pump_new\<lparr>pu_session := Some ''s1''\<rparr>))) =
     [(''s1'', 0), (''s1'', 500000000)] \<and>
   i64_sat (0 + control_heartbeat_interval_ns) \<le> 500000000"
proof -
  let ?cfg = "demo_pump_config"
  let ?p = "plane_pump_new\<lparr>pu_session := Some ''s1''\<rparr>"
  let ?vs = "map (\<lambda>t. demo_pump_view t None) [0, 20, 499999999, 500000000]"
  obtain outs p where run: "pump_run ?cfg ?vs ?p = (outs, p)" by (metis prod.exhaust)
  have "handled ?vs = []" by (simp add: handled_def demo_pump_view_def map_filter_simps)
  with heartbeats_are_paced [OF run] have s:
    "successively (\<lambda>(i, t) (j, u). i64_sat (t + control_heartbeat_interval_ns) \<le> u) (pings outs)" by simp
  have "pings (fst (pump_run ?cfg ?vs ?p)) = [(''s1'', 0), (''s1'', 500000000)]"
    by (simp add: pump_pass_def demo_pump_view_def beat_def forward_hosted_run_results_def plane_pump_new_def Let_def
        control_heartbeat_interval_ns_def i64_sat_def i64_max_def i64_min_def pings_def map_filter_simps)
  then have "pings outs = [(''s1'', 0), (''s1'', 500000000)]" by (simp only: run fst_conv)
  with s have "i64_sat (0 + control_heartbeat_interval_ns) \<le> 500000000" by simp
  with \<open>pings (fst (pump_run ?cfg ?vs ?p)) = _\<close> show ?thesis by blast
qed


subsection \<open>Hosted runs and connections\<close>

text \<open>A registration is heard only on a connection that was dialled and has not failed since.\<close>

fun dialled_after :: "pump_event \<Rightarrow> bool \<Rightarrow> bool" where
  "dialled_after PM_Connected b = True"
| "dialled_after PM_Disconnected b = False"
| "dialled_after (PM_RegistrationRejected c d) b = False"
| "dialled_after e b = b"

fun dial_ordered :: "bool \<Rightarrow> pump_event list \<Rightarrow> bool" where
  "dial_ordered b [] = True"
| "dial_ordered b (e # es) = ((\<forall>r. e = PM_Registered r \<longrightarrow> b) \<and> dial_ordered (dialled_after e b) es)"

definition dials :: "pump_event list \<Rightarrow> nat" where
  "dials es = length (filter (\<lambda>e. e = PM_Connected) es)"

definition commands :: "pump_output list \<Rightarrow> hosted_run_command list" where
  "commands outs = concat (map po_hosted outs)"

text \<open>What the commands of an event say, and what they leave possible.\<close>

lemma u64_saturating_succ:
  assumes "unat n < 2 ^ 64 - 1"
  shows "u64_saturating_add n 1 = n + 1" "unat (n + 1) = Suc (unat n)"
proof -
  have "unat n + unat (1::u64) < 2 ^ 64" using assms by simp
  then show "u64_saturating_add n 1 = n + 1" by (simp add: u64_saturating_add_def)
  have "unat (- 1 :: u64) = 2 ^ 64 - 1" by (simp add: unsigned_minus_1_eq_mask mask_eq_exp_minus_1)
  then have "n \<noteq> - 1" using assms by auto
  then show "unat (n + 1) = Suc (unat n)" by (metis add.commute add_eq_0_iff unatSuc)
qed


lemma server_msg_commands:
  "po_hosted (fst (forward_server_msg cfg v m p)) =
     (case m of PS_Gate (Some (GS_HostedRunRequest q)) \<Rightarrow> if pu_hosted p then [HC_Request (pu_generation p) q] else [] | _ \<Rightarrow> [])"
proof (cases m)
  case (PS_Gate g)
  show ?thesis
  proof (cases g)
    case (Some x)
    with PS_Gate show ?thesis
      by (cases x) (simp_all add: forward_server_msg_def forward_gate_msg_def pump_silent_def Let_def case_prod_unfold)
  qed (use PS_Gate in \<open>simp add: forward_server_msg_def pump_silent_def\<close>)
qed (simp_all add: forward_server_msg_def forward_reset_progress_def pump_silent_def Let_def)

definition live_from :: "u64 \<Rightarrow> bool \<Rightarrow> hosted_run_command \<Rightarrow> bool" where
  "live_from g b c \<longleftrightarrow> (\<forall>g' q. c = HC_Request g' q \<longrightarrow> unat g < unat g' \<or> g' = g \<and> b)"

definition asks_before_loss :: "hosted_run_command \<Rightarrow> hosted_run_command \<Rightarrow> bool" where
  "asks_before_loss c d \<longleftrightarrow> (\<forall>g q. c = HC_ConnectionLost g \<longrightarrow> d \<noteq> HC_Request g q)"

lemma on_plane_event_commands:
  assumes "\<forall>r. e = PM_Registered r \<longrightarrow> b" "pu_hosted p \<longrightarrow> b" "unat (pu_generation p) + dials [e] < 2 ^ 64"
    and p'_def: "p' = snd (on_plane_event cfg v e p)" and cs_def: "cs = po_hosted (fst (on_plane_event cfg v e p))"
  shows "(pu_hosted p' \<longrightarrow> dialled_after e b) \<and> unat (pu_generation p') = unat (pu_generation p) + dials [e] \<and>
    length cs \<le> 1 \<and> (\<forall>c \<in> set cs. live_from (pu_generation p) b c) \<and>
    (\<forall>c. live_from (pu_generation p') (dialled_after e b) c \<longrightarrow>
       live_from (pu_generation p) b c \<and> (\<forall>a \<in> set cs. asks_before_loss a c))"
proof (cases e)
  case PM_Connected
  then have n: "unat (pu_generation p) < 2 ^ 64 - 1" using assms(3) by (simp add: dials_def)
  note u = u64_saturating_succ [OF n]
  from PM_Connected show ?thesis
    by (auto simp: p'_def cs_def on_plane_event_def forget_flags_def pump_silent_def u dials_def live_from_def asks_before_loss_def)
next
  case PM_Disconnected
  then show ?thesis
    by (auto simp: p'_def cs_def on_plane_event_def pump_defs pump_silent_def dials_def live_from_def asks_before_loss_def)
next
  case (PM_Registered r)
  with assms(1) show ?thesis
    by (auto simp: p'_def cs_def on_plane_event_def pump_defs pump_silent_def dials_def live_from_def asks_before_loss_def)
next
  case (PM_Server m)
  then have c: "cs = (case m of PS_Gate (Some (GS_HostedRunRequest q)) \<Rightarrow> if pu_hosted p then [HC_Request (pu_generation p) q] else [] | _ \<Rightarrow> [])"
    by (simp add: cs_def on_plane_event_def server_msg_commands)
  have p': "pu_hosted p' = pu_hosted p" "pu_generation p' = pu_generation p"
    using PM_Server by (simp_all add: p'_def on_plane_event_def server_msg_keeps)
  have "cs = [] \<or> (\<exists>q. cs = [HC_Request (pu_generation p) q] \<and> pu_hosted p)"
    unfolding c by (auto split: plane_server_msg.split option.split gate_server_msg.split)
  with p' assms(2) PM_Server show ?thesis
    by (auto simp: dials_def live_from_def asks_before_loss_def)
qed (auto simp: assms(2) p'_def cs_def on_plane_event_def pump_defs pump_silent_def dials_def live_from_def asks_before_loss_def)

lemma run_commands:
  assumes "pump_run cfg vs p = (outs, p')" "dial_ordered b (handled vs)" "pu_hosted p \<longrightarrow> b"
    "unat (pu_generation p) + dials (handled vs) < 2 ^ 64"
  shows "sorted_wrt asks_before_loss (commands outs) \<and> (\<forall>c \<in> set (commands outs). live_from (pu_generation p) b c)"
  using assms
proof (induction vs arbitrary: p outs b)
  case Nil
  then show ?case by (simp add: commands_def)
next
  case (Cons v vs)
  from Cons.prems(1) show ?case
  proof (cases rule: run_cons)
    case (stop out)
    from stop(2) have "po_hosted out = []" by (cases rule: pass_cases) (use stop(1) in simp_all)
    with stop show ?thesis by (simp add: commands_def)
  next
    case (go out p1 outs')
    from go(2) show ?thesis
    proof (cases rule: pass_cases)
      case idle
      with go(1) have h: "handled (v # vs) = handled vs" by (simp add: handled_go [OF go(1), of vs] handled_one)
      have "sorted_wrt asks_before_loss (commands outs') \<and> (\<forall>c \<in> set (commands outs'). live_from (pu_generation p1) b c)"
        by (rule Cons.IH [OF go(3)]) (use Cons.prems(2-4) h idle in simp_all)
      with idle go(4) show ?thesis by (simp add: commands_def)
    next
      case (event e)
      let ?p = "snd (beat (vw_heartbeat_at v) p)"
      have h: "handled (v # vs) = e # handled vs"
        using event by (simp add: handled_go [OF go(1), of vs] handled_one)
      have d: "dials (handled (v # vs)) = dials [e] + dials (handled vs)" by (simp add: h dials_def)
      have f: "(pu_hosted p1 \<longrightarrow> dialled_after e b) \<and> unat (pu_generation p1) = unat (pu_generation ?p) + dials [e] \<and>
        length (po_hosted out) \<le> 1 \<and> (\<forall>c \<in> set (po_hosted out). live_from (pu_generation ?p) b c) \<and>
        (\<forall>c. live_from (pu_generation p1) (dialled_after e b) c \<longrightarrow>
           live_from (pu_generation ?p) b c \<and> (\<forall>a \<in> set (po_hosted out). asks_before_loss a c))"
        unfolding event(3,6)
        by (rule on_plane_event_commands) (use Cons.prems(2-4) h d in auto)
      have IH: "sorted_wrt asks_before_loss (commands outs') \<and>
          (\<forall>c \<in> set (commands outs'). live_from (pu_generation p1) (dialled_after e b) c)"
        by (rule Cons.IH [OF go(3)]) (use Cons.prems(2-4) f h d in auto)
      have one: "sorted_wrt asks_before_loss (po_hosted out)" using f by (cases "po_hosted out") auto
      have "commands outs = po_hosted out @ commands outs'" by (simp add: go(4) commands_def)
      with IH f one show ?thesis by (auto simp: sorted_wrt_append)
    qed simp
  qed
qed

text \<open>No hosted run is asked for on behalf of a lost connection: in what the pump tells the hosted-run
  pump, a request never carries a connection whose loss was told before, as long as registrations
  are heard only on connections that stand.\<close>

theorem hosted_requests_precede_the_loss:
  assumes "pump_run cfg vs plane_pump_new = (outs, p)" "dial_ordered False (handled vs)" "dials (handled vs) < 2 ^ 64"
  shows "sorted_wrt asks_before_loss (commands outs)"
  using run_commands [OF assms(1,2)] assms(3) by (simp add: plane_pump_new_def)

theorem hosted_requests_precede_the_loss_witness:
  "\<exists>outs p. pump_run demo_pump_config [demo_pump_view 1 (Some PM_Connected), demo_pump_view 2 (Some (PM_Registered demo_registration)),
      demo_pump_view 3 (Some demo_hosted_event), demo_pump_view 4 (Some PM_Disconnected), demo_pump_view 5 (Some demo_hosted_event)]
      plane_pump_new = (outs, p) \<and> sorted_wrt asks_before_loss (commands outs)"
proof -
  let ?vs = "[demo_pump_view 1 (Some PM_Connected), demo_pump_view 2 (Some (PM_Registered demo_registration)),
      demo_pump_view 3 (Some demo_hosted_event), demo_pump_view 4 (Some PM_Disconnected), demo_pump_view 5 (Some demo_hosted_event)]"
  obtain outs p where run: "pump_run demo_pump_config ?vs plane_pump_new = (outs, p)" by (metis prod.exhaust)
  have h: "handled ?vs = [PM_Connected, PM_Registered demo_registration, demo_hosted_event, PM_Disconnected, demo_hosted_event]"
    by (simp add: handled_def demo_pump_view_def map_filter_simps)
  have "dial_ordered False (handled ?vs)" "dials (handled ?vs) < 2 ^ 64"
    unfolding h by (simp_all add: demo_hosted_event_def dials_def)
  from hosted_requests_precede_the_loss [OF run this] run show ?thesis by blast
qed

end
