(* ===== verification/Waddle_Plane.thy ===== *)
theory Waddle_Plane
  imports Waddle_Pump
begin

text \<open>
  The control-plane client (\<^verbatim>\<open>waddle-controlplane/src/client.rs\<close>) composed with the plane
  pump (\<^verbatim>\<open>waddle-runtime/src/pumps.rs\<close>) that consumes what it surfaces. How the generated
  message types read a body is a parameter, the decoder; nothing of the composition depends on it
  but the accepted feature flags, which the client keeps in the clear.
\<close>

record plane_decoder =
  dr_session_id :: "string \<Rightarrow> string"
  dr_detail :: "string \<Rightarrow> string"
  dr_server :: "server_msg \<Rightarrow> plane_server_msg"

fun heard :: "plane_decoder \<Rightarrow> plane_event \<Rightarrow> pump_event" where
  "heard d PE_Connected = PM_Connected"
| "heard d (PE_Registered r) =
     PM_Registered \<lparr>rg_session_id = dr_session_id d (rr_body r), rg_flags = rr_accepted_feature_flags r,
       rg_detail = dr_detail d (rr_body r)\<rparr>"
| "heard d (PE_RegistrationRejected rj) = PM_RegistrationRejected (rj_code rj) (rj_detail rj)"
| "heard d (PE_Server m) = PM_Server (dr_server d m)"
| "heard d PE_Disconnected = PM_Disconnected"
| "heard d (PE_BufferOverflowed n) = PM_BufferOverflowed n"

definition hears :: "plane_decoder \<Rightarrow> client \<Rightarrow> pump_event list" where
  "hears d c = map (heard d) (ct_events c)"

fun on_connection :: "client_point \<Rightarrow> bool" where
  "on_connection Dialing = False"
| "on_connection (BackingOff n before) = False"
| "on_connection p = True"

fun on_registration :: "client_point \<Rightarrow> bool" where
  "on_registration (AwaitingRegistration before) = False"
| "on_registration p = on_connection p"

text \<open>What the events surfaced so far say of the connection, until the thread has left.\<close>

definition says :: "pump_config \<Rightarrow> pump_event list \<Rightarrow> client_point \<Rightarrow> string list \<Rightarrow> bool" where
  "says cfg es p acc \<longleftrightarrow>
     dial_ordered False es \<and>
     (p = Stopped \<or>
      fold dialled_after es False = on_connection p \<and>
      map_option rg_flags (fold (stands_after cfg) es None) = (if on_registration p then Some acc else None))"

lemma dial_ordered_append [simp]:
  "dial_ordered b (es @ es') = (dial_ordered b es \<and> dial_ordered (fold dialled_after es b) es')"
  by (induction es arbitrary: b) simp_all

lemma hears_surface [simp]:
  "hears d (surface ev c) = hears d c @ [heard d ev]" "hears d (c\<lparr>ct_point := q\<rparr>) = hears d c"
  "hears d (c\<lparr>ct_buffer := b\<rparr>) = hears d c" "hears d (c\<lparr>ct_conns := ks\<rparr>) = hears d c"
  "hears d (c\<lparr>ct_attempt := n\<rparr>) = hears d c" "hears d (c\<lparr>ct_taken := ms\<rparr>) = hears d c"
  "hears d (write_msg m c) = hears d c" "hears d (fold write_msg ms c) = hears d c"
  "hears d (buffer_pending ms c) = hears d c" "hears d (begin_backoff cfg c) = hears d c"
  by (simp_all add: hears_def client_simps begin_backoff_def)

lemma hears_overflow:
  "hears d (report_overflow n c) = hears d c \<or> (\<exists>k. hears d (report_overflow n c) = hears d c @ [PM_BufferOverflowed k])"
  by (auto simp: report_overflow_def Let_def)

lemma hears_lose [simp]: "hears d (lose_connection cfg c) = hears d c @ [PM_Disconnected]"
  by (simp add: lose_connection_def)

lemma current_accepted_simps [simp]:
  "current_accepted (c\<lparr>ct_point := q\<rparr>) = current_accepted c" "current_accepted (c\<lparr>ct_buffer := b\<rparr>) = current_accepted c"
  "current_accepted (c\<lparr>ct_attempt := n\<rparr>) = current_accepted c"
  "current_accepted (c\<lparr>ct_taken := ms\<rparr>) = current_accepted c" "current_accepted (surface ev c) = current_accepted c"
  "current_accepted (write_msg m c) = current_accepted c" "current_accepted (buffer_pending ms c) = current_accepted c"
  by (simp_all add: current_accepted_def client_simps write_msg_def split: list.split)

lemma current_accepted_writes [simp]: "current_accepted (fold write_msg ms c) = current_accepted c"
  by (induction ms arbitrary: c) simp_all

lemma current_accepted_overflow [simp]: "current_accepted (report_overflow b c) = current_accepted c"
  by (simp add: report_overflow_def Let_def)

lemma says_simps:
  "says cfg es Stopped acc = dial_ordered False es"
  "says cfg es Replaying acc = says cfg es PumpTop acc" "says cfg es Outbound acc = says cfg es PumpTop acc"
  "says cfg es Inbound acc = says cfg es PumpTop acc" "says cfg es (BackingOff n b) acc = says cfg es Dialing acc"
  "dial_ordered False es \<Longrightarrow> says cfg (es @ [PM_Disconnected]) Dialing acc"
  "dial_ordered False es \<Longrightarrow> says cfg (es @ [PM_Connected, PM_Disconnected]) Dialing acc"
  "says cfg (es @ [PM_BufferOverflowed k]) p acc = says cfg es p acc"
  "says cfg (es @ [PM_Server m]) p acc = says cfg es p acc"
  "says cfg es p acc \<Longrightarrow> dial_ordered False es"
  by (auto simp: says_def)

lemma says_connected: "says cfg es Dialing acc \<Longrightarrow> says cfg (es @ [PM_Connected]) (AwaitingRegistration b) acc'"
  by (simp add: says_def)

lemma says_registered:
  "says cfg es (AwaitingRegistration b) acc \<Longrightarrow> \<not> connector_refused cfg r \<Longrightarrow> says cfg (es @ [PM_Registered r]) PumpTop (rg_flags r)"
  "says cfg es (AwaitingRegistration b) acc \<Longrightarrow> dial_ordered False (es @ [PM_Registered r])"
  "says cfg es p acc \<Longrightarrow> dial_ordered False (es @ [PM_RegistrationRejected x y])"
  by (simp_all add: says_def)

lemma says_overflow: "says cfg (hears d (report_overflow n c)) p acc = says cfg (hears d c) p acc"
  using hears_overflow [of d n c] by (auto simp: says_simps)

lemma says_await:
  assumes "says cfg (hears d c) (AwaitingRegistration b) acc" "ct_point c = AwaitingRegistration b" "ct_conns c \<noteq> []"
    and "pf_binding_required cfg = connector_binding_required ccfg"
  shows "says cfg (hears d (await_poll ccfg b ms rx stop c)) (ct_point (await_poll ccfg b ms rx stop c))
    (current_accepted (await_poll ccfg b ms rx stop c))"
proof -
  let ?c = "report_overflow b (buffer_pending ms c)"
  have o: "says cfg (hears d ?c) (AwaitingRegistration b) a" for a using assms(1) by (simp add: says_overflow) (simp add: says_def)
  then have dial: "dial_ordered False (hears d ?c)" by (simp add: says_def)
  have out: "says cfg (hears d (registration_outcome ccfg rx ?c)) (ct_point (registration_outcome ccfg rx ?c))
      (current_accepted (registration_outcome ccfg rx ?c))"
  proof -
    have lost: "says cfg (hears d (lose_connection ccfg x)) (ct_point (lose_connection ccfg x)) a"
      if "dial_ordered False (hears d x)" for x a using that by (simp add: client_simps says_simps)
    have "(\<exists>r. rx = RxMsg (SM_Registered r)) \<or> (\<exists>rj. rx = RxMsg (SM_RegistrationRejected rj)) \<or>
        registration_outcome ccfg rx ?c = lose_connection ccfg ?c"
    proof (cases rx)
      case (RxMsg m)
      then show ?thesis by (cases m) (simp_all add: registration_outcome_def)
    qed (simp_all add: registration_outcome_def)
    then consider (acc) r where "rx = RxMsg (SM_Registered r)" | (rej) rj where "rx = RxMsg (SM_RegistrationRejected rj)"
      | (other) "registration_outcome ccfg rx ?c = lose_connection ccfg ?c"
      by blast
    then show ?thesis
    proof cases
      case acc
      let ?d = "surface (PE_Registered r) (?c\<lparr>ct_conns := (case ct_conns ?c of [] \<Rightarrow> [] | k # ks \<Rightarrow> k\<lparr>conn_accepted := Some (rr_accepted_feature_flags r)\<rparr> # ks)\<rparr>)"
      let ?r = "\<lparr>rg_session_id = dr_session_id d (rr_body r), rg_flags = rr_accepted_feature_flags r, rg_detail = dr_detail d (rr_body r)\<rparr>"
      have fl: "current_accepted ?d = rr_accepted_feature_flags r"
        using assms(3) by (cases "ct_conns c") (simp_all add: current_accepted_def client_simps)
      have refuse: "connector_refused cfg ?r = (connector_binding_required ccfg \<and> flag_connector_binding \<notin> set (rr_accepted_feature_flags r))"
        by (simp add: connector_refused_def assms(4))
      have acc_eq: "registration_outcome ccfg rx ?c =
          (if connector_refused cfg ?r then lose_connection ccfg ?d else ?d\<lparr>ct_point := Replaying, ct_attempt := 0\<rparr>)"
        unfolding acc refuse by (simp add: registration_outcome_def accept_registration_def Let_def)
      show ?thesis
      proof (cases "connector_refused cfg ?r")
        case True
        have "dial_ordered False (hears d ?d)" using says_registered(2) [OF o] by simp
        with True lost [of ?d] show ?thesis by (simp only: acc_eq if_True)
      next
        case False
        have "says cfg (hears d ?d) PumpTop (rr_accepted_feature_flags r)"
          using says_registered(1) [OF o False] by simp
        moreover have "hears d (?d\<lparr>ct_point := Replaying, ct_attempt := 0\<rparr>) = hears d ?d"
          "current_accepted (?d\<lparr>ct_point := Replaying, ct_attempt := 0\<rparr>) = rr_accepted_feature_flags r"
          using fl by (simp_all only: current_accepted_simps hears_surface)
        ultimately show ?thesis using False by (simp only: acc_eq if_False says_simps) (simp add: says_simps)
      qed
    next
      case rej
      with lost [of "surface (PE_RegistrationRejected rj) ?c"] says_registered(3) [OF o] show ?thesis
        by (simp add: registration_outcome_def)
    next
      case other
      with lost [OF dial] show ?thesis by simp
    qed
  qed
  show ?thesis
  proof (cases "rx = RxEmpty")
    case True
    with assms(1,2) show ?thesis by (simp add: await_poll_def client_simps) (simp add: says_def)
  next
    case False
    with out dial show ?thesis by (simp add: await_poll_def Let_def says_simps)
  qed
qed

lemma says_turn:
  assumes "client_turn ccfg p i c = Some c'" "ct_point c = p" "client_inv ccfg c" "says cfg (hears d c) p (current_accepted c)"
    and "pf_binding_required cfg = connector_binding_required ccfg"
  shows "says cfg (hears d c') (ct_point c') (current_accepted c')"
proof (cases "(ccfg, p, i, c)" rule: client_turn.cases)
  case (1 cfg' nonce r c'')
  with assms show ?thesis
    by (cases r) (auto simp: client_dial_def client_simps says_simps says_connected)
next
  case (3 cfg' b ms rx stop c'')
  then have "ct_conns c \<noteq> []" using assms(2,3) by (simp add: client_inv_def live_ok_def)
  with 3 assms says_await [of cfg d c b "current_accepted c" ccfg ms rx stop] show ?thesis by auto
next
  case (8 cfg' m sent c'')
  with assms show ?thesis
    by (auto simp: pump_command_def Let_def client_simps says_simps)
qed (use assms in \<open>auto simp: replay_buffer_def backoff_poll_def pump_inbound_def offline_buffer_drain_def Let_def client_simps says_simps
      says_overflow split: rx_result.splits server_msg.splits\<close>)


lemma client_says:
  assumes "client_reachable ccfg c" "pf_binding_required cfg = connector_binding_required ccfg"
  shows "says cfg (hears d c) (ct_point c) (current_accepted c)"
  using assms(1)
proof (induction rule: client_reachable.induct)
  case start
  show ?case by (simp add: hears_def client_new_def says_def)
next
  case (turn c i c')
  then show ?case using says_turn [OF _ refl client_reachable_inv] assms(2) by (simp add: client_step_def)
qed

lemma current_registration:
  assumes "client_reachable ccfg c" "pf_binding_required cfg = connector_binding_required ccfg"
    and "handled vs = hears d c" "pump_run cfg vs plane_pump_new = (outs, p)" "ct_point c \<noteq> Stopped"
  shows "\<exists>s. shows_registration s p \<and>
    map_option rg_flags s = (if on_registration (ct_point c) then Some (current_accepted c) else None)"
proof -
  let ?s = "fold (stands_after cfg) (hears d c) None"
  have "says cfg (hears d c) (ct_point c) (current_accepted c)" by (rule client_says [OF assms(1,2)])
  with assms(5) have "map_option rg_flags ?s = (if on_registration (ct_point c) then Some (current_accepted c) else None)"
    by (simp add: says_def)
  moreover have "shows_registration ?s p"
    using run_history [OF assms(4), of None] assms(3)
    by (simp add: shows_registration_def plane_pump_new_def plane_status_new_def)
  ultimately show ?thesis by blast
qed

text \<open>C32. What the session believes of the plane is what the plane accepted: once the pump has handled what
  the client surfaced, the features the session uses are exactly those the current connection
  accepted while the client is registered, and none while it is not, until the client leaves;
  and no hosted run is asked for on behalf of a connection whose loss was told before.\<close>

theorem session_sees_the_connection:
  assumes "client_reachable ccfg c" "pf_binding_required cfg = connector_binding_required ccfg"
    and "handled vs = hears d c" "pump_run cfg vs plane_pump_new = (outs, p)" "dials (hears d c) < 2 ^ 64"
  shows "(ct_point c \<noteq> Stopped \<longrightarrow>
      (let on = (\<lambda>f. on_registration (ct_point c) \<and> f \<in> set (current_accepted c)) in
       zs_registered (pu_status p) = on_registration (ct_point c) \<and>
       pu_acks p = on flag_acks \<and> pu_hosted p = on flag_hosted_runs \<and> zs_parts (pu_status p) = on flag_parts \<and>
       zs_stills (pu_status p) = on flag_stills \<and> zs_chat (pu_status p) = on flag_chat \<and>
       zs_motion_feedforward (pu_status p) = on flag_motion_feedforward)) \<and>
    sorted_wrt asks_before_loss (commands outs)"
proof
  show "ct_point c \<noteq> Stopped \<longrightarrow>
      (let on = (\<lambda>f. on_registration (ct_point c) \<and> f \<in> set (current_accepted c)) in
       zs_registered (pu_status p) = on_registration (ct_point c) \<and>
       pu_acks p = on flag_acks \<and> pu_hosted p = on flag_hosted_runs \<and> zs_parts (pu_status p) = on flag_parts \<and>
       zs_stills (pu_status p) = on flag_stills \<and> zs_chat (pu_status p) = on flag_chat \<and>
       zs_motion_feedforward (pu_status p) = on flag_motion_feedforward)"
  proof
    assume "ct_point c \<noteq> Stopped"
    from current_registration [OF assms(1-4) this] obtain s where s: "shows_registration s p"
      "map_option rg_flags s = (if on_registration (ct_point c) then Some (current_accepted c) else None)" by blast
    then show "let on = (\<lambda>f. on_registration (ct_point c) \<and> f \<in> set (current_accepted c)) in
       zs_registered (pu_status p) = on_registration (ct_point c) \<and>
       pu_acks p = on flag_acks \<and> pu_hosted p = on flag_hosted_runs \<and> zs_parts (pu_status p) = on flag_parts \<and>
       zs_stills (pu_status p) = on flag_stills \<and> zs_chat (pu_status p) = on flag_chat \<and>
       zs_motion_feedforward (pu_status p) = on flag_motion_feedforward"
      by (cases s) (auto simp: shows_registration_def Let_def split: if_splits)
  qed
  have says: "says cfg (hears d c) (ct_point c) (current_accepted c)" by (rule client_says [OF assms(1,2)])
  have "dial_ordered False (handled vs)" using says assms(3) by (simp add: says_def)
  with run_commands [OF assms(4), of False] assms(3,5) show "sorted_wrt asks_before_loss (commands outs)"
    by (simp add: plane_pump_new_def)
qed

text \<open>The demonstration client, on its second connection, and a pump that heard all of it.\<close>

definition demo_decoder :: plane_decoder where
  "demo_decoder = \<lparr>dr_session_id = (\<lambda>b. ''s''), dr_detail = (\<lambda>b. b), dr_server = (\<lambda>m. PS_Other)\<rparr>"

definition demo_hearing :: "pump_view list" where
  "demo_hearing = map (\<lambda>e. demo_pump_view 1 (Some e)) (hears demo_decoder demo_client)"

lemma handled_demo: "handled (map (\<lambda>e. demo_pump_view t (Some e)) es) = es"
  by (induction es) (simp_all add: handled_def demo_pump_view_def map_filter_simps)

lemma demo_client_flags:
  "current_accepted demo_client = [flag_stills]" "\<not> connector_binding_required demo_client_config"
  "length (ct_events demo_client) < 100"
  by code_simp+

lemma dials_length: "dials es \<le> length es"
  by (simp add: dials_def)

theorem session_sees_the_connection_witness:
  "\<exists>outs p. pump_run demo_pump_config demo_hearing plane_pump_new = (outs, p) \<and>
    zs_registered (pu_status p) \<and> zs_stills (pu_status p) \<and> \<not> zs_parts (pu_status p)"
proof -
  obtain outs p where run: "pump_run demo_pump_config demo_hearing plane_pump_new = (outs, p)" by (metis prod.exhaust)
  have cfg: "pf_binding_required demo_pump_config = connector_binding_required demo_client_config"
    using demo_client_flags(2) by (simp add: demo_pump_config_def)
  have h: "handled demo_hearing = hears demo_decoder demo_client" unfolding demo_hearing_def by (rule handled_demo)
  have "dials (hears demo_decoder demo_client) < 100"
    using dials_length [of "hears demo_decoder demo_client"] demo_client_flags(3) by (simp add: hears_def)
  then have n: "dials (hears demo_decoder demo_client) < 2 ^ 64" by simp
  from session_sees_the_connection [OF demo_client_reachable cfg h run n] demo_client_facts(2)
  have "zs_registered (pu_status p) \<and> zs_stills (pu_status p) \<and> \<not> zs_parts (pu_status p)"
    by (simp add: Let_def demo_client_flags(1) flag_stills_def flag_parts_def)
  with run show ?thesis by blast
qed

end
