(* ===== verification/Waddle_Scripts.thy ===== *)
theory Waddle_Scripts
  imports Waddle_Scenario Waddle_Client
begin

text \<open>
  The scripted sessions that the calls of the session object are tried on, and a client whose plane
  accepts chat: the events, and what the session machine and the client make of them.
\<close>

subsection \<open>Scripted sessions\<close>

text \<open>The episode a script leads to and its phase.\<close>

definition shown :: "session_event list \<Rightarrow> (episode_id \<times> phase) option" where
  "shown evs = map_option (\<lambda>e. (ep_id e, ep_phase e)) (episode (play evs))"

definition to_ready :: "session_event list" where
  "to_ready = [open_event False None None, LeaseTokenMinted ''L1'' 1, ResetResult True (Some True) 2]"

definition retaken_after :: "session_event list" where
  "retaken_after = to_settle False @ [Retake ''c1'' AK_Agent ''e2'' 9,
     EpisodeOpen ''e2'' Blocking True (Some ''e1'') False None None None 9]"

definition to_claimed :: "session_event list" where
  "to_claimed = to_running False @ [ClaimGranted ''c1'' ''teleop'' operator False 4]"

definition two_opens :: "session_event list" where
  "two_opens = [open_event False None None, LeaseTokenMinted ''L1'' 1,
     EpisodeOpen ''e2'' Blocking False None False None None None 0, ResetResult True (Some True) 2]"

definition to_jogging :: "session_event list" where
  "to_jogging = to_running False @
     [ClaimGranted ''jog'' ''local-ui-jog'' (of_kind AK_SiteOperator) True 4, Engage ''jog'' 5, LeaseTokenMinted ''L2'' 6]"

text \<open>What the scripts lead to, evaluated at once.\<close>

lemma script_results:
  "shown [] = None \<and> shown to_ready = Some (''e1'', Ready) \<and> shown (to_running False) = Some (''e1'', Running) \<and>
   shown (to_running False @ [Terminate Success ''ok'' 5]) = Some (''e1'', Terminal Success) \<and>
   shown (to_running False @ [Terminate Success ''ok'' 5, EpisodeOpen ''e2'' Blocking False None False None None None 6]) =
     Some (''e2'', Resetting) \<and>
   shown (to_settle False) = Some (''e1'', Intervention IP_Settle) \<and>
   map_option cl_id (claim (play (to_settle False))) = Some ''c1'' \<and>
   shown to_claimed = Some (''e1'', Running) \<and> map_option cl_id (claim (play to_claimed)) = Some ''c1'' \<and>
   shown retaken_after = Some (''e2'', Resetting) \<and>
   shown (retaken_after @ [Terminate Abort ''done'' 10]) = Some (''e2'', Terminal Abort) \<and>
   shown (take 2 two_opens) = Some (''e1'', Resetting) \<and> shown two_opens = Some (''e1'', Ready) \<and>
   claim (play (to_running False)) = None \<and>
   map_option agent_invited (episode (play (to_running False))) = Some False \<and>
   shown to_jogging = Some (''e1'', Intervention IP_Settle) \<and> map_option cl_id (claim (play to_jogging)) = Some ''jog''"
  by code_simp

subsection \<open>A scripted client\<close>

text \<open>A client whose plane accepts chat.\<close>

definition chat_client :: client where
  "chat_client = the (client_run demo_client_config (client_new demo_client_config)
     [CI_Dial ''1'' DialOpen, CI_Await [] (RxMsg (SM_Registered \<lparr>rr_accepted_feature_flags = [flag_chat], rr_body = []\<rparr>)) False])"

lemma chat_client_results:
  "map_option (\<lambda>c. (ct_point c, current_accepted c))
     (client_run demo_client_config (client_new demo_client_config)
       [CI_Dial ''1'' DialOpen, CI_Await [] (RxMsg (SM_Registered \<lparr>rr_accepted_feature_flags = [flag_chat], rr_body = []\<rparr>)) False]) =
   Some (Replaying, [flag_chat])"
  by code_simp

end
