(* ===== verification/Waddle_Episodes.thy ===== *)
theory Waddle_Episodes
  imports Waddle_Scripts Waddle_Supervision Waddle_Pump Waddle_Jog
begin

text \<open>
  Opening, driving and ending episodes through the session object
  (\<^verbatim>\<open>waddle-runtime/src/session.rs\<close>): the checks of the builder, the declared
  feature flags, the inline reset, the agent-invited and the plane-started episode, and the local
  seams that inject events. A call reads the status mirror; a blocking call consumes the list of
  the snapshots it is woken with and gives \<open>None\<close> when the list ends before it returns. Fresh
  ids, clock reads and what a hook returns are inputs; the opened gate and its record ring are
  left out.
\<close>

subsection \<open>Errors\<close>

datatype media_error =
    ME_UnknownTrack string
  | ME_TopicClosed string
  | ME_Decode string
  | ME_BadFrame nat nat string
  | ME_Encode string
  | ME_Transport string
  | ME_Unimplemented string

datatype runtime_error =
    RE_MissingRobot
  | RE_Types types_error
  | RE_ResetFailed string
  | RE_EpisodeActive
  | RE_InvalidTaskMetadata string
  | RE_InvalidHoldRequest string
  | RE_InvalidScopedAction string
  | RE_InvalidChat string
  | RE_ChatUnavailable string
  | RE_InvalidPlaneRequest string
  | RE_PlaneServiceUnavailable string
  | RE_Media media_error
  | RE_ShuttingDown
  | RE_UnknownCamera string
  | RE_UnsupportedCameraEncoding string string
  | RE_InvalidCameraUplinkFps string flt
  | RE_MissingVerb string string string
  | RE_RecordingDirUnusable string string

subsection \<open>What the builder checks and declares\<close>

record connector_binding =
  cb_customer_id :: string
  cb_project_id :: string
  cb_workspace_id :: string
  cb_authorization_only :: bool

definition connector_binding_new :: "string \<Rightarrow> string \<Rightarrow> string \<Rightarrow> connector_binding" where
  "connector_binding_new customer project workspace =
     \<lparr>cb_customer_id = customer, cb_project_id = project, cb_workspace_id = workspace, cb_authorization_only = False\<rparr>"

text \<open>The verb an engage would miss, under the policy the first engage really uses.\<close>

definition missing_engage_verb :: "handoff_policy \<Rightarrow> bool \<Rightarrow> bool \<Rightarrow> bool \<Rightarrow> string option" where
  "missing_engage_verb declared delta hold_registered send_registered =
     (let effective = (case declared of HP_Immediate b \<Rightarrow> if delta then HP_HoldFirst else HP_Immediate b | p \<Rightarrow> p) in
      if effective = HP_HoldFirst \<and> \<not> hold_registered then Some ''hold''
      else if \<not> send_registered then Some ''send''
      else None)"

definition build_verb_check :: "handoff_policy \<Rightarrow> bool \<Rightarrow> bool \<Rightarrow> bool \<Rightarrow> bool \<Rightarrow> runtime_error + string option" where
  "build_verb_check declared delta media hold_registered send_registered =
     (let gap = missing_engage_verb declared delta hold_registered send_registered in
      if \<not> (media \<or> hold_registered \<or> send_registered) then Inr gap
      else
        (case gap of
           None \<Rightarrow> Inr None
         | Some v \<Rightarrow>
             if v = ''hold''
             then Inl (RE_MissingVerb ''hold'' ''handoff HOLD_FIRST'' ''choose a different handoff policy'')
             else Inl (RE_MissingVerb ''send''
                    ''a wired media plane or a registered `hold` verb (bypass/intervention dispatch)''
                    ''remove that wiring'')))"

definition declared_part_names :: "action_space \<Rightarrow> string list" where
  "declared_part_names space = (case as_spec space of SS_Composite parts \<Rightarrow> map fst parts | _ \<Rightarrow> [])"

text \<open>FNV-1a over the encoded declaration, in sixteen hexadecimal digits.\<close>

definition fnv_offset :: u64 where "fnv_offset = 0xcbf29ce484222325"
definition fnv_prime :: u64 where "fnv_prime = 0x00000100000001b3"

unbundle bit_operations_syntax

definition fnv1a :: "8 word list \<Rightarrow> u64" where
  "fnv1a bytes = fold (\<lambda>b h. (h XOR ucast b) * fnv_prime) bytes fnv_offset"

definition hex_digit :: "nat \<Rightarrow> char" where
  "hex_digit n = ''0123456789abcdef'' ! n"

definition hex16 :: "u64 \<Rightarrow> string" where
  "hex16 w = map (\<lambda>k. hex_digit (unat (drop_bit (4 * (15 - k)) w AND 15))) [0..<16]"

definition robot_digest :: "8 word list \<Rightarrow> string" where
  "robot_digest bytes = ''fnv1a:'' @ hex16 (fnv1a bytes)"

record build_spec =
  bu_binding :: "connector_binding option"
  bu_pre_reset :: "reset_spec option"
  bu_post_reset :: "reset_spec option"
  bu_stills :: bool
  bu_part_names :: "string list"

definition flag_agent :: string where "flag_agent = ''waddle.v0.agent''"

definition declared_flags :: "build_spec \<Rightarrow> string list" where
  "declared_flags b =
     [''waddle.v0.core'', ''waddle.v0.reset'', flag_acks, flag_agent, flag_chat, flag_task_sessions,
      flag_calibration, flag_workspace_artifacts, flag_motion_feedforward]
     @ (if (case bu_binding b of None \<Rightarrow> False | Some cb \<Rightarrow> cb_authorization_only cb) then [] else [flag_hosted_runs])
     @ (if bu_binding b \<noteq> None then [flag_connector_binding] else [])
     @ (if bu_post_reset b \<noteq> None then [''waddle.v0.reset.phases''] else [])
     @ (if is_remote (bu_pre_reset b) \<or> is_remote (bu_post_reset b) then [''waddle.v0.reset.remote''] else [])
     @ (if bu_stills b then [flag_stills] else [])
     @ (if bu_part_names b \<noteq> [] then [flag_parts] else [])"

definition register_of :: "build_spec \<Rightarrow> string \<Rightarrow> string \<Rightarrow> register_request" where
  "register_of b nonce body =
     \<lparr>rq_session_nonce = nonce,
      rq_customer_id = (case bu_binding b of None \<Rightarrow> [] | Some cb \<Rightarrow> cb_customer_id cb),
      rq_workspace_id = (case bu_binding b of None \<Rightarrow> [] | Some cb \<Rightarrow> cb_workspace_id cb),
      rq_authorization_only = (case bu_binding b of None \<Rightarrow> False | Some cb \<Rightarrow> cb_authorization_only cb),
      rq_body = body\<rparr>"

subsection \<open>The mirror\<close>

text \<open>\<^verbatim>\<open>wait_until\<close>: the first snapshot that satisfies the predicate or shows the
  shutdown, and the snapshots after it.\<close>

fun wait_until :: "(status \<Rightarrow> bool) \<Rightarrow> status list \<Rightarrow> (status \<times> status list) option" where
  "wait_until pred [] = None"
| "wait_until pred (s # ss) = (if pred s \<or> su_shutdown s then Some (s, ss) else wait_until pred ss)"

subsection \<open>Opening an episode\<close>

record episode_options =
  eo_pre_reset :: "reset_spec option option"
  eo_post_reset :: "reset_spec option option"
  eo_task_metadata :: "(string \<times> string) list"
  eo_agent_invite :: "agent_invite option"

definition task_metadata_max_entries :: nat where "task_metadata_max_entries = 64"
definition task_metadata_max_key_bytes :: nat where "task_metadata_max_key_bytes = 128"
definition task_metadata_max_value_bytes :: nat where "task_metadata_max_value_bytes = 4096"
definition task_metadata_max_total_bytes :: nat where "task_metadata_max_total_bytes = 16384"

text \<open>The metadata is a sorted map: an association list with distinct keys.\<close>

definition validate_task_metadata :: "(string \<times> string) list \<Rightarrow> runtime_error + unit" where
  "validate_task_metadata m =
     (if task_metadata_max_entries < length m \<or>
         task_metadata_max_total_bytes < sum_list (map (\<lambda>(k, v). length k + length v) m) \<or>
         list_ex (\<lambda>(k, v). k = [] \<or> task_metadata_max_key_bytes < length k \<or> task_metadata_max_value_bytes < length v) m
      then Inl (RE_InvalidTaskMetadata
        ''expected at most 64 non-empty keys (128 bytes/key, 4096 bytes/value, 16384 bytes total)'')
      else Inr ())"

text \<open>What the session object keeps for the reducer and the reset pump.\<close>

record api_slots =
  sl_task :: task_context
  sl_specs :: "episode_reset_specs option"
  sl_owner :: "episode_id option"

record api_config =
  ac_pre_reset :: "reset_spec option"
  ac_post_reset :: "reset_spec option"
  ac_verification :: reset_verification_mode
  ac_agent_verb_gap :: "string option"

record start_world =
  sw_id :: episode_id
  sw_open_at :: mono_ns
  sw_hook :: "bool \<times> bool option"
  sw_result_at :: mono_ns

text \<open>The guard before an open: one active episode, but a predecessor in POST_RESET is waited out.
  The flag says whether the call is inside that wait.\<close>

fun start_guard :: "bool \<Rightarrow> status list \<Rightarrow> ((runtime_error + unit) \<times> status list) option" where
  "start_guard inside [] = None"
| "start_guard inside (s # ss) =
     (if inside then
        (if su_shutdown s then Some (Inl RE_ShuttingDown, ss)
         else start_guard (su_episode_state s = Some PostReset) ss)
      else
        (case su_episode_state s of
           None \<Rightarrow> Some (Inr (), ss)
         | Some (Terminal outcome) \<Rightarrow> Some (Inr (), ss)
         | Some PostReset \<Rightarrow> start_guard True ss
         | Some _ \<Rightarrow> Some (Inl RE_EpisodeActive, ss)))"

definition effective_resets :: "api_config \<Rightarrow> episode_options \<Rightarrow> reset_spec option \<times> reset_spec option" where
  "effective_resets ac opts =
     ((case eo_pre_reset opts of None \<Rightarrow> ac_pre_reset ac | Some r \<Rightarrow> r),
      (case eo_post_reset opts of None \<Rightarrow> ac_post_reset ac | Some r \<Rightarrow> r))"

definition open_slots :: "api_config \<Rightarrow> start_world \<Rightarrow> string \<Rightarrow> episode_options \<Rightarrow> api_slots \<Rightarrow> api_slots" where
  "open_slots ac w task opts sl =
     (let (pre, post) = effective_resets ac opts in
      sl\<lparr>sl_task := \<lparr>tc_task = task, tc_metadata = eo_task_metadata opts\<rparr>,
         sl_specs := Some \<lparr>er_id = sw_id w, er_pre = pre, er_post = post\<rparr>,
         sl_owner := (if is_remote pre then sl_owner sl else Some (sw_id w))\<rparr>)"

definition open_events :: "api_config \<Rightarrow> start_world \<Rightarrow> episode_options \<Rightarrow> session_event list" where
  "open_events ac w opts =
     (let (pre, post) = effective_resets ac opts;
          opened = EpisodeOpen (sw_id w) (ac_verification ac) False None (post \<noteq> None)
            (Option.bind pre reset_spec_window) (Option.bind post reset_spec_window) (eo_agent_invite opts) (sw_open_at w)
      in case pre of
           Some RS_Hook \<Rightarrow> [opened, ResetResult (fst (sw_hook w)) (snd (sw_hook w)) (sw_result_at w)]
         | None \<Rightarrow> [opened, ResetResult True (Some True) (sw_result_at w)]
         | Some (RS_Remote act prompt timeout) \<Rightarrow> [opened])"

definition opened :: "episode_id \<Rightarrow> status \<Rightarrow> bool" where
  "opened i s \<longleftrightarrow> su_episode_id s = Some i \<and>
     (case su_episode_state s of None \<Rightarrow> True | Some Ready \<Rightarrow> True | Some (Terminal outcome) \<Rightarrow> True | _ \<Rightarrow> False)"

text \<open>Rust's \<^verbatim>\<open>{:?}\<close> of the phases a start can end in.\<close>

fun outcome_debug :: "terminal_outcome \<Rightarrow> string" where
  "outcome_debug Success = ''Success''"
| "outcome_debug Failure = ''Failure''"
| "outcome_debug Abort = ''Abort''"
| "outcome_debug AbortedRetake = ''AbortedRetake''"

fun intervention_debug :: "intervention_phase \<Rightarrow> string" where
  "intervention_debug IP_Engage = ''Engage''"
| "intervention_debug IP_Settle = ''Settle''"
| "intervention_debug IP_Release = ''Release''"

fun phase_debug :: "phase option \<Rightarrow> string" where
  "phase_debug None = ''None''"
| "phase_debug (Some Resetting) = ''Some(Resetting)''"
| "phase_debug (Some Ready) = ''Some(Ready)''"
| "phase_debug (Some Running) = ''Some(Running)''"
| "phase_debug (Some (Intervention i)) = ''Some(Intervention('' @ intervention_debug i @ ''))''"
| "phase_debug (Some (Terminal outcome)) = ''Some(Terminal('' @ outcome_debug outcome @ ''))''"
| "phase_debug (Some PostReset) = ''Some(PostReset)''"

definition open_result :: "episode_id \<Rightarrow> status \<Rightarrow> runtime_error + episode_id" where
  "open_result i s =
     (if su_shutdown s then Inl RE_ShuttingDown
      else if su_episode_state s = Some Ready then Inr i
      else Inl (RE_ResetFailed (''episode entered '' @ phase_debug (su_episode_state s) @ '' instead of READY'')))"

text \<open>A call: its result with the snapshots left (none while it blocks), the slots, what it injected.\<close>

type_synonym 'a call = "('a \<times> status list) option \<times> api_slots \<times> session_event list"

definition start_episode_with ::
  "api_config \<Rightarrow> start_world \<Rightarrow> string \<Rightarrow> episode_options \<Rightarrow> status list \<Rightarrow> api_slots \<Rightarrow> (runtime_error + episode_id) call" where
  "start_episode_with ac w task opts ss sl =
     (case start_guard False ss of
        None \<Rightarrow> (None, sl, [])
      | Some (Inl e, ss) \<Rightarrow> (Some (Inl e, ss), sl, [])
      | Some (Inr _, ss) \<Rightarrow>
          (case validate_task_metadata (eo_task_metadata opts) of
             Inl e \<Rightarrow> (Some (Inl e, ss), sl, [])
           | Inr _ \<Rightarrow>
               (let sl' = open_slots ac w task opts sl; evs = open_events ac w opts in
                case wait_until (opened (sw_id w)) ss of
                  None \<Rightarrow> (None, sl', evs)
                | Some (s, ss) \<Rightarrow>
                    (Some (open_result (sw_id w) s, ss),
                     (if is_remote (fst (effective_resets ac opts)) then sl' else sl'\<lparr>sl_owner := None\<rparr>), evs))))"


subsection \<open>Episodes the plane or an agent drives\<close>

definition hosted_waits :: "episode_id \<Rightarrow> status \<Rightarrow> bool" where
  "hosted_waits i s \<longleftrightarrow> su_shutdown s \<or> su_episode_id s \<noteq> Some i \<or>
     (case su_episode_state s of Some Running \<Rightarrow> True | Some (Intervention ip) \<Rightarrow> True | Some (Terminal outcome) \<Rightarrow> True | _ \<Rightarrow> False)"

definition hosted_result :: "episode_id \<Rightarrow> status \<Rightarrow> runtime_error + episode_id" where
  "hosted_result i s =
     (if su_shutdown s then Inl RE_ShuttingDown
      else if su_episode_id s = Some i \<and>
              (case su_episode_state s of Some Running \<Rightarrow> True | Some (Intervention ip) \<Rightarrow> True | _ \<Rightarrow> False)
      then Inr i
      else Inl (RE_ResetFailed ''hosted episode did not enter RUNNING''))"

definition start_hosted_episode ::
  "api_config \<Rightarrow> start_world \<Rightarrow> (string \<times> string) list \<Rightarrow> mono_ns \<Rightarrow> status list \<Rightarrow> api_slots \<Rightarrow> (runtime_error + episode_id) call" where
  "start_hosted_episode ac w metadata start_at ss sl =
     (case ac_agent_verb_gap ac of
        Some v \<Rightarrow> (Some (Inl (RE_MissingVerb v ''a hosted run (a live remote engage path)''
                    ''wire the robot's control before accepting hosted runs''), ss), sl, [])
      | None \<Rightarrow>
          (case start_episode_with ac w ''hosted run''
                  \<lparr>eo_pre_reset = None, eo_post_reset = None, eo_task_metadata = metadata, eo_agent_invite = None\<rparr> ss sl of
             (None, sl, evs) \<Rightarrow> (None, sl, evs)
           | (Some (Inl e, ss), sl, evs) \<Rightarrow> (Some (Inl e, ss), sl, evs)
           | (Some (Inr i, ss), sl, evs) \<Rightarrow>
               (map_option (\<lambda>(s, ss). (hosted_result i s, ss)) (wait_until (hosted_waits i) ss), sl, evs @ [Start start_at])))"

text \<open>What the hosted-run pump makes of the error of a start.\<close>

fun start_error_of :: "runtime_error \<Rightarrow> start_error" where
  "start_error_of RE_EpisodeActive = SE_EpisodeActive"
| "start_error_of (RE_InvalidTaskMetadata m) = SE_InvalidTaskMetadata"
| "start_error_of (RE_MissingVerb v b r) = SE_MissingVerb"
| "start_error_of RE_ShuttingDown = SE_ShuttingDown"
| "start_error_of (RE_ResetFailed m) = SE_ResetFailed"
| "start_error_of e = SE_Other"

record agent_outcome =
  ao_outcome :: terminal_outcome
  ao_episode_id :: episode_id
  ao_recording_ref :: "string option"
  ao_detail :: string

text \<open>The retained task update contributes only when it is about this episode.\<close>

definition assemble_agent_outcome :: "terminal_outcome \<Rightarrow> episode_id \<Rightarrow> agent_task_status option \<Rightarrow> agent_outcome" where
  "assemble_agent_outcome outcome i task =
     (let (ref, detail) =
        (case task of
           None \<Rightarrow> (None, [])
         | Some t \<Rightarrow>
             if as_episode_id t = i
             then (if as_recording_ref t \<noteq> [] then Some (as_recording_ref t) else None, as_detail t)
             else (None, []))
      in \<lparr>ao_outcome = outcome, ao_episode_id = i, ao_recording_ref = ref, ao_detail = detail\<rparr>)"

definition over :: "episode_id \<Rightarrow> status \<Rightarrow> bool" where
  "over i s \<longleftrightarrow> su_episode_id s \<noteq> Some i \<or> (\<exists>outcome. su_episode_state s = Some (Terminal outcome))"

lemma over_code [code]:
  "over i s \<longleftrightarrow> su_episode_id s \<noteq> Some i \<or> (case su_episode_state s of Some (Terminal outcome) \<Rightarrow> True | _ \<Rightarrow> False)"
  by (auto simp: over_def split: option.split phase.split)

text \<open>The outcome of the agent's episode in the snapshot that ends the wait; a successor means that it
  closed as an aborted retake.\<close>

definition agent_result :: "episode_id \<Rightarrow> status \<Rightarrow> terminal_outcome" where
  "agent_result i s =
     (case su_episode_state s of
        Some (Terminal outcome) \<Rightarrow> if su_episode_id s = Some i then outcome else AbortedRetake
      | _ \<Rightarrow> AbortedRetake)"

text \<open>A start that failed because the invite machinery closed the episode is an outcome.\<close>

definition recover_invite :: "string \<Rightarrow> agent_task_status option \<Rightarrow> status \<Rightarrow> runtime_error + agent_outcome" where
  "recover_invite detail task s =
     (case (su_episode_id s, su_episode_state s, su_agent_invite_aborted s) of
        (Some i, Some (Terminal outcome), True) \<Rightarrow> Inr (assemble_agent_outcome outcome i task)
      | _ \<Rightarrow> Inl (RE_ResetFailed detail))"

definition run_agent ::
  "api_config \<Rightarrow> start_world \<Rightarrow> string \<Rightarrow> int \<Rightarrow> episode_options \<Rightarrow> mono_ns \<Rightarrow> agent_task_status option \<Rightarrow>
   status list \<Rightarrow> api_slots \<Rightarrow> (runtime_error + agent_outcome) call" where
  "run_agent ac w prompt timeout opts start_at task ss sl =
     (case ac_agent_verb_gap ac of
        Some v \<Rightarrow> (Some (Inl (RE_MissingVerb v ''run_agent (an agent invite is a live engage path)''
                    ''wire the robot's control before inviting an agent''), ss), sl, [])
      | None \<Rightarrow>
          (let opts = opts\<lparr>eo_agent_invite := Some \<lparr>ai_prompt = prompt, ai_timeout_ns = timeout,
                 ai_task_metadata = eo_task_metadata opts\<rparr>\<rparr>
           in case start_episode_with ac w prompt opts ss sl of
                (None, sl, evs) \<Rightarrow> (None, sl, evs)
              | (Some (Inl (RE_ResetFailed detail), ss), sl, evs) \<Rightarrow>
                  (case ss of
                     [] \<Rightarrow> (None, sl, evs)
                   | s # ss \<Rightarrow> (Some (recover_invite detail task s, ss), sl, evs))
              | (Some (Inl e, ss), sl, evs) \<Rightarrow> (Some (Inl e, ss), sl, evs)
              | (Some (Inr i, ss), sl, evs) \<Rightarrow>
                  (map_option (\<lambda>(s, ss).
                      (if su_shutdown s then Inl RE_ShuttingDown
                       else Inr (assemble_agent_outcome (agent_result i s) i task), ss)) (wait_until (over i) ss),
                   sl, evs @ [Start start_at])))"

subsection \<open>Ending\<close>

definition episode_done :: "episode_id \<Rightarrow> status \<Rightarrow> bool" where
  "episode_done i s \<longleftrightarrow> su_shutdown s \<or> su_episode_id s \<noteq> Some i \<or>
     (case su_episode_state s of Some (Terminal outcome) \<Rightarrow> True | Some PostReset \<Rightarrow> True | _ \<Rightarrow> False)"

definition terminate_episode ::
  "episode_id \<Rightarrow> terminal_outcome \<Rightarrow> string \<Rightarrow> mono_ns \<Rightarrow> status list \<Rightarrow> (unit \<times> status list) option \<times> session_event list" where
  "terminate_episode i outcome reason t ss =
     (case ss of
        [] \<Rightarrow> (None, [])
      | s # ss \<Rightarrow>
          if episode_done i s then (Some ((), ss), [])
          else (map_option (\<lambda>(s, ss). ((), ss)) (wait_until (over i) ss), [Terminate outcome reason t]))"

definition episode_outcome :: "status \<Rightarrow> terminal_outcome option" where
  "episode_outcome s = (case su_outcome s of None \<Rightarrow> su_pinned_outcome s | Some outcome \<Rightarrow> Some outcome)"

subsection \<open>Local seams\<close>

definition grant_and_engage :: "string \<Rightarrow> string \<Rightarrow> actor_kind \<Rightarrow> mono_ns \<Rightarrow> mono_ns \<Rightarrow> session_event list" where
  "grant_and_engage i source actor t1 t2 = [ClaimGranted i source (of_kind actor) False t1, Engage i t2]"

definition release_claim :: "string \<Rightarrow> mono_ns \<Rightarrow> session_event list" where
  "release_claim i t = [Release i t]"

definition reset_window_engage :: "string \<Rightarrow> string \<Rightarrow> actor_kind \<Rightarrow> mono_ns \<Rightarrow> mono_ns \<Rightarrow> session_event list" where
  "reset_window_engage i source actor t1 t2 =
     [ClaimGranted i source (of_kind actor) False t1, ResetWindowEngage i t2]"

definition reset_window_complete :: "string \<Rightarrow> bool \<Rightarrow> bool option \<Rightarrow> mono_ns \<Rightarrow> session_event list" where
  "reset_window_complete i ok verified t = [ResetWindowComplete i ok verified t]"

definition push_intervention_chunk ::
  "nat \<Rightarrow> action_space \<Rightarrow> status \<Rightarrow> mono_ns \<Rightarrow> pb_action_chunk \<Rightarrow> chunk_intake_state \<times> timed_action list \<Rightarrow>
   session_event list \<times> chunk_intake_state \<times> timed_action list" where
  "push_intervention_chunk cap space s t ck intake =
     (if \<not> su_claim_active s then ([], intake)
      else intake_intervention_chunk cap space (part_policy_for (declared_part_names space \<noteq> [])) VF_Honor t
             (su_claim_generation s) ck intake)"

subsection \<open>Waiting on the mirror\<close>

lemma wait_until_Some:
  "wait_until pred ss = Some (s, rest) \<longleftrightarrow>
     (\<exists>before. ss = before @ s # rest \<and> (pred s \<or> su_shutdown s) \<and> (\<forall>u\<in>set before. \<not> pred u \<and> \<not> su_shutdown u))"
proof (induction ss)
  case (Cons u ss)
  show ?case
  proof (cases "pred u \<or> su_shutdown u")
    case True
    show ?thesis
    proof
      assume "wait_until pred (u # ss) = Some (s, rest)"
      with True have "s = u" "rest = ss" by auto
      with True show "\<exists>before. u # ss = before @ s # rest \<and> (pred s \<or> su_shutdown s) \<and>
          (\<forall>u\<in>set before. \<not> pred u \<and> \<not> su_shutdown u)" by (intro exI [of _ "[]"]) simp
    next
      assume "\<exists>before. u # ss = before @ s # rest \<and> (pred s \<or> su_shutdown s) \<and>
          (\<forall>u\<in>set before. \<not> pred u \<and> \<not> su_shutdown u)"
      then obtain before where b: "u # ss = before @ s # rest" "\<forall>u\<in>set before. \<not> pred u \<and> \<not> su_shutdown u" by blast
      with True have "before = []" by (cases before) auto
      with b(1) True show "wait_until pred (u # ss) = Some (s, rest)" by simp
    qed
  next
    case False
    with Cons show ?thesis by (auto simp: Cons_eq_append_conv)
  qed
qed simp

lemma wait_until_None: "wait_until pred ss = None \<longleftrightarrow> (\<forall>s\<in>set ss. \<not> pred s \<and> \<not> su_shutdown s)"
  by (induction ss) auto

lemma wait_until_in: "wait_until pred ss = Some (s, rest) \<Longrightarrow> s \<in> set ss \<and> set rest \<subseteq> set ss"
  by (auto simp: wait_until_Some)

lemma start_guard_in: "start_guard inside ss = Some (x, rest) \<Longrightarrow> set rest \<subseteq> set ss"
  by (induction inside ss rule: start_guard.induct) (auto split: if_splits option.splits phase.splits)

lemma start_guard_errors:
  "start_guard inside ss = Some (Inl e, rest) \<Longrightarrow> e = RE_ShuttingDown \<or> e = RE_EpisodeActive"
  by (induction inside ss rule: start_guard.induct) (auto split: if_splits option.splits phase.splits)

lemma start_guard_idle:
  "start_guard inside ss = Some (Inr u, rest) \<Longrightarrow>
     \<exists>s\<in>set ss. su_episode_state s = None \<or> (\<exists>out. su_episode_state s = Some (Terminal out))"
  by (induction inside ss rule: start_guard.induct) (auto split: if_splits option.splits phase.splits)

lemma opened_result:
  assumes "opened i s \<or> su_shutdown s" "open_result i s = Inr j"
  shows "j = i \<and> su_episode_id s = Some i \<and> su_episode_state s = Some Ready \<and> \<not> su_shutdown s"
  using assms by (auto simp: opened_def open_result_def split: if_splits)

text \<open>A call that injected nothing left the slots alone; one that injected passed both guards,
  injected the open events, and resolved the reset specifications for the new id.\<close>

lemma start_cases:
  assumes "start_episode_with ac w task opts ss sl = (r, sl', evs)"
  obtains (blocked) "evs = []" "sl' = sl" "r = None"
  | (refused) e rest where "evs = []" "sl' = sl" "r = Some (Inl e, rest)"
      "e = RE_ShuttingDown \<or> e = RE_EpisodeActive \<or> validate_task_metadata (eo_task_metadata opts) = Inl e"
  | (waiting) u mid where "evs = open_events ac w opts" "sl' = open_slots ac w task opts sl" "r = None"
      "start_guard False ss = Some (Inr u, mid)"
  | (returned) u mid s rest where "evs = open_events ac w opts" "r = Some (open_result (sw_id w) s, rest)"
      "start_guard False ss = Some (Inr u, mid)" "wait_until (opened (sw_id w)) mid = Some (s, rest)"
      "sl' = (if is_remote (fst (effective_resets ac opts)) then open_slots ac w task opts sl
              else (open_slots ac w task opts sl)\<lparr>sl_owner := None\<rparr>)"
      "validate_task_metadata (eo_task_metadata opts) = Inr ()"
proof (cases "start_guard False ss")
  case None
  with assms that(1) show ?thesis by (simp add: start_episode_with_def)
next
  case (Some a)
  then obtain x mid where g: "start_guard False ss = Some (x, mid)" by (cases a) auto
  show ?thesis
  proof (cases x)
    case (Inl e)
    with assms g that(2) start_guard_errors [of False ss e mid] show ?thesis by (auto simp: start_episode_with_def)
  next
    case (Inr u)
    show ?thesis
    proof (cases "validate_task_metadata (eo_task_metadata opts)")
      case (Inl e)
      with assms g Inr that(2) show ?thesis by (auto simp: start_episode_with_def)
    next
      case (Inr u')
      with assms g \<open>x = Inr u\<close> that(3,4) show ?thesis
        by (cases "wait_until (opened (sw_id w)) mid") (auto simp: start_episode_with_def Let_def)
    qed
  qed
qed

subsection \<open>Starting on a running reducer\<close>

text \<open>What a snapshot says of the session that published it.\<close>

lemma mirror_reads:
  assumes "mirrored r"
  shows "su_episode_id (re_status r) = map_option ep_id (episode (re_fsm r))"
    "su_episode_state (re_status r) = map_option ep_phase (episode (re_fsm r))"
  using assms by (simp_all add: mirrored_def Let_def episode_phase_def)

lemma snapshot_episode:
  assumes "mirrored r" "su_episode_id (re_status r) = Some i"
  shows "\<exists>e. episode (re_fsm r) = Some e \<and> ep_id e = i \<and> su_episode_state (re_status r) = Some (ep_phase e)"
  using assms mirror_reads [OF assms(1)] by (cases "episode (re_fsm r)") auto

lemma snapshot_idle:
  assumes "mirrored r"
    "su_episode_state (re_status r) = None \<or> (\<exists>out. su_episode_state (re_status r) = Some (Terminal out))"
  shows "\<not> active (re_fsm r)"
  using assms mirror_reads [OF assms(1)] by (auto simp: active_def split: option.split)

lemma open_slots_fields:
  "sl_specs (open_slots ac w task opts sl) =
     Some \<lparr>er_id = sw_id w, er_pre = fst (effective_resets ac opts), er_post = snd (effective_resets ac opts)\<rparr>"
  "sl_task (open_slots ac w task opts sl) = \<lparr>tc_task = task, tc_metadata = eo_task_metadata opts\<rparr>"
  by (simp_all add: open_slots_def case_prod_unfold Let_def)

text \<open>C36. A start that returns an episode means what it says: the session was idle, exactly the open and,
  for an inline reset, its result were injected, the reset specifications resolved for the episode
  are what the reset pump reads, and a state of the session machine was reached in which this
  episode is READY with its reset reported ok and, in BLOCKING mode, verified.\<close>

theorem started_episode_passed_its_reset:
  assumes "start_episode_with ac w task opts (map re_status rs) sl = (Some (Inr i, rest), sl', evs)"
    "\<forall>r\<in>set rs. mirrored r \<and> reachable cfg (re_fsm r)"
  shows "i = sw_id w \<and> evs = open_events ac w opts \<and>
    sl_specs sl' = Some \<lparr>er_id = i, er_pre = fst (effective_resets ac opts), er_post = snd (effective_resets ac opts)\<rparr> \<and>
    tc_task (sl_task sl') = task \<and>
    (\<exists>r\<in>set rs. \<not> active (re_fsm r)) \<and>
    (\<exists>r\<in>set rs. \<exists>e. episode (re_fsm r) = Some e \<and> ep_id e = i \<and> ep_phase e = Ready \<and> reset_ok e \<and>
       (ep_verification e = Blocking \<longrightarrow> ep_verified e))"
  using assms(1)
proof (cases rule: start_cases)
  case (returned u mid s rest')
  then have res: "open_result (sw_id w) s = Inr i" by simp
  from wait_until_in [OF returned(4)] start_guard_in [OF returned(3)] have "s \<in> set (map re_status rs)" by blast
  then obtain r where r: "r \<in> set rs" "s = re_status r" by auto
  from returned(4) have "opened (sw_id w) s \<or> su_shutdown s" by (auto simp: wait_until_Some)
  from opened_result [OF this res] have i: "i = sw_id w" "su_episode_id s = Some i" "su_episode_state s = Some Ready"
    by auto
  from r i snapshot_episode [of r i] assms(2) obtain e where e: "episode (re_fsm r) = Some e" "ep_id e = i" "ep_phase e = Ready"
    by auto
  from assms(2) r(1) have "reachable cfg (re_fsm r)" by blast
  from past_reset_is_verified [OF this e(1)] e(3) have "reset_ok e \<and> (ep_verification e = Blocking \<longrightarrow> ep_verified e)" by simp
  with e r(1) have ready: "\<exists>r\<in>set rs. \<exists>e. episode (re_fsm r) = Some e \<and> ep_id e = i \<and> ep_phase e = Ready \<and> reset_ok e \<and>
       (ep_verification e = Blocking \<longrightarrow> ep_verified e)" by blast
  from start_guard_idle [OF returned(3)] obtain r0 where r0: "r0 \<in> set rs"
    "su_episode_state (re_status r0) = None \<or> (\<exists>out. su_episode_state (re_status r0) = Some (Terminal out))" by auto
  with assms(2) snapshot_idle have "\<not> active (re_fsm r0)" by blast
  with r0(1) ready i(1) returned(1,5) show ?thesis
    by (auto simp: open_slots_fields)
qed simp_all

text \<open>Snapshots of a session that went through a script.\<close>

definition snapshot_after :: "session_event list \<Rightarrow> reducer" where
  "snapshot_after evs = publish_mirror (demo_reducer\<lparr>re_fsm := play evs\<rparr>)"

lemma snapshot_after_shows: "mirrored (snapshot_after evs)" "re_fsm (snapshot_after evs) = play evs"
  by (simp_all add: snapshot_after_def publish_mirror_mirrored)

lemma snapshot_after_reads:
  "su_episode_id (re_status (snapshot_after evs)) = map_option ep_id (episode (play evs))"
  "su_episode_state (re_status (snapshot_after evs)) = map_option ep_phase (episode (play evs))"
  "\<not> su_shutdown (re_status (snapshot_after evs))"
  by (simp_all add: mirror_reads snapshot_after_shows)
    (simp add: snapshot_after_def publish_mirror_def demo_reducer_def reducer_new_def status_default_def Let_def)

lemma snapshots_fit:
  assumes "\<forall>evs\<in>set scripts. list_all unguarded evs"
  shows "\<forall>r\<in>set (map snapshot_after scripts). mirrored r \<and> reachable demo_config (re_fsm r)"
  using assms reachable_play by (auto simp: snapshot_after_shows)

definition demo_api :: api_config where
  "demo_api = \<lparr>ac_pre_reset = None, ac_post_reset = None, ac_verification = Blocking, ac_agent_verb_gap = None\<rparr>"

definition demo_start :: start_world where
  "demo_start = \<lparr>sw_id = ''e1'', sw_open_at = 0, sw_hook = (True, None), sw_result_at = 2\<rparr>"

definition demo_slots :: api_slots where
  "demo_slots = \<lparr>sl_task = \<lparr>tc_task = [], tc_metadata = []\<rparr>, sl_specs = None, sl_owner = None\<rparr>"

definition demo_opts :: episode_options where
  "demo_opts = \<lparr>eo_pre_reset = None, eo_post_reset = None, eo_task_metadata = [], eo_agent_invite = None\<rparr>"



lemma shown_reads:
  "shown evs = None \<Longrightarrow> su_episode_id (re_status (snapshot_after evs)) = None \<and>
     su_episode_state (re_status (snapshot_after evs)) = None"
  "shown evs = Some (i, p) \<Longrightarrow> su_episode_id (re_status (snapshot_after evs)) = Some i \<and>
     su_episode_state (re_status (snapshot_after evs)) = Some p"
  by (auto simp: shown_def snapshot_after_reads)

lemma shown_scripts:
  "shown [] = None" "shown to_ready = Some (''e1'', Ready)" "shown (to_running False) = Some (''e1'', Running)"
  "shown (to_settle False) = Some (''e1'', Intervention IP_Settle)"
  using script_results by blast+

lemma running_claim: "claim (play (to_running False)) = None"
  "(case episode (play (to_running False)) of None \<Rightarrow> False | Some e \<Rightarrow> agent_invited e) = False"
  using script_results by (auto split: option.split)

lemmas demo_snapshots = shown_reads(1) [OF shown_scripts(1)] shown_reads(2) [OF shown_scripts(2)]
  shown_reads(2) [OF shown_scripts(3)] snapshot_after_reads(3)

lemma demo_started:
  "\<exists>sl' evs. start_episode_with demo_api demo_start ''pick'' demo_opts
      (map re_status (map snapshot_after ([[], to_ready] @ later))) demo_slots =
      (Some (Inr ''e1'', map re_status (map snapshot_after later)), sl', evs)"
  by (simp add: start_episode_with_def demo_snapshots opened_def open_result_def validate_task_metadata_def
      demo_start_def demo_opts_def Let_def)

theorem started_episode_passed_its_reset_witness:
  "\<exists>r\<in>set (map snapshot_after [[], to_ready]). \<exists>e. episode (re_fsm r) = Some e \<and> ep_id e = ''e1'' \<and>
     ep_phase e = Ready \<and> reset_ok e"
proof -
  obtain sl' evs where "start_episode_with demo_api demo_start ''pick'' demo_opts
      (map re_status (map snapshot_after [[], to_ready])) demo_slots = (Some (Inr ''e1'', []), sl', evs)"
    using demo_started [of "[]"] by auto
  from started_episode_passed_its_reset [OF this snapshots_fit]
  show ?thesis by (fastforce simp: to_ready_def open_event_def)
qed

text \<open>A start that is refused has done nothing: no event, no slot written.\<close>

theorem refused_start_leaves_nothing:
  assumes "start_episode_with ac w task opts ss sl = (Some (Inl e, rest), sl', evs)"
    "e = RE_EpisodeActive \<or> (\<exists>m. e = RE_InvalidTaskMetadata m)"
  shows "evs = [] \<and> sl' = sl"
  using assms(1)
proof (cases rule: start_cases)
  case (returned u mid s rest')
  with assms(2) show ?thesis by (auto simp: open_result_def split: if_splits)
qed (use assms in auto)

theorem refused_start_leaves_nothing_witness:
  "start_episode_with demo_api demo_start ''pick'' demo_opts (map re_status (map snapshot_after [to_running False])) demo_slots =
     (Some (Inl RE_EpisodeActive, []), demo_slots, [])"
proof -
  obtain sl' evs where s: "start_episode_with demo_api demo_start ''pick'' demo_opts
      (map re_status (map snapshot_after [to_running False])) demo_slots = (Some (Inl RE_EpisodeActive, []), sl', evs)"
    by (simp add: start_episode_with_def demo_snapshots)
  from refused_start_leaves_nothing [OF this] s show ?thesis by simp
qed

subsection \<open>Agent and hosted episodes\<close>


lemma start_rest_in:
  assumes "start_episode_with ac w task opts ss sl = (Some (x, rest), sl', evs)"
  shows "set rest \<subseteq> set ss"
proof (cases "start_guard False ss")
  case None
  with assms show ?thesis by (simp add: start_episode_with_def)
next
  case (Some a)
  obtain y mid where g: "start_guard False ss = Some (y, mid)" using Some by (cases a) auto
  from start_guard_in [OF g] wait_until_in [of "opened (sw_id w)" mid] assms g show ?thesis
    by (fastforce simp: start_episode_with_def Let_def split: sum.splits option.splits)
qed

lemma start_returns_id:
  assumes "start_episode_with ac w task opts ss sl = (Some (Inr i, rest), sl', evs)"
  shows "i = sw_id w \<and> evs = open_events ac w opts"
  using assms by (cases rule: start_cases) (auto simp: open_result_def split: if_splits)




lemma assemble_fields [simp]:
  "ao_outcome (assemble_agent_outcome out i task) = out" "ao_episode_id (assemble_agent_outcome out i task) = i"
  by (simp_all add: assemble_agent_outcome_def case_prod_unfold Let_def)

















text \<open>The mirror keeps the latest snapshot. When the terminal one is missed because another caller opened an
  ordinary next episode at once, the wait ends on that episode and \<^verbatim>\<open>run_agent\<close> reports a
  success as ABORTED_RETAKE.\<close>

lemma shown_next: "shown (to_running False @ [Terminate Success ''ok'' 5, EpisodeOpen ''e2'' Blocking False None False None None None 6]) =
    Some (''e2'', Resetting)"
  using script_results by blast

lemma missed_success_reads_as_retake:
  "fst (run_agent demo_api demo_start ''pick'' 5 demo_opts 3 None
     (map re_status (map snapshot_after [[], to_ready, to_running False,
        to_running False @ [Terminate Success ''ok'' 5, EpisodeOpen ''e2'' Blocking False None False None None None 6]])) demo_slots) =
   Some (Inr \<lparr>ao_outcome = AbortedRetake, ao_episode_id = ''e1'', ao_recording_ref = None, ao_detail = []\<rparr>, [])"
  by (simp add: run_agent_def start_episode_with_def demo_snapshots shown_reads(2) [OF shown_next] opened_def open_result_def
      validate_task_metadata_def demo_start_def demo_opts_def demo_api_def Let_def over_def agent_result_def
      assemble_agent_outcome_def snapshot_after_reads(3))

text \<open>A hosted start returns only once its episode runs: it needs the engage verbs, opens through the
  ordinary path, starts it, and a state was reached in which this episode is running.\<close>

theorem hosted_start_is_running:
  assumes "start_hosted_episode ac w metadata t (map re_status rs) sl = (Some (Inr i, rest), sl', evs)"
    "\<forall>r\<in>set rs. mirrored r \<and> reachable cfg (re_fsm r)"
  shows "ac_agent_verb_gap ac = None \<and> i = sw_id w \<and> (\<exists>opened. evs = opened @ [Start t] \<and> Start t \<notin> set opened) \<and>
    (\<exists>r\<in>set rs. \<exists>e. episode (re_fsm r) = Some e \<and> ep_id e = i \<and> run_started (ep_phase e))"
proof -
  let ?opts = "\<lparr>eo_pre_reset = None, eo_post_reset = None, eo_task_metadata = metadata, eo_agent_invite = None\<rparr>"
  from assms(1) have gap: "ac_agent_verb_gap ac = None" by (cases "ac_agent_verb_gap ac") (simp_all add: start_hosted_episode_def)
  obtain res sl1 evs1 where st: "start_episode_with ac w ''hosted run'' ?opts (map re_status rs) sl = (res, sl1, evs1)"
    by (metis prod_cases3)
  note run = assms(1) [unfolded start_hosted_episode_def gap option.case st prod.case]
  then obtain x mid where res: "res = Some (x, mid)" by (cases res) auto
  with run obtain j where x: "x = Inr j" by (cases x) auto
  from start_returns_id st res x have j: "j = sw_id w" "evs1 = open_events ac w ?opts" by blast+
  from run res x obtain s where s: "wait_until (hosted_waits j) mid = Some (s, rest)" "hosted_result j s = Inr i"
    "evs = evs1 @ [Start t]" by auto
  from s(2) have h: "j = i" "su_episode_id s = Some i" "\<exists>p. su_episode_state s = Some p \<and> run_started p"
    by (auto simp: hosted_result_def split: if_splits option.splits phase.splits)
  from wait_until_in [OF s(1)] start_rest_in [OF st [unfolded res]] obtain r where r: "r \<in> set rs" "s = re_status r" by auto
  with assms(2) snapshot_episode [of r i] h obtain e where
    "episode (re_fsm r) = Some e" "ep_id e = i" "run_started (ep_phase e)" by auto
  moreover have "Start t \<notin> set evs1"
    by (auto simp: j(2) open_events_def case_prod_unfold Let_def split: option.splits reset_spec.splits)
  ultimately show ?thesis using gap j(1) h(1) s(3) r(1) by blast
qed

definition hosted_demo :: "api_slots \<times> session_event list" where
  "hosted_demo = snd (start_hosted_episode demo_api demo_start [] 3
     (map re_status (map snapshot_after [[], to_ready, to_running False])) demo_slots)"

lemma demo_hosted:
  "start_hosted_episode demo_api demo_start [] 3 (map re_status (map snapshot_after [[], to_ready, to_running False])) demo_slots =
     (Some (Inr ''e1'', []), fst hosted_demo, snd hosted_demo)"
proof -
  have "fst (start_hosted_episode demo_api demo_start [] 3
     (map re_status (map snapshot_after [[], to_ready, to_running False])) demo_slots) = Some (Inr ''e1'', [])"
    by (simp add: start_hosted_episode_def start_episode_with_def demo_snapshots opened_def open_result_def
        validate_task_metadata_def demo_start_def demo_api_def Let_def hosted_waits_def hosted_result_def)
  then show ?thesis by (simp add: hosted_demo_def prod_eq_iff)
qed

theorem hosted_start_is_running_witness:
  "\<exists>r\<in>set (map snapshot_after [[], to_ready, to_running False]).
     \<exists>e. episode (re_fsm r) = Some e \<and> ep_id e = ''e1'' \<and> run_started (ep_phase e)"
  using hosted_start_is_running [OF demo_hosted snapshots_fit]
  by (fastforce simp: to_ready_def to_running_def open_event_def)

subsection \<open>The verbs an engage needs\<close>

lemma immediate_engage_requests_nothing:
  assumes "effective_handoff cfg \<noteq> HP_HoldFirst" "episode_phase s = Some Running" "claim s = Some cl"
    "step cfg s (Engage (cl_id cl) t) = Step s' efs"
  shows "RequestVerb V_Hold \<notin> set efs"
proof -
  obtain e where e: "episode s = Some e" "ep_phase e = Running" using assms(2) by (auto simp: episode_phase_def)
  have "yields (handle cfg (Engage (cl_id cl) t) s) (\<lambda>c. RequestVerb V_Hold \<notin> set (effects c))"
    using assms(1,3) e
    by (cases "agent_invited e \<and> \<not> agent_engaged e"; cases "effective_handoff cfg")
      (simp_all add: on_engage_def begin_engage_def mint_engage_handoff_def request_mint_def episode_phase_def Let_def ctx_simps)
  then show ?thesis
    using assms(4) by (cases "handle cfg (Engage (cl_id cl) t) s")
      (auto simp: step_def close_step_def yields_def finish_def ctx_simps Let_def split: sum.splits if_splits)
qed

text \<open>C38. The builder's check speaks about the machine that runs: it misses HOLD exactly when an engage from
  RUNNING would request it, whatever the declared policy and whether the space has delta parts.\<close>

theorem missing_hold_is_what_an_engage_requests:
  assumes "episode_phase s = Some Running" "claim s = Some cl"
  shows "missing_engage_verb (handoff cfg) (space_contains_delta cfg) hold send = Some ''hold'' \<longleftrightarrow>
    \<not> hold \<and> (\<exists>s' efs. step cfg s (Engage (cl_id cl) t) = Step s' efs \<and> RequestVerb V_Hold \<in> set efs)"
proof (cases "effective_handoff cfg = HP_HoldFirst")
  case True
  then have "missing_engage_verb (handoff cfg) (space_contains_delta cfg) hold send = Some ''hold'' \<longleftrightarrow> \<not> hold"
    by (auto simp: missing_engage_verb_def effective_handoff_def Let_def split: handoff_policy.splits if_splits)
  moreover obtain e where "episode s = Some e" "ep_phase e = Running" using assms(1) by (auto simp: episode_phase_def)
  ultimately show ?thesis using hold_first_engage [OF True _ _ assms(2), of e t] by blast
next
  case False
  then have "missing_engage_verb (handoff cfg) (space_contains_delta cfg) hold send \<noteq> Some ''hold''"
    by (auto simp: missing_engage_verb_def effective_handoff_def Let_def split: handoff_policy.splits if_splits)
  moreover have "RequestVerb V_Hold \<notin> set efs" if "step cfg s (Engage (cl_id cl) t) = Step s' efs" for s' efs
    using immediate_engage_requests_nothing [OF False assms that] .
  ultimately show ?thesis by blast
qed

theorem missing_hold_is_what_an_engage_requests_witness:
  "missing_engage_verb (HP_Immediate 0) False False False = Some ''hold'' \<longleftrightarrow>
    (\<exists>s' efs. step demo_config (play to_claimed) (Engage ''c1'' 5) =
      Step s' efs \<and> RequestVerb V_Hold \<in> set efs)"
proof -
  let ?s = "play to_claimed"
  have "shown to_claimed = Some (''e1'', Running)" "map_option cl_id (claim ?s) = Some ''c1''"
    using script_results by blast+
  then have "episode_phase ?s = Some Running" "map_option cl_id (claim ?s) = Some ''c1''"
    by (auto simp: shown_def episode_phase_def)
  moreover from this(2) obtain cl where "claim ?s = Some cl" "cl_id cl = ''c1''" by auto
  ultimately show ?thesis
    using missing_hold_is_what_an_engage_requests [of ?s cl demo_config False False 5] by (simp add: demo_config_def)
qed

subsection \<open>Ending the wrong episode\<close>

lemma terminate_carries_no_id:
  assumes "\<not> episode_done i s" "\<not> episode_done j s'"
  shows "snd (terminate_episode i out reason t (s # ss)) = snd (terminate_episode j out reason t (s' # ss'))"
  using assms by (simp add: terminate_episode_def)


text \<open>A caller still sees its episode in the mirror while a retake is queued before its terminate: the
  machine then ends the successor.\<close>

lemma stale_terminate_ends_the_successor:
  "snd (terminate_episode ''e1'' Abort ''done'' 10 (re_status (snapshot_after (to_settle False)) # ss)) =
     [Terminate Abort ''done'' 10]"
  "shown retaken_after = Some (''e2'', Resetting)"
  "shown (retaken_after @ [Terminate Abort ''done'' 10]) = Some (''e2'', Terminal Abort)"
proof -
  from shown_reads(2) [OF shown_scripts(4)] show "snd (terminate_episode ''e1'' Abort ''done'' 10
      (re_status (snapshot_after (to_settle False)) # ss)) = [Terminate Abort ''done'' 10]"
    by (simp add: terminate_episode_def episode_done_def snapshot_after_reads(3))
  show "shown retaken_after = Some (''e2'', Resetting)"
    "shown (retaken_after @ [Terminate Abort ''done'' 10]) = Some (''e2'', Terminal Abort)"
    using script_results by blast+
qed

subsection \<open>Two starts at once\<close>

text \<open>The start whose open the machine refused waits for its own id: it returns at the shutdown only.\<close>

lemma losing_start_never_returns:
  assumes "start_guard False ss = Some (Inr u, mid)" "validate_task_metadata (eo_task_metadata opts) = Inr ()"
    "\<forall>s\<in>set mid. su_episode_id s \<noteq> Some (sw_id w) \<and> \<not> su_shutdown s"
  shows "fst (start_episode_with ac w task opts ss sl) = None"
proof -
  have "wait_until (opened (sw_id w)) mid = None"
    using assms(3) by (simp add: wait_until_None opened_def)
  with assms(1,2) show ?thesis by (simp add: start_episode_with_def Let_def)
qed

text \<open>And the result it injects for the reset it did not open settles the reset of the start that won,
  whose hook may still be moving the robot.\<close>

lemma losing_start_injects:
  "open_events demo_api (demo_start\<lparr>sw_id := ''e2''\<rparr>) demo_opts =
     [EpisodeOpen ''e2'' Blocking False None False None None None 0, ResetResult True (Some True) 2]"
  by (simp add: open_events_def effective_resets_def demo_api_def demo_start_def demo_opts_def)

lemma losing_start_settles_the_winner:
  "shown [open_event False None None, LeaseTokenMinted ''L1'' 1] = Some (''e1'', Resetting)"
  "shown ([open_event False None None, LeaseTokenMinted ''L1'' 1] @
     open_events demo_api (demo_start\<lparr>sw_id := ''e2''\<rparr>) demo_opts) = Some (''e1'', Ready)"
proof -
  have "shown (take 2 two_opens) = Some (''e1'', Resetting)" "shown two_opens = Some (''e1'', Ready)"
    using script_results by blast+
  then show "shown [open_event False None None, LeaseTokenMinted ''L1'' 1] = Some (''e1'', Resetting)"
    "shown ([open_event False None None, LeaseTokenMinted ''L1'' 1] @
     open_events demo_api (demo_start\<lparr>sw_id := ''e2''\<rparr>) demo_opts) = Some (''e1'', Ready)"
    by (simp_all add: two_opens_def losing_start_injects)
qed

end
