(* ===== verification/Waddle_Local.thy ===== *)
theory Waddle_Local
  imports Waddle_Episodes Waddle_Plane
begin

text \<open>
  What a local caller may ask of a session (\<^verbatim>\<open>waddle-runtime/src/session.rs\<close>): HOLD and
  ESTOP, taking back control from a remote claim, the local jog, the gate calls of an episode, the
  submissions to the plane, proprioceptive reports and the check of a camera frame. What a call
  reads of the mirror and the clock is an input; texts are byte strings.
\<close>

subsection \<open>Timed waits on the mirror\<close>

text \<open>\<^verbatim>\<open>wait_until_for\<close>: each element is what one pass of the loop sees, with the clock
  and whether the wait that led to it ran out; \<open>None\<close> while the call still sleeps.\<close>

type_synonym watched = "(status \<times> mono_ns \<times> bool) list"

fun wait_until_for :: "(status \<Rightarrow> bool) \<Rightarrow> int \<Rightarrow> watched \<Rightarrow> status option" where
  "wait_until_for pred deadline [] = None"
| "wait_until_for pred deadline ((s, now, timed_out) # rest) =
     (if timed_out \<or> pred s \<or> su_shutdown s \<or> i64_sat (deadline - now) = 0 then Some s
      else wait_until_for pred deadline rest)"

definition two_seconds :: int where "two_seconds = 2000000000"

subsection \<open>Priority verbs\<close>

text \<open>The code points \<^verbatim>\<open>str::trim\<close> strips, in UTF-8.\<close>

definition whitespace :: "string list" where
  "whitespace =
     [[CHR 0x09], [CHR 0x0A], [CHR 0x0B], [CHR 0x0C], [CHR 0x0D], [CHR 0x20], [CHR 0xC2, CHR 0x85],
      [CHR 0xC2, CHR 0xA0], [CHR 0xE1, CHR 0x9A, CHR 0x80], [CHR 0xE2, CHR 0x80, CHR 0x80],
      [CHR 0xE2, CHR 0x80, CHR 0x81], [CHR 0xE2, CHR 0x80, CHR 0x82], [CHR 0xE2, CHR 0x80, CHR 0x83],
      [CHR 0xE2, CHR 0x80, CHR 0x84], [CHR 0xE2, CHR 0x80, CHR 0x85], [CHR 0xE2, CHR 0x80, CHR 0x86],
      [CHR 0xE2, CHR 0x80, CHR 0x87], [CHR 0xE2, CHR 0x80, CHR 0x88], [CHR 0xE2, CHR 0x80, CHR 0x89],
      [CHR 0xE2, CHR 0x80, CHR 0x8A], [CHR 0xE2, CHR 0x80, CHR 0xA8], [CHR 0xE2, CHR 0x80, CHR 0xA9],
      [CHR 0xE2, CHR 0x80, CHR 0xAF], [CHR 0xE2, CHR 0x81, CHR 0x9F], [CHR 0xE3, CHR 0x80, CHR 0x80]]"

text \<open>\<^verbatim>\<open>trim().is_empty()\<close>: nothing but whitespace.\<close>

function blank :: "string \<Rightarrow> bool" where
  "blank s =
     (if s = [] then True
      else (case find (\<lambda>w. take (length w) s = w) whitespace of
              None \<Rightarrow> False
            | Some w \<Rightarrow> blank (drop (length w) s)))"
  by pat_completeness auto
termination
proof (relation "measure length")
  fix s :: string and w assume "s \<noteq> []" "find (\<lambda>w. take (length w) s = w) whitespace = Some w"
  then have "w \<in> set whitespace" by (auto simp: find_Some_iff)
  then have "0 < length w" by (auto simp: whitespace_def)
  with \<open>s \<noteq> []\<close> show "(drop (length w) s, s) \<in> measure length" by simp
qed simp

declare blank.simps [simp del]

definition request_hold :: "string \<Rightarrow> status \<Rightarrow> verb_dispatch \<Rightarrow> (runtime_error + unit) \<times> verb_dispatch" where
  "request_hold reason s d =
     (if blank reason \<or> 1024 < length reason
      then (Inl (RE_InvalidHoldRequest ''reason must be non-empty and at most 1024 UTF-8 bytes''), d)
      else if su_shutdown s then (Inl RE_ShuttingDown, d)
      else (Inr (), request_priority_hold d))"

definition request_estop :: "status \<Rightarrow> verb_dispatch \<Rightarrow> (runtime_error + unit) \<times> verb_dispatch" where
  "request_estop s d = (if su_shutdown s then (Inl RE_ShuttingDown, d) else (Inr (), verb_request_queue VR_Estop d))"

subsection \<open>Taking back control\<close>

definition settled :: "status \<Rightarrow> bool" where
  "settled s \<longleftrightarrow> su_episode_state s = Some (Intervention IP_Settle)"

definition handed_back :: "status \<Rightarrow> bool" where
  "handed_back s \<longleftrightarrow> su_active_claim_id s = None \<and> su_episode_state s = Some Running"

text \<open>The result, none while the call waits, and what it injected.\<close>

definition handoff_remote_to_local ::
  "string \<Rightarrow> status \<Rightarrow> mono_ns \<Rightarrow> mono_ns \<Rightarrow> watched \<Rightarrow> (jog_refusal + unit) option \<times> session_event list" where
  "handoff_remote_to_local own s t from ws =
     (if su_shutdown s then (Some (Inl JR_ShuttingDown), [])
      else
        (case su_active_claim_id s of
           None \<Rightarrow> (Some (Inr ()), [])
         | Some i \<Rightarrow>
             if i = own then (Some (Inr ()), [])
             else if \<not> settled s then (Some (Inl JR_TakeoverUnavailable), [])
             else
               (map_option (\<lambda>s.
                   if su_shutdown s then Inl JR_ShuttingDown
                   else if \<not> handed_back s then Inl JR_TakeoverUnavailable
                   else Inr ())
                 (wait_until_for (\<lambda>s. su_shutdown s \<or> handed_back s) (i64_sat (from + two_seconds)) ws),
                [Release i t])))"

subsection \<open>The local jog\<close>

definition local_jog_source :: string where "local_jog_source = ''local-ui-jog''"

text \<open>The release event that fits the phase of the local claim, if it is the active one.\<close>

definition inject_local_jog_release :: "string \<Rightarrow> status \<Rightarrow> mono_ns \<Rightarrow> session_event list" where
  "inject_local_jog_release own s t =
     (if su_active_claim_id s \<noteq> Some own then []
      else if settled s then [Release own t]
      else [ClaimReleased own t])"

record jog_config =
  jc_claim_id :: string
  jc_space :: action_space
  jc_ring_cap :: nat

record jog_state =
  js_deadman :: deadman_state
  js_seq :: u64
  js_intake :: "chunk_intake_state \<times> timed_action list"

text \<open>What a jog reads: the mirror at its start, the clock at its injections, what its wait sees, the
  stamp of the step, and the mirror and clock at its end.\<close>

record jog_world =
  jw_read :: status
  jw_granted_at :: mono_ns
  jw_engaged_at :: mono_ns
  jw_wait_from :: mono_ns
  jw_watched :: watched
  jw_stamp_at :: mono_ns
  jw_last :: status
  jw_last_at :: mono_ns

definition own_settled :: "string \<Rightarrow> status \<Rightarrow> bool" where
  "own_settled own s \<longleftrightarrow> su_active_claim_id s = Some own \<and> settled s"

definition other_claim :: "string \<Rightarrow> status \<Rightarrow> bool" where
  "other_claim own s \<longleftrightarrow> su_active_claim_id s \<noteq> None \<and> su_active_claim_id s \<noteq> Some own"

definition jog_wait :: "string \<Rightarrow> status \<Rightarrow> bool" where
  "jog_wait own s \<longleftrightarrow> su_shutdown s \<or> (su_claim_active s \<and> other_claim own s) \<or> own_settled own s"

definition jog_chunk :: "pb_action \<Rightarrow> mono_ns \<Rightarrow> u64 \<Rightarrow> pb_action_chunk" where
  "jog_chunk a t n =
     \<lparr>pk_actions = [a], pk_horizon_ns = 0, pk_t_emitted_ns = t, pk_t_obs_ns = t, pk_seq = n, pk_source_id = local_jog_source,
      pk_provenance = Some \<lparr>pp_kind = 4, pp_custom_name = local_jog_source,
        pp_actor = Some \<lparr>pa_kind = actor_kind_to_pb AK_SiteOperator, pa_id = [], pa_display_name = []\<rparr>,
        pp_bypass_approval = True\<rparr>\<rparr>"

definition jog_refused :: "string \<Rightarrow> status \<Rightarrow> jog_refusal option" where
  "jog_refused own s =
     (if su_shutdown s then Some JR_ShuttingDown
      else if su_agent_invited s then Some JR_AgentInvitedEpisode
      else if su_claim_active s \<and> su_active_claim_id s \<noteq> Some own then Some JR_ConflictingClaim
      else if \<not> su_claim_active s \<and> su_episode_state s \<noteq> Some Running then Some JR_NoRunningEpisode
      else None)"

text \<open>The step once the wait has ended with a snapshot.\<close>

definition jog_step ::
  "jog_config \<Rightarrow> jog_world \<Rightarrow> pb_action \<Rightarrow> status \<Rightarrow> jog_state \<Rightarrow> (jog_refusal + unit) \<times> session_event list \<times> jog_state" where
  "jog_step jc w a s j =
     (let own = jc_claim_id jc in
      if su_shutdown s then (Inl JR_ShuttingDown, [], j)
      else if other_claim own s then (Inl JR_ConflictingClaim, [], j)
      else if \<not> own_settled own s
      then (Inl JR_EngageRefused, inject_local_jog_release own (jw_last w) (jw_last_at w), j)
      else
        (let n = js_seq j + 1;
             (evs, intake) = push_intervention_chunk (jc_ring_cap jc) (jc_space jc) (jw_last w) (jw_last_at w)
               (jog_chunk a (jw_stamp_at w) n) (js_intake j)
         in (Inr (), evs, \<lparr>js_deadman = deadman_arm own (jw_stamp_at w) (js_deadman j), js_seq = n, js_intake = intake\<rparr>)))"

fun at_once :: "pb_action \<Rightarrow> pb_action" where
  "at_once (PbAction tgt grip t part ff) = PbAction tgt grip 0 part ff"

text \<open>No result when building the action panics (which it never does) or while the call waits.\<close>

definition jog ::
  "jog_config \<Rightarrow> jog_world \<Rightarrow> jog_request \<Rightarrow> latest_joints \<Rightarrow> jog_state \<Rightarrow>
   (jog_refusal + unit) option \<times> session_event list \<times> jog_state" where
  "jog jc w req latest j =
     (case build_jog_action req (jc_space jc) latest of
        None \<Rightarrow> (None, [], j)
      | Some (Inl e) \<Rightarrow> (Some (Inl e), [], j)
      | Some (Inr a) \<Rightarrow>
          (let own = jc_claim_id jc; s = jw_read w in
           case jog_refused own s of
             Some e \<Rightarrow> (Some (Inl e), [], j)
           | None \<Rightarrow>
               (let evs = (if su_claim_active s then []
                           else [ClaimGranted own local_jog_source (of_kind AK_SiteOperator) True (jw_granted_at w),
                                 Engage own (jw_engaged_at w)])
                in case wait_until_for (jog_wait own) (i64_sat (jw_wait_from w + two_seconds)) (jw_watched w) of
                     None \<Rightarrow> (None, evs, j)
                   | Some s \<Rightarrow> (let (r, more_evs, j) = jog_step jc w (at_once a) s j in (Some r, evs @ more_evs, j)))))"

definition jog_heartbeat :: "status \<Rightarrow> mono_ns \<Rightarrow> jog_state \<Rightarrow> (jog_refusal + unit) \<times> jog_state" where
  "jog_heartbeat s t j =
     (if su_shutdown s then (Inl JR_ShuttingDown, j)
      else (let (r, d) = deadman_heartbeat t (js_deadman j) in (r, j\<lparr>js_deadman := d\<rparr>)))"

text \<open>The release, and whether the call has returned.\<close>

definition release_jog ::
  "string \<Rightarrow> status \<Rightarrow> mono_ns \<Rightarrow> mono_ns \<Rightarrow> watched \<Rightarrow> jog_state \<Rightarrow> bool \<times> session_event list \<times> jog_state" where
  "release_jog own s t from ws j =
     (let (armed, d) = deadman_disarm (js_deadman j);
          i = (case armed of None \<Rightarrow> own | Some c \<Rightarrow> c)
      in (wait_until_for (\<lambda>s. su_shutdown s \<or> su_active_claim_id s \<noteq> Some i) (i64_sat (from + two_seconds)) ws \<noteq> None,
          inject_local_jog_release i s t, j\<lparr>js_deadman := d\<rparr>))"

subsection \<open>Gate calls of an episode\<close>

record episode_handle =
  eh_started :: bool
  eh_gate :: gate_state

definition episode_gate_scoped ::
  "mono_ns \<Rightarrow> tick \<Rightarrow> flt list \<Rightarrow> flt option \<Rightarrow> flt list option \<Rightarrow> string option \<Rightarrow> episode_handle \<Rightarrow>
   gate_output \<times> gate_record \<times> session_event list \<times> episode_handle" where
  "episode_gate_scoped t ti vals gripper obs part h =
     (let (out, rec, g) = gate_scoped ti vals gripper obs part (eh_gate h)
      in (out, rec, if eh_started h then [] else [GateTick t], \<lparr>eh_started = True, eh_gate = g\<rparr>))"

text \<open>The text of a refusal is an input: it holds Rust's \<^verbatim>\<open>{:?}\<close> of the part.\<close>

definition gate_part ::
  "(string \<Rightarrow> string) \<Rightarrow> action_space \<Rightarrow> mono_ns \<Rightarrow> tick \<Rightarrow> string \<Rightarrow> flt list \<Rightarrow> flt list option \<Rightarrow> episode_handle \<Rightarrow>
   runtime_error + gate_output \<times> gate_record \<times> session_event list \<times> episode_handle" where
  "gate_part refusal whole t ti part vals obs h =
     (case as_spec whole of
        SS_Composite parts \<Rightarrow>
          (case map_of parts part of
             None \<Rightarrow> Inl (RE_InvalidScopedAction (refusal ''unknown part''))
           | Some space \<Rightarrow>
               if dims space \<noteq> Some (length vals) \<or> list_ex (\<lambda>v. \<not> flt_finite v) vals
               then Inl (RE_InvalidScopedAction (refusal ''requires finite values''))
               else Inr (episode_gate_scoped t ti vals None obs (Some part) h))
      | _ \<Rightarrow> Inl (RE_InvalidScopedAction ''named actions require a composite declaration''))"


subsection \<open>Submissions to the plane\<close>

text \<open>The encoded body of a message is an input: its encoding is the protocol library's.\<close>

definition chat_request_id_max_bytes :: nat where "chat_request_id_max_bytes = 128"
definition chat_request_text_max_bytes :: nat where "chat_request_text_max_bytes = 4096"

text \<open>The result, the message handed to the client, and the inbox.\<close>

type_synonym 'i submitted = "(runtime_error + unit) \<times> client_msg list \<times> 'i"

definition submit_chat ::
  "bool \<Rightarrow> status \<Rightarrow> plane_status \<Rightarrow> string \<Rightarrow> string \<Rightarrow> string \<Rightarrow> chat_inbox \<Rightarrow> chat_inbox submitted" where
  "submit_chat has_plane s z body i txt inbox =
     (if i = [] \<or> chat_request_id_max_bytes < length i
      then (Inl (RE_InvalidChat ''request_id must be 1..=128 UTF-8 bytes''), [], inbox)
      else if blank txt \<or> chat_request_text_max_bytes < length txt
      then (Inl (RE_InvalidChat ''text must be non-empty and at most 4096 UTF-8 bytes''), [], inbox)
      else if su_shutdown s then (Inl RE_ShuttingDown, [], inbox)
      else if \<not> zs_chat z
      then (Inl (RE_ChatUnavailable ''the connection is unavailable or did not negotiate chat; local controls remain available''), [], inbox)
      else if \<not> has_plane
      then (Inl (RE_ChatUnavailable ''this session has no control-plane transport; local controls remain available''), [], inbox)
      else
        (case chat_begin i inbox of
           (Inl e, inbox) \<Rightarrow> (Inl (RE_ChatUnavailable e), [], inbox)
         | (Inr _, inbox) \<Rightarrow> (Inr (), [CM_Gate (Some GP_ChatRequest) body], inbox)))"

record task_session_request =
  tq_request_id :: string
  tq_kind :: int
  tq_task_session_id :: string
  tq_name :: string
  tq_text :: string

datatype task_request_kind = TK_Unspecified | TK_Create | TK_Message | TK_Interject | TK_Interrupt | TK_History

definition task_request_kind_of :: "int \<Rightarrow> task_request_kind option" where
  "task_request_kind_of k =
     (if k = 0 then Some TK_Unspecified else if k = 1 then Some TK_Create else if k = 2 then Some TK_Message
      else if k = 3 then Some TK_Interject else if k = 4 then Some TK_Interrupt else if k = 5 then Some TK_History else None)"

definition task_id_bounded :: "string \<Rightarrow> bool" where
  "task_id_bounded v \<longleftrightarrow> v \<noteq> [] \<and> length v \<le> 200"

fun task_shape_ok :: "task_request_kind \<Rightarrow> task_session_request \<Rightarrow> bool" where
  "task_shape_ok TK_Create q \<longleftrightarrow> \<not> blank (tq_name q) \<and> tq_text q = []"
| "task_shape_ok TK_Message q \<longleftrightarrow> task_id_bounded (tq_task_session_id q) \<and> \<not> blank (tq_text q)"
| "task_shape_ok TK_Interject q \<longleftrightarrow> task_id_bounded (tq_task_session_id q) \<and> \<not> blank (tq_text q)"
| "task_shape_ok TK_Interrupt q \<longleftrightarrow> task_id_bounded (tq_task_session_id q) \<and> tq_text q = []"
| "task_shape_ok TK_History q \<longleftrightarrow> task_id_bounded (tq_task_session_id q) \<and> tq_text q = []"
| "task_shape_ok TK_Unspecified q \<longleftrightarrow> False"

definition submit_task_session ::
  "bool \<Rightarrow> status \<Rightarrow> plane_status \<Rightarrow> string \<Rightarrow> task_session_request \<Rightarrow> plane_events \<Rightarrow> plane_events submitted" where
  "submit_task_session has_plane s z body q inbox =
     (if tq_request_id q = [] \<or> 128 < length (tq_request_id q) \<or> 200 < length (tq_task_session_id q) \<or>
         200 < length (tq_name q) \<or> chat_request_text_max_bytes < length (tq_text q)
      then (Inl (RE_InvalidPlaneRequest ''task request fields exceed their protocol bounds''), [], inbox)
      else
        (case task_request_kind_of (tq_kind q) of
           None \<Rightarrow> (Inl (RE_InvalidPlaneRequest ''unknown task session request kind''), [], inbox)
         | Some k \<Rightarrow>
             if \<not> task_shape_ok k q
             then (Inl (RE_InvalidPlaneRequest ''task request fields do not match its operation''), [], inbox)
             else if su_shutdown s then (Inl RE_ShuttingDown, [], inbox)
             else if \<not> zs_task_sessions z
             then (Inl (RE_PlaneServiceUnavailable ''this connection did not negotiate named task sessions''), [], inbox)
             else if \<not> has_plane
             then (Inl (RE_PlaneServiceUnavailable ''this session has no control-plane transport''), [], inbox)
             else
               (case begin_task (tq_request_id q) (tq_task_session_id q) (tq_name q) inbox of
                  (Inl e, inbox) \<Rightarrow> (Inl (RE_PlaneServiceUnavailable e), [], inbox)
                | (Inr _, inbox) \<Rightarrow> (Inr (), [CM_Gate (Some GP_TaskSessionRequest) body], inbox))))"

record calibration_measurement =
  cm_calibration_id :: string
  cm_sample_id :: string
  cm_camera :: string
  cm_frame_id :: string
  cm_t_ns :: int
  cm_point :: "(flt \<times> flt \<times> flt) option"
  cm_depth_m :: "flt option"

definition measurement_bounded :: "calibration_measurement \<Rightarrow> flt \<times> flt \<times> flt \<Rightarrow> bool" where
  "measurement_bounded m pt \<longleftrightarrow>
     \<not> (cm_calibration_id m = [] \<or> 128 < length (cm_calibration_id m) \<or>
        cm_sample_id m = [] \<or> 128 < length (cm_sample_id m) \<or>
        cm_camera m = [] \<or> 128 < length (cm_camera m) \<or>
        cm_frame_id m = [] \<or> 256 < length (cm_frame_id m) \<or> cm_t_ns m < 0 \<or>
        \<not> flt_finite (fst pt) \<or> \<not> flt_finite (fst (snd pt)) \<or> \<not> flt_finite (snd (snd pt)) \<or>
        (case cm_depth_m m of None \<Rightarrow> False | Some d \<Rightarrow> \<not> flt_finite d \<or> flt_le d (Fin 0)))"

definition submit_calibration_measurement ::
  "bool \<Rightarrow> plane_status \<Rightarrow> string \<Rightarrow> calibration_measurement \<Rightarrow> (runtime_error + unit) \<times> client_msg list" where
  "submit_calibration_measurement has_plane z body m =
     (case cm_point m of
        None \<Rightarrow> (Inl (RE_InvalidPlaneRequest ''calibration point is required''), [])
      | Some pt \<Rightarrow>
          if \<not> measurement_bounded m pt
          then (Inl (RE_InvalidPlaneRequest ''calibration measurement is incomplete, non-finite, or out of bounds''), [])
          else if \<not> zs_calibration z
          then (Inl (RE_PlaneServiceUnavailable ''this connection did not negotiate calibration measurements''), [])
          else if \<not> has_plane
          then (Inl (RE_PlaneServiceUnavailable ''this session has no control-plane transport''), [])
          else (Inr (), [CM_Gate (Some GP_CalibrationMeasurement) body]))"

record workspace_artifact_request =
  wq_request_id :: string
  wq_graph_ids :: "string list"
  wq_calibration_names :: "string list"

definition request_workspace_artifact ::
  "bool \<Rightarrow> plane_status \<Rightarrow> string \<Rightarrow> workspace_artifact_request \<Rightarrow> (runtime_error + unit) \<times> client_msg list" where
  "request_workspace_artifact has_plane z body q =
     (if wq_request_id q = [] \<or> 128 < length (wq_request_id q) \<or> 32 < length (wq_graph_ids q) \<or>
         32 < length (wq_calibration_names q) \<or>
         list_ex (\<lambda>v. v = [] \<or> 128 < length v) (wq_graph_ids q @ wq_calibration_names q)
      then (Inl (RE_InvalidPlaneRequest ''workspace artifact request exceeds protocol bounds''), [])
      else if \<not> zs_workspace_artifacts z
      then (Inl (RE_PlaneServiceUnavailable ''this connection did not negotiate workspace artifacts''), [])
      else if \<not> has_plane
      then (Inl (RE_PlaneServiceUnavailable ''this session has no control-plane transport''), [])
      else (Inr (), [CM_Gate (Some GP_WorkspaceArtifactRequest) body]))"

subsection \<open>Reports and frames\<close>

definition report_proprio ::
  "string list \<Rightarrow> stamp \<Rightarrow> proprio_report \<Rightarrow> latest_joints \<times> stamped_proprio_report list \<Rightarrow>
   (runtime_error + unit) \<times> latest_joints \<times> stamped_proprio_report list" where
  "report_proprio parts t r s =
     (let (joints, sent) = s in
      if rp_part r \<noteq> [] \<and> rp_part r \<notin> set parts
      then (Inl (RE_Types (UnknownPart (rp_part r))), joints, sent)
      else (Inr (),
            (case rp_joint_pos r of None \<Rightarrow> joints | Some q \<Rightarrow> publish_joints (rp_part r) (mono t) q joints),
            sent @ [\<lparr>sr_report = r, sr_stamp = t\<rparr>]))"

text \<open>The declared cameras, and the size and length of the frame; \<open>usize\<close> has 64 bits.\<close>

definition validate_camera_frame ::
  "(string \<times> u32 \<times> u32) list \<Rightarrow> string \<Rightarrow> u32 \<times> u32 \<times> u64 \<Rightarrow> runtime_error + unit" where
  "validate_camera_frame cameras camera frame =
     (case map_of cameras camera of
        None \<Rightarrow> Inl (RE_UnknownCamera camera)
      | Some (width, height) \<Rightarrow>
          (let expected = (ucast width :: u64) * ucast height * 3; (w, h, len) = frame in
           if w \<noteq> width \<or> h \<noteq> height \<or> len \<noteq> expected
           then Inl (RE_Media (ME_BadFrame (unat len) (unat expected) ''RGB8 at the camera's declared resolution''))
           else Inr ()))"


subsection \<open>What the calls promise\<close>

lemma wait_until_for_in:
  "wait_until_for pred deadline ws = Some s \<Longrightarrow> s \<in> set (map fst ws)"
  by (induction pred deadline ws rule: wait_until_for.induct) (auto split: if_splits)

lemma mirror_claim:
  assumes "mirrored r"
  shows "su_active_claim_id (re_status r) = map_option cl_id (claim (re_fsm r))"
  using assms by (simp add: mirrored_def Let_def)

lemma jog_refused_None: "jog_refused own s = None \<Longrightarrow> \<not> su_shutdown s \<and> \<not> su_agent_invited s"
  by (auto simp: jog_refused_def split: if_splits)

lemma jog_accepted:
  assumes "jog jc w req latest j = (Some (Inr ()), evs, j')"
  obtains s where "s \<in> set (map fst (jw_watched w))" "own_settled (jc_claim_id jc) s"
    "js_deadman j' = deadman_arm (jc_claim_id jc) (jw_stamp_at w) (js_deadman j)" "js_seq j' = js_seq j + 1"
    "\<not> su_agent_invited (jw_read w)"
proof -
  let ?own = "jc_claim_id jc"
  from assms obtain a where a: "build_jog_action req (jc_space jc) latest = Some (Inr a)"
    by (auto simp: jog_def split: option.splits sum.splits)
  with assms have ok: "jog_refused ?own (jw_read w) = None"
    by (auto simp: jog_def Let_def split: option.splits)
  with a assms obtain s evs' where s: "wait_until_for (jog_wait ?own) (i64_sat (jw_wait_from w + two_seconds)) (jw_watched w) = Some s"
    "jog_step jc w (at_once a) s j = (Inr (), evs', j')"
    by (auto simp: jog_def Let_def split: option.splits prod.splits)
  from s(2) have "own_settled ?own s" "js_deadman j' = deadman_arm ?own (jw_stamp_at w) (js_deadman j)" "js_seq j' = js_seq j + 1"
    by (auto simp: jog_step_def Let_def split: if_splits prod.splits)
  with that [of s] wait_until_for_in [OF s(1)] jog_refused_None [OF ok] show thesis by blast
qed

lemma settled_writer:
  assumes "reachable cfg s" "episode_phase s = Some (Intervention IP_Settle)"
  shows "\<exists>cl l. claim s = Some cl \<and> lease s = Held l (claim_client cl) \<and>
    (gate_mode s = GM_Intervention \<or> gate_mode s = GM_Bypass)"
proof -
  obtain e where "episode s = Some e" "ep_phase e = Intervention IP_Settle"
    using assms(2) by (auto simp: episode_phase_def)
  then have "intervenor_writes s"
    using reachable_inv [OF assms(1)] by (auto simp: fsm_inv_Some intervention_ok_def)
  then show ?thesis
    by (cases "lease s") (auto simp: intervenor_writes_def claimed_gate_def)
qed

text \<open>C39. A jog moves the robot under its own claim only: one that is accepted saw a state of the session in
  which the local claim has settled and its client holds the lease, its step takes the next number
  of the session, and the deadman is armed for the claim from the stamp of the step on.\<close>

theorem jog_drives_its_own_claim:
  assumes "jog jc w req latest j = (Some (Inr ()), evs, j')" "map fst (jw_watched w) = map re_status rs"
    "\<forall>r\<in>set rs. mirrored r \<and> reachable cfg (re_fsm r)"
  shows "(\<exists>r\<in>set rs. \<exists>cl l. claim (re_fsm r) = Some cl \<and> cl_id cl = jc_claim_id jc \<and>
      lease (re_fsm r) = Held l (claim_client cl) \<and>
      (gate_mode (re_fsm r) = GM_Intervention \<or> gate_mode (re_fsm r) = GM_Bypass)) \<and>
    js_seq j' = js_seq j + 1 \<and> dm_claim_id (js_deadman j') = Some (jc_claim_id jc) \<and>
    dm_deadline (js_deadman j') = saturating_add (jw_stamp_at w) deadman_timeout_ns"
  using assms(1)
proof (cases rule: jog_accepted)
  case (1 s)
  with assms(2) obtain r where r: "r \<in> set rs" "s = re_status r" by auto
  with assms(3) have m: "mirrored r" "reachable cfg (re_fsm r)" by blast+
  from 1(2) r m have "episode_phase (re_fsm r) = Some (Intervention IP_Settle)"
    by (simp add: own_settled_def settled_def mirror_reads episode_phase_def)
  with settled_writer [OF m(2)] obtain cl l where cl: "claim (re_fsm r) = Some cl"
    "lease (re_fsm r) = Held l (claim_client cl)"
    "gate_mode (re_fsm r) = GM_Intervention \<or> gate_mode (re_fsm r) = GM_Bypass" by blast
  with 1(2) r m have "cl_id cl = jc_claim_id jc" by (simp add: own_settled_def mirror_claim)
  with cl r(1) 1(3,4) show ?thesis by (auto simp: deadman_arm_def)
qed

text \<open>A jog that is refused, or still waits, has armed nothing and pushed nothing.\<close>

lemma refused_jog_leaves_nothing:
  assumes "jog jc w req latest j = (res, evs, j')" "res \<noteq> Some (Inr ())"
  shows "j' = j"
  using assms
  by (auto simp: jog_def jog_step_def Let_def split: option.splits sum.splits if_splits prod.splits)

text \<open>The step is pushed under whatever claim is active when it is pushed: the intake reads the mirror
  again and asks for a claim, not for the local one.\<close>

lemma jog_chunk_asks_for_any_claim:
  assumes "own_settled own s" "\<not> su_shutdown s" "jc_claim_id jc = own"
    "su_claim_active (jw_last w)" "su_active_claim_id (jw_last w) = Some other" "other \<noteq> own"
  shows "snd (snd (jog_step jc w a s j)) =
    \<lparr>js_deadman = deadman_arm own (jw_stamp_at w) (js_deadman j), js_seq = js_seq j + 1,
     js_intake = snd (intake_intervention_chunk (jc_ring_cap jc) (jc_space jc)
       (part_policy_for (declared_part_names (jc_space jc) \<noteq> [])) VF_Honor (jw_last_at w)
       (su_claim_generation (jw_last w)) (jog_chunk a (jw_stamp_at w) (js_seq j + 1)) (js_intake j))\<rparr>"
  using assms by (simp add: jog_step_def own_settled_def other_claim_def push_intervention_chunk_def Let_def case_prod_unfold)


lemma shown_jogging: "shown to_jogging = Some (''e1'', Intervention IP_Settle)"
  using script_results by blast

lemma jogging_claim: "map_option cl_id (claim (play to_jogging)) = Some ''jog''"
  using script_results by blast

definition demo_jog_world :: jog_world where
  "demo_jog_world = \<lparr>jw_read = re_status (snapshot_after (to_running False)), jw_granted_at = 4, jw_engaged_at = 5,
     jw_wait_from = 5, jw_watched = [(re_status (snapshot_after to_jogging), 7, False)], jw_stamp_at = 8,
     jw_last = re_status (snapshot_after to_jogging), jw_last_at = 9\<rparr>"

definition demo_jog_config :: jog_config where
  "demo_jog_config = \<lparr>jc_claim_id = ''jog'', jc_space = delta_space, jc_ring_cap = 8\<rparr>"

definition demo_jog_state :: jog_state where
  "demo_jog_state = \<lparr>js_deadman = deadman_new, js_seq = 0, js_intake = (chunk_intake_new, [])\<rparr>"

lemma snapshot_after_claim:
  "su_active_claim_id (re_status (snapshot_after evs)) = map_option cl_id (claim (play evs))"
  "su_claim_active (re_status (snapshot_after evs)) = (claim (play evs) \<noteq> None)"
  "su_agent_invited (re_status (snapshot_after evs)) = (case episode (play evs) of None \<Rightarrow> False | Some e \<Rightarrow> agent_invited e)"
  by (simp_all add: snapshot_after_def publish_mirror_def Let_def)

lemma demo_jog_accepted: "\<exists>evs j'. jog demo_jog_config demo_jog_world demo_jog [] demo_jog_state = (Some (Inr ()), evs, j')"
proof -
  obtain a where a: "build_jog_action demo_jog delta_space [] = Some (Inr a)" using demo_jog_builds by blast
  have "own_settled ''jog'' (re_status (snapshot_after to_jogging))"
    using shown_reads(2) [OF shown_jogging] by (simp add: own_settled_def settled_def snapshot_after_claim jogging_claim)
  with a show ?thesis
    by (simp add: jog_def demo_jog_config_def demo_jog_world_def jog_refused_def demo_snapshots snapshot_after_claim(2,3)
        running_claim jog_wait_def jog_step_def other_claim_def own_settled_def Let_def case_prod_unfold)
qed

theorem jog_drives_its_own_claim_witness:
  "\<exists>cl l. claim (play to_jogging) = Some cl \<and> cl_id cl = ''jog'' \<and> lease (play to_jogging) = Held l (claim_client cl)"
proof -
  obtain evs j' where jog: "jog demo_jog_config demo_jog_world demo_jog [] demo_jog_state = (Some (Inr ()), evs, j')"
    using demo_jog_accepted by blast
  have rs: "map fst (jw_watched demo_jog_world) = map re_status (map snapshot_after [to_jogging])"
    by (simp add: demo_jog_world_def)
  have "\<forall>r\<in>set (map snapshot_after [to_jogging]). mirrored r \<and> reachable demo_config (re_fsm r)"
    by (rule snapshots_fit) (simp add: to_jogging_def to_running_def open_event_def)
  from jog_drives_its_own_claim [OF jog rs this] show ?thesis
    by (auto simp: snapshot_after_shows demo_jog_config_def)
qed

text \<open>A hand-off that returns leaves no remote writer: a state of the session was reached in which no
  claim is active, or the local one. At most the release of the remote claim is injected.\<close>

theorem handoff_leaves_no_remote_writer:
  assumes "handoff_remote_to_local own (re_status r0) t from ws = (Some (Inr ()), evs)"
    "map fst ws = map re_status rs" "\<forall>r\<in>set (r0 # rs). mirrored r"
  shows "(\<exists>r\<in>set (r0 # rs). claim (re_fsm r) = None \<or> map_option cl_id (claim (re_fsm r)) = Some own) \<and>
    (evs = [] \<or> (\<exists>cl. claim (re_fsm r0) = Some cl \<and> cl_id cl \<noteq> own \<and> evs = [Release (cl_id cl) t] \<and>
       episode_phase (re_fsm r0) = Some (Intervention IP_Settle)))"
proof (cases "su_active_claim_id (re_status r0) = None \<or> su_active_claim_id (re_status r0) = Some own")
  case True
  with assms(1) have "evs = []" by (auto simp: handoff_remote_to_local_def split: if_splits)
  with True assms(3) mirror_claim [of r0] show ?thesis by auto
next
  case False
  then obtain i where i: "su_active_claim_id (re_status r0) = Some i" "i \<noteq> own" by auto
  with assms(1) have s: "settled (re_status r0)" "evs = [Release i t]"
    by (auto simp: handoff_remote_to_local_def split: if_splits)
  from assms(1) i s(1) obtain s where "wait_until_for (\<lambda>s. su_shutdown s \<or> handed_back s) (i64_sat (from + two_seconds)) ws = Some s"
    "handed_back s"
    by (auto simp: handoff_remote_to_local_def split: if_splits)
  with wait_until_for_in assms(2) obtain r where r: "r \<in> set rs" "handed_back (re_status r)" by fastforce
  with assms(3) mirror_claim [of r] have "claim (re_fsm r) = None" by (auto simp: handed_back_def)
  moreover have "\<exists>cl. claim (re_fsm r0) = Some cl \<and> cl_id cl = i" using assms(3) i mirror_claim [of r0] by auto
  moreover have "episode_phase (re_fsm r0) = Some (Intervention IP_Settle)"
    using s(1) assms(3) by (simp add: settled_def mirror_reads episode_phase_def)
  ultimately show ?thesis using r(1) s(2) i(2) by auto
qed

theorem handoff_leaves_no_remote_writer_witness:
  "handoff_remote_to_local ''jog'' (re_status (snapshot_after (to_settle False))) 9 9
     [(re_status (snapshot_after (to_running False)), 10, False)] = (Some (Inr ()), [Release ''c1'' 9]) \<and>
   (\<exists>r\<in>set (map snapshot_after [to_settle False, to_running False]). claim (re_fsm r) = None)"
proof -
  have c: "map_option cl_id (claim (play (to_settle False))) = Some ''c1''"
    and p: "shown (to_settle False) = Some (''e1'', Intervention IP_Settle)" using script_results by blast+
  have ids: "su_active_claim_id (re_status (snapshot_after (to_settle False))) = Some ''c1''"
    "su_active_claim_id (re_status (snapshot_after (to_running False))) = None"
    unfolding snapshot_after_claim(1) c running_claim(1) by simp_all
  have run: "handoff_remote_to_local ''jog'' (re_status (snapshot_after (to_settle False))) 9 9
     [(re_status (snapshot_after (to_running False)), 10, False)] = (Some (Inr ()), [Release ''c1'' 9])"
    using shown_reads(2) [OF p] ids
    by (simp add: handoff_remote_to_local_def settled_def handed_back_def demo_snapshots snapshot_after_reads(3))
  from handoff_leaves_no_remote_writer [OF run, of "[snapshot_after (to_running False)]"]
  have "\<exists>r\<in>set (map snapshot_after [to_settle False, to_running False]).
      claim (re_fsm r) = None \<or> map_option cl_id (claim (re_fsm r)) = Some ''jog''"
    by (simp add: snapshot_after_shows)
  with run c show ?thesis by (auto simp: snapshot_after_shows running_claim)
qed

subsection \<open>Submissions\<close>

lemma submitted_flag:
  "m \<in> set (fst (snd (submit_chat hp s z body i txt inbox))) \<Longrightarrow> m = CM_Gate (Some GP_ChatRequest) body \<and> zs_chat z"
  "m \<in> set (fst (snd (submit_task_session hp s z body q evs))) \<Longrightarrow>
     m = CM_Gate (Some GP_TaskSessionRequest) body \<and> zs_task_sessions z"
  "m \<in> set (snd (submit_calibration_measurement hp z body cm)) \<Longrightarrow>
     m = CM_Gate (Some GP_CalibrationMeasurement) body \<and> zs_calibration z"
  "m \<in> set (snd (request_workspace_artifact hp z body wq)) \<Longrightarrow>
     m = CM_Gate (Some GP_WorkspaceArtifactRequest) body \<and> zs_workspace_artifacts z"
  by (auto simp: submit_chat_def submit_task_session_def submit_calibration_measurement_def
      request_workspace_artifact_def split: if_splits sum.splits prod.splits option.splits)

text \<open>C40. Nothing is submitted to a plane that did not ask for it: whatever a caller submits while the pump has
  handled what the client surfaced, a message leaves only on a registered connection that accepted
  its feature, so the client does not discard it.\<close>

theorem submissions_reach_a_willing_plane:
  assumes "client_reachable ccfg c" "pf_binding_required cfg = connector_binding_required ccfg"
    and "handled vs = hears d c" "pump_run cfg vs plane_pump_new = (outs, p)" "ct_point c \<noteq> Stopped"
    and "m \<in> set (fst (snd (submit_chat hp s (pu_status p) body i txt inbox))) \<or>
      m \<in> set (fst (snd (submit_task_session hp s (pu_status p) body q evs))) \<or>
      m \<in> set (snd (submit_calibration_measurement hp (pu_status p) body cm)) \<or>
      m \<in> set (snd (request_workspace_artifact hp (pu_status p) body wq))"
  shows "on_registration (ct_point c) \<and> flag_allows (current_accepted c) m \<and> \<not> buffer_when_offline m"
proof -
  from current_registration [OF assms(1-5)] obtain reg where reg: "shows_registration reg p"
    "map_option rg_flags reg = (if on_registration (ct_point c) then Some (current_accepted c) else None)" by blast
  have z: "zs_chat (pu_status p) = accepts reg flag_chat" "zs_task_sessions (pu_status p) = accepts reg flag_task_sessions"
    "zs_calibration (pu_status p) = accepts reg flag_calibration"
    "zs_workspace_artifacts (pu_status p) = accepts reg flag_workspace_artifacts"
    by (simp_all only: reg(1) [unfolded shows_registration_def])
  from assms(6) have "\<exists>f. connection_scoped_flag m = Some f \<and> accepts reg f"
  proof (elim disjE)
    assume "m \<in> set (fst (snd (submit_chat hp s (pu_status p) body i txt inbox)))"
    from submitted_flag(1) [OF this] z(1) show ?thesis by simp
  next
    assume "m \<in> set (fst (snd (submit_task_session hp s (pu_status p) body q evs)))"
    from submitted_flag(2) [OF this] z(2) show ?thesis by simp
  next
    assume "m \<in> set (snd (submit_calibration_measurement hp (pu_status p) body cm))"
    from submitted_flag(3) [OF this] z(3) show ?thesis by simp
  next
    assume "m \<in> set (snd (request_workspace_artifact hp (pu_status p) body wq))"
    from submitted_flag(4) [OF this] z(4) show ?thesis by simp
  qed
  then obtain f where f: "connection_scoped_flag m = Some f" "accepts reg f" by blast
  from f(2) reg(2) have "on_registration (ct_point c) \<and> f \<in> set (current_accepted c)"
    by (cases reg) (auto split: if_splits)
  with f(1) show ?thesis by (simp add: flag_allows_def buffer_when_offline_def)
qed

lemma chat_client_reachable: "client_reachable demo_client_config chat_client"
  using chat_client_results unfolding chat_client_def by (auto intro: client_run_reachable client_reachable.start)

lemma chat_client_facts:
  "on_registration (ct_point chat_client)" "current_accepted chat_client = [flag_chat]" "ct_point chat_client \<noteq> Stopped"
  using chat_client_results by (auto simp: chat_client_def)

lemma blank_hello: "\<not> blank ''hello''"
  by code_simp

theorem submissions_reach_a_willing_plane_witness:
  "\<exists>outs p. pump_run demo_pump_config (map (\<lambda>e. demo_pump_view 1 (Some e)) (hears demo_decoder chat_client)) plane_pump_new = (outs, p) \<and>
     fst (snd (submit_chat True status_default (pu_status p) ''x'' ''r1'' ''hello'' chat_new)) = [CM_Gate (Some GP_ChatRequest) ''x''] \<and>
     flag_allows (current_accepted chat_client) (CM_Gate (Some GP_ChatRequest) ''x'')"
proof -
  let ?vs = "map (\<lambda>e. demo_pump_view 1 (Some e)) (hears demo_decoder chat_client)"
  obtain outs p where run: "pump_run demo_pump_config ?vs plane_pump_new = (outs, p)" by (metis prod.exhaust)
  have cfg: "pf_binding_required demo_pump_config = connector_binding_required demo_client_config"
    using demo_client_flags(2) by (simp add: demo_pump_config_def)
  from current_registration [OF chat_client_reachable cfg handled_demo run chat_client_facts(3)] chat_client_facts(1,2)
  obtain reg where "shows_registration reg p" "map_option rg_flags reg = Some [flag_chat]" by auto
  then have "zs_chat (pu_status p)" by (cases reg) (auto simp: shows_registration_def)
  then have sent: "fst (snd (submit_chat True status_default (pu_status p) ''x'' ''r1'' ''hello'' chat_new)) =
      [CM_Gate (Some GP_ChatRequest) ''x'']"
    by (simp add: submit_chat_def chat_request_id_max_bytes_def chat_request_text_max_bytes_def blank_hello
        status_default_def chat_begin_def chat_new_def)
  have "flag_allows (current_accepted chat_client) (CM_Gate (Some GP_ChatRequest) ''x'')"
    using submissions_reach_a_willing_plane [OF chat_client_reachable cfg handled_demo run chat_client_facts(3),
        of "CM_Gate (Some GP_ChatRequest) ''x''" True status_default "''x''" "''r1''" "''hello''" chat_new] sent by simp
  with run sent show ?thesis by blast
qed

text \<open>A submission that is refused leaves the inboxes as they were, and one that is accepted opens its turn.\<close>

lemma refused_submission_opens_no_turn:
  "submit_chat hp s z body i txt inbox = (Inl e, ms, inbox') \<Longrightarrow> ms = [] \<and> inbox' = inbox"
  "submit_task_session hp s z body q evs = (Inl e, ms, evs') \<Longrightarrow> ms = [] \<and> evs' = evs"
  by (auto simp: submit_chat_def submit_task_session_def chat_begin_def begin_task_def
      split: if_splits sum.splits prod.splits option.splits)

subsection \<open>The first gate call\<close>

text \<open>However often an episode is gated, the machine is told of its first action once.\<close>

fun gate_calls ::
  "(mono_ns \<times> tick \<times> flt list \<times> flt option \<times> flt list option \<times> string option) list \<Rightarrow> episode_handle \<Rightarrow> session_event list" where
  "gate_calls [] h = []"
| "gate_calls ((t, ti, vals, gripper, obs, part) # rest) h =
     (let (out, rec, evs, h) = episode_gate_scoped t ti vals gripper obs part h in evs @ gate_calls rest h)"

lemma started_gate_calls: "eh_started h \<Longrightarrow> gate_calls calls h = []"
  by (induction calls h rule: gate_calls.induct) (auto simp: episode_gate_scoped_def Let_def split: prod.splits)

lemma episode_ticks_once:
  "\<not> eh_started h \<Longrightarrow> gate_calls calls h = (case calls of [] \<Rightarrow> [] | c # cs \<Rightarrow> [GateTick (fst c)])"
  by (cases calls) (auto simp: episode_gate_scoped_def Let_def started_gate_calls split: prod.splits)

end
