(* ===== verification/Spec2Isabelle.thy ===== *)
theory Spec2Isabelle
  imports Waddle_Windows Waddle_Ingest Waddle_Client Waddle_Loop Waddle_Inbox Waddle_Jog
    Waddle_Intake Waddle_Supervision Waddle_Hosted Waddle_Plane Waddle_Episodes Waddle_Local
begin

text \<open>
  A model of the Waddle SDK core (\<^verbatim>\<open>src/waddle-core/crates\<close>): the software that
  lets a robot policy be supervised, interrupted and taken over by a remote person or agent while
  exactly one party writes to the robot, and that records who did what.

  \<^bold>\<open>The program.\<close> The integrator's control loop calls the \<^emph>\<open>gate\<close> once per
  tick. The gate either passes the policy's action, substitutes one of the intervention stream, or
  dispatches nothing, as the current gate plan says. The plan is written by the \<^emph>\<open>reducer\<close>,
  the one thread that steps the \<^emph>\<open>session machine\<close> (a pure function of configuration, state
  and event) and interprets its effects: it switches the gate, queues verbs for the \<^emph>\<open>verb
  dispatcher\<close> (hold, emergency stop, reset), arms timers, feeds the \<^emph>\<open>sidecar builder\<close>
  and the episode recording, publishes the status mirror and sends messages to the
  \<^emph>\<open>control-plane client\<close>, which buffers them while it is offline. \<^emph>\<open>Pumps\<close> turn
  what comes from outside (plane messages, chunks, media packets, verb outcomes, tripwires, the
  bypass and reset supervision, runs the plane starts) into session events.

  \<^bold>\<open>Theories, in the order of their imports.\<close>
  \<^item> \<open>Waddle_Prelude\<close>, \<open>Waddle_Float\<close>, \<open>Waddle_Rounding\<close>: machine integers
    with wrap-around and saturation written out, decimal rendering, the lemma collections, and
    IEEE arithmetic as exact rational operations followed by rounding (monotone, exact on the bounds).
  \<^item> \<open>Waddle_Types\<close>, \<open>Waddle_Space\<close>, \<open>Waddle_Action\<close>
    (\<^verbatim>\<open>waddle-types\<close>): enums and their wire numbers, action spaces and their
    validation, flattening, unflattening and chunk validation.
  \<^item> \<open>Waddle_Lease\<close>, \<open>Waddle_Event\<close>, \<open>Waddle_Grant_Health\<close>,
    \<open>Waddle_Session\<close>, \<open>Waddle_Step\<close> (\<^verbatim>\<open>waddle-fsm\<close>): the lease machine,
    configuration, events, effects and emissions, grant health, the context helpers of
    \<^verbatim>\<open>session.rs\<close> and one handler per arm of \<open>step\<close>. A panic is \<open>None\<close>,
    a rejection \<open>Inl\<close>.
  \<^item> \<open>Waddle_Context\<close>, \<open>Waddle_Invariant\<close>, \<open>Waddle_Preservation\<close>,
    \<open>Waddle_Rows\<close>, \<open>Waddle_Frame\<close>, \<open>Waddle_Spec\<close>, \<open>Waddle_Scenario\<close>,
    \<open>Waddle_Safety\<close>, \<open>Waddle_Hold\<close>, \<open>Waddle_Intervention\<close>, \<open>Waddle_Authority\<close>,
    \<open>Waddle_Windows\<close>: the proofs about the session machine: the invariant every row keeps,
    frame lemmas derived once in a locale, the episode machine of \<^verbatim>\<open>docs/FSM.md\<close>, the
    named departures of the code from it and the refinement, the runs that wait for a hold, and the
    properties of emergency stops, engages, releases, retakes, lease tokens, gate plans, reset
    windows and agent invites.
  \<^item> \<open>Waddle_Buffers\<close>, \<open>Waddle_Ingest\<close>, \<open>Waddle_Client\<close>
    (\<^verbatim>\<open>waddle-ingest\<close>, \<^verbatim>\<open>waddle-controlplane\<close>): drop-oldest windows
    behind one interface, the in-flight limiter with racing callers, clocks, the offset estimator and
    the hub, and the client thread as a step machine over the answers of its environment.
  \<^item> \<open>Waddle_Jitter\<close>, \<open>Waddle_Blend\<close>, \<open>Waddle_Gate\<close>
    (\<^verbatim>\<open>waddle-gate\<close>): the jitter buffer with its replan policies, the hand-off blend,
    and the gate call with its statistics and records.
  \<^item> \<open>Waddle_Tripwire\<close>, \<open>Waddle_Sidecar\<close>, \<open>Waddle_Recording\<close>
    (\<^verbatim>\<open>waddle-tripwire\<close>, \<^verbatim>\<open>dualwrite.rs\<close>, \<^verbatim>\<open>waddle-sidecar\<close>,
    the drains of \<^verbatim>\<open>reducer.rs\<close>): watchdogs, the semantic record of an episode, and
    the rows of its recording.
  \<^item> \<open>Waddle_Reducer\<close>, \<open>Waddle_Runtime\<close>, \<open>Waddle_Loop\<close>
    (\<^verbatim>\<open>reducer.rs\<close>, \<^verbatim>\<open>ack.rs\<close>): the reducer's state and operations, and
    the composition of the session machine with everything it drives.
  \<^item> \<open>Waddle_Verbs\<close>, \<open>Waddle_Inbox\<close>, \<open>Waddle_Jog\<close>, \<open>Waddle_Latch\<close>,
    \<open>Waddle_Intake\<close>, \<open>Waddle_Supervision\<close>, \<open>Waddle_Hosted\<close>
    (\<^verbatim>\<open>waddle-runtime\<close>): the verb dispatcher in micro steps, the chat and plane inboxes,
    the local jog and its deadman, the once-per-window latch, the intakes of the intervention stream,
    the bypass and reset pumps, and the pump of the runs the plane starts.
  \<^item> \<open>Waddle_Pump\<close>, \<open>Waddle_Plane\<close> (\<^verbatim>\<open>pumps.rs\<close>,
    \<^verbatim>\<open>mirror.rs\<close>): the plane pump, which decodes what the plane sends and keeps the
    negotiated features, and its composition with the control-plane client.
  \<^item> \<open>Waddle_Scripts\<close>, \<open>Waddle_Episodes\<close> (\<^verbatim>\<open>waddle-runtime/src/session.rs\<close>): the calls that
    open, drive and end episodes over the snapshots of the status mirror, the checks and declared
    flags of the builder, and the local authority seams; the scripts are the sessions they are tried on.
  \<^item> \<open>Waddle_Local\<close> (\<^verbatim>\<open>waddle-runtime/src/session.rs\<close>): what a local caller asks of
    a session: HOLD, ESTOP, taking back control, the jog, gate calls, submissions to the plane,
    reports and the check of a camera frame.

  \<^bold>\<open>What the lemmas show.\<close> For the session machine: no deliverable event panics, the
  invariant holds in every reachable state, every step is an edge of the machine in
  \<^verbatim>\<open>docs/FSM.md\<close> or one of three named departures from it, terminal outcomes stand (but
  for a window deadline that comes late), no run of events mints an engage token before its hold
  succeeded, and the lease moves only by a mint that was planned or an emergency stop. For the
  gate: it dispatches as the plan says, playout never goes back, and the gripper and part of an
  action survive blending. For the composition: the plan the gate reads is the one the session calls
  for in every reachable state of the reducer, effects leave once and in order, each directive is
  acknowledged once, and each ended episode leaves one sidecar, whose provenance
  spans say at every instant who drove, and a wake fires exactly the timers that are due. For
  the client: registration is a barrier on every connection, and what was written and buffered is a
  subsequence of the history, short exactly by what the drop counter counts. For the pumps: refusals
  of chunks and of teleop packets are reported once per claim window, the stream is consumed once whoever consumes it, reset hooks
  run once, answers to a hosted run are idempotent and runs fail closed.
  For the plane: what the session believes of the connection is what the client registered,
  partition events alternate, a directive is acknowledged once, heartbeats are paced. For the
  calls: a start that returns an episode means that the session machine made it READY and
  verified, a refused start leaves nothing behind, and the outcome an agent call returns is the
  one its own episode is first seen to end with; a jog drives its own claim only, a hand-off leaves no
  remote writer, and nothing is submitted to a plane that did not accept the feature.

  \<^bold>\<open>Interfaces.\<close> \<open>token_machine\<close> (what a lease promises about dead tokens) is
  interpreted on the lease machine and on the composed session machine; \<open>session_frame\<close> on
  three relations; \<open>drop_oldest\<close> on the offline buffer, the offset window and the tick
  statistics; \<open>pending_map\<close> on the sorted association list that stands for a
  \<^verbatim>\<open>BTreeMap\<close>; \<open>once_per_key\<close> on the claim-window latch and on the marks of the
  reset pump.

  \<^bold>\<open>Bounds and fuel.\<close> Rust's \<open>i64\<close> nanoseconds are integers reduced by
  \<open>i64_wrap\<close> or \<open>i64_sat\<close> where the code wraps or saturates; counters are words. The
  exponent search of the rounding is bounded by the size of its argument and shown to find the
  exponent. No other definition uses fuel: the loops of the threads are functions of the list of
  their inputs, one element per pass, and the few loops inside a pass recurse on a list.

  \<^bold>\<open>What is an input.\<close> Clock reads, minted tokens, the success of file operations, the
  integrator's callables, what a ring yields, and what another thread's shared state says at a read
  are arguments of the step that reads them; theorems quantify over them. The order in which threads
  interleave is the order of the steps. Digests are a parameter.

  \<^bold>\<open>Not modelled.\<close> Network and file I/O (gRPC, LiveKit, MCAP and JSON writing), video
  encoding, the bindings for C and Python, the thread wiring of the session object, the uplink of camera
  frames, and the conformance harness, which is a test program. Locks and condition variables appear only as the
  atomicity of one step. The text of log messages is left out, that of errors sent to the plane is kept.
\<close>

end
